(* ===== verification/Prelude.thy ===== *)
theory Prelude
  imports Complex_Main "HOL-Library.AList" "HOL-Library.Char_ord"
    "HOL-Library.List_Lexorder" "HOL-Library.Multiset" "HOL-Library.Sublist"
begin

text \<open>
  The part of the Go language and its standard library that every component uses: strings
  as byte lists (package \<open>strings\<close>), maps as association lists, stable sorting
  (package \<open>sort\<close>).

  A Go string is a byte sequence, so a \<^typ>\<open>string\<close> (a list of 8-bit characters) is
  exactly that. A Go map is an association list with distinct keys; the position of an entry
  in the list is the place the runtime gives it when the code ranges over the map, which Go
  leaves open. A result that must not depend on the iteration order is therefore a result
  that depends on \<^term>\<open>map_of m\<close> only.
\<close>

named_theorems go_simps \<open>rewriting of the Go string and map operations\<close>

type_synonym ('k, 'v) gomap = "('k \<times> 'v) list"

section \<open>Character classes\<close>

abbreviation byte :: "char \<Rightarrow> nat" where
  "byte c \<equiv> of_char c"

definition is_digit :: "char \<Rightarrow> bool" where
  "is_digit c \<longleftrightarrow> 48 \<le> byte c \<and> byte c \<le> 57"

definition is_lower :: "char \<Rightarrow> bool" where
  "is_lower c \<longleftrightarrow> 97 \<le> byte c \<and> byte c \<le> 122"

definition is_upper :: "char \<Rightarrow> bool" where
  "is_upper c \<longleftrightarrow> 65 \<le> byte c \<and> byte c \<le> 90"

definition is_alpha :: "char \<Rightarrow> bool" where
  "is_alpha c \<longleftrightarrow> is_lower c \<or> is_upper c"

definition is_alnum :: "char \<Rightarrow> bool" where
  "is_alnum c \<longleftrightarrow> is_alpha c \<or> is_digit c"

abbreviation LF :: char where "LF \<equiv> CHR 0x0A"
abbreviation CR :: char where "CR \<equiv> CHR 0x0D"
abbreviation TAB :: char where "TAB \<equiv> CHR 0x09"

text \<open>The class \<open>\s\<close> of Go regular expressions: tab, newline, form feed, return, space.\<close>

definition re_space :: "char \<Rightarrow> bool" where
  "re_space c \<longleftrightarrow> c = TAB \<or> c = LF \<or> c = CHR 0x0C \<or> c = CR \<or> c = CHR '' ''"

lemmas char_class_defs =
  is_digit_def is_lower_def is_upper_def is_alpha_def is_alnum_def re_space_def

section \<open>Package strings\<close>

definition has_prefix :: "string \<Rightarrow> string \<Rightarrow> bool" where
  "has_prefix s p \<longleftrightarrow> take (length p) s = p"

definition has_suffix :: "string \<Rightarrow> string \<Rightarrow> bool" where
  "has_suffix s p \<longleftrightarrow> length p \<le> length s \<and> drop (length s - length p) s = p"

definition trim_prefix :: "string \<Rightarrow> string \<Rightarrow> string" where
  "trim_prefix s p = (if has_prefix s p then drop (length p) s else s)"

definition trim_suffix :: "string \<Rightarrow> string \<Rightarrow> string" where
  "trim_suffix s p = (if has_suffix s p then take (length s - length p) s else s)"

fun index_sub :: "string \<Rightarrow> string \<Rightarrow> nat option" where
  "index_sub [] sub = (if sub = [] then Some 0 else None)"
| "index_sub (c # s) sub =
     (if has_prefix (c # s) sub then Some 0 else map_option Suc (index_sub s sub))"

definition contains_sub :: "string \<Rightarrow> string \<Rightarrow> bool" where
  "contains_sub s sub \<longleftrightarrow> index_sub s sub \<noteq> None"

text \<open>\<open>strings.Cut\<close>: the parts before and after the first separator, and whether it occurs.\<close>

definition cut :: "string \<Rightarrow> string \<Rightarrow> string \<times> string \<times> bool" where
  "cut s sep = (case index_sub s sep of
     Some i \<Rightarrow> (take i s, drop (i + length sep) s, True)
   | None \<Rightarrow> (s, [], False))"

text \<open>\<open>strings.LastIndex\<close> for a one-byte separator.\<close>

fun last_index :: "string \<Rightarrow> char \<Rightarrow> nat option" where
  "last_index [] c = None"
| "last_index (x # s) c = (case last_index s c of
     Some i \<Rightarrow> Some (Suc i)
   | None \<Rightarrow> (if x = c then Some 0 else None))"

definition replace_char :: "string \<Rightarrow> char \<Rightarrow> string \<Rightarrow> string" where
  "replace_char s a r = concat (map (\<lambda>c. if c = a then r else [c]) s)"

fun split_char :: "string \<Rightarrow> char \<Rightarrow> string list" where
  "split_char [] sep = [[]]"
| "split_char (c # s) sep = (if c = sep then [] # split_char s sep
     else (case split_char s sep of [] \<Rightarrow> [[c]] | p # ps \<Rightarrow> (c # p) # ps))"

fun join :: "string list \<Rightarrow> string \<Rightarrow> string" where
  "join [] sep = []"
| "join [x] sep = x"
| "join (x # y # ys) sep = x @ sep @ join (y # ys) sep"

text \<open>\<open>strings.ToLower\<close> on ASCII text, which is what the names and schemes it is applied to hold.\<close>

definition lower_char :: "char \<Rightarrow> char" where
  "lower_char c = (if is_upper c then char_of (byte c + 32) else c)"

definition to_lower :: "string \<Rightarrow> string" where
  "to_lower s = map lower_char s"

definition equal_fold :: "string \<Rightarrow> string \<Rightarrow> bool" where
  "equal_fold a b \<longleftrightarrow> to_lower a = to_lower b"

definition trim_right_char :: "string \<Rightarrow> char \<Rightarrow> string" where
  "trim_right_char s c = rev (dropWhile (\<lambda>x. x = c) (rev s))"

definition trim_left_char :: "string \<Rightarrow> char \<Rightarrow> string" where
  "trim_left_char s c = dropWhile (\<lambda>x. x = c) s"

definition trim_char :: "string \<Rightarrow> char \<Rightarrow> string" where
  "trim_char s c = trim_right_char (trim_left_char s c) c"

text \<open>
  \<open>strings.TrimSpace\<close> removes every leading and trailing Unicode white space. On bytes this
  is the ASCII white space and the UTF-8 encodings of U+0085, U+00A0, U+1680, U+2000 to
  U+200A, U+2028, U+2029, U+202F, U+205F and U+3000. \<open>space_len\<close> is the number of bytes of
  the white-space rune that starts the string, 0 if it does not start with one, and
  \<open>rspace_len\<close> the same for the end of the string, read backwards.
\<close>

definition ascii_space :: "char \<Rightarrow> bool" where
  "ascii_space c \<longleftrightarrow> re_space c \<or> c = CHR 0x0B"

definition space2 :: "char \<Rightarrow> char \<Rightarrow> bool" where
  "space2 a b \<longleftrightarrow> byte a = 0xC2 \<and> (byte b = 0x85 \<or> byte b = 0xA0)"

definition space3 :: "char \<Rightarrow> char \<Rightarrow> char \<Rightarrow> bool" where
  "space3 a b c \<longleftrightarrow>
     (byte a = 0xE1 \<and> byte b = 0x9A \<and> byte c = 0x80) \<or>
     (byte a = 0xE2 \<and> byte b = 0x80 \<and>
        (0x80 \<le> byte c \<and> byte c \<le> 0x8A \<or> byte c = 0xA8 \<or> byte c = 0xA9 \<or> byte c = 0xAF)) \<or>
     (byte a = 0xE2 \<and> byte b = 0x81 \<and> byte c = 0x9F) \<or>
     (byte a = 0xE3 \<and> byte b = 0x80 \<and> byte c = 0x80)"

fun space_len :: "string \<Rightarrow> nat" where
  "space_len [] = 0"
| "space_len (a # s) = (if ascii_space a then 1
     else (case s of
       b # c # _ \<Rightarrow> (if space2 a b then 2 else if space3 a b c then 3 else 0)
     | [b] \<Rightarrow> (if space2 a b then 2 else 0)
     | [] \<Rightarrow> 0))"

fun rspace_len :: "string \<Rightarrow> nat" where
  "rspace_len [] = 0"
| "rspace_len (a # s) = (if ascii_space a then 1
     else (case s of
       b # c # _ \<Rightarrow> (if space2 b a then 2 else if space3 c b a then 3 else 0)
     | [b] \<Rightarrow> (if space2 b a then 2 else 0)
     | [] \<Rightarrow> 0))"

function trim_by :: "(string \<Rightarrow> nat) \<Rightarrow> string \<Rightarrow> string" where
  "trim_by f s = (if s = [] \<or> f s = 0 then s else trim_by f (drop (f s) s))"
  by pat_completeness auto
termination
  by (relation "measure (\<lambda>(f, s). length s)") auto

declare trim_by.simps [simp del]

definition trim_space :: "string \<Rightarrow> string" where
  "trim_space s = rev (trim_by rspace_len (rev (trim_by space_len s)))"

lemma length_trim_by: "length (trim_by f s) \<le> length s"
proof (induction f s rule: trim_by.induct)
  case (1 f s)
  then show ?case
    by (subst trim_by.simps) fastforce
qed

lemma length_trim_space: "length (trim_space s) \<le> length s"
  using length_trim_by[of space_len s] length_trim_by[of rspace_len "rev (trim_by space_len s)"]
  by (simp add: trim_space_def)

lemma trim_by_id: "f s = 0 \<Longrightarrow> trim_by f s = s"
  by (subst trim_by.simps) simp

lemma trim_space_id: "space_len s = 0 \<Longrightarrow> rspace_len (rev s) = 0 \<Longrightarrow> trim_space s = s"
  by (simp add: trim_space_def trim_by_id)

text \<open>The printable ASCII characters: none of them starts or ends a white-space rune.\<close>

definition is_graph :: "char \<Rightarrow> bool" where
  "is_graph c \<longleftrightarrow> 33 \<le> byte c \<and> byte c \<le> 126"

lemma is_graph_no_space:
  assumes "is_graph c"
  shows "\<not> re_space c" "\<not> ascii_space c" "\<not> space2 c d" "\<not> space3 c d e" "\<not> space2 d c" "\<not> space3 d e c" "c \<noteq> LF"
  using assms by (auto simp: is_graph_def ascii_space_def space2_def space3_def re_space_def)

lemma space_len_graph: "is_graph c \<Longrightarrow> space_len (c # s) = 0"
  using is_graph_no_space by (auto split: list.splits)

lemma rspace_len_graph: "is_graph c \<Longrightarrow> rspace_len (c # s) = 0"
  using is_graph_no_space by (auto split: list.splits)

lemma trim_space_graph:
  assumes "s \<noteq> []" and "is_graph (hd s)" and "is_graph (last s)"
  shows "trim_space s = s"
proof (rule trim_space_id)
  show "space_len s = 0" using assms by (cases s) (auto intro: space_len_graph simp del: space_len.simps)
  show "rspace_len (rev s) = 0"
    using assms by (cases "rev s") (auto simp: hd_rev[symmetric] intro: rspace_len_graph simp del: rspace_len.simps)
qed

lemma trim_space_Nil [simp]: "trim_space [] = []"
  by (simp add: trim_space_def trim_by.simps)

lemma index_sub_Some: "index_sub s sub = Some i \<Longrightarrow> i + length sub \<le> length s \<and> take (length sub) (drop i s) = sub"
proof (induction s sub arbitrary: i rule: index_sub.induct)
  case (1 sub)
  then show ?case by (auto split: if_splits)
next
  case (2 c s sub)
  then show ?case
    by (auto simp: has_prefix_def split: if_splits)
      (metis length_Cons length_take min.cobounded1)+
qed

lemma has_prefix_append [go_simps]: "has_prefix (p @ s) p"
  by (simp add: has_prefix_def)

lemma has_prefix_iff: "has_prefix s p \<longleftrightarrow> (\<exists>r. s = p @ r)"
  by (metis append_eq_conv_conj append_take_drop_id has_prefix_def)

lemma has_suffix_iff: "has_suffix s p \<longleftrightarrow> (\<exists>r. s = r @ p)"
  by (auto simp: has_suffix_def) (metis append_take_drop_id)

section \<open>Package sort\<close>

text \<open>
  \<open>sort.SliceStable\<close> with a less function. Up to 20 elements Go runs one insertion sort that
  moves each element left past the elements it is less than; for longer slices it merges
  blocks sorted this way. For a strict weak order both give the one stable arrangement, and
  the model is the insertion sort. \<open>insert_rev\<close> inserts into the sorted prefix read from its
  right end.
\<close>

fun insert_rev :: "('a \<Rightarrow> 'a \<Rightarrow> bool) \<Rightarrow> 'a \<Rightarrow> 'a list \<Rightarrow> 'a list" where
  "insert_rev lt x [] = [x]"
| "insert_rev lt x (y # ys) = (if lt x y then y # insert_rev lt x ys else x # y # ys)"

definition slice_stable :: "('a \<Rightarrow> 'a \<Rightarrow> bool) \<Rightarrow> 'a list \<Rightarrow> 'a list" where
  "slice_stable lt xs = rev (foldl (\<lambda>acc x. insert_rev lt x acc) [] xs)"

lemma mset_insert_rev [simp]: "mset (insert_rev lt x ys) = add_mset x (mset ys)"
  by (induction ys) auto

lemma mset_insert_fold: "mset (foldl (\<lambda>acc x. insert_rev lt x acc) ys xs) = mset ys + mset xs"
  by (induction xs arbitrary: ys) auto

lemma mset_slice_stable [simp]: "mset (slice_stable lt xs) = mset xs"
  by (simp add: slice_stable_def mset_insert_fold)

lemma set_slice_stable [simp]: "set (slice_stable lt xs) = set xs"
  by (metis mset_slice_stable set_mset_mset)

lemma length_slice_stable [simp]: "length (slice_stable lt xs) = length xs"
  by (metis mset_slice_stable size_mset)

text \<open>
  The contract of a comparison that the sort relies on: a strict weak order on a carrier. It
  is interpreted on the version order in theory \<open>Constraint\<close> and on the result rows of a
  search in \<open>Remote\<close>.
\<close>

locale strict_weak_order =
  fixes lt :: "'a \<Rightarrow> 'a \<Rightarrow> bool" and A :: "'a set"
  assumes lt_asym: "\<lbrakk>x \<in> A; y \<in> A; lt x y\<rbrakk> \<Longrightarrow> \<not> lt y x"
    and lt_negtrans: "\<lbrakk>x \<in> A; y \<in> A; z \<in> A; lt x z\<rbrakk> \<Longrightarrow> lt x y \<or> lt y z"
begin

lemma lt_irrefl: "x \<in> A \<Longrightarrow> \<not> lt x x"
  using lt_asym by blast

lemma lt_trans: "\<lbrakk>x \<in> A; y \<in> A; z \<in> A; lt x y; lt y z\<rbrakk> \<Longrightarrow> lt x z"
  using lt_asym lt_negtrans by blast

lemma vimage: "strict_weak_order (\<lambda>a b. lt (f a) (f b)) {x. f x \<in> A}"
  by unfold_locales (use lt_asym lt_negtrans in auto)

lemma insert_rev_set: "set (insert_rev lt x ys) = insert x (set ys)"
  by (metis mset_insert_rev set_mset_add_mset_insert set_mset_mset)

lemma insert_rev_sorted:
  assumes "x \<in> A" and "set ys \<subseteq> A" and "sorted_wrt (\<lambda>a b. \<not> lt a b) ys"
  shows "sorted_wrt (\<lambda>a b. \<not> lt a b) (insert_rev lt x ys)"
  using assms
proof (induction ys)
  case Nil
  then show ?case by simp
next
  case (Cons y ys)
  show ?case
  proof (cases "lt x y")
    case True
    then have "\<not> lt y x" using Cons.prems lt_asym by auto
    then show ?thesis using Cons True by (auto simp: insert_rev_set)
  next
    case False
    have "\<not> lt x z" if "z \<in> set ys" for z
      using that False Cons.prems lt_negtrans[of x y z] by auto
    then show ?thesis using Cons False by auto
  qed
qed

lemma fold_sorted:
  assumes "set xs \<subseteq> A" and "set ys \<subseteq> A" and "sorted_wrt (\<lambda>a b. \<not> lt a b) ys"
  shows "sorted_wrt (\<lambda>a b. \<not> lt a b) (foldl (\<lambda>acc x. insert_rev lt x acc) ys xs)"
  using assms
proof (induction xs arbitrary: ys)
  case Nil
  then show ?case by simp
next
  case (Cons x xs)
  have "set (insert_rev lt x ys) \<subseteq> A" using Cons.prems by (simp add: insert_rev_set)
  then show ?case using Cons insert_rev_sorted[of x ys] by simp
qed

lemma slice_stable_sorted:
  assumes "set xs \<subseteq> A"
  shows "sorted_wrt (\<lambda>a b. \<not> lt b a) (slice_stable lt xs)"
  using fold_sorted[of xs "[]"] assms by (simp add: slice_stable_def sorted_wrt_rev)

lemma slice_stable_hd_least:
  assumes "set xs \<subseteq> A" and "y \<in> set xs"
  shows "\<not> lt y (hd (slice_stable lt xs))"
proof (cases "slice_stable lt xs")
  case Nil
  then show ?thesis using assms(2) set_slice_stable[of lt xs] by simp
next
  case (Cons z zs)
  then have "y = z \<or> y \<in> set zs" using assms(2) set_slice_stable[of lt xs] by auto
  moreover have "z \<in> A" using Cons assms(1) set_slice_stable[of lt xs] by auto
  ultimately show ?thesis
    using Cons slice_stable_sorted[OF assms(1)] lt_irrefl by auto
qed

text \<open>
  The head of the stable arrangement is what a single scan keeping the first best element
  finds.
\<close>

lemma insert_rev_last:
  assumes "x \<in> A" and "set ys \<subseteq> A" and "ys \<noteq> []" and "sorted_wrt (\<lambda>a b. \<not> lt a b) ys"
  shows "last (insert_rev lt x ys) = (if lt x (last ys) then x else last ys)"
  using assms
proof (induction ys)
  case Nil
  then show ?case by simp
next
  case (Cons y ys)
  show ?case
  proof (cases "ys = []")
    case True
    then show ?thesis using Cons by simp
  next
    case False
    have "last ys \<in> A" "\<not> lt y (last ys)" using False Cons.prems by auto
    moreover have "\<not> lt x (last ys)" if "\<not> lt x y"
      using that calculation Cons.prems lt_negtrans[of x y "last ys"] by auto
    moreover have "insert_rev lt x ys \<noteq> []" by (cases ys) auto
    ultimately show ?thesis using Cons False by auto
  qed
qed

lemma fold_last:
  assumes "set xs \<subseteq> A" and "set ys \<subseteq> A" and "ys \<noteq> []" and "sorted_wrt (\<lambda>a b. \<not> lt a b) ys"
  shows "last (foldl (\<lambda>acc x. insert_rev lt x acc) ys xs)
    = foldl (\<lambda>b x. if lt x b then x else b) (last ys) xs"
  using assms
proof (induction xs arbitrary: ys)
  case Nil
  then show ?case by simp
next
  case (Cons x xs)
  have "set (insert_rev lt x ys) \<subseteq> A" using Cons.prems by (simp add: insert_rev_set)
  moreover have "insert_rev lt x ys \<noteq> []" by (cases ys) auto
  ultimately show ?case
    using Cons insert_rev_sorted[of x ys] by (simp add: insert_rev_last)
qed

lemma slice_stable_hd_scan:
  assumes "set (x # xs) \<subseteq> A"
  shows "hd (slice_stable lt (x # xs)) = foldl (\<lambda>b y. if lt y b then y else b) x xs"
  using assms fold_last[of xs "[x]"] by (simp add: slice_stable_def hd_rev)

end

section \<open>Maps\<close>

text \<open>The keys of a map in the order \<open>sort.Strings\<close> gives them.\<close>

definition sorted_keys :: "('k::linorder, 'v) gomap \<Rightarrow> 'k list" where
  "sorted_keys m = sort (map fst m)"

lemma set_sorted_keys [simp]: "set (sorted_keys m) = fst ` set m"
  by (simp add: sorted_keys_def)

lemma sorted_sorted_keys [simp]: "sorted (sorted_keys m)"
  by (simp add: sorted_keys_def)

lemma distinct_sorted_keys [simp]: "distinct (sorted_keys m) = distinct (map fst m)"
  by (simp add: sorted_keys_def)

lemma dom_map_of_iff: "map_of m k = None \<longleftrightarrow> k \<notin> fst ` set m"
  by (simp add: map_of_eq_None_iff)

text \<open>Two maps with the same bindings have the same sorted keys, whatever their iteration orders.\<close>

lemma sorted_keys_cong:
  assumes "distinct (map fst m)" and "distinct (map fst m')" and "map_of m = map_of m'"
  shows "sorted_keys m = sorted_keys m'"
proof (rule sorted_distinct_set_unique)
  show "set (sorted_keys m) = set (sorted_keys m')"
    using assms(3) dom_map_of_conv_image_fst[of m] dom_map_of_conv_image_fst[of m'] by simp
qed (use assms in auto)

definition mget :: "('k, 'v) gomap \<Rightarrow> 'k \<Rightarrow> 'v \<Rightarrow> 'v" where
  "mget m k d = (case map_of m k of Some v \<Rightarrow> v | None \<Rightarrow> d)"

abbreviation mput :: "'k \<Rightarrow> 'v \<Rightarrow> ('k, 'v) gomap \<Rightarrow> ('k, 'v) gomap" where
  "mput \<equiv> AList.update"

abbreviation mdel :: "'k \<Rightarrow> ('k, 'v) gomap \<Rightarrow> ('k, 'v) gomap" where
  "mdel \<equiv> AList.delete"

lemma map_of_mput [go_simps]: "map_of (mput k v m) = (map_of m)(k \<mapsto> v)"
  by (rule update_conv')

lemma map_of_mdel [go_simps]: "map_of (mdel k m) = (map_of m)(k := None)"
  by (rule delete_conv')

lemma distinct_mput: "distinct (map fst m) \<Longrightarrow> distinct (map fst (mput k v m))"
  by (rule distinct_update)

lemma distinct_mdel: "distinct (map fst m) \<Longrightarrow> distinct (map fst (mdel k m))"
  by (rule distinct_delete)

text \<open>\<open>maps.Copy\<close>: every binding of the source overwrites the one of the destination.\<close>

definition maps_copy :: "('k, 'v) gomap \<Rightarrow> ('k, 'v) gomap \<Rightarrow> ('k, 'v) gomap" where
  "maps_copy dst src = foldl (\<lambda>m (k, v). mput k v m) dst src"

lemma maps_copy_simps [simp]:
  "maps_copy dst [] = dst"
  "maps_copy dst ((k, v) # src) = maps_copy (mput k v dst) src"
  by (simp_all add: maps_copy_def)

lemma map_of_maps_copy:
  "distinct (map fst src) \<Longrightarrow> map_of (maps_copy dst src) = map_of dst ++ map_of src"
proof (induction src arbitrary: dst)
  case Nil
  then show ?case by simp
next
  case (Cons kv src)
  obtain k v where kv: "kv = (k, v)" by (cases kv)
  have "map_of src k = None" using Cons.prems kv by (auto simp: map_of_eq_None_iff)
  then show ?case
    using Cons kv by (auto simp: go_simps fun_eq_iff map_add_def split: option.splits)
qed

lemma distinct_maps_copy: "distinct (map fst dst) \<Longrightarrow> distinct (map fst (maps_copy dst src))"
  by (induction src arbitrary: dst) (auto simp: distinct_mput)

end
