(* ===== verification/Float64.thy ===== *)
theory Float64
  imports Prelude "HOL-Library.Log_Nat"
begin

text \<open>
  Go's \<open>float64\<close>. A finite double is represented by the rational number it stands for; every
  arithmetic operation rounds the exact result to the nearest double, ties to even, as IEEE 754
  and the Go specification require. The zero has no sign here: nothing in the program can tell
  the two zeros apart. \<open>f64\<close> adds the two infinities and the not-a-number value for the places
  where the code tests for them.
\<close>

type_synonym float64 = rat

datatype f64 = Fin float64 | PosInf | NegInf | NaN

definition round_half_even :: "rat \<Rightarrow> int" where
  "round_half_even x =
     (let f = \<lfloor>x\<rfloor>; d = x - of_int f
      in if d < 1/2 then f else if d > 1/2 then f + 1 else if even f then f else f + 1)"

text \<open>\<open>floor_log2 x\<close> is the exponent of the leading binary digit of a positive rational.\<close>

definition floor_log2 :: "rat \<Rightarrow> int" where
  "floor_log2 x =
     (let (p, q) = quotient_of x; a = bitlen p - bitlen q
      in if 2 powi a \<le> x then a else a - 1)"

text \<open>Rounding to 53 significant bits, with the fixed exponent of the subnormal range below it.\<close>

definition rnd64 :: "rat \<Rightarrow> rat" where
  "rnd64 x = (if x = 0 then 0
     else let e = max (floor_log2 \<bar>x\<bar> - 52) (- 1074)
          in of_int (round_half_even (x * 2 powi (- e))) * 2 powi e)"

definition max_float64 :: rat where
  "max_float64 = (2 - 2 powi (- 52)) * 2 powi 1023"

definition f64_of_rat :: "rat \<Rightarrow> f64" where
  "f64_of_rat x =
     (let r = rnd64 x
      in if r > max_float64 then PosInf else if r < - max_float64 then NegInf else Fin r)"

definition f64_add :: "float64 \<Rightarrow> float64 \<Rightarrow> float64" where
  "f64_add a b = rnd64 (a + b)"

definition f64_div :: "float64 \<Rightarrow> float64 \<Rightarrow> float64" where
  "f64_div a b = rnd64 (a / b)"

definition f64_of_int :: "int \<Rightarrow> float64" where
  "f64_of_int n = rnd64 (of_int n)"

lemma round_half_even_of_int [simp]: "round_half_even (of_int n) = n"
  by (simp add: round_half_even_def)

lemma floorlog2_bounds:
  assumes "0 < n"
  shows "(2::rat) powi (int (floorlog 2 n) - 1) \<le> of_nat n"
    and "of_nat n < (2::rat) powi int (floorlog 2 n)"
proof -
  have b: "2 ^ (floorlog 2 n - 1) \<le> n \<and> n < 2 ^ floorlog 2 n"
    using assms floorlog_bounds[of n 2] by simp
  have pos: "0 < floorlog 2 n" using assms by (simp add: floorlog_def)
  have "(2::rat) powi (int (floorlog 2 n) - 1) = 2 ^ (floorlog 2 n - 1)"
    using pos by (simp add: power_int_def nat_diff_distrib')
  also have "\<dots> = of_nat (2 ^ (floorlog 2 n - 1))" by simp
  also have "\<dots> \<le> of_nat n" using b of_nat_le_iff by blast
  finally show "(2::rat) powi (int (floorlog 2 n) - 1) \<le> of_nat n" .
  have "of_nat n < (of_nat (2 ^ floorlog 2 n) :: rat)" using b of_nat_less_iff by blast
  then show "of_nat n < (2::rat) powi int (floorlog 2 n)" by simp
qed

text \<open>The leading binary digit of an integer below \<open>2 ^ k\<close> is below position \<open>k\<close>.\<close>

lemma floor_log2_le:
  assumes "0 < x"
  shows "2 powi floor_log2 x \<le> x"
proof -
  obtain p q where pq: "quotient_of x = (p, q)" by (cases "quotient_of x")
  have q: "0 < q" using pq quotient_of_denom_pos by blast
  have x: "x = of_int p / of_int q" using pq quotient_of_div by blast
  have p: "0 < p" using x q assms by (simp add: zero_less_divide_iff)
  define a where "a = bitlen p - bitlen q"
  have "rat_of_nat (nat p) = of_int p" and "rat_of_nat (nat q) = of_int q"
    using p q by simp_all
  then have lp: "2 powi (int (floorlog 2 (nat p)) - 1) \<le> (of_int p :: rat)"
    and uq: "(of_int q :: rat) < 2 powi int (floorlog 2 (nat q))"
    using floorlog2_bounds(1)[of "nat p"] floorlog2_bounds(2)[of "nat q"] p q by simp_all
  have "2 powi (a - 1) * of_int q \<le> 2 powi (a - 1) * (2::rat) powi int (floorlog 2 (nat q))"
    using uq by (intro mult_left_mono) auto
  also have "\<dots> = 2 powi (int (floorlog 2 (nat p)) - 1)"
    by (subst power_int_add[symmetric]) (auto simp: a_def bitlen_def algebra_simps)
  also have "\<dots> \<le> of_int p" by (rule lp)
  finally have "2 powi (a - 1) \<le> x" using q by (simp add: x pos_le_divide_eq)
  then show ?thesis using pq by (auto simp: floor_log2_def a_def Let_def)
qed

lemma floor_log2_less:
  assumes "0 < x" and "x < 2 powi k"
  shows "floor_log2 x < k"
proof (rule ccontr)
  assume "\<not> floor_log2 x < k"
  then have "(2::rat) powi k \<le> 2 powi floor_log2 x" by (intro power_int_increasing) auto
  also have "\<dots> \<le> x" using floor_log2_le assms(1) by blast
  finally show False using assms(2) by simp
qed

text \<open>Integers of at most 53 bits are doubles.\<close>

lemma rnd64_int_exact:
  assumes "\<bar>n\<bar> < 2 ^ 53"
  shows "rnd64 (of_int n) = of_int n"
proof (cases "n = 0")
  case True
  then show ?thesis by (simp add: rnd64_def)
next
  case False
  define e where "e = max (floor_log2 \<bar>of_int n :: rat\<bar> - 52) (- 1074)"
  have "(of_int \<bar>n\<bar> :: rat) < of_int (2 ^ 53)" using assms by (simp only: of_int_less_iff)
  then have "\<bar>of_int n :: rat\<bar> < 2 powi 53" by simp
  then have e: "e \<le> 0" using False floor_log2_less[of "\<bar>of_int n\<bar>" 53] by (simp add: e_def)
  have "(of_int n :: rat) * 2 powi (- e) = of_int (n * 2 ^ nat (- e))"
    using e by (simp add: power_int_def)
  then have "round_half_even (of_int n * 2 powi (- e)) = n * 2 ^ nat (- e)"
    by (simp only: round_half_even_of_int)
  then have "rnd64 (of_int n) = of_int (n * 2 ^ nat (- e)) * 2 powi e"
    using False by (simp add: rnd64_def e_def[symmetric] Let_def)
  also have "\<dots> = of_int n * (2 powi (- e) * 2 powi e)"
    using e by (simp add: power_int_def)
  also have "\<dots> = of_int n" by (simp flip: power_int_add)
  finally show ?thesis .
qed

corollary f64_of_int_exact: "\<bar>n\<bar> < 2 ^ 53 \<Longrightarrow> f64_of_int n = of_int n"
  by (simp add: f64_of_int_def rnd64_int_exact)

lemma rnd64_zero [simp]: "rnd64 0 = 0"
  by (simp add: rnd64_def)

lemma rnd64_nonneg: "0 \<le> x \<Longrightarrow> 0 \<le> rnd64 x"
  by (auto simp: rnd64_def Let_def round_half_even_def)

end
