(* ===== verification/Strconv.thy ===== *)
theory Strconv
  imports Float64
begin

text \<open>
  The conversions of Go's package \<open>strconv\<close> that the program calls: decimal printing and
  reading of 64-bit integers (\<open>Itoa\<close>, \<open>FormatInt\<close>, \<open>Atoi\<close>, \<open>ParseInt\<close>) and of doubles
  (\<open>ParseFloat\<close>, \<open>FormatFloat\<close> with format \<open>g\<close> and 14 digits).
\<close>

section \<open>Integers\<close>

definition digit_val :: "char \<Rightarrow> int" where
  "digit_val c = int (byte c) - 48"

definition int_of_dec :: "string \<Rightarrow> int" where
  "int_of_dec s = foldl (\<lambda>n c. 10 * n + digit_val c) 0 s"

definition digit_char :: "int \<Rightarrow> char" where
  "digit_char d = char_of (48 + nat d)"

function dec_digits :: "int \<Rightarrow> string" where
  "dec_digits n = (if n < 10 then [digit_char n] else dec_digits (n div 10) @ [digit_char (n mod 10)])"
  by pat_completeness auto
termination
  by (relation "measure nat") auto

declare dec_digits.simps [simp del]

definition format_int :: "int \<Rightarrow> string" where
  "format_int i = (if i < 0 then CHR ''-'' # dec_digits (- i) else dec_digits i)"

text \<open>\<open>Atoi\<close> on a string of digits: an error beyond the range of a 64-bit \<open>int\<close>.\<close>

definition atoi :: "string \<Rightarrow> int option" where
  "atoi s = (let n = int_of_dec s in if n < 2 ^ 63 then Some n else None)"

text \<open>\<open>ParseInt\<close> with base 10 and 64 bits, on an optional minus sign and digits.\<close>

definition parse_int64 :: "string \<Rightarrow> int option" where
  "parse_int64 s =
     (let neg = (s \<noteq> [] \<and> hd s = CHR ''-''); digits = (if neg then tl s else s); n = int_of_dec digits
      in if digits = [] \<or> \<not> list_all is_digit digits then None
         else if neg then (if n \<le> 2 ^ 63 then Some (- n) else None)
         else (if n < 2 ^ 63 then Some n else None))"

lemma of_char_digit_char: "0 \<le> d \<Longrightarrow> d < 10 \<Longrightarrow> byte (digit_char d) = 48 + nat d"
  by (simp add: digit_char_def nat_less_iff)

lemma is_digit_digit_char [simp]: "0 \<le> d \<Longrightarrow> d < 10 \<Longrightarrow> is_digit (digit_char d)"
  by (simp add: is_digit_def of_char_digit_char)

lemma digit_val_digit_char [simp]: "0 \<le> d \<Longrightarrow> d < 10 \<Longrightarrow> digit_val (digit_char d) = d"
  by (simp add: digit_val_def of_char_digit_char)

lemma int_of_dec_Nil [simp]: "int_of_dec [] = 0"
  by (simp add: int_of_dec_def)

lemma int_of_dec_snoc [simp]: "int_of_dec (s @ [c]) = 10 * int_of_dec s + digit_val c"
  by (simp add: int_of_dec_def)

lemma int_of_dec_dec_digits [simp]: "0 \<le> n \<Longrightarrow> int_of_dec (dec_digits n) = n"
proof (induction n rule: dec_digits.induct)
  case (1 n)
  show ?case
  proof (cases "n < 10")
    case True
    with "1.prems" show ?thesis by (subst dec_digits.simps) (simp add: int_of_dec_def)
  next
    case False
    with "1" show ?thesis by (subst dec_digits.simps) simp
  qed
qed

lemma dec_digits_digits [simp]: "0 \<le> n \<Longrightarrow> list_all is_digit (dec_digits n)"
proof (induction n rule: dec_digits.induct)
  case (1 n)
  then show ?case by (subst dec_digits.simps) simp
qed

lemma dec_digits_set: "0 \<le> n \<Longrightarrow> c \<in> set (dec_digits n) \<Longrightarrow> is_digit c"
  using dec_digits_digits[of n] by (auto simp: list_all_iff)

lemma dec_digits_nonempty [simp]: "dec_digits n \<noteq> []"
  by (subst dec_digits.simps) simp

lemma dec_digits_inj: "0 \<le> m \<Longrightarrow> 0 \<le> n \<Longrightarrow> dec_digits m = dec_digits n \<Longrightarrow> m = n"
  by (metis int_of_dec_dec_digits)

lemma atoi_dec_digits: "0 \<le> n \<Longrightarrow> n < 2 ^ 63 \<Longrightarrow> atoi (dec_digits n) = Some n"
  by (simp add: atoi_def Let_def)

lemma is_digit_not_minus: "is_digit c \<Longrightarrow> c \<noteq> CHR ''-''"
  by (auto simp: is_digit_def)

lemma hd_dec_digits: "0 \<le> n \<Longrightarrow> is_digit (hd (dec_digits n))"
  using dec_digits_set hd_in_set[OF dec_digits_nonempty] by blast

lemma parse_int64_format_int:
  assumes "- (2 ^ 63) \<le> i" and "i < 2 ^ 63"
  shows "parse_int64 (format_int i) = Some i"
proof (cases "i < 0")
  case True
  then show ?thesis using assms by (simp add: parse_int64_def format_int_def Let_def)
next
  case False
  then have "hd (dec_digits i) \<noteq> CHR ''-''" using hd_dec_digits[of i] is_digit_not_minus by simp
  then show ?thesis using False assms by (simp add: parse_int64_def format_int_def Let_def)
qed

section \<open>Doubles\<close>

text \<open>
  \<open>ParseFloat\<close> on a decimal literal: an optional minus sign, digits with an optional point, an
  optional exponent. \<open>None\<close> is a syntax error or a value out of range.
\<close>

definition parse_exponent :: "string \<Rightarrow> int option" where
  "parse_exponent s = (case s of
     [] \<Rightarrow> Some 0
   | e # t \<Rightarrow>
      (if e \<noteq> CHR ''e'' \<and> e \<noteq> CHR ''E'' then None
       else let neg = (t \<noteq> [] \<and> hd t = CHR ''-''); plus = (t \<noteq> [] \<and> hd t = CHR ''+'');
                ds = (if neg \<or> plus then tl t else t)
            in if ds = [] \<or> \<not> list_all is_digit ds then None
               else Some (if neg then - int_of_dec ds else int_of_dec ds)))"

definition parse_float :: "string \<Rightarrow> float64 option" where
  "parse_float lit =
     (let neg = (lit \<noteq> [] \<and> hd lit = CHR ''-''); s = (if neg then tl lit else lit);
          ip = takeWhile is_digit s; r = dropWhile is_digit s;
          fp = (if r \<noteq> [] \<and> hd r = CHR ''.'' then takeWhile is_digit (tl r) else []);
          r' = (if r \<noteq> [] \<and> hd r = CHR ''.'' then dropWhile is_digit (tl r) else r)
      in if ip @ fp = [] then None
         else case parse_exponent r' of
           None \<Rightarrow> None
         | Some e \<Rightarrow>
            (let m = of_int (int_of_dec (ip @ fp)) * 10 powi (e - int (length fp)) :: rat
             in case f64_of_rat (if neg then - m else m) of Fin x \<Rightarrow> Some x | _ \<Rightarrow> None))"

text \<open>
  \<open>FormatFloat(f, 'g', 14, 64)\<close> for a finite value: the value rounded to 14 significant decimal
  digits, trailing zeros dropped, in exponent form when the decimal exponent is below -4 or
  not below the number of digits the \<open>g\<close> format compares it with.
\<close>

definition floor_log10 :: "rat \<Rightarrow> int" where
  "floor_log10 x =
     (let (p, q) = quotient_of x;
          a = int (length (dec_digits p)) - int (length (dec_digits q))
      in if 10 powi a \<le> x then a else a - 1)"

definition trim_zeros :: "string \<Rightarrow> string" where
  "trim_zeros s = rev (dropWhile (\<lambda>c. c = CHR ''0'') (rev s))"

definition digits14 :: "rat \<Rightarrow> string \<times> int" where
  "digits14 x =
     (let k = floor_log10 x; m = round_half_even (x * 10 powi (13 - k))
      in if m = 10 ^ 14 then (''1'', k + 1) else (trim_zeros (dec_digits m), k))"

definition format_exp :: "string \<Rightarrow> int \<Rightarrow> string" where
  "format_exp ds k =
     [hd ds] @ (if tl ds = [] then [] else CHR ''.'' # tl ds) @
     (if k < 0 then ''e-'' else ''e+'') @
     (let n = dec_digits \<bar>k\<bar> in if length n < 2 then CHR ''0'' # n else n)"

definition format_fixed :: "string \<Rightarrow> int \<Rightarrow> string" where
  "format_fixed ds k =
     (let dp = k + 1; nd = int (length ds)
      in if dp \<le> 0 then ''0.'' @ replicate (nat (- dp)) (CHR ''0'') @ ds
         else if nd \<le> dp then ds @ replicate (nat (dp - nd)) (CHR ''0'')
         else take (nat dp) ds @ CHR ''.'' # drop (nat dp) ds)"

definition format_g14 :: "float64 \<Rightarrow> string" where
  "format_g14 f =
     (if f = 0 then ''0''
      else let (ds, k) = digits14 \<bar>f\<bar>; nd = int (length ds);
               eprec = (if 14 > nd \<and> nd \<ge> k + 1 then nd else 14);
               body = (if k < -4 \<or> k \<ge> eprec then format_exp ds k else format_fixed ds k)
           in (if f < 0 then CHR ''-'' # body else body))"

text \<open>
  \<open>FormatFloat(f, 'g', -1, 64)\<close>: the fewest digits that read back as the value, of the two
  neighbours with that many digits the one that reads back and is closest, in exponent form when
  the decimal exponent is below -4 or at least 6.
\<close>

definition scaled :: "int \<Rightarrow> int \<Rightarrow> rat" where
  "scaled m e = of_int m * 10 powi e"

definition digits_of_length :: "rat \<Rightarrow> nat \<Rightarrow> (int \<times> int) option" where
  "digits_of_length x n =
     (let e = floor_log10 x - int n + 1; lo = \<lfloor>x / 10 powi e\<rfloor>; hi = lo + 1;
          ok = (\<lambda>m. rnd64 (scaled m e) = x)
      in if ok lo \<and> (\<not> ok hi \<or> x - scaled lo e \<le> scaled hi e - x) then Some (lo, e)
         else if ok hi then Some (hi, e) else None)"

definition shortest_digits :: "rat \<Rightarrow> (int \<times> int) option" where
  "shortest_digits x = List.find (\<lambda>_. True) (List.map_filter (digits_of_length x) [1..<18])"

definition format_g_shortest :: "float64 \<Rightarrow> string" where
  "format_g_shortest f =
     (if f = 0 then ''0''
      else case shortest_digits \<bar>f\<bar> of
        None \<Rightarrow> []
      | Some (m, e) \<Rightarrow>
          (let n = dec_digits m; k = int (length n) - 1 + e; ds = trim_zeros n;
               body = (if k < -4 \<or> k \<ge> 6 then format_exp ds k else format_fixed ds k)
           in (if f < 0 then CHR ''-'' # body else body)))"

end
