(* ===== verification/LuaWriter.thy ===== *)
theory LuaWriter
  imports Strconv Prelude "HOL-Library.Sublist"
begin

text \<open>
  The values a manifest file holds and their serialisation: \<open>src/manif/writer.go\<close>. The Go type
  \<open>any\<close> is the datatype \<open>lval\<close> of the dynamic types the code distinguishes. The writer goes to
  an \<open>io.Writer\<close>, here a sink of an arbitrary type with a write operation that may fail, through
  \<open>bufWriter\<close>, which keeps the first error and drops every later write.
\<close>

section \<open>Values\<close>

text \<open>Keys of a \<open>map[any]any\<close>, with the dynamic types \<open>normalizeTable\<close> tells apart.\<close>

datatype any_key = AStr string | AInt int | AInt64 int | AOther string

text \<open>
  \<open>LInt\<close> stands for every Go integer type (the writer prints all of them in decimal), \<open>LFloat\<close>
  for both float types, \<open>LTab\<close> for the internal \<open>*table\<close> (its string entries and its numeric
  entries, each listed in the order of \<open>strKeys\<close> and \<open>numKeys\<close>), \<open>LOther\<close> for any other
  dynamic type, by name.
\<close>

datatype lval =
    LStr string
  | LBool bool
  | LNil
  | LInt int
  | LFloat f64
  | LArr "lval list"
  | LMap "(string \<times> lval) list"
  | LAnyMap "(any_key \<times> lval) list"
  | LTab "(string \<times> lval) list" "(int \<times> lval) list"
  | LOther string

type_synonym table = "(string \<times> lval) list \<times> (int \<times> lval) list"

datatype write_error =
    TopLevelValue write_error
  | UnsupportedKeyType string
  | NotTableShaped
  | InvalidTopLevelNumber int
  | InvalidTopLevelKey string
  | InValue write_error
  | Sink string

section \<open>Keys in the writer's order\<close>

text \<open>The keys of a canonical table, numbers before strings: upstream's \<open>default_sort\<close>.\<close>

datatype lkey = KNum int | KStr string

instantiation lkey :: linorder
begin

fun less_eq_lkey :: "lkey \<Rightarrow> lkey \<Rightarrow> bool" where
  "less_eq_lkey (KNum i) (KNum j) = (i \<le> j)"
| "less_eq_lkey (KNum i) (KStr t) = True"
| "less_eq_lkey (KStr s) (KNum j) = False"
| "less_eq_lkey (KStr s) (KStr t) = (s \<le> t)"

definition less_lkey :: "lkey \<Rightarrow> lkey \<Rightarrow> bool" where
  "less_lkey a b \<longleftrightarrow> a \<le> b \<and> \<not> b \<le> a"

instance
proof
  fix x y z :: lkey
  show "(x < y) = (x \<le> y \<and> \<not> y \<le> x)" by (simp add: less_lkey_def)
  show "x \<le> x" by (cases x) simp_all
  show "x \<le> y \<Longrightarrow> y \<le> z \<Longrightarrow> x \<le> z" by (cases x; cases y; cases z) auto
  show "x \<le> y \<Longrightarrow> y \<le> x \<Longrightarrow> x = y" by (cases x; cases y) auto
  show "x \<le> y \<or> y \<le> x" by (cases x; cases y) auto
qed

end

section \<open>Normalisation\<close>

text \<open>
  The entries of a Go map in the order of its sorted keys, and the canonical table of a value.
  Ranging over a \<open>map[any]any\<close> stops at the first key of another type.
\<close>

definition by_keys :: "('k::linorder \<times> lval) list \<Rightarrow> ('k \<times> lval) list" where
  "by_keys m = sort_key fst m"

fun put_any_keys :: "(any_key \<times> lval) list \<Rightarrow> table \<Rightarrow> write_error + table" where
  "put_any_keys [] t = Inr t"
| "put_any_keys ((k, v) # m) (strs, nums) = (case k of
     AStr s \<Rightarrow> put_any_keys m (mput s v strs, nums)
   | AInt i \<Rightarrow> put_any_keys m (strs, mput i v nums)
   | AInt64 i \<Rightarrow> put_any_keys m (strs, mput i v nums)
   | AOther ty \<Rightarrow> Inl (UnsupportedKeyType ty))"

definition normalizeTable :: "lval \<Rightarrow> write_error + table" where
  "normalizeTable v = (case v of
     LTab strs nums \<Rightarrow> Inr (strs, nums)
   | LMap m \<Rightarrow> Inr (by_keys m, [])
   | LAnyMap m \<Rightarrow> (case put_any_keys m ([], []) of
       Inl e \<Rightarrow> Inl e
     | Inr (strs, nums) \<Rightarrow> Inr (by_keys strs, by_keys nums))
   | LArr xs \<Rightarrow> Inr ([], zip [1..int (length xs)] xs)
   | _ \<Rightarrow> Inl NotTableShaped)"

definition tsize :: "table \<Rightarrow> nat" where
  "tsize t = size_list (size \<circ> snd) (fst t) + size_list (size \<circ> snd) (snd t)"

lemma size_list_mset: "mset xs = mset ys \<Longrightarrow> size_list f xs = size_list f ys"
  by (metis (no_types, lifting) mset_map size_list_conv_sum_list size_mset sum_mset_sum_list)

lemma size_by_keys [simp]: "size_list f (by_keys m) = size_list f m"
  by (rule size_list_mset) (simp add: by_keys_def)

lemma size_mput: "size_list (size \<circ> snd) (mput k v m) \<le> size_list (size \<circ> snd) m + Suc (size (v :: lval))"
  by (induction m) auto

lemma size_put_any_keys:
  "put_any_keys m t = Inr t' \<Longrightarrow> tsize t' \<le> tsize t + size_list (size \<circ> snd) m"
proof (induction m t arbitrary: t' rule: put_any_keys.induct)
  case (1 t)
  then show ?case by simp
next
  case (2 k v m strs nums)
  show ?case
  proof (cases k)
    case (AStr s)
    then show ?thesis
      using "2.IH"(1)[OF AStr, of t'] "2.prems" size_mput[of s v strs] by (simp add: tsize_def)
  next
    case (AInt i)
    then show ?thesis
      using "2.IH"(2)[OF AInt, of t'] "2.prems" size_mput[of i v nums] by (simp add: tsize_def)
  next
    case (AInt64 i)
    then show ?thesis
      using "2.IH"(3)[OF AInt64, of t'] "2.prems" size_mput[of i v nums] by (simp add: tsize_def)
  qed (use "2.prems" in simp)
qed

lemma size_list_snd: "size_list (size \<circ> snd) (m :: ('a \<times> lval) list) \<le> size_list (size_prod (\<lambda>x. 0) size) m"
  by (induction m) auto

lemma size_zip_snd: "length ks = length xs \<Longrightarrow> size_list (size \<circ> snd) (zip ks xs) = size_list size (xs :: lval list)"
  by (induction ks xs rule: list_induct2) auto

lemma normalizeTable_size: "normalizeTable v = Inr t \<Longrightarrow> tsize t < size v"
proof (cases v)
  case (LArr xs)
  assume "normalizeTable v = Inr t"
  then have "t = ([], zip [1..int (length xs)] xs)" using LArr by (simp add: normalizeTable_def)
  then show ?thesis using LArr by (simp add: tsize_def size_zip_snd)
next
  case (LAnyMap m)
  assume "normalizeTable v = Inr t"
  then obtain strs nums where "put_any_keys m ([], []) = Inr (strs, nums)" "t = (by_keys strs, by_keys nums)"
    using LAnyMap by (auto simp: normalizeTable_def split: sum.splits)
  then have "tsize t \<le> size_list (size \<circ> snd) m"
    using size_put_any_keys[of m "([], [])"] by (simp add: tsize_def)
  then show ?thesis using LAnyMap size_list_snd[of m] by simp
next
  case (LMap m)
  assume "normalizeTable v = Inr t"
  then show ?thesis using LMap size_list_snd[of m] by (auto simp: normalizeTable_def tsize_def)
next
  case (LTab strs nums)
  assume "normalizeTable v = Inr t"
  then show ?thesis
    using LTab size_list_snd[of strs] size_list_snd[of nums] by (auto simp: normalizeTable_def tsize_def)
qed (auto simp: normalizeTable_def)

section \<open>Scalars\<close>

definition luaKeywords :: "string list" where
  "luaKeywords = [''and'', ''break'', ''do'', ''else'', ''elseif'', ''end'', ''false'', ''for'',
     ''function'', ''goto'', ''if'', ''in'', ''local'', ''nil'', ''not'', ''or'', ''repeat'',
     ''return'', ''then'', ''true'', ''until'', ''while'']"

definition isIdentStart :: "char \<Rightarrow> bool" where
  "isIdentStart c \<longleftrightarrow> is_alpha c \<or> c = CHR ''_''"

definition isIdentPart :: "char \<Rightarrow> bool" where
  "isIdentPart c \<longleftrightarrow> isIdentStart c \<or> is_digit c"

definition isValidPlainKey :: "string \<Rightarrow> bool" where
  "isValidPlainKey s \<longleftrightarrow> s \<noteq> [] \<and> isIdentStart (hd s) \<and> list_all isIdentPart (tl s) \<and>
     s \<notin> set luaKeywords"

definition formatNumber :: "f64 \<Rightarrow> string" where
  "formatNumber f = (case f of
     NaN \<Rightarrow> ''nan''
   | PosInf \<Rightarrow> ''inf''
   | NegInf \<Rightarrow> ''-inf''
   | Fin q \<Rightarrow> (if q = of_int \<lfloor>q\<rfloor> \<and> \<bar>q\<bar> < 10 ^ 16 then format_int \<lfloor>q\<rfloor> else format_g14 q))"

text \<open>\<open>\DDD\<close>, three digits when a digit follows.\<close>

definition q_decimal :: "char \<Rightarrow> string \<Rightarrow> string" where
  "q_decimal c rest =
     (let n = dec_digits (int (byte c))
      in CHR 0x5C # (if rest \<noteq> [] \<and> is_digit (hd rest) then replicate (3 - length n) (CHR ''0'') @ n else n))"

fun luaQ_body :: "string \<Rightarrow> string" where
  "luaQ_body [] = []"
| "luaQ_body (c # s) =
     (if c = CHR 0x22 \<or> c = CHR 0x5C then CHR 0x5C # c # luaQ_body s
      else if c = LF then CHR 0x5C # LF # luaQ_body s
      else if byte c < 0x20 \<or> byte c = 0x7F then q_decimal c s @ luaQ_body s
      else c # luaQ_body s)"

definition luaQ :: "string \<Rightarrow> string" where
  "luaQ s = CHR 0x22 # luaQ_body s @ [CHR 0x22]"

definition close_bracket :: "nat \<Rightarrow> string" where
  "close_bracket n = CHR '']'' # replicate n (CHR ''='') @ [CHR '']'']"

definition open_bracket :: "nat \<Rightarrow> string" where
  "open_bracket n = CHR ''['' # replicate n (CHR ''='') @ [CHR ''['']"

text \<open>The loop that looks for a level whose closing bracket does not occur in the probe.\<close>

function bracket_level :: "string \<Rightarrow> nat \<Rightarrow> nat" where
  "bracket_level probe equals =
     (if \<not> contains_sub probe (close_bracket equals) then equals else bracket_level probe (equals + 1))"
  by pat_completeness auto
termination
proof (relation "measure (\<lambda>(probe, n). length probe - n)")
  fix probe equals
  assume "\<not> \<not> contains_sub probe (close_bracket equals)"
  then obtain i where "index_sub probe (close_bracket equals) = Some i" by (auto simp: contains_sub_def)
  then have "i + length (close_bracket equals) \<le> length probe" using index_sub_Some by blast
  then show "((probe, equals + 1), (probe, equals)) \<in> measure (\<lambda>(probe, n). length probe - n)"
    by (simp add: close_bracket_def)
qed simp

declare bracket_level.simps [simp del]

section \<open>The writer\<close>

record 'w bufWriter =
  sink :: 'w
  put :: "'w \<Rightarrow> string \<Rightarrow> string option \<times> 'w"
  err :: "write_error option"

definition buf_write :: "'w bufWriter \<Rightarrow> string \<Rightarrow> 'w bufWriter" where
  "buf_write b s = (if err b \<noteq> None then b
     else let (e, w) = put b (sink b) s in b\<lparr>sink := w, err := map_option Sink e\<rparr>)"

definition writeLongBracket :: "'w bufWriter \<Rightarrow> string \<Rightarrow> 'w bufWriter" where
  "writeLongBracket out s =
     (let n = bracket_level (s @ '']'') 0
      in buf_write (buf_write (buf_write (buf_write out (open_bracket n)) [LF]) s) (close_bracket n))"

definition writeString :: "'w bufWriter \<Rightarrow> string \<Rightarrow> 'w bufWriter" where
  "writeString out s = (if CR \<in> set s \<or> LF \<in> set s then writeLongBracket out s else buf_write out (luaQ s))"

definition writeTableKeyAssignment :: "'w bufWriter \<Rightarrow> string \<Rightarrow> 'w bufWriter" where
  "writeTableKeyAssignment out k =
     buf_write (if isValidPlainKey k then buf_write out k
                else buf_write (writeString (buf_write out ''['') k) '']'') '' = ''"

definition write_indent :: "'w bufWriter \<Rightarrow> nat \<Rightarrow> 'w bufWriter" where
  "write_indent out level = ((\<lambda>b. buf_write b ''   '') ^^ level) out"

text \<open>The two type tests that decide the separator after a value.\<close>

definition is_number :: "lval \<Rightarrow> bool" where
  "is_number v \<longleftrightarrow> (case v of LInt _ \<Rightarrow> True | LFloat _ \<Rightarrow> True | _ \<Rightarrow> False)"

text \<open>
  \<open>emit\<close> of \<open>writeTable\<close>, in two halves around the call of \<open>writeValue\<close>. A key of the table is
  passed for a string entry only, since numeric entries print no key.
\<close>

definition emit_before ::
  "nat \<Rightarrow> string option \<Rightarrow> 'w bufWriter \<times> string \<times> bool \<Rightarrow> 'w bufWriter" where
  "emit_before level k = (\<lambda>(out, sep, indent).
     let out = buf_write out sep;
         out = (if indent then write_indent out level else out)
     in case k of None \<Rightarrow> out | Some s \<Rightarrow> writeTableKeyAssignment out s)"

definition emit_after :: "lval \<Rightarrow> 'w bufWriter \<Rightarrow> 'w bufWriter \<times> string \<times> bool" where
  "emit_after v out = (if is_number v then (out, '', '', False) else (out, CHR '','' # [LF], True))"

definition finish_table :: "nat \<Rightarrow> 'w bufWriter \<times> string \<times> bool \<Rightarrow> 'w bufWriter" where
  "finish_table level = (\<lambda>(out, sep, indent).
     buf_write (if sep \<noteq> [LF] then write_indent (buf_write out [LF]) (level - 1) else out) ''}'')"

function writeValue :: "'w bufWriter \<Rightarrow> lval \<Rightarrow> nat \<Rightarrow> 'w bufWriter" where
  "writeValue out v level = (case v of
     LStr s \<Rightarrow> writeString out s
   | LBool b \<Rightarrow> buf_write out (if b then ''true'' else ''false'')
   | LNil \<Rightarrow> buf_write out ''nil''
   | LFloat f \<Rightarrow> buf_write out (formatNumber f)
   | LInt i \<Rightarrow> buf_write out (format_int i)
   | _ \<Rightarrow> (case normalizeTable v of
       Inl e \<Rightarrow> (if err out = None then out\<lparr>err := Some (InValue e)\<rparr> else out)
     | Inr (strs, nums) \<Rightarrow>
         (let level = level + 1;
              st = (buf_write out ''{'', [LF], True);
              st = foldl (\<lambda>st (k, x). emit_after x (writeValue (emit_before level None st) x level)) st nums;
              st = foldl (\<lambda>st (k, x). emit_after x (writeValue (emit_before level (Some k) st) x level)) st strs
          in finish_table level st)))"
  by pat_completeness auto

lemma size_list_mem: "(k, x) \<in> set zs \<Longrightarrow> size x < size_list (size \<circ> snd) (zs :: ('a \<times> lval) list)"
  unfolding comp_def by (induction zs) auto

lemma normalizeTable_mem:
  assumes "normalizeTable v = Inr (strs, nums)"
  shows "(k, x) \<in> set strs \<Longrightarrow> size x < size v" and "(i, y) \<in> set nums \<Longrightarrow> size y < size v"
  using normalizeTable_size[OF assms] size_list_mem[of k x strs] size_list_mem[of i y nums]
  by (auto simp: tsize_def)

termination writeValue
proof (relation "measure (\<lambda>(out, v, level). size v)", goal_cases)
  case 1
  show ?case by simp
qed (auto dest: normalizeTable_mem simp del: lval.size)

declare writeValue.simps [simp del]

definition writeTableAsAssignments :: "'w bufWriter \<Rightarrow> table \<Rightarrow> write_error option \<times> 'w bufWriter" where
  "writeTableAsAssignments out t = (case snd t of
     (n, _) # _ \<Rightarrow> (Some (InvalidTopLevelNumber n), out)
   | [] \<Rightarrow> foldl (\<lambda>(e, out) (k, v).
       if e \<noteq> None then (e, out)
       else if \<not> isValidPlainKey k then (Some (InvalidTopLevelKey k), out)
       else (None, buf_write (writeValue (buf_write (buf_write out k) '' = '') v 0) [LF])) (None, out) (fst t))"

definition Write :: "'w \<Rightarrow> ('w \<Rightarrow> string \<Rightarrow> string option \<times> 'w) \<Rightarrow> lval \<Rightarrow> write_error option \<times> 'w" where
  "Write w p v = (case normalizeTable v of
     Inl e \<Rightarrow> (Some (TopLevelValue e), w)
   | Inr t \<Rightarrow>
       (case writeTableAsAssignments \<lparr>sink = w, put = p, err = None\<rparr> t of
          (Some e, bw) \<Rightarrow> (Some e, sink bw)
        | (None, bw) \<Rightarrow> (err bw, sink bw)))"

end
