(* ===== verification/LuaParser.thy ===== *)
theory LuaParser
  imports LuaWriter
begin

text \<open>
  Reading a manifest: \<open>src/manif/parser.go\<close>. The parser's state, a position in a byte slice, is
  the suffix that is still to be read. Every function returns an error with the suffix at which
  it was raised, or a result with the suffix behind it; \<open>Parse\<close> turns the suffix of an error
  into the line and column. The recursion over nested tables carries fuel, and \<open>Parse\<close> starts
  with an amount that the length of the input bounds (\<open>Parse_total\<close>).
\<close>

datatype parse_error =
    ExpectedTopLevelIdent char
  | ExpectedEquals string
  | UnexpectedEnd
  | UnexpectedBracket
  | NilLiteral
  | UnsupportedIdent string
  | UnexpectedByte char
  | NewlineInString
  | DanglingBackslash
  | HexDigitsExpected
  | DecimalOutOfRange int
  | UnknownEscape char
  | UnterminatedString
  | UnterminatedLongBracket
  | MalformedNumber string
  | ExpectedKeyClose
  | ExpectedKeyEquals
  | ExpectedSeparator
  | PanicKeyType
  | ParseOutOfFuel

type_synonym 'a parsed = "parse_error \<times> string + 'a \<times> string"

section \<open>Blanks and identifiers\<close>

definition is_ws :: "char \<Rightarrow> bool" where
  "is_ws c \<longleftrightarrow> c = CHR '' '' \<or> c = TAB \<or> c = LF \<or> c = CR"

definition long_comment :: "string \<Rightarrow> bool" where
  "long_comment s \<longleftrightarrow> 4 \<le> length s \<and> s ! 2 = CHR ''['' \<and> (s ! 3 = CHR ''['' \<or> s ! 3 = CHR ''='')"

function skipWS :: "string \<Rightarrow> string" where
  "skipWS s = (case s of
     [] \<Rightarrow> []
   | c # t \<Rightarrow>
      (if is_ws c then skipWS t
       else if c = CHR ''-'' \<and> t \<noteq> [] \<and> hd t = CHR ''-'' then
         (if long_comment s then s else skipWS (dropWhile (\<lambda>x. x \<noteq> LF) (tl t)))
       else s))"
  by pat_completeness auto
termination
  by (relation "measure length")
    (auto intro!: le_imp_less_Suc order_trans[OF length_dropWhile_le])

declare skipWS.simps [simp del]

lemmas skipWS_Cons = skipWS.simps[of "c # t" for c t, unfolded list.case]

definition peek :: "string \<Rightarrow> char" where
  "peek s = (if s = [] then CHR 0x00 else hd s)"

definition consume :: "char \<Rightarrow> string \<Rightarrow> string option" where
  "consume c s = (if s \<noteq> [] \<and> hd s = c then Some (tl s) else None)"

definition parseIdent :: "string \<Rightarrow> string \<times> string" where
  "parseIdent s = (takeWhile isIdentPart s, dropWhile isIdentPart s)"

definition parseTopLevelKey :: "string \<Rightarrow> string parsed" where
  "parseTopLevelKey s =
     (if \<not> isIdentStart (peek s) then Inl (ExpectedTopLevelIdent (peek s), s) else Inr (parseIdent s))"

definition identKeyLookahead :: "string \<Rightarrow> bool" where
  "identKeyLookahead s =
     (let r = dropWhile is_ws (dropWhile isIdentPart s)
      in r \<noteq> [] \<and> hd r = CHR ''='' \<and> \<not> (tl r \<noteq> [] \<and> hd (tl r) = CHR ''=''))"

section \<open>Strings\<close>

definition hexDigit :: "char \<Rightarrow> int option" where
  "hexDigit c =
     (if is_digit c then Some (digit_val c)
      else if 97 \<le> byte c \<and> byte c \<le> 102 then Some (int (byte c) - 97 + 10)
      else if 65 \<le> byte c \<and> byte c \<le> 70 then Some (int (byte c) - 65 + 10)
      else None)"

definition simple_escape :: "char \<Rightarrow> char option" where
  "simple_escape e =
     (if e = CHR ''a'' then Some (CHR 0x07) else if e = CHR ''b'' then Some (CHR 0x08)
      else if e = CHR ''f'' then Some (CHR 0x0C) else if e = CHR ''n'' then Some LF
      else if e = CHR ''r'' then Some CR else if e = CHR ''t'' then Some TAB
      else if e = CHR ''v'' then Some (CHR 0x0B)
      else if e = CHR 0x5C \<or> e = CHR 0x22 \<or> e = CHR 0x27 then Some e
      else if e = LF then Some LF else None)"

definition decimal_digits :: "string \<Rightarrow> string" where
  "decimal_digits s = takeWhile is_digit (take 3 s)"

function parseShortString :: "char \<Rightarrow> string \<Rightarrow> string \<Rightarrow> string parsed" where
  "parseShortString quote b s = (case s of
     [] \<Rightarrow> Inl (UnterminatedString, s)
   | c # t \<Rightarrow>
      (if c = quote then Inr (b, t)
       else if c = LF then Inl (NewlineInString, s)
       else if c \<noteq> CHR 0x5C then parseShortString quote (b @ [c]) t
       else (case t of
          [] \<Rightarrow> Inl (DanglingBackslash, t)
        | esc # u \<Rightarrow>
           (case simple_escape esc of
              Some x \<Rightarrow> parseShortString quote (b @ [x]) u
            | None \<Rightarrow>
               (if esc = CHR ''x'' then
                  (if length u < 2 then Inl (HexDigitsExpected, t)
                   else case (hexDigit (u ! 0), hexDigit (u ! 1)) of
                     (Some h1, Some h2) \<Rightarrow> parseShortString quote (b @ [char_of (nat (h1 * 16 + h2))]) (drop 2 u)
                   | _ \<Rightarrow> Inl (HexDigitsExpected, t))
                else if is_digit esc then
                  (let ds = decimal_digits t; n = int_of_dec ds; r = drop (length ds) t
                   in if n > 255 then Inl (DecimalOutOfRange n, r)
                      else parseShortString quote (b @ [char_of (nat n)]) r)
                else Inl (UnknownEscape esc, t))))))"
  by pat_completeness auto
termination
  by (relation "measure (\<lambda>(quote, b, s). length s)") auto

declare parseShortString.simps [simp del]

lemmas parseShortString_Cons = parseShortString.simps[of _ _ "c # t" for c t, unfolded list.case]

fun replace_eol :: "string \<Rightarrow> string" where
  "replace_eol [] = []"
| "replace_eol (c # s) =
     (if c = CR \<and> s \<noteq> [] \<and> hd s = LF then LF # replace_eol (tl s)
      else if c = LF \<and> s \<noteq> [] \<and> hd s = CR then LF # replace_eol (tl s)
      else if c = CR then LF # replace_eol s
      else c # replace_eol s)"

definition normalizeLongBracketEOL :: "string \<Rightarrow> string" where
  "normalizeLongBracketEOL s = (if CR \<notin> set s then s else replace_eol s)"

text \<open>The one newline, of any form, that is dropped behind the opening bracket.\<close>

definition drop_first_eol :: "string \<Rightarrow> string" where
  "drop_first_eol s =
     (if 2 \<le> length s \<and> (s ! 0 = CR \<and> s ! 1 = LF \<or> s ! 0 = LF \<and> s ! 1 = CR) then drop 2 s
      else if s \<noteq> [] \<and> (hd s = LF \<or> hd s = CR) then tl s else s)"

definition tryParseLongBracket :: "string \<Rightarrow> parse_error \<times> string + (string \<times> string) option" where
  "tryParseLongBracket s =
     (if peek s \<noteq> CHR ''['' then Inr None
      else let equals = length (takeWhile (\<lambda>c. c = CHR ''='') (tl s));
               r = dropWhile (\<lambda>c. c = CHR ''='') (tl s)
           in if r = [] \<or> hd r \<noteq> CHR ''['' then Inr None
              else let body = drop_first_eol (tl r); close = close_bracket equals
                   in (case index_sub body close of
                         None \<Rightarrow> Inl (UnterminatedLongBracket, body)
                       | Some e \<Rightarrow> Inr (Some (normalizeLongBracketEOL (take e body),
                                        drop (e + length close) body))))"

section \<open>Numbers\<close>

text \<open>The extent of a number: whether it has a point or an exponent, and what follows it.\<close>

definition scan_number :: "string \<Rightarrow> bool \<times> string" where
  "scan_number s =
     (let s1 = (if peek s = CHR ''-'' then tl s else s);
          s2 = dropWhile is_digit s1;
          point = (peek s2 = CHR ''.'');
          s3 = (if point then dropWhile is_digit (tl s2) else s2);
          expo = (peek s3 = CHR ''e'' \<or> peek s3 = CHR ''E'');
          t = (if expo then tl s3 else s3)
      in (point \<or> expo,
          if expo then dropWhile is_digit (if peek t = CHR ''+'' \<or> peek t = CHR ''-'' then tl t else t) else s3))"

definition parseNumber :: "string \<Rightarrow> lval parsed" where
  "parseNumber s =
     (let (isFloat, rest) = scan_number s; lit = take (length s - length rest) s
      in if lit = [] \<or> lit = ''-'' then Inl (MalformedNumber lit, rest)
         else case (if isFloat then None else parse_int64 lit) of
           Some n \<Rightarrow> Inr (LInt n, rest)
         | None \<Rightarrow> (case parse_float lit of
             None \<Rightarrow> Inl (MalformedNumber lit, rest)
           | Some f \<Rightarrow> Inr (LFloat (Fin f), rest)))"

section \<open>Tables\<close>

text \<open>One pass over the keys: any number, any string, dense so far, the last index.\<close>

definition scan_key :: "bool \<times> bool \<times> bool \<times> int \<Rightarrow> lval \<Rightarrow> bool \<times> bool \<times> bool \<times> int" where
  "scan_key = (\<lambda>(hasNum, hasStr, dense, maxIdx) key. case key of
     LInt k \<Rightarrow> (True, hasStr, dense \<and> k = maxIdx + 1, maxIdx + 1)
   | LStr _ \<Rightarrow> (hasNum, True, False, maxIdx)
   | _ \<Rightarrow> (hasNum, hasStr, False, maxIdx))"

fun mixed_table :: "(lval \<times> lval) list \<Rightarrow> table \<Rightarrow> table option" where
  "mixed_table [] t = Some t"
| "mixed_table ((k, v) # es) (strs, nums) = (case k of
     LStr s \<Rightarrow> mixed_table es (mput s v strs, nums)
   | LInt i \<Rightarrow> mixed_table es (strs, mput i v nums)
   | _ \<Rightarrow> None)"

fun string_map :: "(lval \<times> lval) list \<Rightarrow> (string \<times> lval) list \<Rightarrow> (string \<times> lval) list option" where
  "string_map [] m = Some m"
| "string_map ((k, v) # es) m = (case k of
     LStr s \<Rightarrow> string_map es (mput s v m)
   | LInt i \<Rightarrow> string_map es (mput (format_int i) v m)
   | LFloat (Fin q) \<Rightarrow> string_map es (mput (format_g_shortest q) v m)
   | _ \<Rightarrow> None)"

text \<open>\<open>None\<close> is the panic on a key of another type.\<close>

definition entriesToValue :: "(lval \<times> lval) list \<Rightarrow> lval option" where
  "entriesToValue entries =
     (let (hasNum, hasStr, dense, _) = foldl scan_key (False, False, True, 0) (map fst entries)
      in if hasNum \<and> \<not> hasStr \<and> dense then Some (LArr (map snd entries))
         else if hasNum \<and> hasStr then
           (case mixed_table entries ([], []) of
              None \<Rightarrow> None
            | Some (strs, nums) \<Rightarrow> Some (LTab (by_keys strs) (by_keys nums)))
         else map_option LMap (string_map entries []))"

section \<open>Values\<close>

text \<open>The cases of \<open>parseValue\<close> that do not recurse, on the first byte of the value.\<close>

definition parseScalar :: "char \<Rightarrow> string \<Rightarrow> lval parsed" where
  "parseScalar c t =
     (let s = c # t in
      if c = CHR 0x22 \<or> c = CHR 0x27 then
        (case parseShortString c [] t of Inl e \<Rightarrow> Inl e | Inr (x, r) \<Rightarrow> Inr (LStr x, r))
      else if c = CHR ''['' then
        (case tryParseLongBracket s of
           Inl e \<Rightarrow> Inl e
         | Inr (Some (x, r)) \<Rightarrow> Inr (LStr x, r)
         | Inr None \<Rightarrow> Inl (UnexpectedBracket, s))
      else if c = CHR ''-'' \<or> is_digit c then parseNumber s
      else if isIdentStart c then
        (let (ident, r) = parseIdent s in
         if ident = ''true'' then Inr (LBool True, r)
         else if ident = ''false'' then Inr (LBool False, r)
         else if ident = ''nil'' then Inl (NilLiteral, r)
         else Inl (UnsupportedIdent ident, s))
      else Inl (UnexpectedByte c, s))"

fun parseValue :: "nat \<Rightarrow> string \<Rightarrow> lval parsed"
  and parseEntry :: "nat \<Rightarrow> int \<Rightarrow> string \<Rightarrow> ((lval \<times> lval) \<times> int) parsed"
  and parseEntries :: "nat \<Rightarrow> (lval \<times> lval) list \<Rightarrow> int \<Rightarrow> string \<Rightarrow> lval parsed" where
  "parseValue 0 s0 = Inl (ParseOutOfFuel, s0)"
| "parseValue (Suc k) s0 =
     (case skipWS s0 of
        [] \<Rightarrow> Inl (UnexpectedEnd, [])
      | c # t \<Rightarrow> (if c = CHR ''{'' then parseEntries k [] 1 t else parseScalar c t))"
| "parseEntry 0 auto s = Inl (ParseOutOfFuel, s)"
| "parseEntry (Suc k) auto s =
     (if peek s = CHR ''['' then
        (case parseValue k (skipWS (tl s)) of
           Inl e \<Rightarrow> Inl e
         | Inr (key, r) \<Rightarrow>
            (case consume (CHR '']'') (skipWS r) of
               None \<Rightarrow> Inl (ExpectedKeyClose, skipWS r)
             | Some r1 \<Rightarrow>
                (case consume (CHR ''='') (skipWS r1) of
                   None \<Rightarrow> Inl (ExpectedKeyEquals, skipWS r1)
                 | Some r2 \<Rightarrow>
                    (case parseValue k (skipWS r2) of
                       Inl e \<Rightarrow> Inl e
                     | Inr (v, r3) \<Rightarrow> Inr (((key, v), auto), r3)))))
      else if isIdentStart (peek s) \<and> identKeyLookahead s then
        (let (name, r) = parseIdent s in
         case consume (CHR ''='') (skipWS r) of
           None \<Rightarrow> Inl (ExpectedEquals name, skipWS r)
         | Some r1 \<Rightarrow>
            (case parseValue k (skipWS r1) of
               Inl e \<Rightarrow> Inl e
             | Inr (v, r2) \<Rightarrow> Inr (((LStr name, v), auto), r2)))
      else
        (case parseValue k s of
           Inl e \<Rightarrow> Inl e
         | Inr (v, r) \<Rightarrow> Inr (((LInt auto, v), auto + 1), r)))"
| "parseEntries 0 entries auto s = Inl (ParseOutOfFuel, s)"
| "parseEntries (Suc k) entries auto s0 =
     (let s = skipWS s0 in
      case consume (CHR ''}'') s of
        Some r \<Rightarrow> (case entriesToValue entries of None \<Rightarrow> Inl (PanicKeyType, r) | Some v \<Rightarrow> Inr (v, r))
      | None \<Rightarrow>
         (case parseEntry k auto s of
            Inl e \<Rightarrow> Inl e
          | Inr ((ent, auto'), r0) \<Rightarrow>
             (let r = skipWS r0; entries' = entries @ [ent] in
              case (case consume (CHR '','') r of Some r1 \<Rightarrow> Some r1 | None \<Rightarrow> consume (CHR '';'') r) of
                Some r1 \<Rightarrow> parseEntries k entries' auto' r1
              | None \<Rightarrow>
                 (case consume (CHR ''}'') (skipWS r) of
                    Some r1 \<Rightarrow>
                      (case entriesToValue entries' of None \<Rightarrow> Inl (PanicKeyType, r1) | Some v \<Rightarrow> Inr (v, r1))
                  | None \<Rightarrow> Inl (ExpectedSeparator, skipWS r)))))"

text \<open>The loop over the assignments of the file.\<close>

fun parseAssignments :: "nat \<Rightarrow> (string \<times> lval) list \<Rightarrow> string \<Rightarrow> parse_error \<times> string + (string \<times> lval) list" where
  "parseAssignments k out s =
     (if s = [] then Inr out
      else case k of 0 \<Rightarrow> Inl (ParseOutOfFuel, s)
      | Suc k' \<Rightarrow>
         (case parseTopLevelKey s of
            Inl e \<Rightarrow> Inl e
          | Inr (key, r) \<Rightarrow>
             (case consume (CHR ''='') (skipWS r) of
                None \<Rightarrow> Inl (ExpectedEquals key, skipWS r)
              | Some r1 \<Rightarrow>
                 (case parseValue (3 * length r1 + 1) (skipWS r1) of
                    Inl e \<Rightarrow> Inl e
                  | Inr (v, r2) \<Rightarrow> parseAssignments k' (mput key v out) (skipWS r2)))))"

declare parseAssignments.simps [simp del]

definition lineCol :: "string \<Rightarrow> nat \<Rightarrow> nat \<times> nat" where
  "lineCol src pos = foldl (\<lambda>(line, col) c. if c = LF then (line + 1, 1) else (line, col + 1)) (1, 1) (take pos src)"

definition Parse :: "string \<Rightarrow> (nat \<times> nat) \<times> parse_error + lval" where
  "Parse src = (case parseAssignments (length src + 1) [] (skipWS src) of
     Inl (e, rest) \<Rightarrow> Inl (lineCol src (length src - length rest), e)
   | Inr out \<Rightarrow> Inr (LMap out))"

section \<open>Every result consumes input\<close>

lemma length_skipWS: "length (skipWS s) \<le> length s"
proof (induction s rule: skipWS.induct)
  case (1 s)
  show ?case
  proof (cases s)
    case Nil
    then show ?thesis by (simp add: skipWS.simps)
  next
    case (Cons c t)
    have "length (dropWhile (\<lambda>x. x \<noteq> LF) (tl t)) \<le> length t"
      by (rule order_trans[OF length_dropWhile_le]) simp
    then show ?thesis using 1 Cons by (subst skipWS.simps) (auto split: if_splits)
  qed
qed

lemma consume_Some: "consume c s = Some r \<Longrightarrow> s = c # r"
  by (cases s) (auto simp: consume_def split: if_splits)

lemma parseIdent_length: "parseIdent s = (i, r) \<Longrightarrow> length r \<le> length s"
  by (auto simp: parseIdent_def length_dropWhile_le)

lemma parseIdent_progress: "parseIdent s = (i, r) \<Longrightarrow> isIdentStart (peek s) \<Longrightarrow> length r < length s"
  by (cases s) (auto simp: parseIdent_def peek_def isIdentStart_def isIdentPart_def char_class_defs less_Suc_eq_le
      length_dropWhile_le)

lemma parseShortString_length: "parseShortString q b s = Inr (x, r) \<Longrightarrow> length r < length s"
proof (induction q b s rule: parseShortString.induct)
  case (1 quote b s)
  show ?case
  proof (cases s)
    case Nil
    then show ?thesis using "1.prems" by (simp add: parseShortString.simps)
  next
    case (Cons c t)
    note prems = "1.prems"[unfolded Cons parseShortString_Cons]
    have ih1: "parseShortString quote (b @ [c]) t = Inr (x, r) \<Longrightarrow> c \<noteq> quote \<Longrightarrow> c \<noteq> LF \<Longrightarrow> c \<noteq> CHR 0x5C \<Longrightarrow>
        length r < length t"
      using "1.IH"(1)[OF Cons] by simp
    consider "c = quote" | "c \<noteq> quote" "c = LF" | "c \<noteq> quote" "c \<noteq> LF" "c \<noteq> CHR 0x5C"
      | "c \<noteq> quote" "c \<noteq> LF" "c = CHR 0x5C" by blast
    then show ?thesis
    proof cases
      case 4
      note c = this
      obtain esc u where t: "t = esc # u" using prems c by (cases t) auto
      show ?thesis
      proof (cases "simple_escape esc")
        case (Some y)
        then show ?thesis using "1.IH"(4)[OF Cons c(1,2) _ t Some] prems c t Cons by simp
      next
        case None
        note n = this
        show ?thesis
        proof (cases "esc = CHR ''x''")
          case True
          then obtain h1 h2 where h: "hexDigit (u ! 0) = Some h1" "hexDigit (u ! 1) = Some h2" "\<not> length u < 2"
            "parseShortString quote (b @ [char_of (nat (h1 * 16 + h2))]) (drop 2 u) = Inr (x, r)"
            using prems c t n by (auto split: if_splits option.splits)
          then have "length r < length (drop 2 u)"
            using "1.IH"(2)[OF Cons c(1,2) _ t n True h(3) refl h(1,2)] c by simp
          then show ?thesis using Cons t by simp
        next
          case False
          let ?ds = "decimal_digits t"
          have p: "is_digit esc" "\<not> int_of_dec ?ds > 255"
            "parseShortString quote (b @ [char_of (nat (int_of_dec ?ds))]) (drop (length ?ds) t) = Inr (x, r)"
            using prems c t n False by (auto simp: Let_def split: if_splits)
          then have "length r < length (drop (length ?ds) t)"
            using "1.IH"(3)[OF Cons c(1,2) _ t n False p(1) refl refl refl p(2)] c by simp
          then show ?thesis using Cons by simp
        qed
      qed
    qed (use prems ih1 Cons in auto)
  qed
qed

lemma drop_first_eol_length: "length (drop_first_eol s) \<le> length s"
  by (auto simp: drop_first_eol_def)

lemma tryParseLongBracket_length: "tryParseLongBracket s = Inr (Some (x, r)) \<Longrightarrow> length r < length s"
proof -
  assume a: "tryParseLongBracket s = Inr (Some (x, r))"
  define body where "body = drop_first_eol (tl (dropWhile (\<lambda>c. c = CHR ''='') (tl s)))"
  have "s \<noteq> []" using a by (auto simp: tryParseLongBracket_def peek_def)
  moreover have "length r \<le> length body"
    using a by (auto simp: tryParseLongBracket_def Let_def body_def split: if_splits option.splits)
  moreover have "length body \<le> length (tl (dropWhile (\<lambda>c. c = CHR ''='') (tl s)))"
    unfolding body_def by (rule drop_first_eol_length)
  moreover have "length (dropWhile (\<lambda>c. c = CHR ''='') (tl s)) \<le> length (tl s)" by (rule length_dropWhile_le)
  ultimately show ?thesis by (cases s) auto
qed

text \<open>What \<open>parseNumber\<close> leaves is a suffix, a proper one unless it reports an empty literal.\<close>

lemma parseNumber_length:
  assumes "parseNumber s = Inr (v, r)"
  shows "length r < length s"
proof (rule ccontr)
  obtain isf rest where sc: "scan_number s = (isf, rest)" by (cases "scan_number s")
  then have "rest = r" using assms by (auto simp: parseNumber_def Let_def split: if_splits option.splits)
  moreover assume "\<not> length r < length s"
  ultimately show False using assms sc by (simp add: parseNumber_def)
qed

lemma skipWS_shorter: "skipWS s = c # t \<Longrightarrow> length t < length s"
  using length_skipWS[of s] by simp

lemma consume_skipWS_shorter: "consume c (skipWS s) = Some r \<Longrightarrow> length r < length s"
  using length_skipWS[of s] consume_Some[of c "skipWS s" r] by simp

lemma parseScalar_length:
  assumes "parseScalar c t = Inr (v, r)"
  shows "length r < length (c # t)"
proof -
  consider "c = CHR 0x22 \<or> c = CHR 0x27" | "c = CHR ''[''" | "c \<notin> {CHR 0x22, CHR 0x27, CHR ''[''}"
    "c = CHR ''-'' \<or> is_digit c"
    | "c \<notin> {CHR 0x22, CHR 0x27, CHR ''[''}" "\<not> (c = CHR ''-'' \<or> is_digit c)" by blast
  then show ?thesis
  proof cases
    case 1
    then obtain x where "parseShortString c [] t = Inr (x, r)"
      using assms by (auto simp: parseScalar_def split: sum.splits)
    then show ?thesis using parseShortString_length by fastforce
  next
    case 2
    then obtain x where "tryParseLongBracket (c # t) = Inr (Some (x, r))"
      using assms by (auto simp: parseScalar_def Let_def split: sum.splits option.splits)
    then show ?thesis using tryParseLongBracket_length by blast
  next
    case 3
    then have "parseNumber (c # t) = Inr (v, r)" using assms by (simp add: parseScalar_def)
    then show ?thesis by (rule parseNumber_length)
  next
    case 4
    obtain i u where i: "parseIdent (c # t) = (i, u)" by (cases "parseIdent (c # t)")
    then have "r = u" "isIdentStart c" using 4 assms by (auto simp: parseScalar_def Let_def split: if_splits)
    then show ?thesis using parseIdent_progress[OF i] by (simp add: peek_def)
  qed
qed

lemma parse_progress:
  "parseValue k s = Inr (v, r) \<Longrightarrow> length r < length s"
  "parseEntry k auto s = Inr (x, r) \<Longrightarrow> length r < length s"
  "parseEntries k es auto s = Inr (v, r) \<Longrightarrow> length r < length s"
proof (induction k s and k auto s and k es auto s arbitrary: v r and x r and v r
    rule: parseValue_parseEntry_parseEntries.induct)
  case (2 k s0)
  obtain c t where sk: "skipWS s0 = c # t" using "2.prems" by (cases "skipWS s0") auto
  then show ?case
    using "2.IH"[OF sk] "2.prems" skipWS_shorter[OF sk] parseScalar_length[of c t v r] length_skipWS[of s0]
    by (auto split: if_splits)
next
  case (4 k auto s)
  have tl: "length (skipWS (tl s)) < length s" if "peek s = CHR ''[''"
    using that length_skipWS[of "tl s"] by (cases s) (auto simp: peek_def)
  show ?case
  proof (cases "peek s = CHR ''[''")
    case True
    then obtain key r0 where a: "parseValue k (skipWS (tl s)) = Inr (key, r0)"
      using "4.prems" by (auto split: sum.splits)
    then obtain r1 where b: "consume (CHR '']'') (skipWS r0) = Some r1"
      using "4.prems" True by (auto split: option.splits)
    then obtain r2 where c: "consume (CHR ''='') (skipWS r1) = Some r2"
      using "4.prems" True a by (auto split: option.splits)
    then have d: "parseValue k (skipWS r2) = Inr (snd (fst x), r)"
      using "4.prems" True a b by (auto split: sum.splits)
    show ?thesis
      using "4.IH"(1)[OF True a] "4.IH"(2)[OF True a refl b c d] tl[OF True] length_skipWS[of r2]
        consume_skipWS_shorter[OF b] consume_skipWS_shorter[OF c] by simp
  next
    case False
    show ?thesis
    proof (cases "isIdentStart (peek s) \<and> identKeyLookahead s")
      case True
      obtain name r0 where a: "parseIdent s = (name, r0)" by (cases "parseIdent s")
      then obtain r1 where b: "consume (CHR ''='') (skipWS r0) = Some r1"
        using "4.prems" False True by (auto split: option.splits)
      then have d: "parseValue k (skipWS r1) = Inr (snd (fst x), r)"
        using "4.prems" False True a by (auto split: sum.splits)
      show ?thesis
        using "4.IH"(3)[OF False True a[symmetric] refl b d] parseIdent_length[OF a] length_skipWS[of r1]
          consume_skipWS_shorter[OF b] by simp
    next
      case F: False
      then have "parseValue k s = Inr (snd (fst x), r)"
        using "4.prems" False by (auto split: sum.splits)
      then show ?thesis using "4.IH"(4)[OF False F] by simp
    qed
  qed
next
  case (6 k es auto s0)
  show ?case
  proof (cases "consume (CHR ''}'') (skipWS s0)")
    case (Some r1)
    then show ?thesis using "6.prems" consume_skipWS_shorter[OF Some] by (auto split: option.splits)
  next
    case None
    then obtain ent auto' r0 where e: "parseEntry k auto (skipWS s0) = Inr ((ent, auto'), r0)"
      using "6.prems" by (auto split: sum.splits)
    have le: "length r0 < length s0" using "6.IH"(1)[OF refl None e] length_skipWS[of s0] by simp
    let ?r = "skipWS r0"
    let ?sep = "case consume (CHR '','') ?r of Some r1 \<Rightarrow> Some r1 | None \<Rightarrow> consume (CHR '';'') ?r"
    show ?thesis
    proof (cases ?sep)
      case (Some r1)
      then have "length r1 < length r0"
        using consume_skipWS_shorter by (auto split: option.splits)
      moreover have "parseEntries k (es @ [ent]) auto' r1 = Inr (v, r)"
        using "6.prems" None e Some by (simp add: Let_def)
      ultimately show ?thesis
        using "6.IH"(2)[OF refl None e refl refl refl refl Some] le by simp
    next
      case N: None
      then obtain r1 where "consume (CHR ''}'') (skipWS ?r) = Some r1" "r = r1"
        using "6.prems" None e by (auto simp: Let_def split: option.splits)
      then show ?thesis
        using consume_skipWS_shorter[of "CHR ''}''" ?r r1] length_skipWS[of r0] le
        by (metis less_le_trans less_trans)
    qed
  qed
qed simp_all

section \<open>Fuel\<close>

lemma skipWS_idem [simp]: "skipWS (skipWS s) = skipWS s"
proof (induction s rule: skipWS.induct)
  case (1 s)
  show ?case
  proof (cases s)
    case (Cons c t)
    consider "is_ws c" | "\<not> is_ws c" "c = CHR ''-''" "t \<noteq> []" "hd t = CHR ''-''" "\<not> long_comment s"
      | "\<not> is_ws c" "\<not> (c = CHR ''-'' \<and> t \<noteq> [] \<and> hd t = CHR ''-'') \<or> long_comment s" by blast
    then show ?thesis
    proof cases
      case 1
      then show ?thesis using "1.IH"(1)[OF Cons 1] Cons by (simp add: skipWS_Cons)
    next
      case 2
      then have "skipWS s = skipWS (dropWhile (\<lambda>x. x \<noteq> LF) (tl t))" using Cons by (simp add: skipWS_Cons)
      then show ?thesis using "1.IH"(2)[OF Cons 2(1)] 2 by simp
    next
      case 3
      then have "skipWS s = s" using Cons by (auto simp: skipWS_Cons)
      then show ?thesis by simp
    qed
  qed (simp add: skipWS.simps)
qed

lemma parseShortString_error: "parseShortString q b s \<noteq> Inl (ParseOutOfFuel, r)"
proof (induction q b s rule: parseShortString.induct)
  case (1 q b s)
  show ?case
    using "1.IH"
    by (subst parseShortString.simps) (auto simp: Let_def split: list.splits option.splits)
qed

lemma parseNumber_error: "parseNumber s \<noteq> Inl (ParseOutOfFuel, r)"
  by (auto simp: parseNumber_def Let_def split: option.splits prod.splits)

lemma tryParseLongBracket_error: "tryParseLongBracket s \<noteq> Inl (ParseOutOfFuel, r)"
  by (auto simp: tryParseLongBracket_def Let_def split: option.splits)

lemma parseScalar_cases:
  obtains (quoted) "c = CHR 0x22 \<or> c = CHR 0x27"
      "\<And>t. parseScalar c t = (case parseShortString c [] t of Inl e \<Rightarrow> Inl e | Inr (x, r) \<Rightarrow> Inr (LStr x, r))"
  | (bracket) "c = CHR ''[''"
      "\<And>t. parseScalar c t = (case tryParseLongBracket (c # t) of Inl e \<Rightarrow> Inl e
        | Inr (Some (x, r)) \<Rightarrow> Inr (LStr x, r) | Inr None \<Rightarrow> Inl (UnexpectedBracket, c # t))"
  | (number) "c = CHR ''-'' \<or> is_digit c" "\<And>t. parseScalar c t = parseNumber (c # t)"
  | (ident) "isIdentStart c"
      "\<And>t. parseScalar c t = (let (ident, r) = parseIdent (c # t) in
         if ident = ''true'' then Inr (LBool True, r)
         else if ident = ''false'' then Inr (LBool False, r)
         else if ident = ''nil'' then Inl (NilLiteral, r)
         else Inl (UnsupportedIdent ident, c # t))"
  | (other) "\<not> isIdentStart c" "\<And>t. parseScalar c t = Inl (UnexpectedByte c, c # t)"
proof -
  consider "c = CHR 0x22 \<or> c = CHR 0x27" | "c = CHR ''[''" | "c \<notin> {CHR 0x22, CHR 0x27, CHR ''[''}"
    "c = CHR ''-'' \<or> is_digit c"
    | "c \<notin> {CHR 0x22, CHR 0x27, CHR ''[''}" "\<not> (c = CHR ''-'' \<or> is_digit c)" "isIdentStart c"
    | "c \<notin> {CHR 0x22, CHR 0x27, CHR ''[''}" "\<not> (c = CHR ''-'' \<or> is_digit c)" "\<not> isIdentStart c" by blast
  then show thesis
  proof cases
    case 1
    then show ?thesis by (rule quoted) (use 1 in \<open>simp add: parseScalar_def\<close>)
  next
    case 2
    show ?thesis by (rule bracket[OF 2]) (unfold 2, simp add: parseScalar_def Let_def)
  next
    case 3
    show ?thesis by (rule number) (use 3 in \<open>simp_all add: parseScalar_def\<close>)
  next
    case 4
    show ?thesis by (rule ident) (use 4 in \<open>simp_all add: parseScalar_def Let_def\<close>)
  next
    case 5
    show ?thesis by (rule other) (use 5 in \<open>simp_all add: parseScalar_def Let_def\<close>)
  qed
qed

lemma parseScalar_error: "parseScalar c t \<noteq> Inl (ParseOutOfFuel, r)"
proof (cases c rule: parseScalar_cases)
  case quoted
  then show ?thesis using parseShortString_error[of c "[]" t r] by (auto split: sum.split prod.split)
next
  case bracket
  then show ?thesis
    using tryParseLongBracket_error[of "c # t" r] by (auto split: sum.split prod.split option.split)
next
  case number
  then show ?thesis using parseNumber_error[of "c # t" r] by simp
next
  case ident
  then show ?thesis by (simp split: prod.split)
qed simp

lemma parse_enough_fuel:
  "3 * length s + 1 \<le> k \<Longrightarrow> parseValue k s \<noteq> Inl (ParseOutOfFuel, r)"
  "3 * length s + 2 \<le> k \<Longrightarrow> parseEntry k auto s \<noteq> Inl (ParseOutOfFuel, r)"
  "3 * length s + 3 \<le> k \<Longrightarrow> parseEntries k es auto s \<noteq> Inl (ParseOutOfFuel, r)"
proof (induction k s and k auto s and k es auto s arbitrary: r and r and r
    rule: parseValue_parseEntry_parseEntries.induct)
  case (2 k s0)
  show ?case
  proof (cases "skipWS s0")
    case (Cons c t)
    then have "length t < length s0" by (rule skipWS_shorter)
    then show ?thesis using "2.IH"[OF Cons] "2.prems" Cons parseScalar_error by auto
  qed simp
next
  case (4 k auto s)
  show ?case
  proof (cases "peek s = CHR ''[''")
    case True
    have tl: "length (skipWS (tl s)) < length s"
      using True length_skipWS[of "tl s"] by (cases s) (auto simp: peek_def)
    have v1: "parseValue k (skipWS (tl s)) \<noteq> Inl (ParseOutOfFuel, r)" for r
      using "4.IH"(1)[OF True] "4.prems" tl by simp
    have v2: "parseValue k (skipWS r2) \<noteq> Inl (ParseOutOfFuel, r)"
      if "parseValue k (skipWS (tl s)) = Inr (key, r0)" "consume (CHR '']'') (skipWS r0) = Some r1"
        "consume (CHR ''='') (skipWS r1) = Some r2" for key r0 r1 r2 r
      using "4.IH"(2)[OF True that(1) refl that(2,3)] parse_progress(1)[OF that(1)]
        consume_skipWS_shorter[OF that(2)] consume_skipWS_shorter[OF that(3)] length_skipWS[of r2] tl "4.prems"
      by simp
    show ?thesis using True v1 v2 by (auto split: sum.splits option.splits)
  next
    case False
    show ?thesis
    proof (cases "isIdentStart (peek s) \<and> identKeyLookahead s")
      case True
      obtain name r0 where a: "parseIdent s = (name, r0)" by (cases "parseIdent s")
      have "parseValue k (skipWS r1) \<noteq> Inl (ParseOutOfFuel, r)"
        if "consume (CHR ''='') (skipWS r0) = Some r1" for r1 r
        using "4.IH"(3)[OF False True a[symmetric] refl that] parseIdent_length[OF a] length_skipWS[of r1]
          consume_skipWS_shorter[OF that] "4.prems" by simp
      then show ?thesis using False True a by (auto split: sum.splits option.splits)
    next
      case F: False
      then show ?thesis using "4.IH"(4)[OF False F] "4.prems" False by (auto split: sum.splits)
    qed
  qed
next
  case (6 k es auto s0)
  show ?case
  proof (cases "consume (CHR ''}'') (skipWS s0)")
    case (Some r1)
    then show ?thesis by (auto simp: Let_def split: option.splits)
  next
    case None
    have e1: "parseEntry k auto (skipWS s0) \<noteq> Inl (ParseOutOfFuel, r)" for r
      using "6.IH"(1)[OF refl None] "6.prems" length_skipWS[of s0] by simp
    show ?thesis
    proof (cases "parseEntry k auto (skipWS s0)")
      case (Inl e)
      then show ?thesis using e1 None by (auto simp: Let_def)
    next
      case (Inr res)
      obtain ent auto' r0 where res: "res = ((ent, auto'), r0)" by (metis prod.collapse)
      note e = Inr[unfolded res]
      have le: "length r0 < length s0" using parse_progress(2)[OF e] length_skipWS[of s0] by simp
      let ?sep = "case consume (CHR '','') (skipWS r0) of Some r1 \<Rightarrow> Some r1 | None \<Rightarrow> consume (CHR '';'') (skipWS r0)"
      show ?thesis
      proof (cases ?sep)
        case (Some r1)
        then have "length r1 < length r0"
          using consume_skipWS_shorter by (auto split: option.splits)
        then have "parseEntries k (es @ [ent]) auto' r1 \<noteq> Inl (ParseOutOfFuel, r)"
          using "6.IH"(2)[OF refl None e refl refl refl refl Some] le "6.prems" by simp
        then show ?thesis using None e Some by (simp add: Let_def)
      next
        case N: None
        then show ?thesis using None e by (auto simp: Let_def split: option.splits)
      qed
    qed
  qed
qed simp_all

text \<open>A result does not depend on the fuel: unless it ran out, more fuel changes nothing.\<close>

definition fuelled :: "'a parsed \<Rightarrow> bool" where
  "fuelled res \<longleftrightarrow> (\<forall>r. res \<noteq> Inl (ParseOutOfFuel, r))"

lemma fuelled_Inr [simp]: "fuelled (Inr x)"
  by (simp add: fuelled_def)

lemma parse_more_fuel:
  "fuelled (parseValue k s) \<Longrightarrow> parseValue (Suc k) s = parseValue k s"
  "fuelled (parseEntry k auto s) \<Longrightarrow> parseEntry (Suc k) auto s = parseEntry k auto s"
  "fuelled (parseEntries k es auto s) \<Longrightarrow> parseEntries (Suc k) es auto s = parseEntries k es auto s"
proof (induction k s and k auto s and k es auto s rule: parseValue_parseEntry_parseEntries.induct)
  case (2 k s0)
  show ?case
  proof (cases "skipWS s0")
    case (Cons c t)
    then show ?thesis using "2.IH"[OF Cons] "2.prems" by (auto split: if_splits)
  qed simp
next
  case (4 k auto s)
  note unf = parseEntry.simps(2)[of "Suc k"] parseEntry.simps(2)[of k]
  show ?case
  proof (cases "peek s = CHR ''[''")
    case True
    show ?thesis
    proof (cases "parseValue k (skipWS (tl s))")
      case (Inl e)
      then have "fuelled (parseValue k (skipWS (tl s)))" using "4.prems" True by (auto simp: fuelled_def)
      then show ?thesis unfolding unf using "4.IH"(1)[OF True] Inl True by (simp del: parseValue.simps)
    next
      case (Inr kr)
      then obtain key r0 where a: "parseValue k (skipWS (tl s)) = Inr (key, r0)" by (cases kr) simp
      then have a': "parseValue (Suc k) (skipWS (tl s)) = Inr (key, r0)" using "4.IH"(1)[OF True] by simp
      show ?thesis
      proof (cases "consume (CHR '']'') (skipWS r0)")
        case None
        then show ?thesis unfolding unf using a a' True by (simp del: parseValue.simps)
      next
        case (Some r1)
        note b = Some
        show ?thesis
        proof (cases "consume (CHR ''='') (skipWS r1)")
          case None
          then show ?thesis unfolding unf using a a' b True by (simp del: parseValue.simps)
        next
          case (Some r2)
          then have "fuelled (parseValue k (skipWS r2))"
            using "4.prems" True a b by (auto simp: fuelled_def)
          then show ?thesis
            unfolding unf using "4.IH"(2)[OF True a refl b Some] Some a a' b True
            by (simp del: parseValue.simps)
        qed
      qed
    qed
  next
    case False
    show ?thesis
    proof (cases "isIdentStart (peek s) \<and> identKeyLookahead s")
      case True
      obtain name r0 where a: "parseIdent s = (name, r0)" by (cases "parseIdent s")
      show ?thesis
      proof (cases "consume (CHR ''='') (skipWS r0)")
        case None
        then show ?thesis unfolding unf using a False True by (simp del: parseValue.simps)
      next
        case (Some r1)
        then have "fuelled (parseValue k (skipWS r1))"
          using "4.prems" False True a by (auto simp: fuelled_def)
        then show ?thesis
          unfolding unf using "4.IH"(3)[OF False True a[symmetric] refl Some] a False True Some
          by (simp del: parseValue.simps)
      qed
    next
      case F: False
      then have "fuelled (parseValue k s)" using "4.prems" False by (auto simp: fuelled_def)
      then have v: "parseValue (Suc k) s = parseValue k s" using "4.IH"(4)[OF False F] by simp
      show ?thesis unfolding unf v using False F by (simp only: if_False)
    qed
  qed
next
  case (6 k es auto s0)
  note unf = parseEntries.simps(2)[of "Suc k"] parseEntries.simps(2)[of k]
  show ?case
  proof (cases "consume (CHR ''}'') (skipWS s0)")
    case (Some r1)
    then show ?thesis by simp
  next
    case None
    have "fuelled (parseEntry k auto (skipWS s0))"
      using "6.prems" None by (auto simp: fuelled_def Let_def)
    then have e': "parseEntry (Suc k) auto (skipWS s0) = parseEntry k auto (skipWS s0)"
      using "6.IH"(1)[OF refl None] by simp
    show ?thesis
    proof (cases "parseEntry k auto (skipWS s0)")
      case (Inl e)
      then show ?thesis unfolding unf using None e' by (simp add: Let_def del: parseEntry.simps)
    next
      case (Inr res)
      obtain ent auto' r0 where res: "res = ((ent, auto'), r0)" by (metis prod.collapse)
      note e = Inr[unfolded res]
      let ?sep = "case consume (CHR '','') (skipWS r0) of Some r1 \<Rightarrow> Some r1 | None \<Rightarrow> consume (CHR '';'') (skipWS r0)"
      show ?thesis
      proof (cases ?sep)
        case (Some r1)
        then have "fuelled (parseEntries k (es @ [ent]) auto' r1)"
          using "6.prems" None e by (simp add: Let_def)
        then have "parseEntries (Suc k) (es @ [ent]) auto' r1 = parseEntries k (es @ [ent]) auto' r1"
          using "6.IH"(2)[OF refl None e refl refl refl refl Some] by simp
        then show ?thesis
          unfolding unf using None e' e Some by (simp add: Let_def del: parseEntry.simps parseEntries.simps)
      next
        case N: None
        then show ?thesis
          unfolding unf using None e e' by (simp add: Let_def del: parseEntry.simps)
      qed
    qed
  qed
qed (simp_all add: fuelled_def)

lemma parse_fuel_le:
  "k \<le> k' \<Longrightarrow> fuelled (parseValue k s) \<Longrightarrow> parseValue k' s = parseValue k s"
  "k \<le> k' \<Longrightarrow> fuelled (parseEntries k es auto s) \<Longrightarrow> parseEntries k' es auto s = parseEntries k es auto s"
proof -
  show "k \<le> k' \<Longrightarrow> fuelled (parseValue k s) \<Longrightarrow> parseValue k' s = parseValue k s"
    by (induction k' rule: dec_induct) (use parse_more_fuel(1) in metis)+
  show "k \<le> k' \<Longrightarrow> fuelled (parseEntries k es auto s) \<Longrightarrow> parseEntries k' es auto s = parseEntries k es auto s"
    by (induction k' rule: dec_induct) (use parse_more_fuel(3) in metis)+
qed

text \<open>The fuel \<open>parseAssignments\<close> passes for a value is enough whatever fuel a result was found with.\<close>

lemma parseValue_fuel:
  assumes "parseValue k s = Inr (v, r)" and "3 * length s + 1 \<le> k'"
  shows "parseValue k' s = Inr (v, r)"
proof -
  have "fuelled (parseValue k' s)" using parse_enough_fuel(1)[OF assms(2)] by (simp add: fuelled_def)
  moreover have "fuelled (parseValue k s)" using assms(1) by simp
  ultimately show ?thesis
    using parse_fuel_le(1)[of k k' s] parse_fuel_le(1)[of k' k s] assms(1) by (metis nat_le_linear)
qed

lemma parseAssignments_fuel:
  "length s \<le> k \<Longrightarrow> parseAssignments k out s \<noteq> Inl (ParseOutOfFuel, r)"
proof (induction k out s rule: parseAssignments.induct)
  case (1 k out s)
  note parseAssignments.simps [simp]
  show ?case
  proof (cases "s = []")
    case False
    then obtain k' where k: "k = Suc k'" using "1.prems" by (cases k) auto
    show ?thesis
    proof (cases "parseTopLevelKey s")
      case (Inl e)
      then show ?thesis using False k by (auto simp: parseTopLevelKey_def split: if_splits)
    next
      case (Inr x)
      then obtain key r0 where a: "parseTopLevelKey s = Inr (key, r0)" by (cases x) simp
      then have lt: "length r0 < length s"
        using parseIdent_progress[of s key r0] by (auto simp: parseTopLevelKey_def split: if_splits)
      have "parseValue (3 * length r1 + 1) (skipWS r1) \<noteq> Inl (ParseOutOfFuel, r)" for r1
        using length_skipWS[of r1] by (intro parse_enough_fuel(1)) simp
      moreover have "parseAssignments k' (mput key v out) (skipWS r2) \<noteq> Inl (ParseOutOfFuel, r)"
        if b: "consume (CHR ''='') (skipWS r0) = Some r1"
          and v: "parseValue (3 * length r1 + 1) (skipWS r1) = Inr (v, r2)" for r1 v r2
      proof -
        have "length (skipWS r2) \<le> k'"
          using parse_progress(1)[OF v] length_skipWS[of r2] length_skipWS[of r1]
            consume_skipWS_shorter[OF b] lt k "1.prems" by linarith
        then show ?thesis using "1.IH"[OF False k a refl b v refl] by simp
      qed
      ultimately show ?thesis
        using False k a by (auto split: option.splits sum.splits simp del: parseValue.simps)
    qed
  qed simp
qed

text \<open>C25: Parsing always ends: the fuel that the length of the input fixes is enough for every input.\<close>

theorem Parse_total: "Parse src \<noteq> Inl (pos, ParseOutOfFuel)"
proof -
  have "length (skipWS src) \<le> length src + 1" using length_skipWS[of src] by simp
  then have "parseAssignments (length src + 1) [] (skipWS src) \<noteq> Inl (ParseOutOfFuel, r)" for r
    by (rule parseAssignments_fuel)
  then show ?thesis by (auto simp: Parse_def split: sum.splits)
qed

end
