(* ===== verification/LuaRoundtrip.thy ===== *)
theory LuaRoundtrip
  imports LuaParser
begin

text \<open>
  The writer and the parser of \<open>src/manif\<close> against each other. \<open>show_value\<close> is the text of a
  value as a pure function; \<open>writeValue\<close> refines it for every sink that does not fail. The
  values that survive a round trip are \<open>persistable\<close>, and \<open>reread\<close> is the value they come back
  as.
\<close>

section \<open>The text of a value\<close>

definition show_string :: "string \<Rightarrow> string" where
  "show_string s =
     (if CR \<in> set s \<or> LF \<in> set s
      then let n = bracket_level (s @ '']'') 0 in open_bracket n @ LF # s @ close_bracket n
      else luaQ s)"

definition show_key :: "string \<Rightarrow> string" where
  "show_key k = (if isValidPlainKey k then k else CHR ''['' # show_string k @ '']'') @ '' = ''"

definition show_indent :: "nat \<Rightarrow> string" where
  "show_indent n = concat (replicate n ''   '')"

text \<open>The entries of a table, each given by its key, whether its value is a number, and its text.\<close>

type_synonym item = "string option \<times> bool \<times> string"

definition show_item :: "item \<Rightarrow> string" where
  "show_item it = (case fst it of None \<Rightarrow> [] | Some k \<Rightarrow> show_key k) @ snd (snd it)"

fun show_items :: "nat \<Rightarrow> string \<Rightarrow> bool \<Rightarrow> item list \<Rightarrow> string" where
  "show_items level sep ind [] = (if sep \<noteq> [LF] then LF # show_indent (level - 1) else []) @ ''}''"
| "show_items level sep ind (it # its) =
     sep @ (if ind then show_indent level else []) @ show_item it @
     (if fst (snd it) then show_items level '', '' False its else show_items level (CHR '','' # [LF]) True its)"

function show_value :: "lval \<Rightarrow> nat \<Rightarrow> string" where
  "show_value v level = (case v of
     LStr s \<Rightarrow> show_string s
   | LBool b \<Rightarrow> (if b then ''true'' else ''false'')
   | LNil \<Rightarrow> ''nil''
   | LFloat f \<Rightarrow> formatNumber f
   | LInt i \<Rightarrow> format_int i
   | _ \<Rightarrow> (case normalizeTable v of
       Inl e \<Rightarrow> []
     | Inr (strs, nums) \<Rightarrow> CHR ''{'' # show_items (level + 1) [LF] True
         (map (\<lambda>(k, x). (None, is_number x, show_value x (level + 1))) nums @
          map (\<lambda>(k, x). (Some k, is_number x, show_value x (level + 1))) strs)))"
  by pat_completeness auto
termination
proof (relation "measure (\<lambda>(v, level). size v)", goal_cases)
  case 1
  show ?case by simp
qed (auto dest: normalizeTable_mem simp del: lval.size)

declare show_value.simps [simp del]

definition is_table :: "lval \<Rightarrow> bool" where
  "is_table v \<longleftrightarrow> (case v of LArr _ \<Rightarrow> True | LMap _ \<Rightarrow> True | LAnyMap _ \<Rightarrow> True | LTab _ _ \<Rightarrow> True | _ \<Rightarrow> False)"

lemma normalizeTable_is_table: "normalizeTable v = Inr t \<Longrightarrow> is_table v"
  by (auto simp: normalizeTable_def is_table_def split: lval.splits)

lemma show_value_table:
  "normalizeTable v = Inr (strs, nums) \<Longrightarrow> show_value v level = CHR ''{'' # show_items (level + 1) [LF] True
     (map (\<lambda>(k, x). (None, is_number x, show_value x (level + 1))) nums @
      map (\<lambda>(k, x). (Some k, is_number x, show_value x (level + 1))) strs)"
  using normalizeTable_is_table[of v] by (subst show_value.simps) (auto simp: is_table_def split: lval.splits)

lemma writeValue_table:
  "normalizeTable v = Inr (strs, nums) \<Longrightarrow> writeValue out v level =
     finish_table (level + 1)
       (foldl (\<lambda>st (k, x). emit_after x (writeValue (emit_before (level + 1) (Some k) st) x (level + 1)))
         (foldl (\<lambda>st (k, x). emit_after x (writeValue (emit_before (level + 1) None st) x (level + 1)))
           (buf_write out ''{'', [LF], True) nums) strs)"
  using normalizeTable_is_table[of v]
  by (subst writeValue.simps) (auto simp: is_table_def Let_def split: lval.splits)

text \<open>
  \<open>writable v\<close>: every value inside \<open>v\<close> is of a type the writer supports.
\<close>

inductive writable :: "lval \<Rightarrow> bool" where
  w_str: "writable (LStr s)"
| w_bool: "writable (LBool b)"
| w_nil: "writable LNil"
| w_int: "writable (LInt i)"
| w_float: "writable (LFloat f)"
| w_table: "\<lbrakk>normalizeTable v = Inr (strs, nums); \<forall>(k, x) \<in> set strs. writable x;
    \<forall>(k, x) \<in> set nums. writable x\<rbrakk> \<Longrightarrow> writable v"

text \<open>A sink that takes all it is given and keeps it.\<close>

definition append_sink :: "string \<Rightarrow> string \<Rightarrow> string option \<times> string" where
  "append_sink w s = (None, w @ s)"

definition text_writer :: "string \<Rightarrow> string bufWriter" where
  "text_writer w = \<lparr>sink = w, put = append_sink, err = None\<rparr>"

lemma buf_write_text [simp]: "buf_write (text_writer w) s = text_writer (w @ s)"
  by (simp add: buf_write_def text_writer_def append_sink_def)

text \<open>
  \<open>emits f tx\<close>: the writer step \<open>f\<close> is a sequence of writes whose pieces make up \<open>tx\<close>, the
  same for every sink.
\<close>

definition emits :: "('w bufWriter \<Rightarrow> 'w bufWriter) \<Rightarrow> string \<Rightarrow> bool" where
  "emits f tx \<longleftrightarrow> (\<exists>cs. concat cs = tx \<and> (\<forall>out. f out = foldl buf_write out cs))"

lemma emits_write: "emits (\<lambda>out. buf_write out s) s"
  unfolding emits_def by (rule exI[of _ "[s]"]) simp

lemma emits_id: "emits (\<lambda>out. out) []"
  unfolding emits_def by (rule exI[of _ "[]"]) simp

lemma emits_comp:
  assumes "emits f a" and "emits g b"
  shows "emits (\<lambda>out. g (f out)) (a @ b)"
proof -
  obtain cs ds where "concat cs = a" "\<forall>out. f out = foldl buf_write out cs"
    "concat ds = b" "\<forall>out. g out = foldl buf_write out ds"
    using assms by (auto simp: emits_def)
  then show ?thesis unfolding emits_def by (intro exI[of _ "cs @ ds"]) simp
qed

lemma emits_then_write: "emits f a \<Longrightarrow> emits (\<lambda>out. buf_write (f out) s) (a @ s)"
  by (rule emits_comp[OF _ emits_write])

lemma emits_string: "emits (\<lambda>out :: 'w bufWriter. writeString out s) (show_string s)"
proof (cases "CR \<in> set s \<or> LF \<in> set s")
  case True
  define n where "n = bracket_level (s @ '']'') 0"
  have "emits (\<lambda>out :: 'w bufWriter. buf_write (buf_write (buf_write (buf_write out (open_bracket n)) [LF]) s) (close_bracket n))
      (((open_bracket n @ [LF]) @ s) @ close_bracket n)"
    by (intro emits_then_write emits_write)
  then show ?thesis using True by (simp add: writeString_def writeLongBracket_def show_string_def Let_def n_def)
next
  case False
  then show ?thesis using emits_write[of "luaQ s"] by (simp add: writeString_def show_string_def)
qed

lemma emits_indent: "emits (\<lambda>out :: 'w bufWriter. write_indent out n) (show_indent n)"
proof (induction n)
  case 0
  then show ?case using emits_id by (simp add: write_indent_def show_indent_def)
next
  case (Suc n)
  have "show_indent (Suc n) = show_indent n @ ''   ''"
    by (simp add: show_indent_def replicate_append_same[symmetric])
  then show ?case using emits_then_write[OF Suc] by (simp add: write_indent_def)
qed

lemma emits_key: "emits (\<lambda>out :: 'w bufWriter. writeTableKeyAssignment out k) (show_key k)"
proof (cases "isValidPlainKey k")
  case True
  then show ?thesis
    using emits_then_write[OF emits_write[of k], of "'' = ''"] by (simp add: writeTableKeyAssignment_def show_key_def)
next
  case False
  have "emits (\<lambda>out :: 'w bufWriter. buf_write (buf_write (writeString (buf_write out ''['') k) '']'') '' = '')
      (((''['' @ show_string k) @ '']'') @ '' = '')"
    by (intro emits_then_write emits_comp[OF emits_write emits_string])
  then show ?thesis using False by (simp add: writeTableKeyAssignment_def show_key_def)
qed

lemma emits_before:
  "emits (\<lambda>out :: 'w bufWriter. emit_before level k (out, sep, ind))
     (sep @ (if ind then show_indent level else []) @ (case k of None \<Rightarrow> [] | Some s \<Rightarrow> show_key s))"
proof -
  have "emits (\<lambda>out :: 'w bufWriter. if ind then write_indent out level else out) (if ind then show_indent level else [])"
    by (simp add: emits_indent emits_id)
  moreover have "emits (\<lambda>out :: 'w bufWriter. case k of None \<Rightarrow> out | Some s \<Rightarrow> writeTableKeyAssignment out s)
      (case k of None \<Rightarrow> [] | Some s \<Rightarrow> show_key s)"
    by (simp add: emits_key emits_id split: option.split)
  ultimately show ?thesis
    unfolding emit_before_def Let_def prod.case by (intro emits_comp[OF emits_write[of sep] emits_comp])
qed

lemma emits_items:
  assumes "\<forall>(k, x) \<in> set xs. emits (\<lambda>out :: 'w bufWriter. writeValue out x level) (show_value x level)"
  shows "emits (\<lambda>out :: 'w bufWriter. finish_table level
      (foldl (\<lambda>st (k, x). emit_after x (writeValue (emit_before level k st) x level)) (out, sep, ind) xs))
    (show_items level sep ind (map (\<lambda>(k, x). (k, is_number x, show_value x level)) xs))"
  using assms
proof (induction xs arbitrary: sep ind)
  case Nil
  have "emits (\<lambda>out :: 'w bufWriter. buf_write (write_indent (buf_write out [LF]) (level - 1)) ''}'')
      (([LF] @ show_indent (level - 1)) @ ''}'')"
    by (intro emits_then_write emits_comp[OF emits_write emits_indent])
  then show ?case by (simp add: finish_table_def emits_write)
next
  case (Cons kx xs)
  obtain k x where kx: "kx = (k, x)" by (cases kx)
  let ?sep = "if is_number x then '', '' else CHR '','' # [LF]"
  have "emits (\<lambda>out :: 'w bufWriter. writeValue (emit_before level k (out, sep, ind)) x level)
      ((sep @ (if ind then show_indent level else []) @ (case k of None \<Rightarrow> [] | Some s \<Rightarrow> show_key s)) @ show_value x level)"
    using Cons.prems kx by (intro emits_comp[OF emits_before]) simp
  from emits_comp[OF this Cons.IH[of ?sep "\<not> is_number x"]] Cons.prems show ?case
    by (cases "is_number x") (simp_all add: kx emit_after_def show_item_def)
qed

definition table_items :: "table \<Rightarrow> (string option \<times> lval) list" where
  "table_items t = map (\<lambda>(k, x). (None, x)) (snd t) @ map (\<lambda>(k, x). (Some k, x)) (fst t)"

lemma show_value_items:
  "normalizeTable v = Inr t \<Longrightarrow> show_value v level = CHR ''{'' # show_items (level + 1) [LF] True
     (map (\<lambda>(k, x). (k, is_number x, show_value x (level + 1))) (table_items t))"
  by (cases t) (simp add: show_value_table table_items_def comp_def case_prod_unfold)

lemma writeValue_items:
  "normalizeTable v = Inr t \<Longrightarrow> writeValue out v level = finish_table (level + 1)
     (foldl (\<lambda>st (k, x). emit_after x (writeValue (emit_before (level + 1) k st) x (level + 1)))
       (buf_write out ''{'', [LF], True) (table_items t))"
  by (cases t) (simp add: writeValue_table table_items_def foldl_map case_prod_unfold)

lemma table_items_mem: "(k, x) \<in> set (table_items t) \<Longrightarrow> (\<exists>s. (s, x) \<in> set (fst t)) \<or> (\<exists>i. (i, x) \<in> set (snd t))"
  by (auto simp: table_items_def)

lemma emits_value:
  "writable v \<Longrightarrow> emits (\<lambda>out :: 'w bufWriter. writeValue out v level) (show_value v level)"
proof (induction v arbitrary: level rule: writable.induct)
  case (w_str s level)
  then show ?case using emits_string by (simp add: writeValue.simps show_value.simps)
next
  case (w_table v strs nums level)
  have "\<forall>(k, x) \<in> set (table_items (strs, nums)). emits (\<lambda>out :: 'w bufWriter. writeValue out x (level + 1)) (show_value x (level + 1))"
    using w_table.IH by (auto simp: table_items_def)
  from emits_comp[OF emits_write[of "''{''"] emits_items[OF this, of "[LF]" True]] show ?case
    unfolding writeValue_items[OF w_table.hyps(1)] show_value_items[OF w_table.hyps(1)] by simp
qed (simp_all add: writeValue.simps show_value.simps emits_write)

lemma writes_text: "foldl buf_write (text_writer w) cs = text_writer (w @ concat cs)"
  by (induction cs arbitrary: w) auto

lemma writeValue_text:
  "writable v \<Longrightarrow> writeValue (text_writer w) v level = text_writer (w @ show_value v level)"
proof -
  assume "writable v"
  then have "emits (\<lambda>out :: string bufWriter. writeValue out v level) (show_value v level)" by (rule emits_value)
  then show ?thesis by (auto simp: emits_def writes_text)
qed

definition show_assignments :: "(string \<times> lval) list \<Rightarrow> string" where
  "show_assignments m = concat (map (\<lambda>(k, v). k @ '' = '' @ show_value v 0 @ [LF]) m)"

text \<open>The whole file, for every sink: a sequence of writes that make up the assignments.\<close>

lemma writes_assignments:
  assumes "\<forall>(k, v) \<in> set strs. isValidPlainKey k \<and> writable v"
  shows "\<exists>cs. concat cs = show_assignments strs \<and>
    (\<forall>out :: 'w bufWriter. writeTableAsAssignments out (strs, []) = (None, foldl buf_write out cs))"
proof -
  let ?f = "\<lambda>(e, out :: 'w bufWriter) (k, v).
       if e \<noteq> None then (e, out)
       else if \<not> isValidPlainKey k then (Some (InvalidTopLevelKey k), out)
       else (None, buf_write (writeValue (buf_write (buf_write out k) '' = '') v 0) [LF])"
  have "\<exists>cs. concat cs = show_assignments strs \<and> (\<forall>out. foldl ?f (None, out) strs = (None, foldl buf_write out cs))"
    using assms
  proof (induction strs)
    case Nil
    then show ?case by (intro exI[of _ "[]"]) (simp add: show_assignments_def)
  next
    case (Cons kv strs)
    obtain k v where kv: "kv = (k, v)" by (cases kv)
    have "writable v" "isValidPlainKey k" using Cons.prems kv by simp_all
    have "emits (\<lambda>out :: 'w bufWriter. buf_write (writeValue (buf_write (buf_write out k) '' = '') v 0) [LF])
        (((k @ '' = '') @ show_value v 0) @ [LF])"
      by (intro emits_then_write emits_comp[OF emits_then_write[OF emits_write] emits_value[OF \<open>writable v\<close>]])
    then obtain cs where cs: "concat cs = ((k @ '' = '') @ show_value v 0) @ [LF]"
      "\<forall>out :: 'w bufWriter. buf_write (writeValue (buf_write (buf_write out k) '' = '') v 0) [LF] = foldl buf_write out cs"
      by (auto simp: emits_def)
    obtain ds where ds: "concat ds = show_assignments strs" "\<forall>out. foldl ?f (None, out) strs = (None, foldl buf_write out ds)"
      using Cons by auto
    show ?case
      using cs ds kv \<open>isValidPlainKey k\<close> by (intro exI[of _ "cs @ ds"]) (simp add: show_assignments_def)
  qed
  then show ?thesis by (simp add: writeTableAsAssignments_def)
qed

lemma writeTableAsAssignments_text:
  assumes "\<forall>(k, v) \<in> set strs. isValidPlainKey k \<and> writable v"
  shows "writeTableAsAssignments (text_writer w) (strs, []) = (None, text_writer (w @ show_assignments strs))"
proof -
  have "foldl (\<lambda>(e, out) (k, v).
       if e \<noteq> None then (e, out)
       else if \<not> isValidPlainKey k then (Some (InvalidTopLevelKey k), out)
       else (None, buf_write (writeValue (buf_write (buf_write out k) '' = '') v 0) [LF])) (None, text_writer w) strs
    = (None, text_writer (w @ show_assignments strs))"
    using assms
    by (induction strs arbitrary: w) (auto simp: show_assignments_def writeValue_text)
  then show ?thesis by (simp add: writeTableAsAssignments_def)
qed

text \<open>
  The writer refines the pure text of a manifest: for a map whose keys are plain identifiers
  and whose values are of supported types it reports no error, and what it has written is the
  assignments in the order of the sorted keys, independently of the map's iteration order.
\<close>

theorem Write_text:
  assumes "\<forall>(k, v) \<in> set m. isValidPlainKey k \<and> writable v"
  shows "Write [] append_sink (LMap m) = (None, show_assignments (sort_key fst m)) \<and>
    (\<forall>m'. distinct (map fst m) \<longrightarrow> mset m' = mset m \<longrightarrow> Write [] append_sink (LMap m') = Write [] append_sink (LMap m))"
proof -
  have w: "Write [] append_sink (LMap m) = (None, show_assignments (sort_key fst m))"
    if "\<forall>(k, v) \<in> set m. isValidPlainKey k \<and> writable v" for m
  proof -
    have "writeTableAsAssignments (text_writer []) (by_keys m, []) = (None, text_writer ([] @ show_assignments (by_keys m)))"
      by (rule writeTableAsAssignments_text) (use that in \<open>simp add: by_keys_def\<close>)
    then show ?thesis
      by (simp add: Write_def normalizeTable_def text_writer_def by_keys_def)
  qed
  have "Write [] append_sink (LMap m') = Write [] append_sink (LMap m)"
    if d: "distinct (map fst m)" and m: "mset m' = mset m" for m'
  proof -
    have "set m' = set m" using m by (metis set_mset_mset)
    then have "\<forall>(k, v) \<in> set m'. isValidPlainKey k \<and> writable v" using assms by simp
    moreover have "sort_key fst m' = sort_key fst m"
      by (rule sort_key_inj_key_eq) (use m d \<open>set m' = set m\<close> in \<open>simp_all add: distinct_map\<close>)
    ultimately show ?thesis using w[of m'] w[OF assms] by simp
  qed
  then show ?thesis using w[OF assms] by blast
qed

theorem Write_text_witness:
  "Write [] append_sink (LMap [(''b'', LBool True), (''a'', LInt 1)]) = (None, ''a = 1'' @ LF # ''b = true'' @ [LF])"
proof -
  have "\<forall>(k, v) \<in> set [(''b'', LBool True), (''a'', LInt 1)]. isValidPlainKey k \<and> writable v"
    by (auto intro: writable.intros simp: isValidPlainKey_def isIdentStart_def is_alpha_def is_lower_def luaKeywords_def)
  moreover have "show_assignments (sort_key fst [(''b'', LBool True), (''a'', LInt 1)]) = ''a = 1'' @ LF # ''b = true'' @ [LF]"
    by code_simp
  ultimately show ?thesis using Write_text[of "[(''b'', LBool True), (''a'', LInt 1)]"] by simp
qed

section \<open>Errors of the sink\<close>

lemma buf_write_err [simp]: "err out = Some e \<Longrightarrow> buf_write out s = out"
  by (simp add: buf_write_def)

lemma write_indent_err [simp]: "err out = Some e \<Longrightarrow> write_indent out n = out"
  by (induction n) (simp_all add: write_indent_def)

lemma writeString_err [simp]: "err out = Some e \<Longrightarrow> writeString out s = out"
  by (simp add: writeString_def writeLongBracket_def Let_def)

lemma key_err [simp]: "err out = Some e \<Longrightarrow> writeTableKeyAssignment out k = out"
  by (simp add: writeTableKeyAssignment_def)

lemma emit_before_err: "err out = Some e \<Longrightarrow> emit_before level k (out, sep, ind) = out"
  by (auto simp: emit_before_def split: option.split)

lemma foldl_err:
  assumes "\<And>k x. (k, x) \<in> set xs \<Longrightarrow> writeValue out x level = out" and "err out = Some e" and "fst st = out"
  shows "fst (foldl (\<lambda>st (k, x). emit_after x (writeValue (emit_before level (f k) st) x level)) st xs) = out"
  using assms
proof (induction xs arbitrary: st)
  case (Cons kx xs)
  obtain k x where kx: "kx = (k, x)" by (cases kx)
  have "emit_before level (f k) st = out" using Cons.prems(2,3) emit_before_err by (cases st) auto
  then have "fst (emit_after x (writeValue (emit_before level (f k) st) x level)) = out"
    using Cons.prems(1)[of k x] kx by (simp add: emit_after_def)
  then have "fst (foldl (\<lambda>st (k, x). emit_after x (writeValue (emit_before level (f k) st) x level))
      (emit_after x (writeValue (emit_before level (f k) st) x level)) xs) = out"
    by (intro Cons.IH) (use Cons.prems in auto)
  then show ?case using kx by simp
qed simp

lemma writeValue_err: "err out = Some e \<Longrightarrow> writeValue out v level = out"
proof (induction "size v" arbitrary: v level rule: less_induct)
  case less
  show ?case
  proof (cases "normalizeTable v")
    case (Inl a)
    then show ?thesis using less.prems by (cases v) (simp_all add: writeValue.simps)
  next
    case (Inr t)
    obtain strs nums where t: "normalizeTable v = Inr (strs, nums)" using Inr by (cases t) simp
    define st where "st = foldl (\<lambda>st (k, x). emit_after x (writeValue (emit_before (level + 1) None st) x (level + 1)))
        (buf_write out ''{'', [LF], True) nums"
    define st' where "st' = foldl (\<lambda>st (k, x). emit_after x (writeValue (emit_before (level + 1) (Some k) st) x (level + 1))) st strs"
    have "fst st = out"
      unfolding st_def
      by (rule foldl_err[where f = "\<lambda>k. None"])
        (use less normalizeTable_mem[OF t] in \<open>auto simp del: writeValue.simps\<close>)
    then have "fst st' = out"
      unfolding st'_def
      by (intro foldl_err[where f = Some]) (use less normalizeTable_mem[OF t] in \<open>auto simp del: writeValue.simps\<close>)
    then show ?thesis
      using less.prems unfolding writeValue_table[OF t] st_def[symmetric] st'_def[symmetric]
      by (cases st') (simp add: finish_table_def)
  qed
qed

text \<open>
  After the first error the writer leaves the sink alone and keeps that error: a failing disk
  is reported by \<open>Write\<close> and nothing is written behind the failure.
\<close>

theorem Write_keeps_first_error:
  assumes "p w (fst kv) = (Some e, w')" and "isValidPlainKey (fst kv)"
  shows "Write w p (LMap [kv]) = (Some (Sink e), w')"
proof -
  obtain k v where kv: "kv = (k, v)" by (cases kv)
  let ?b = "\<lparr>sink = w', put = p, err = Some (Sink e)\<rparr>"
  have "buf_write \<lparr>sink = w, put = p, err = None\<rparr> k = ?b" using assms kv by (simp add: buf_write_def)
  then show ?thesis
    using assms kv writeValue_err[of ?b "Sink e" v 0]
    by (simp add: Write_def normalizeTable_def by_keys_def writeTableAsAssignments_def)
qed

theorem Write_keeps_first_error_witness:
  "Write ''disk'' (\<lambda>w s. (Some ''full'', w)) (LMap [(''a'', LArr [LInt 1])]) = (Some (Sink ''full''), ''disk'')"
  by (rule Write_keeps_first_error) (simp_all add: isValidPlainKey_def isIdentStart_def is_alpha_def is_lower_def luaKeywords_def)

section \<open>Strings come back\<close>

lemma int_of_dec_zeros: "int_of_dec (replicate n (CHR ''0'') @ s) = int_of_dec s"
  by (induction n) (simp_all add: int_of_dec_def digit_val_def)

lemma byte_dec_length:
  assumes "0 \<le> n" and "n < 1000"
  shows "length (dec_digits n) \<le> 3"
proof -
  have "length (dec_digits m) = 1" if "0 \<le> m" "m < 10" for m
    using that by (subst dec_digits.simps) simp
  moreover have "length (dec_digits m) \<le> 2" if "0 \<le> m" "m < 100" for m
  proof -
    have "m div 10 < 10" using that by simp
    then show ?thesis using that calculation[of "m div 10"] by (subst dec_digits.simps) simp
  qed
  moreover have "n div 10 < 100" using assms by simp
  ultimately show ?thesis using assms(1) by (subst dec_digits.simps) fastforce
qed

lemma decimal_digits_append:
  assumes "\<forall>c \<in> set ds. is_digit c" and "length ds \<le> 3" and "length ds = 3 \<or> rest = [] \<or> \<not> is_digit (hd rest)"
  shows "decimal_digits (ds @ rest) = ds"
proof (cases "length ds = 3")
  case True
  then show ?thesis using assms(1) by (simp add: decimal_digits_def)
next
  case False
  then have "takeWhile is_digit (take (3 - length ds) rest) = []"
    using assms(3) by (cases rest) (auto simp: take_Cons' )
  then show ?thesis using assms(1,2) by (simp add: decimal_digits_def takeWhile_append2)
qed

lemma hd_luaQ_body: "luaQ_body s @ [CHR 0x22] = c # t \<Longrightarrow> is_digit c \<Longrightarrow> s \<noteq> [] \<and> is_digit (hd s)"
  by (cases s) (auto simp: q_decimal_def Let_def is_digit_def split: if_splits)

lemma digit_no_escape:
  assumes "is_digit d"
  shows "simple_escape d = None \<and> d \<noteq> CHR ''x''"
proof -
  have ne: "d \<noteq> c" if "\<not> is_digit c" for c using assms that by auto
  have "d \<noteq> CHR ''a''" "d \<noteq> CHR ''b''" "d \<noteq> CHR ''f''" "d \<noteq> CHR ''n''" "d \<noteq> CHR ''r''" "d \<noteq> CHR ''t''"
    "d \<noteq> CHR ''v''" "d \<noteq> CHR 0x5C" "d \<noteq> CHR 0x22" "d \<noteq> CHR 0x27" "d \<noteq> LF" "d \<noteq> CHR ''x''"
    by (rule ne, simp add: is_digit_def)+
  then show ?thesis by (simp add: simple_escape_def)
qed

lemma parse_luaQ_body:
  assumes "CR \<notin> set s" and "LF \<notin> set s"
  shows "parseShortString (CHR 0x22) b (luaQ_body s @ CHR 0x22 # rest) = Inr (b @ s, rest)"
  using assms
proof (induction s arbitrary: b)
  case Nil
  then show ?case by (simp add: parseShortString_Cons)
next
  case (Cons c s)
  consider "c = CHR 0x22 \<or> c = CHR 0x5C" | "c \<noteq> CHR 0x22" "c \<noteq> CHR 0x5C" "byte c < 0x20 \<or> byte c = 0x7F"
    | "c \<noteq> CHR 0x22" "c \<noteq> CHR 0x5C" "\<not> (byte c < 0x20 \<or> byte c = 0x7F)" by blast
  then show ?case
  proof cases
    case 1
    then show ?thesis using Cons by (auto simp: parseShortString_Cons simple_escape_def)
  next
    case 3
    moreover have "c \<noteq> LF" using Cons.prems by auto
    ultimately show ?thesis using Cons by (simp add: parseShortString_Cons)
  next
    case 2
    define ds where "ds = tl (q_decimal c s)"
    have q: "q_decimal c s = CHR 0x5C # ds" by (simp add: q_decimal_def ds_def Let_def)
    have c128: "int (byte c) < 1000" "byte c \<le> 255" using 2 by auto
    have ds: "\<forall>x \<in> set ds. is_digit x" "int_of_dec ds = int (byte c)" "length ds \<le> 3" "ds \<noteq> []"
      "s \<noteq> [] \<Longrightarrow> is_digit (hd s) \<Longrightarrow> length ds = 3"
      using byte_dec_length[of "int (byte c)"] c128 dec_digits_set[of "int (byte c)"]
      by (auto simp: ds_def q_decimal_def Let_def int_of_dec_zeros is_digit_def)
    let ?rest = "luaQ_body s @ CHR 0x22 # rest"
    obtain x u where xu: "luaQ_body s @ [CHR 0x22] = x # u" by (cases "luaQ_body s @ [CHR 0x22]") auto
    then have rest: "?rest = x # u @ rest" by simp
    have dd: "decimal_digits (ds @ ?rest) = ds"
      using ds hd_luaQ_body[OF xu] unfolding rest by (intro decimal_digits_append) auto
    obtain d ds' where d: "ds = d # ds'" using ds(4) by (cases ds) auto
    then have dig: "is_digit d" using ds(1) by simp
    have esc: "simple_escape d = None" "d \<noteq> CHR ''x''" using digit_no_escape[OF dig] by simp_all
    have "parseShortString (CHR 0x22) b (CHR 0x5C # ds @ ?rest)
        = parseShortString (CHR 0x22) (b @ [char_of (nat (int_of_dec ds))]) ?rest"
      using dd dig esc ds(2) c128 unfolding d parseShortString_Cons
      by (simp add: Let_def)
    also have "\<dots> = Inr (b @ c # s, rest)" using Cons ds(2) by simp
    finally show ?thesis using Cons.prems 2 q by auto
  qed
qed

text \<open>What a string comes back as: it loses a leading return, its line ends become line feeds.\<close>

definition reread_string :: "string \<Rightarrow> string" where
  "reread_string s = normalizeLongBracketEOL (if s \<noteq> [] \<and> hd s = CR then tl s else s)"

lemma reread_string_plain: "CR \<notin> set s \<Longrightarrow> reread_string s = s"
  by (cases s) (auto simp: reread_string_def normalizeLongBracketEOL_def)

lemma index_sub_first:
  assumes "has_prefix (drop i s) sub" and "i \<le> length s" and "\<forall>j < i. \<not> has_prefix (drop j s) sub"
  shows "index_sub s sub = Some i"
  using assms
proof (induction s sub arbitrary: i rule: index_sub.induct)
  case (1 sub)
  then show ?case by (simp add: has_prefix_def)
next
  case (2 c s sub)
  show ?case
  proof (cases i)
    case 0
    then show ?thesis using 2 by simp
  next
    case (Suc i')
    have "\<not> has_prefix (c # s) sub" using 2(4) Suc by force
    moreover have "\<forall>j < i'. \<not> has_prefix (drop j s) sub" using 2(4) Suc by force
    ultimately show ?thesis using 2 Suc by simp
  qed
qed

lemma not_contains_drop:
  assumes "\<not> contains_sub s sub" and "j \<le> length s"
  shows "\<not> has_prefix (drop j s) sub"
proof
  assume p: "has_prefix (drop j s) sub"
  define i where "i = (LEAST i. has_prefix (drop i s) sub)"
  have "has_prefix (drop i s) sub" unfolding i_def using p by (rule LeastI)
  moreover have "i \<le> j" unfolding i_def using p by (rule Least_le)
  moreover have "\<forall>k < i. \<not> has_prefix (drop k s) sub" unfolding i_def using not_less_Least by blast
  ultimately have "index_sub s sub = Some i" using assms(2) by (intro index_sub_first) auto
  then show False using assms(1) by (simp add: contains_sub_def)
qed

lemma bracket_level_free: "\<not> contains_sub probe (close_bracket (bracket_level probe n))"
proof (induction probe n rule: bracket_level.induct)
  case (1 probe n)
  then show ?case by (subst bracket_level.simps) auto
qed

lemma length_close_bracket [simp]: "length (close_bracket n) = n + 2"
  by (simp add: close_bracket_def)

lemma take_snoc_prefix: "n \<le> Suc (length t) \<Longrightarrow> take n (t @ x # y) = take n (t @ [x])"
  by (cases "n - length t") auto

text \<open>The closing bracket behind a string is its first occurrence.\<close>

lemma index_close_bracket:
  assumes "\<not> contains_sub (s @ '']'') (close_bracket n)"
  shows "index_sub (s @ close_bracket n @ rest) (close_bracket n) = Some (length s)"
proof (rule index_sub_first)
  show "\<forall>j < length s. \<not> has_prefix (drop j (s @ close_bracket n @ rest)) (close_bracket n)"
  proof (intro allI impI notI)
    fix j assume j: "j < length s" and p: "has_prefix (drop j (s @ close_bracket n @ rest)) (close_bracket n)"
    show False
    proof (cases "j + (n + 2) \<le> length s + 1")
      case True
      then have "take (n + 2) (drop j (s @ close_bracket n @ rest)) = take (n + 2) (drop j (s @ '']''))"
      proof -
        have dr: "drop j (s @ x) = drop j s @ x" for x using j by simp
        have "n + 2 \<le> Suc (length (drop j s))" using True j by simp
        then have "take (n + 2) (drop j s @ CHR '']'' # replicate n (CHR ''='') @ CHR '']'' # rest)
            = take (n + 2) (drop j s @ [CHR '']''])" by (rule take_snoc_prefix)
        then show ?thesis by (simp only: dr) (simp add: close_bracket_def)
      qed
      then have "has_prefix (drop j (s @ '']'')) (close_bracket n)" using p by (simp add: has_prefix_def)
      then show False using not_contains_drop[OF assms, of j] j by simp
    next
      case False
      define d where "d = length s - j"
      have d: "0 < d" "d \<le> n" using j False by (simp_all add: d_def)
      have "take (n + 2) (drop j (s @ close_bracket n @ rest)) ! d = CHR '']''"
        using d j by (simp add: d_def close_bracket_def nth_append)
      moreover have "close_bracket n ! d = CHR ''=''"
        using d by (cases d) (auto simp: close_bracket_def nth_append)
      ultimately show False using p by (simp add: has_prefix_def)
    qed
  qed
qed (simp_all add: has_prefix_append)

lemma drop_first_eol_LF:
  "drop_first_eol (LF # s @ CHR '']'' # rest) = (if s \<noteq> [] \<and> hd s = CR then tl s else s) @ CHR '']'' # rest"
  by (cases s) (auto simp: drop_first_eol_def)

lemma contains_tl:
  assumes "\<not> contains_sub s sub"
  shows "\<not> contains_sub (tl s) sub"
  using assms by (cases s) (auto simp: contains_sub_def split: if_splits)

lemma replicate_scan:
  assumes "y \<noteq> x"
  shows "takeWhile (\<lambda>c. c = x) (replicate n x @ y # z) = replicate n x"
    "dropWhile (\<lambda>c. c = x) (replicate n x @ y # z) = y # z"
  using assms by (induction n) auto

lemma parse_long_bracket:
  assumes "n = bracket_level (s @ '']'') 0"
  shows "tryParseLongBracket (open_bracket n @ LF # s @ close_bracket n @ rest) = Inr (Some (reread_string s, rest))"
proof -
  define s' where "s' = (if s \<noteq> [] \<and> hd s = CR then tl s else s)"
  have free: "\<not> contains_sub (s @ '']'') (close_bracket n)" using assms bracket_level_free by simp
  have "\<not> contains_sub (s' @ '']'') (close_bracket n)"
    using free contains_tl[OF free] by (cases s) (auto simp: s'_def)
  then have i: "index_sub (s' @ close_bracket n @ rest) (close_bracket n) = Some (length s')"
    by (rule index_close_bracket)
  have t: "takeWhile (\<lambda>c. c = CHR ''='') (replicate n (CHR ''='') @ CHR ''['' # LF # s @ close_bracket n @ rest) = replicate n (CHR ''='')"
    "dropWhile (\<lambda>c. c = CHR ''='') (replicate n (CHR ''='') @ CHR ''['' # LF # s @ close_bracket n @ rest)
      = CHR ''['' # LF # s @ close_bracket n @ rest"
    by (rule replicate_scan, simp)+
  have d: "drop_first_eol (LF # s @ close_bracket n @ rest) = s' @ close_bracket n @ rest"
    using drop_first_eol_LF[of s] by (simp add: close_bracket_def s'_def)
  show ?thesis
    using t d i by (simp add: tryParseLongBracket_def open_bracket_def peek_def Let_def reread_string_def s'_def)
qed

section \<open>Numbers come back\<close>

definition ends_number :: "string \<Rightarrow> bool" where
  "ends_number rest \<longleftrightarrow> rest = [] \<or> \<not> is_digit (hd rest) \<and> hd rest \<notin> {CHR ''.'', CHR ''e'', CHR ''E''}"

lemma peek_not: "ends_number rest \<Longrightarrow> peek rest \<noteq> CHR ''.'' \<and> peek rest \<noteq> CHR ''e'' \<and> peek rest \<noteq> CHR ''E''"
  by (auto simp: ends_number_def peek_def)

lemma dropWhile_digits:
  "\<forall>c \<in> set ds. is_digit c \<Longrightarrow> ends_number rest \<Longrightarrow> dropWhile is_digit (ds @ rest) = rest"
  by (cases rest) (auto simp: ends_number_def dropWhile_append2)

lemma scan_number_format:
  assumes "ends_number rest"
  shows "scan_number (format_int i @ rest) = (False, rest)"
proof -
  obtain neg ds where f: "format_int i = (if neg then CHR ''-'' # ds else ds)" "\<forall>c \<in> set ds. is_digit c" "ds \<noteq> []"
    using dec_digits_set[of "- i"] dec_digits_set[of i] that[of True "dec_digits (- i)"] that[of False "dec_digits i"]
    by (cases "i < 0") (auto simp: format_int_def)
  have p: "peek (ds @ rest) \<noteq> CHR ''-''" using f(2,3) is_digit_not_minus by (cases ds) (auto simp: peek_def)
  have s1: "(if peek (format_int i @ rest) = CHR ''-'' then tl (format_int i @ rest) else format_int i @ rest) = ds @ rest"
    using f(1) p by (auto simp: peek_def)
  show ?thesis
    unfolding scan_number_def Let_def s1 using dropWhile_digits[OF f(2) assms] peek_not[OF assms] by simp
qed

lemma format_int_nonempty: "format_int i \<noteq> [] \<and> format_int i \<noteq> ''-''"
  by (simp add: format_int_def) (metis dec_digits_nonempty is_digit_not_minus hd_dec_digits list.sel(1) not_less)

lemma parseNumber_format:
  assumes "ends_number rest" and "- (2 ^ 63) \<le> i" and "i < 2 ^ 63"
  shows "parseNumber (format_int i @ rest) = Inr (LInt i, rest)"
  using scan_number_format[OF assms(1), of i] parse_int64_format_int[OF assms(2,3)] format_int_nonempty[of i]
  by (simp add: parseNumber_def)

section \<open>Values that come back\<close>

text \<open>
  Multi-line strings are kept out of the array part of a table (see \<open>array_multiline_lost\<close>),
  floats are integral, integers fit 64 bits, keys contain no return.
\<close>

definition one_line :: "lval \<Rightarrow> bool" where
  "one_line v \<longleftrightarrow> (case v of LStr s \<Rightarrow> CR \<notin> set s \<and> LF \<notin> set s | _ \<Rightarrow> True)"

inductive persistable :: "lval \<Rightarrow> bool" where
  p_str: "persistable (LStr s)"
| p_bool: "persistable (LBool b)"
| p_int: "- (2 ^ 63) \<le> i \<Longrightarrow> i < 2 ^ 63 \<Longrightarrow> persistable (LInt i)"
| p_float: "\<bar>i\<bar> < 10 ^ 16 \<Longrightarrow> persistable (LFloat (Fin (of_int i)))"
| p_table: "\<lbrakk>normalizeTable v = Inr (strs, nums); sorted (map fst strs); distinct (map fst strs);
    \<forall>(k, x) \<in> set strs. CR \<notin> set k \<and> persistable x;
    \<forall>(k, x) \<in> set nums. one_line x \<and> persistable x\<rbrakk> \<Longrightarrow> persistable v"

definition table_value :: "(string \<times> lval) list \<Rightarrow> lval list \<Rightarrow> lval" where
  "table_value strs xs =
     (if xs = [] then LMap strs else if strs = [] then LArr xs else LTab strs (zip [1..int (length xs)] xs))"

function reread :: "lval \<Rightarrow> lval" where
  "reread v = (case v of
     LStr s \<Rightarrow> LStr (reread_string s)
   | LBool b \<Rightarrow> LBool b
   | LNil \<Rightarrow> LNil
   | LInt i \<Rightarrow> LInt i
   | LFloat f \<Rightarrow> (case f of Fin q \<Rightarrow> LInt \<lfloor>q\<rfloor> | _ \<Rightarrow> LFloat f)
   | _ \<Rightarrow> (case normalizeTable v of
       Inl e \<Rightarrow> v
     | Inr (strs, nums) \<Rightarrow>
         table_value (map (\<lambda>(k, x). (k, reread x)) strs) (map (\<lambda>(k, x). reread x) nums)))"
  by pat_completeness auto
termination
proof (relation "measure size", goal_cases)
  case 1
  show ?case by simp
qed (auto dest: normalizeTable_mem simp del: lval.size)

declare reread.simps [simp del]

lemma reread_table:
  "normalizeTable v = Inr (strs, nums) \<Longrightarrow>
   reread v = table_value (map (\<lambda>(k, x). (k, reread x)) strs) (map (\<lambda>(k, x). reread x) nums)"
  using normalizeTable_is_table[of v] by (subst reread.simps) (auto simp: is_table_def split: lval.splits)

section \<open>From entries to a table\<close>

fun ents :: "int \<Rightarrow> (string option \<times> lval) list \<Rightarrow> (lval \<times> lval) list" where
  "ents auto [] = []"
| "ents auto ((None, x) # its) = (LInt auto, reread x) # ents (auto + 1) its"
| "ents auto ((Some k, x) # its) = (LStr k, reread x) # ents auto its"

definition num_entries :: "int \<Rightarrow> lval list \<Rightarrow> (lval \<times> lval) list" where
  "num_entries a xs = map (\<lambda>(i, x). (LInt i, x)) (zip [a..a + int (length xs) - 1] xs)"

definition str_entries :: "(string \<times> lval) list \<Rightarrow> (lval \<times> lval) list" where
  "str_entries ss = map (\<lambda>(k, x). (LStr k, x)) ss"

lemma num_entries_Cons: "num_entries a (x # xs) = (LInt a, x) # num_entries (a + 1) xs"
  by (simp add: num_entries_def upto_rec1 algebra_simps)

lemma ents_append_strs: "ents a (map (\<lambda>(k, x). (Some k, x)) strs) = str_entries (map (\<lambda>(k, x). (k, reread x)) strs)"
  by (induction strs) (auto simp: str_entries_def)

lemma ents_table:
  "ents a (table_items (strs, nums)) =
     num_entries a (map (\<lambda>(k, x). reread x) nums) @ str_entries (map (\<lambda>(k, x). (k, reread x)) strs)"
proof (induction nums arbitrary: a)
  case Nil
  then show ?case using ents_append_strs[of a strs] by (simp add: table_items_def num_entries_def)
next
  case (Cons n nums)
  then show ?case by (cases n) (simp add: table_items_def num_entries_Cons)
qed

lemma scan_nums:
  "foldl scan_key (hn, False, True, m) (map fst (num_entries (m + 1) xs))
     = (hn \<or> xs \<noteq> [], False, True, m + int (length xs))"
proof (induction xs arbitrary: hn m)
  case (Cons x xs)
  show ?case using Cons[of True "m + 1"] by (simp add: num_entries_Cons scan_key_def algebra_simps)
qed (simp add: num_entries_def)

lemma scan_strs:
  "foldl scan_key (hn, hs, d, m) (map fst (str_entries ss)) = (hn, hs \<or> ss \<noteq> [], d \<and> ss = [], m)"
  by (induction ss arbitrary: hs d) (auto simp: str_entries_def scan_key_def)

lemma mput_new: "k \<notin> fst ` set m \<Longrightarrow> mput k v m = m @ [(k, v)]"
  by (induction m) auto

lemma string_map_strs:
  "distinct (map fst (m @ ss)) \<Longrightarrow> string_map (str_entries ss) m = Some (m @ ss)"
  by (induction ss arbitrary: m) (auto simp: str_entries_def mput_new)

lemma mixed_nums:
  "\<forall>i \<in> fst ` set ns. i < a \<Longrightarrow>
   mixed_table (num_entries a xs @ es) (ss, ns) = mixed_table es (ss, ns @ zip [a..a + int (length xs) - 1] xs)"
proof (induction xs arbitrary: a ns)
  case (Cons x xs)
  have "a \<notin> fst ` set ns" using Cons.prems by force
  then have "mput a x ns = ns @ [(a, x)]" by (rule mput_new)
  moreover have "\<forall>i \<in> fst ` set (ns @ [(a, x)]). i < a + 1" using Cons.prems by force
  ultimately show ?case using Cons.IH[of "ns @ [(a, x)]" "a + 1"]
    by (simp add: num_entries_Cons upto_rec1 algebra_simps)
qed (simp add: num_entries_def)

lemma mixed_strs:
  "distinct (map fst (m @ ss)) \<Longrightarrow> mixed_table (str_entries ss) (m, ns) = Some (m @ ss, ns)"
  by (induction ss arbitrary: m) (auto simp: str_entries_def mput_new)

lemma by_keys_sorted:
  assumes "sorted (map fst m)" and "distinct (map fst m)"
  shows "by_keys m = m"
  unfolding by_keys_def
  by (rule sort_key_inj_key_eq) (use assms in \<open>auto simp: distinct_map\<close>)

lemma entriesToValue_table:
  assumes "sorted (map fst ss)" and "distinct (map fst ss)"
  shows "entriesToValue (num_entries 1 xs @ str_entries ss) = Some (table_value ss xs)"
proof -
  have scan: "foldl scan_key (False, False, True, 0) (map fst (num_entries 1 xs @ str_entries ss))
      = (xs \<noteq> [], ss \<noteq> [], ss = [], int (length xs))"
    using scan_nums[of False 0 xs] by (simp add: scan_strs)
  have snd: "map snd (num_entries 1 xs) = xs"
    by (simp add: num_entries_def comp_def case_prod_unfold)
  have nums: "sorted (map fst (zip [1..int (length xs)] xs))" "distinct (map fst (zip [1..int (length xs)] xs))"
    by simp_all
  consider "xs \<noteq> []" "ss = []" | "xs \<noteq> []" "ss \<noteq> []" | "xs = []" by blast
  then show ?thesis
  proof cases
    case 1
    then show ?thesis using scan snd by (simp add: entriesToValue_def table_value_def str_entries_def)
  next
    case 2
    have "mixed_table (num_entries 1 xs @ str_entries ss) ([], []) = Some (ss, zip [1..int (length xs)] xs)"
      using mixed_nums[of "[]" 1 xs "str_entries ss" "[]"] mixed_strs[of "[]" ss] assms(2) by simp
    then show ?thesis
      using scan 2 by_keys_sorted[OF assms] by_keys_sorted[OF nums] by (simp add: entriesToValue_def table_value_def)
  next
    case 3
    then show ?thesis
      using scan string_map_strs[of "[]" ss] assms(2)
      by (simp add: entriesToValue_def table_value_def num_entries_def)
  qed
qed

section \<open>Reading back a scalar\<close>

definition delim :: "string \<Rightarrow> bool" where
  "delim rest \<longleftrightarrow> rest \<noteq> [] \<and> hd rest \<in> {CHR '','', LF, CHR '']''}"

definition starts :: "string \<Rightarrow> bool" where
  "starts tx \<longleftrightarrow> tx \<noteq> [] \<and> \<not> is_ws (hd tx) \<and> hd tx \<noteq> CHR ''}'' \<and>
     (hd tx = CHR ''-'' \<longrightarrow> tl tx \<noteq> [] \<and> hd (tl tx) \<noteq> CHR ''-'')"

definition reads :: "lval \<Rightarrow> nat \<Rightarrow> bool" where
  "reads v level \<longleftrightarrow> (\<forall>rest. delim rest \<longrightarrow>
     (\<exists>k0. \<forall>k \<ge> k0. parseValue k (show_value v level @ rest) = Inr (reread v, rest)))"

lemma skipWS_starts: "starts tx \<Longrightarrow> skipWS (tx @ rest) = tx @ rest"
  by (cases tx) (auto simp: starts_def skipWS_Cons hd_append)

lemma skipWS_blank: "\<forall>c \<in> set ws. is_ws c \<Longrightarrow> skipWS (ws @ x) = skipWS x"
  by (induction ws) (auto simp: skipWS_Cons)

lemma delim_ends_number: "delim rest \<Longrightarrow> ends_number rest"
  by (auto simp: delim_def ends_number_def is_digit_def)

lemma delim_ident: "delim rest \<Longrightarrow> takeWhile isIdentPart rest = [] \<and> dropWhile isIdentPart rest = rest"
  by (cases rest) (auto simp: delim_def isIdentPart_def isIdentStart_def char_class_defs)

lemma parseValue_scalar:
  assumes "starts (c # t)" and "c \<noteq> CHR ''{''" and "parseScalar c (t @ rest) = Inr (v, rest)"
  shows "\<exists>k0. \<forall>k \<ge> k0. parseValue k ((c # t) @ rest) = Inr (v, rest)"
proof (intro exI allI impI)
  fix k :: nat
  assume "1 \<le> k"
  then obtain k' where "k = Suc k'" by (cases k) auto
  then show "parseValue k ((c # t) @ rest) = Inr (v, rest)"
    using skipWS_starts[OF assms(1), of rest] assms(2,3) by simp
qed

lemma format_int_starts: "starts (format_int i) \<and> hd (format_int i) \<noteq> CHR ''{'' \<and> hd (format_int i) \<noteq> CHR ''[''
  \<and> (hd (format_int i) = CHR ''-'' \<or> is_digit (hd (format_int i)))"
proof (cases "i < 0")
  case True
  then have "is_digit (hd (dec_digits (- i)))" by (intro hd_dec_digits) simp
  then show ?thesis using True by (auto simp: starts_def format_int_def is_ws_def is_digit_def)
next
  case False
  then have "is_digit (hd (dec_digits i))" by (intro hd_dec_digits) simp
  then show ?thesis using False by (auto simp: starts_def format_int_def is_ws_def is_digit_def)
qed

lemma reads_int:
  assumes "- (2 ^ 63) \<le> i" and "i < 2 ^ 63" and "delim rest"
  shows "\<exists>k0. \<forall>k \<ge> k0. parseValue k (format_int i @ rest) = Inr (LInt i, rest)"
proof -
  obtain c t where f: "format_int i = c # t" using format_int_nonempty[of i] by (cases "format_int i") auto
  have c: "c \<noteq> CHR ''{''" "c \<noteq> CHR ''[''" "c = CHR ''-'' \<or> is_digit c" "starts (c # t)"
    using format_int_starts[of i] f by simp_all
  moreover have "c \<noteq> CHR 0x22" "c \<noteq> CHR 0x27" using c(3) by (auto simp: is_digit_def)
  ultimately have "parseScalar c (t @ rest) = parseNumber (c # t @ rest)" by (simp add: parseScalar_def)
  then have "parseScalar c (t @ rest) = Inr (LInt i, rest)"
    using parseNumber_format[OF delim_ends_number[OF assms(3)] assms(1,2)] f by simp
  then show ?thesis using parseValue_scalar[OF c(4,1)] f by simp
qed

lemma show_string_starts: "starts (show_string s)" "hd (show_string s) \<noteq> CHR ''{''"
  by (auto simp: show_string_def starts_def luaQ_def open_bracket_def is_ws_def Let_def)

lemma reads_string: "\<exists>k0. \<forall>k \<ge> k0. parseValue k (show_string s @ rest) = Inr (LStr (reread_string s), rest)"
proof (cases "CR \<in> set s \<or> LF \<in> set s")
  case True
  define n where "n = bracket_level (s @ '']'') 0"
  let ?t = "replicate n (CHR ''='') @ CHR ''['' # LF # s @ close_bracket n"
  have sh: "show_string s = CHR ''['' # ?t" using True by (simp add: show_string_def Let_def n_def open_bracket_def)
  have "parseScalar (CHR ''['') (?t @ rest) = Inr (LStr (reread_string s), rest)"
    using parse_long_bracket[OF n_def, of rest] by (simp add: parseScalar_def open_bracket_def)
  moreover have "starts (CHR ''['' # ?t)" using show_string_starts(1)[of s] sh by simp
  ultimately show ?thesis unfolding sh by (intro parseValue_scalar) simp_all
next
  case False
  let ?t = "luaQ_body s @ [CHR 0x22]"
  have sh: "show_string s = CHR 0x22 # ?t" using False by (simp add: show_string_def luaQ_def)
  have "parseScalar (CHR 0x22) (?t @ rest) = Inr (LStr (reread_string s), rest)"
    using parse_luaQ_body[of s "[]" rest] False by (simp add: parseScalar_def reread_string_plain)
  moreover have "starts (CHR 0x22 # ?t)" using show_string_starts(1)[of s] sh by simp
  ultimately show ?thesis unfolding sh by (intro parseValue_scalar) simp_all
qed

lemma reads_bool:
  assumes "delim rest"
  shows "\<exists>k0. \<forall>k \<ge> k0. parseValue k ((if b then ''true'' else ''false'') @ rest) = Inr (LBool b, rest)"
proof (cases b)
  case True
  have "parseIdent (''true'' @ rest) = (''true'', rest)"
    using delim_ident[OF assms] by (simp add: parseIdent_def isIdentPart_def isIdentStart_def char_class_defs)
  then have "parseScalar (CHR ''t'') (''rue'' @ rest) = Inr (LBool True, rest)"
    by (simp add: parseScalar_def isIdentStart_def char_class_defs Let_def)
  moreover have "starts ''true''" by (simp add: starts_def is_ws_def)
  ultimately show ?thesis using parseValue_scalar[of "CHR ''t''" "''rue''" rest "LBool True"] True by simp
next
  case False
  have "parseIdent (''false'' @ rest) = (''false'', rest)"
    using delim_ident[OF assms] by (simp add: parseIdent_def isIdentPart_def isIdentStart_def char_class_defs)
  then have "parseScalar (CHR ''f'') (''alse'' @ rest) = Inr (LBool False, rest)"
    by (simp add: parseScalar_def isIdentStart_def char_class_defs Let_def)
  moreover have "starts ''false''" by (simp add: starts_def is_ws_def)
  ultimately show ?thesis using parseValue_scalar[of "CHR ''f''" "''alse''" rest "LBool False"] False by simp
qed

lemma formatNumber_int: "\<bar>i\<bar> < 10 ^ 16 \<Longrightarrow> formatNumber (Fin (of_int i)) = format_int i"
proof -
  assume "\<bar>i\<bar> < 10 ^ 16"
  then have "of_int \<bar>i\<bar> < (of_int (10 ^ 16) :: rat)" by (simp only: of_int_less_iff)
  then show ?thesis by (simp add: formatNumber_def)
qed

lemma show_value_starts: "persistable v \<Longrightarrow> starts (show_value v level)"
proof (induction rule: persistable.induct)
  case (p_str s)
  then show ?case using show_string_starts by (simp add: show_value.simps)
next
  case (p_bool b)
  then show ?case by (simp add: show_value.simps starts_def is_ws_def)
next
  case (p_int i)
  then show ?case using format_int_starts by (simp add: show_value.simps)
next
  case (p_float i)
  then show ?case using format_int_starts by (simp add: show_value.simps formatNumber_int)
next
  case (p_table v strs nums)
  then show ?case by (simp add: show_value_items starts_def is_ws_def)
qed

section \<open>Reading back a table\<close>

text \<open>The text behind an element whose value is a number or not.\<close>

definition tail_text :: "nat \<Rightarrow> bool \<Rightarrow> item list \<Rightarrow> string" where
  "tail_text level num its = show_items level (if num then '', '' else CHR '','' # [LF]) (\<not> num) its"

lemma show_items_first: "show_items level [LF] True (it # its) =
    (LF # show_indent level) @ show_item it @ tail_text level (fst (snd it)) its"
  by (simp add: tail_text_def)

lemma tail_text_Nil: "tail_text level num [] = LF # show_indent (level - 1) @ ''}''"
  by (simp add: tail_text_def)

lemma tail_text_Cons: "\<exists>ws. (\<forall>c \<in> set ws. is_ws c) \<and>
    tail_text level num (it # its) = CHR '','' # ws @ show_item it @ tail_text level (fst (snd it)) its"
proof (cases num)
  case True
  then show ?thesis by (intro exI[of _ "'' ''"]) (simp add: tail_text_def is_ws_def)
next
  case False
  then show ?thesis
    by (intro exI[of _ "LF # show_indent level"]) (auto simp: tail_text_def is_ws_def show_indent_def)
qed

lemma indent_blank: "\<forall>c \<in> set (show_indent n). is_ws c"
  by (auto simp: show_indent_def is_ws_def)

lemma tail_text_delim: "delim (tail_text level num its @ rest)"
proof (cases its)
  case (Cons it its')
  obtain ws where "tail_text level num its = CHR '','' # ws"
    using tail_text_Cons[of level num it its'] Cons by blast
  then show ?thesis by (simp add: delim_def)
qed (simp add: delim_def tail_text_Nil)

text \<open>No equals sign follows an element, so an unkeyed boolean is not taken for a key.\<close>

lemma tail_text_no_key:
  "dropWhile is_ws (tail_text level num its @ rest) \<noteq> [] \<and> hd (dropWhile is_ws (tail_text level num its @ rest)) \<noteq> CHR ''=''"
proof (cases its)
  case Nil
  have "dropWhile is_ws (show_indent (level - 1) @ ''}'' @ rest) = dropWhile is_ws (''}'' @ rest)"
    using indent_blank by (intro dropWhile_append2) blast
  then show ?thesis using Nil by (simp add: tail_text_Nil is_ws_def)
next
  case (Cons it its')
  obtain ws where "tail_text level num its = CHR '','' # ws"
    using tail_text_Cons[of level num it its'] Cons by blast
  then show ?thesis by (simp add: is_ws_def)
qed

lemma plain_key_ident:
  assumes "isValidPlainKey k"
  shows "k \<noteq> []" "isIdentStart (hd k)" "\<forall>c \<in> set k. isIdentPart c"
  using assms by (cases k; auto simp: isValidPlainKey_def isIdentPart_def list_all_iff)+

lemma ident_start_class:
  "isIdentStart c \<Longrightarrow> \<not> is_ws c \<and> c \<noteq> CHR ''}'' \<and> c \<noteq> CHR ''-'' \<and> c \<noteq> CHR ''[''"
  by (auto simp: isIdentStart_def char_class_defs is_ws_def)

lemma ident_scan:
  assumes "\<forall>c \<in> set k. isIdentPart c"
  shows "takeWhile isIdentPart (k @ '' = '' @ r) = k" "dropWhile isIdentPart (k @ '' = '' @ r) = '' = '' @ r"
  using assms by (induction k) (auto simp: isIdentPart_def isIdentStart_def char_class_defs)

definition good_item :: "nat \<Rightarrow> string option \<times> lval \<Rightarrow> bool" where
  "good_item level = (\<lambda>(k, x). reads x level \<and> persistable x \<and> starts (show_value x level) \<and>
     (case k of None \<Rightarrow> one_line x | Some s \<Rightarrow> CR \<notin> set s))"

definition item_of :: "nat \<Rightarrow> string option \<times> lval \<Rightarrow> item" where
  "item_of level = (\<lambda>(k, x). (k, is_number x, show_value x level))"

text \<open>A one-line value does not start with a bracket, and is no key.\<close>

lemma one_line_start:
  assumes "one_line x" and "show_value x level \<noteq> []" and "persistable x"
  shows "hd (show_value x level) \<noteq> CHR ''[''"
  using assms(3,1)
proof (cases rule: persistable.cases)
  case (p_table strs nums)
  then show ?thesis by (simp add: show_value_items)
qed (use format_int_starts in \<open>auto simp: show_value.simps one_line_def show_string_def luaQ_def formatNumber_int\<close>)

lemma reads_keyed:
  assumes "good_item level (Some k, x)"
  shows "\<exists>k0. \<forall>f \<ge> k0. parseEntry f auto (show_item (item_of level (Some k, x)) @ tail_text level b its @ rest)
    = Inr (((LStr k, reread x), auto), tail_text level b its @ rest)"
proof -
  define tl' where "tl' = tail_text level b its @ rest"
  let ?v = "show_value x level @ tl'"
  have st: "starts (show_value x level)" and cr: "CR \<notin> set k" using assms by (simp_all add: good_item_def)
  have sk: "skipWS ('' '' @ ?v) = ?v" "skipWS ?v = ?v"
    using skipWS_starts[OF st] skipWS_blank[of "'' ''" ?v] by (simp_all add: is_ws_def)
  obtain k0 where k0: "\<forall>f \<ge> k0. parseValue f ?v = Inr (reread x, tl')"
    using assms tail_text_delim[of level b its rest] unfolding tl'_def good_item_def reads_def by auto
  show ?thesis
  proof (cases "isValidPlainKey k")
    case True
    note id = plain_key_ident[OF True]
    obtain c k' where k: "k = c # k'" using id(1) by (cases k) auto
    have pk: "peek (k @ '' = '' @ ?v) = c" "isIdentStart c" "c \<noteq> CHR ''[''"
      using id k ident_start_class[of c] by (simp_all add: peek_def)
    have la: "identKeyLookahead (k @ '' = '' @ ?v)"
      unfolding identKeyLookahead_def ident_scan[OF id(3)] by (simp add: is_ws_def)
    have pi: "parseIdent (k @ '' = '' @ ?v) = (k, '' = '' @ ?v)"
      unfolding parseIdent_def ident_scan[OF id(3)] by simp
    have co: "consume (CHR ''='') (skipWS ('' = '' @ ?v)) = Some ('' '' @ ?v)"
      by (simp add: skipWS_Cons is_ws_def consume_def)
    have "parseEntry f auto (k @ '' = '' @ ?v) = Inr (((LStr k, reread x), auto), tl')" if le: "Suc k0 \<le> f" for f
    proof -
      obtain f' where f: "f = Suc f'" "k0 \<le> f'" using le by (cases f) auto
      have "parseValue f' (skipWS ('' '' @ ?v)) = Inr (reread x, tl')" using k0 f(2) sk(1) by simp
      then show ?thesis unfolding f(1) parseEntry.simps using pk la pi co by simp
    qed
    then show ?thesis
      using True by (auto simp: show_item_def item_of_def show_key_def tl'_def)
  next
    case False
    have ss: "starts (show_string k)" by (rule show_string_starts)
    obtain k1 where k1: "\<forall>f \<ge> k1. parseValue f (show_string k @ '']'' @ '' = '' @ ?v) = Inr (LStr k, '']'' @ '' = '' @ ?v)"
      using reads_string[of k "'']'' @ '' = '' @ ?v"] reread_string_plain[OF cr] by auto
    have c1: "consume (CHR '']'') (skipWS ('']'' @ '' = '' @ ?v)) = Some ('' = '' @ ?v)"
      by (simp add: skipWS_Cons is_ws_def consume_def)
    have c2: "consume (CHR ''='') (skipWS ('' = '' @ ?v)) = Some ('' '' @ ?v)"
      by (simp add: skipWS_Cons is_ws_def consume_def)
    let ?t = "CHR ''['' # show_string k @ '']'' @ '' = '' @ ?v"
    have "parseEntry f auto ?t = Inr (((LStr k, reread x), auto), tl')" if le: "Suc (max k0 k1) \<le> f" for f
    proof -
      obtain f' where f: "f = Suc f'" "k0 \<le> f'" "k1 \<le> f'" using le by (cases f) auto
      have "parseValue f' (skipWS ('' '' @ ?v)) = Inr (reread x, tl')" using k0 f(2) sk(1) by simp
      moreover have "parseValue f' (skipWS (show_string k @ '']'' @ '' = '' @ ?v)) = Inr (LStr k, '']'' @ '' = '' @ ?v)"
        using k1 f(3) skipWS_starts[OF ss] by simp
      moreover have "peek ?t = CHR ''[''" "tl ?t = show_string k @ '']'' @ '' = '' @ ?v" by (simp_all add: peek_def)
      ultimately show ?thesis unfolding f(1) parseEntry.simps using c1 c2 by simp
    qed
    then show ?thesis
      using False by (intro exI[of _ "Suc (max k0 k1)"]) (simp add: show_item_def item_of_def show_key_def tl'_def)
  qed
qed

lemma not_a_key:
  assumes "persistable x"
  shows "\<not> (isIdentStart (peek (show_value x level @ r)) \<and> identKeyLookahead (show_value x level @ r)) \<or>
    dropWhile is_ws r = [] \<or> hd (dropWhile is_ws r) = CHR ''='' \<or> \<not> delim r"
  using assms
proof (cases rule: persistable.cases)
  case (p_str s)
  then show ?thesis
    by (auto simp: show_value.simps show_string_def luaQ_def open_bracket_def Let_def peek_def isIdentStart_def char_class_defs)
next
  case (p_bool b)
  show ?thesis
  proof (cases "delim r")
    case True
    have w: "\<forall>c \<in> set (show_value x level). isIdentPart c"
      using p_bool by (simp add: show_value.simps isIdentPart_def isIdentStart_def char_class_defs)
    have "dropWhile isIdentPart (show_value x level @ r) = r"
      using w delim_ident[OF True] by (simp add: dropWhile_append2)
    then show ?thesis by (auto simp: identKeyLookahead_def)
  qed simp
next
  case (p_int i)
  then show ?thesis
    using format_int_starts[of i] format_int_nonempty[of i]
    by (auto simp: show_value.simps peek_def isIdentStart_def char_class_defs)
next
  case (p_float i)
  then show ?thesis
    using format_int_starts[of i] format_int_nonempty[of i]
    by (auto simp: show_value.simps formatNumber_int peek_def isIdentStart_def char_class_defs)
next
  case (p_table strs nums)
  then show ?thesis by (simp add: show_value_items peek_def isIdentStart_def char_class_defs)
qed

lemma reads_unkeyed:
  assumes "good_item level (None, x)"
  shows "\<exists>k0. \<forall>f \<ge> k0. parseEntry f auto (show_item (item_of level (None, x)) @ tail_text level b its @ rest)
    = Inr (((LInt auto, reread x), auto + 1), tail_text level b its @ rest)"
proof -
  define r where "r = tail_text level b its @ rest"
  have p: "persistable x" "one_line x" "show_value x level \<noteq> []"
    using assms by (simp_all add: good_item_def starts_def)
  have d: "delim r" unfolding r_def by (rule tail_text_delim)
  have nk: "\<not> (isIdentStart (peek (show_value x level @ r)) \<and> identKeyLookahead (show_value x level @ r))"
    using not_a_key[OF p(1), of level r] tail_text_no_key[of level b its rest] d unfolding r_def by blast
  have nb: "peek (show_value x level @ r) \<noteq> CHR ''[''"
    using one_line_start[OF p(2,3,1)] p(3) by (simp add: peek_def)
  obtain k0 where k0: "\<forall>f \<ge> k0. parseValue f (show_value x level @ r) = Inr (reread x, r)"
    using assms d unfolding good_item_def reads_def by auto
  have "parseEntry f auto (show_value x level @ r) = Inr (((LInt auto, reread x), auto + 1), r)" if le: "Suc k0 \<le> f" for f
  proof -
    obtain f' where f: "f = Suc f'" "k0 \<le> f'" using le by (cases f) auto
    then have "parseValue f' (show_value x level @ r) = Inr (reread x, r)" using k0 by simp
    then show ?thesis unfolding f(1) parseEntry.simps if_not_P[OF nb] if_not_P[OF nk] by simp
  qed
  then show ?thesis by (auto simp: show_item_def item_of_def r_def)
qed

lemma show_item_starts:
  assumes "good_item level it"
  shows "starts (show_item (item_of level it))"
proof -
  obtain k x where it: "it = (k, x)" by (cases it)
  show ?thesis
  proof (cases k)
    case None
    then show ?thesis using assms it by (simp add: good_item_def show_item_def item_of_def)
  next
    case (Some s)
    show ?thesis
    proof (cases "isValidPlainKey s")
      case True
      then show ?thesis
        using Some it plain_key_ident(1,2)[OF True] ident_start_class[of "hd s"]
        by (simp add: starts_def show_item_def item_of_def show_key_def)
    next
      case False
      then show ?thesis using Some it by (simp add: starts_def show_item_def item_of_def show_key_def is_ws_def)
    qed
  qed
qed

definition entry_of :: "int \<Rightarrow> string option \<times> lval \<Rightarrow> lval \<times> lval" where
  "entry_of auto = (\<lambda>(k, x). (case k of None \<Rightarrow> LInt auto | Some s \<Rightarrow> LStr s, reread x))"

definition next_auto :: "int \<Rightarrow> string option \<times> lval \<Rightarrow> int" where
  "next_auto auto = (\<lambda>(k, x). case k of None \<Rightarrow> auto + 1 | Some s \<Rightarrow> auto)"

lemma ents_Cons: "ents auto (it # its) = entry_of auto it # ents (next_auto auto it) its"
  by (cases it; cases "fst it") (auto simp: entry_of_def next_auto_def)

lemma reads_item:
  assumes "good_item level it"
  shows "\<exists>k0. \<forall>f \<ge> k0. parseEntry f auto (show_item (item_of level it) @ tail_text level b its @ rest)
    = Inr ((entry_of auto it, next_auto auto it), tail_text level b its @ rest)"
proof -
  obtain k x where it: "it = (k, x)" by (cases it)
  show ?thesis
    using assms reads_unkeyed[of level x auto b its rest] reads_keyed[of level _ x auto b its rest]
    unfolding it by (cases k) (simp_all add: entry_of_def next_auto_def)
qed

lemma reads_entries:
  assumes "\<forall>c \<in> set ws. is_ws c" and "\<forall>it \<in> set (it # its). good_item level it"
    and "entriesToValue (es @ ents auto (it # its)) = Some v"
  shows "\<exists>k0. \<forall>f \<ge> k0. parseEntries f es auto (ws @ show_item (item_of level it) @
      tail_text level (fst (snd (item_of level it))) (map (item_of level) its) @ rest) = Inr (v, rest)"
  using assms
proof (induction its arbitrary: it ws es auto)
  case Nil
  let ?b = "fst (snd (item_of level it))"
  let ?tail = "tail_text level ?b [] @ rest"
  let ?s = "show_item (item_of level it) @ ?tail"
  have st: "starts (show_item (item_of level it))" using Nil.prems(2) show_item_starts by simp
  have sk: "skipWS (ws @ ?s) = ?s" using skipWS_blank[OF Nil.prems(1)] skipWS_starts[OF st] by simp
  have nc: "consume (CHR ''}'') ?s = None" using st by (simp add: starts_def consume_def)
  have tl: "skipWS ?tail = CHR ''}'' # rest"
    using skipWS_blank[of "LF # show_indent (level - 1)" "''}'' @ rest"] indent_blank
    by (simp add: tail_text_Nil is_ws_def skipWS_Cons)
  obtain k0 where k0: "\<forall>f \<ge> k0. parseEntry f auto ?s = Inr ((entry_of auto it, next_auto auto it), ?tail)"
    using reads_item[of level it auto ?b "[]" rest] Nil.prems(2) by auto
  have v: "entriesToValue (es @ [entry_of auto it]) = Some v" using Nil.prems(3) by (simp add: ents_Cons)
  have "parseEntries f es auto (ws @ ?s) = Inr (v, rest)" if le: "Suc k0 \<le> f" for f
  proof -
    obtain f' where f: "f = Suc f'" "k0 \<le> f'" using le by (cases f) auto
    then have "parseEntry f' auto ?s = Inr ((entry_of auto it, next_auto auto it), ?tail)" using k0 by simp
    moreover have "consume (CHR '','') (CHR ''}'' # rest) = None" "consume (CHR '';'') (CHR ''}'' # rest) = None"
      "consume (CHR ''}'') (CHR ''}'' # rest) = Some rest" "skipWS (CHR ''}'' # rest) = CHR ''}'' # rest"
      by (simp_all add: consume_def skipWS_Cons is_ws_def)
    ultimately show ?thesis unfolding f(1) parseEntries.simps Let_def sk tl using nc v by (simp add: tl)
  qed
  then show ?case by auto
next
  case (Cons it' its)
  let ?b = "fst (snd (item_of level it))"
  let ?tail = "tail_text level ?b (map (item_of level) (it' # its)) @ rest"
  let ?s = "show_item (item_of level it) @ ?tail"
  have st: "starts (show_item (item_of level it))" using Cons.prems(2) show_item_starts by simp
  have sk: "skipWS (ws @ ?s) = ?s" using skipWS_blank[OF Cons.prems(1)] skipWS_starts[OF st] by simp
  have nc: "consume (CHR ''}'') ?s = None" using st by (simp add: starts_def consume_def)
  obtain ws' where ws': "\<forall>c \<in> set ws'. is_ws c" and t: "tail_text level ?b (map (item_of level) (it' # its)) =
      CHR '','' # ws' @ show_item (item_of level it') @ tail_text level (fst (snd (item_of level it'))) (map (item_of level) its)"
    using tail_text_Cons[of level ?b "item_of level it'" "map (item_of level) its"] by auto
  let ?s' = "ws' @ show_item (item_of level it') @
      tail_text level (fst (snd (item_of level it'))) (map (item_of level) its) @ rest"
  have tl: "skipWS ?tail = CHR '','' # ?s'" unfolding t by (simp add: skipWS_Cons is_ws_def)
  obtain k0 where k0: "\<forall>f \<ge> k0. parseEntry f auto ?s = Inr ((entry_of auto it, next_auto auto it), ?tail)"
    using reads_item[of level it auto ?b "map (item_of level) (it' # its)" rest] Cons.prems(2) by auto
  have "entriesToValue ((es @ [entry_of auto it]) @ ents (next_auto auto it) (it' # its)) = Some v"
    using Cons.prems(3) by (simp add: ents_Cons)
  then obtain k1 where k1: "\<forall>f \<ge> k1. parseEntries f (es @ [entry_of auto it]) (next_auto auto it) ?s' = Inr (v, rest)"
    using Cons.IH[OF ws', of it' "es @ [entry_of auto it]" "next_auto auto it"] Cons.prems(2) by auto
  have "parseEntries f es auto (ws @ ?s) = Inr (v, rest)" if le: "Suc (max k0 k1) \<le> f" for f
  proof -
    obtain f' where f: "f = Suc f'" "k0 \<le> f'" "k1 \<le> f'" using le by (cases f) auto
    then have "parseEntry f' auto ?s = Inr ((entry_of auto it, next_auto auto it), ?tail)" using k0 by simp
    moreover have "parseEntries f' (es @ [entry_of auto it]) (next_auto auto it) ?s' = Inr (v, rest)" using k1 f(3) by simp
    moreover have "consume (CHR '','') (CHR '','' # ?s') = Some ?s'" by (simp add: consume_def)
    ultimately show ?thesis unfolding f(1) parseEntries.simps Let_def sk nc using tl
      by (simp del: list.map)
  qed
  then show ?case by auto
qed

lemma parseValue_table:
  assumes "\<forall>f \<ge> k0. parseEntries f [] 1 t = Inr (v, rest)"
  shows "\<exists>k0. \<forall>f \<ge> k0. parseValue f (CHR ''{'' # t) = Inr (v, rest)"
proof (intro exI allI impI)
  fix f assume "Suc k0 \<le> f"
  then obtain f' where f: "f = Suc f'" "k0 \<le> f'" by (cases f) auto
  have "skipWS (CHR ''{'' # t) = CHR ''{'' # t" by (simp add: skipWS_Cons is_ws_def)
  then show "parseValue f (CHR ''{'' # t) = Inr (v, rest)" using assms f by simp
qed

lemma persistable_reads: "persistable v \<Longrightarrow> reads v level"
proof (induction v arbitrary: level rule: persistable.induct)
  case (p_str s)
  then show ?case using reads_string by (simp add: reads_def show_value.simps reread.simps)
next
  case (p_bool b)
  then show ?case using reads_bool by (simp add: reads_def show_value.simps reread.simps)
next
  case (p_int i)
  then show ?case using reads_int by (simp add: reads_def show_value.simps reread.simps)
next
  case (p_float i)
  then have "- (2 ^ 63) \<le> i" "i < 2 ^ 63" by simp_all
  then show ?case
    using reads_int p_float by (simp add: reads_def show_value.simps reread.simps formatNumber_int)
next
  case (p_table v strs nums level)
  let ?its = "table_items (strs, nums)"
  let ?l = "level + 1"
  have good: "\<forall>it \<in> set ?its. good_item ?l it"
    using p_table.IH
    by (fastforce simp: table_items_def good_item_def intro: show_value_starts)
  have map_eq: "map (\<lambda>(k, x). (k, is_number x, show_value x ?l)) ?its = map (item_of ?l) ?its"
    by (simp add: item_of_def)
  have "sorted (map fst (map (\<lambda>(k, x). (k, reread x)) strs))" "distinct (map fst (map (\<lambda>(k, x). (k, reread x)) strs))"
    using p_table.hyps(2,3) by (simp_all add: comp_def case_prod_unfold)
  then have val: "entriesToValue (ents 1 ?its) = Some (reread v)"
    unfolding ents_table reread_table[OF p_table.hyps(1)] by (rule entriesToValue_table)
  have "\<exists>k0. \<forall>f \<ge> k0. parseEntries f [] 1 (show_items ?l [LF] True (map (item_of ?l) ?its) @ rest) = Inr (reread v, rest)" for rest
  proof (cases ?its)
    case Nil
    have "parseEntries f [] 1 (''}'' @ rest) = Inr (reread v, rest)" if "1 \<le> f" for f
      using that val Nil by (cases f) (simp_all add: skipWS_Cons is_ws_def consume_def)
    then show ?thesis using Nil by auto
  next
    case (Cons it its)
    have "\<forall>c \<in> set (LF # show_indent ?l). is_ws c" using indent_blank by (simp add: is_ws_def)
    then show ?thesis
      using reads_entries[of "LF # show_indent ?l" it its ?l "[]" 1 "reread v" rest] good val
      unfolding Cons list.map show_items_first append_assoc by simp
  qed
  then have "\<exists>k0. \<forall>f \<ge> k0. parseValue f (CHR ''{'' # show_items ?l [LF] True (map (item_of ?l) ?its) @ rest) = Inr (reread v, rest)" for rest
    using parseValue_table by blast
  then show ?case unfolding reads_def show_value_items[OF p_table.hyps(1), of level] map_eq by simp
qed

lemma persistable_writable: "persistable v \<Longrightarrow> writable v"
  by (induction rule: persistable.induct) (auto intro: writable.intros)

section \<open>The file\<close>

lemma assignments_start:
  assumes "\<forall>(k, v) \<in> set ss. isValidPlainKey k"
  shows "skipWS (show_assignments ss) = show_assignments ss"
proof (cases ss)
  case (Cons kv ss')
  obtain k v where kv: "kv = (k, v)" by (cases kv)
  have "isValidPlainKey k" using assms Cons kv by simp
  then have "starts k" using plain_key_ident(1,2)[of k] ident_start_class[of "hd k"] by (simp add: starts_def)
  then show ?thesis using skipWS_starts[of k] Cons kv by (simp add: show_assignments_def)
qed (simp add: show_assignments_def skipWS.simps)

lemma parse_show_assignments:
  assumes "\<forall>(k, v) \<in> set ss. isValidPlainKey k \<and> persistable v" and "distinct (map fst (out @ ss))"
    and "length ss \<le> n"
  shows "parseAssignments n out (show_assignments ss) = Inr (out @ map (\<lambda>(k, x). (k, reread x)) ss)"
  using assms
proof (induction ss arbitrary: out n)
  case Nil
  then show ?case by (simp add: show_assignments_def parseAssignments.simps)
next
  case (Cons kv ss)
  obtain k v where kv: "kv = (k, v)" by (cases kv)
  obtain n' where n: "n = Suc n'" "length ss \<le> n'" using Cons.prems(3) by (cases n) auto
  have key: "isValidPlainKey k" and pv: "persistable v" using Cons.prems(1) kv by simp_all
  note id = plain_key_ident[OF key]
  let ?rest = "LF # show_assignments ss"
  let ?v = "show_value v 0 @ ?rest"
  have shown: "show_assignments (kv # ss) = k @ '' = '' @ ?v" by (simp add: show_assignments_def kv)
  have st: "starts (show_value v 0)" using show_value_starts[OF pv] .
  have pk: "parseTopLevelKey (k @ '' = '' @ ?v) = Inr (k, '' = '' @ ?v)"
    unfolding parseTopLevelKey_def parseIdent_def ident_scan[OF id(3)] using id(1,2) by (simp add: peek_def)
  have co: "consume (CHR ''='') (skipWS ('' = '' @ ?v)) = Some ('' '' @ ?v)"
    by (simp add: skipWS_Cons is_ws_def consume_def)
  have sk: "skipWS ('' '' @ ?v) = ?v"
    using skipWS_starts[OF st] skipWS_blank[of "'' ''" ?v] by (simp add: is_ws_def)
  have "delim ?rest" by (simp add: delim_def)
  then obtain k0 where "parseValue k0 ?v = Inr (reread v, ?rest)"
    using persistable_reads[OF pv, of 0] unfolding reads_def by blast
  then have pa: "parseValue (3 * length ('' '' @ ?v) + 1) ?v = Inr (reread v, ?rest)"
    by (rule parseValue_fuel) simp
  have next_key: "skipWS ?rest = show_assignments ss"
    using assignments_start[of ss] Cons.prems(1) by (simp add: skipWS_Cons is_ws_def case_prod_unfold)
  have fresh: "mput k (reread v) out = out @ [(k, reread v)]"
    using Cons.prems(2) kv by (intro mput_new) auto
  have ne: "k @ '' = '' @ ?v \<noteq> []" by simp
  have "parseAssignments n out (k @ '' = '' @ ?v) = parseAssignments n' (out @ [(k, reread v)]) (show_assignments ss)"
    unfolding n(1)
    by (subst parseAssignments.simps) (simp only: ne if_False nat.case pk sum.case prod.case co option.case sk pa next_key fresh)
  also have "\<dots> = Inr (out @ [(k, reread v)] @ map (\<lambda>(k, x). (k, reread x)) ss)"
    using Cons.IH[of "out @ [(k, reread v)]" n'] Cons.prems(1,2) n(2) kv by simp
  finally show ?case unfolding shown by (simp add: kv)
qed

lemma length_show_assignments: "length ss \<le> length (show_assignments ss)"
  by (induction ss) (auto simp: show_assignments_def)

lemma Parse_Write_text:
  assumes "\<forall>(k, v) \<in> set m. isValidPlainKey k \<and> persistable v" and "distinct (map fst m)"
  shows "fst (Write [] append_sink (LMap m)) = None \<and>
    Parse (snd (Write [] append_sink (LMap m))) = Inr (LMap (map (\<lambda>(k, v). (k, reread v)) (sort_key fst m)))"
proof -
  let ?ss = "by_keys m"
  have ss: "\<forall>(k, v) \<in> set ?ss. isValidPlainKey k \<and> persistable v" using assms(1) by (simp add: by_keys_def)
  have "writeTableAsAssignments (text_writer []) (?ss, []) = (None, text_writer ([] @ show_assignments ?ss))"
    by (rule writeTableAsAssignments_text) (use ss persistable_writable in fast)
  then have w: "Write [] append_sink (LMap m) = (None, show_assignments ?ss)"
    by (simp add: Write_def normalizeTable_def text_writer_def)
  have "distinct (map fst ?ss)"
    using assms(2) by (metis by_keys_def distinct_map mset_eq_imp_distinct_iff mset_map mset_sort)
  moreover have "skipWS (show_assignments ?ss) = show_assignments ?ss"
    by (rule assignments_start) (use ss in auto)
  moreover have "length ?ss \<le> length (show_assignments ?ss) + 1" using length_show_assignments[of ?ss] by simp
  ultimately have "Parse (show_assignments ?ss) = Inr (LMap (map (\<lambda>(k, v). (k, reread v)) ?ss))"
    using parse_show_assignments[OF ss, of "[]" "length (show_assignments ?ss) + 1"] by (simp add: Parse_def)
  then show ?thesis using w by (simp add: by_keys_def)
qed

text \<open>
  C2: Reading back what was written gives the value that was written, for a map with distinct
  plain keys whose values are \<open>persistable\<close>: no nil, no string with a line end in the array part of
  a table (\<open>array_multiline_lost\<close> is what happens to these), 64-bit integers, floats that are
  integers of at most 16 digits, table keys that are distinct and without carriage returns. The value
  comes back up to the changes that \<open>reread\<close> lists: an empty array as an empty map,
  integral floats as integers, the numeric keys of a table renumbered from 1, line ends in
  strings normalised.
\<close>

theorem Parse_Write:
  assumes "\<forall>(k, v) \<in> set m. isValidPlainKey k \<and> persistable v" and "distinct (map fst m)"
  shows "fst (Write [] append_sink (LMap m)) = None \<and>
    Parse (snd (Write [] append_sink (LMap m))) = Inr (LMap (map (\<lambda>(k, v). (k, reread v)) (sort_key fst m)))"
  by (rule Parse_Write_text[OF assms])

definition sample_manifest :: "(string \<times> lval) list" where
  "sample_manifest = [(''repository'', LMap [(''my-rock'', LArr [LInt 1, LStr ''x''])]), (''flag'', LBool True)]"

lemma plain_sample: "isValidPlainKey ''repository''" "isValidPlainKey ''flag''"
  by (simp_all add: isValidPlainKey_def isIdentPart_def isIdentStart_def char_class_defs luaKeywords_def)

lemma persistable_sample: "\<forall>(k, v) \<in> set sample_manifest. isValidPlainKey k \<and> persistable v"
proof -
  have i: "persistable (LInt 1)" by (rule p_int) simp_all
  have "normalizeTable (LArr [LInt 1, LStr ''x'']) = Inr ([], [(1, LInt 1), (2, LStr ''x'')])"
    by (simp add: normalizeTable_def upto_rec1)
  then have "persistable (LArr [LInt 1, LStr ''x''])"
    by (rule p_table) (simp_all add: one_line_def i p_str)
  then have "persistable (LMap [(''my-rock'', LArr [LInt 1, LStr ''x''])])"
    by (intro p_table[where nums = "[]"]) (auto simp: normalizeTable_def by_keys_def)
  then show ?thesis using plain_sample by (simp add: sample_manifest_def p_bool)
qed

theorem Parse_Write_witness:
  "Parse (snd (Write [] append_sink (LMap sample_manifest))) = Inr (LMap
     [(''flag'', LBool True), (''repository'', LMap [(''my-rock'', LArr [LInt 1, LStr ''x''])])])"
proof -
  have "distinct (map fst sample_manifest)" by (simp add: sample_manifest_def)
  moreover have "map (\<lambda>(k, v). (k, reread v)) (sort_key fst sample_manifest)
      = [(''flag'', LBool True), (''repository'', LMap [(''my-rock'', LArr [LInt 1, LStr ''x''])])]"
    by code_simp
  ultimately show ?thesis using Parse_Write[OF persistable_sample] by simp
qed

section \<open>One round trip normalises\<close>

lemma CR_replace_eol: "CR \<notin> set (replace_eol s)"
proof (induction s rule: replace_eol.induct)
  case (2 c s)
  then show ?case by auto
qed simp

lemma CR_reread_string: "CR \<notin> set (reread_string s)"
  using CR_replace_eol by (auto simp: reread_string_def normalizeLongBracketEOL_def)

lemma reread_one_line:
  assumes "one_line v" and "persistable v"
  shows "one_line (reread v)"
  using assms(2)
proof (cases rule: persistable.cases)
  case (p_table strs nums)
  then show ?thesis by (simp add: reread_table one_line_def table_value_def)
qed (use assms(1) in \<open>auto simp: one_line_def reread.simps reread_string_plain\<close>)

lemma normalize_table_value:
  assumes "sorted (map fst ss)" and "distinct (map fst ss)"
  shows "normalizeTable (table_value ss xs) = Inr (ss, zip [1..int (length xs)] xs)"
  using by_keys_sorted[OF assms] by (simp add: table_value_def normalizeTable_def)

lemma reread_idem: "persistable v \<Longrightarrow> persistable (reread v) \<and> reread (reread v) = reread v"
proof (induction rule: persistable.induct)
  case (p_str s)
  then show ?case using reread_string_plain[OF CR_reread_string] by (simp add: reread.simps persistable.p_str)
next
  case (p_bool b)
  then show ?case by (simp add: reread.simps persistable.p_bool)
next
  case (p_int i)
  then show ?case by (simp add: reread.simps persistable.p_int)
next
  case (p_float i)
  then show ?case by (simp add: reread.simps persistable.p_int)
next
  case (p_table v strs nums)
  define ss where "ss = map (\<lambda>(k, x). (k, reread x)) strs"
  define xs where "xs = map (\<lambda>(k, x). reread x) nums"
  have rv: "reread v = table_value ss xs" using reread_table[OF p_table.hyps(1)] by (simp add: ss_def xs_def)
  have keys: "sorted (map fst ss)" "distinct (map fst ss)"
    using p_table.hyps(2,3) by (simp_all add: ss_def comp_def case_prod_unfold)
  note nt = normalize_table_value[OF keys, of xs]
  have s: "CR \<notin> set k \<and> persistable x \<and> reread x = x" if "(k, x) \<in> set ss" for k x
    using that p_table.IH(1) by (auto simp: ss_def)
  have x: "one_line y \<and> persistable y \<and> reread y = y" if "y \<in> set xs" for y
    using that p_table.IH(2) reread_one_line by (fastforce simp: xs_def)
  have z: "y \<in> set xs" if "(i, y) \<in> set (zip [1..int (length xs)] xs)" for i y
    using that by (rule set_zip_rightD)
  have "persistable (table_value ss xs)"
    by (rule persistable.p_table[OF nt keys]) (use s x z in fastforce)+
  moreover have "map (\<lambda>(k, x). (k, reread x)) ss = ss" using s by (intro map_idI) auto
  moreover have nums: "map (\<lambda>(k, x). reread x) zs = map reread (map snd zs)" for zs :: "(int \<times> lval) list"
    by (induction zs) auto
  have "map (\<lambda>(k, x). reread x) (zip [1..int (length xs)] xs) = xs"
    unfolding nums using x by (simp add: map_idI)
  ultimately show ?case unfolding rv reread_table[OF nt] by simp
qed

text \<open>
  A manifest that has been read back once is a fixed point: writing it and reading it again
  gives exactly the same value.
\<close>

theorem Parse_Write_stable:
  assumes "\<forall>(k, v) \<in> set m. isValidPlainKey k \<and> persistable v" and "distinct (map fst m)"
    and "Parse (snd (Write [] append_sink (LMap m))) = Inr v"
  shows "Parse (snd (Write [] append_sink v)) = Inr v"
proof -
  have w: "Parse (snd (Write [] append_sink (LMap m))) = Inr (LMap (map (\<lambda>(k, v). (k, reread v)) (sort_key fst m)))"
    if "\<forall>(k, v) \<in> set m. isValidPlainKey k \<and> persistable v" "distinct (map fst m)" for m
    using Parse_Write_text[OF that] by simp
  let ?m = "map (\<lambda>(k, v). (k, reread v)) (sort_key fst m)"
  have v: "v = LMap ?m" using assms(3) w[OF assms(1,2)] by simp
  have good: "\<forall>(k, v) \<in> set ?m. isValidPlainKey k \<and> persistable v \<and> reread v = v"
    using assms(1) reread_idem by fastforce
  have keys: "map fst ?m = map fst (sort_key fst m)" by (simp add: comp_def case_prod_unfold)
  have d: "distinct (map fst ?m)"
    unfolding keys using assms(2) by (metis distinct_map mset_eq_imp_distinct_iff mset_map mset_sort)
  have "sort_key fst ?m = ?m"
    using by_keys_sorted[of ?m] d unfolding keys by (simp add: by_keys_def)
  moreover have "map (\<lambda>(k, v). (k, reread v)) ?m = ?m" using good by (intro map_idI) auto
  ultimately show ?thesis using w[of ?m] good d unfolding v by (simp add: case_prod_unfold)
qed

theorem Parse_Write_stable_witness:
  "Parse (snd (Write [] append_sink (LMap [(''a'', LStr ''y'')]))) = Inr (LMap [(''a'', LStr ''y'')])"
proof (rule Parse_Write_stable)
  show "\<forall>(k, v) \<in> set [(''a'', LStr ''y'')]. isValidPlainKey k \<and> persistable v"
    by (simp add: isValidPlainKey_def isIdentStart_def char_class_defs luaKeywords_def p_str)
  show "Parse (snd (Write [] append_sink (LMap [(''a'', LStr ''y'')]))) = Inr (LMap [(''a'', LStr ''y'')])" by code_simp
qed simp

section \<open>What does not survive\<close>

text \<open>
  The parser reads the opening bracket of a long string in the array part of a table as the
  start of a bracketed key, so a list with a multi-line string is written but cannot be read back.
\<close>

theorem array_multiline_lost:
  "let m = LMap [(''a'', LArr [LStr (''x'' @ LF # ''y'')])]; (e, tx) = Write [] append_sink m
   in e = None \<and> tx = ''a = {'' @ LF # ''   [['' @ LF # ''x'' @ LF # ''y]]'' @ LF # ''}'' @ [LF] \<and>
      Parse tx = Inl ((2, 5), UnexpectedBracket)"
  by code_simp

text \<open>
  A bracketed key that is neither a string nor a number makes the parser panic instead of
  returning an error.
\<close>

theorem boolean_key_panics: "Parse ''x = {[true] = 1}'' = Inl ((1, 17), PanicKeyType)"
  by code_simp

end
