(* ===== verification/FileSystem.thy ===== *)
theory FileSystem
  imports Prelude
begin

text \<open>
  The operating system as the program uses it: slash-separated paths (packages \<open>path\<close> and
  \<open>path/filepath\<close> on Unix) and a file system of regular files and directories (package \<open>os\<close>).
  Every operation that changes the file system consumes one tick of a clock, and an arbitrary
  fault schedule decides at each tick whether the operation fails, so a theorem about a file
  operation holds for every pattern of write errors. A file keeps the mode it was created with.
  Symbolic links are not modelled, and renaming a directory is an error.
\<close>

section \<open>Paths\<close>

fun clean_step :: "bool \<Rightarrow> string list \<Rightarrow> string \<Rightarrow> string list" where
  "clean_step rooted out c =
     (if c = [] \<or> c = ''.'' then out
      else if c = ''..'' then
        (if out \<noteq> [] \<and> last out \<noteq> ''..'' then butlast out else if rooted then out else out @ [''..''])
      else out @ [c])"

definition path_clean :: "string \<Rightarrow> string" where
  "path_clean p =
     (if p = [] then ''.''
      else let rooted = (hd p = CHR ''/'');
               out = join (foldl (clean_step rooted) [] (split_char p (CHR ''/''))) ''/''
           in if rooted then CHR ''/'' # out else if out = [] then ''.'' else out)"

definition path_join :: "string list \<Rightarrow> string" where
  "path_join elems = (case filter (\<lambda>e. e \<noteq> []) elems of [] \<Rightarrow> [] | es \<Rightarrow> path_clean (join es ''/''))"

definition path_dir :: "string \<Rightarrow> string" where
  "path_dir p = path_clean (case last_index p (CHR ''/'') of None \<Rightarrow> [] | Some i \<Rightarrow> take (i + 1) p)"

definition path_base :: "string \<Rightarrow> string" where
  "path_base p =
     (if p = [] then ''.''
      else let q = trim_right_char p (CHR ''/'');
               b = (case last_index q (CHR ''/'') of None \<Rightarrow> q | Some i \<Rightarrow> drop (i + 1) q)
           in if b = [] then ''/'' else b)"

definition path_ext :: "string \<Rightarrow> string" where
  "path_ext p =
     (let b = (case last_index p (CHR ''/'') of None \<Rightarrow> p | Some i \<Rightarrow> drop (i + 1) p)
      in case last_index b (CHR ''.'') of None \<Rightarrow> [] | Some i \<Rightarrow> drop i b)"

text \<open>The directories \<open>os.MkdirAll\<close> makes sure of: the path and its ancestors, outermost first.\<close>

definition path_chain :: "string \<Rightarrow> string list" where
  "path_chain p =
     (let q = path_clean p; cs = filter (\<lambda>c. c \<noteq> [] \<and> c \<noteq> ''.'') (split_char q (CHR ''/''));
          root = (if hd q = CHR ''/'' then ''/'' else [])
      in map (\<lambda>n. root @ join (take n cs) ''/'') [1..<Suc (length cs)])"

text \<open>\<open>filepath.Rel\<close>: up from what is left of the base, down what is left of the target.\<close>

definition path_comps :: "string \<Rightarrow> string list" where
  "path_comps p = (if p = ''.'' then [] else if p = ''/'' then [[]] else split_char p (CHR ''/''))"

fun strip_common :: "'a list \<Rightarrow> 'a list \<Rightarrow> 'a list \<times> 'a list" where
  "strip_common (x # xs) (y # ys) = (if x = y then strip_common xs ys else (x # xs, y # ys))"
| "strip_common xs ys = (xs, ys)"

definition path_rel :: "string \<Rightarrow> string \<Rightarrow> string option" where
  "path_rel basepath targpath =
     (let base = path_clean basepath; targ = path_clean targpath in
      if targ = base then Some ''.''
      else if has_prefix base ''/'' \<noteq> has_prefix targ ''/'' then None
      else (let (bs, ts) = strip_common (path_comps base) (path_comps targ) in
            if bs \<noteq> [] \<and> hd bs = ''..'' then None
            else Some (join (replicate (length bs) ''..'' @ ts) ''/'')))"

section \<open>Files and directories\<close>

datatype node = NFile string int | NDir

record fs =
  nodes :: "(string, node) gomap"
  ticks :: nat
  faults :: "nat \<Rightarrow> string option"

definition file_at :: "fs \<Rightarrow> string \<Rightarrow> string option" where
  "file_at s p = (case map_of (nodes s) p of Some (NFile c m) \<Rightarrow> Some c | _ \<Rightarrow> None)"

definition is_dir :: "fs \<Rightarrow> string \<Rightarrow> bool" where
  "is_dir s p \<longleftrightarrow> p = ''/'' \<or> p = ''.'' \<or> map_of (nodes s) p = Some NDir"

definition tick :: "fs \<Rightarrow> string option \<times> fs" where
  "tick s = (faults s (ticks s), s\<lparr>ticks := ticks s + 1\<rparr>)"

definition os_read :: "fs \<Rightarrow> string \<Rightarrow> string + string" where
  "os_read s p = (case map_of (nodes s) p of
     Some (NFile c m) \<Rightarrow> Inr c | Some NDir \<Rightarrow> Inl ''is a directory'' | None \<Rightarrow> Inl ''no such file'')"

fun mkdirs :: "string list \<Rightarrow> fs \<Rightarrow> string option \<times> fs" where
  "mkdirs [] s = (None, s)"
| "mkdirs (p # ps) s = (case map_of (nodes s) p of
     Some (NFile c m) \<Rightarrow> (Some ''not a directory'', s)
   | Some NDir \<Rightarrow> mkdirs ps s
   | None \<Rightarrow>
      (case tick s of
         (Some e, s') \<Rightarrow> (Some e, s')
       | (None, s') \<Rightarrow> mkdirs ps (s'\<lparr>nodes := mput p NDir (nodes s')\<rparr>)))"

definition os_mkdir_all :: "string \<Rightarrow> fs \<Rightarrow> string option \<times> fs" where
  "os_mkdir_all p s = mkdirs (path_chain p) s"

text \<open>\<open>os.Create\<close>: a new or truncated file in an existing directory.\<close>

definition os_create :: "string \<Rightarrow> int \<Rightarrow> fs \<Rightarrow> string option \<times> fs" where
  "os_create p mode s = (case tick s of
     (Some e, s') \<Rightarrow> (Some e, s')
   | (None, s') \<Rightarrow>
      (if map_of (nodes s') p = Some NDir then (Some ''is a directory'', s')
       else if \<not> is_dir s' (path_dir p) then (Some ''no such directory'', s')
       else (None, s'\<lparr>nodes := mput p (NFile []
         (case map_of (nodes s') p of Some (NFile c m) \<Rightarrow> m | _ \<Rightarrow> mode)) (nodes s')\<rparr>)))"

text \<open>A write to the open file, at its end. A failed write may have stored any part of the data.\<close>

definition os_append :: "string \<Rightarrow> fs \<Rightarrow> string \<Rightarrow> string option \<times> fs" where
  "os_append p s d = (case tick s of
     (Some e, s') \<Rightarrow>
       (Some e, case map_of (nodes s') p of
          Some (NFile c m) \<Rightarrow> s'\<lparr>nodes := mput p (NFile (c @ take (length e) d) m) (nodes s')\<rparr> | _ \<Rightarrow> s')
   | (None, s') \<Rightarrow>
       (None, case map_of (nodes s') p of
          Some (NFile c m) \<Rightarrow> s'\<lparr>nodes := mput p (NFile (c @ d) m) (nodes s')\<rparr> | _ \<Rightarrow> s'))"

definition os_close :: "fs \<Rightarrow> string option \<times> fs" where
  "os_close s = tick s"

definition os_remove :: "string \<Rightarrow> fs \<Rightarrow> string option \<times> fs" where
  "os_remove p s = (case tick s of
     (Some e, s') \<Rightarrow> (Some e, s')
   | (None, s') \<Rightarrow>
      (if p = ''/'' \<or> p = ''.'' then (Some ''invalid argument'', s')
       else case map_of (nodes s') p of
         None \<Rightarrow> (Some ''no such file'', s')
       | Some n \<Rightarrow>
          (if n = NDir \<and> list_ex (\<lambda>q. q \<noteq> p \<and> path_dir q = p) (map fst (nodes s'))
           then (Some ''directory not empty'', s')
           else (None, s'\<lparr>nodes := mdel p (nodes s')\<rparr>))))"

definition os_rename :: "string \<Rightarrow> string \<Rightarrow> fs \<Rightarrow> string option \<times> fs" where
  "os_rename src dst s = (case tick s of
     (Some e, s') \<Rightarrow> (Some e, s')
   | (None, s') \<Rightarrow>
      (case map_of (nodes s') src of
         None \<Rightarrow> (Some ''no such file'', s')
       | Some NDir \<Rightarrow> (Some ''is a directory'', s')
       | Some (NFile c m) \<Rightarrow>
          (if map_of (nodes s') dst = Some NDir then (Some ''is a directory'', s')
           else (None, s'\<lparr>nodes := mput dst (NFile c m) (mdel src (nodes s'))\<rparr>))))"

text \<open>\<open>os.Stat\<close>, and the paths that lie below a directory.\<close>

definition os_stat :: "fs \<Rightarrow> string \<Rightarrow> node option" where
  "os_stat s p = (if is_dir s p then Some NDir else map_of (nodes s) p)"

definition below :: "string \<Rightarrow> string \<Rightarrow> bool" where
  "below p q \<longleftrightarrow>
     (if p = ''.'' then q \<noteq> ''.'' \<and> \<not> has_prefix q ''/'' \<and> q \<noteq> ''..'' \<and> \<not> has_prefix q ''../''
      else has_prefix q (if p = ''/'' then p else p @ ''/''))"

text \<open>\<open>os.ReadDir\<close>: the names in a directory, sorted.\<close>

definition os_read_dir :: "fs \<Rightarrow> string \<Rightarrow> string list option" where
  "os_read_dir s p =
     (if is_dir s p then Some (map path_base (sort (filter (\<lambda>q. q \<noteq> p \<and> path_dir q = p) (map fst (nodes s)))))
      else None)"

text \<open>\<open>filepath.Walk\<close> visits the root and what is below it, each directory in the order of its names.\<close>

definition walk_paths :: "fs \<Rightarrow> string \<Rightarrow> string list" where
  "walk_paths s root' = sort_key (\<lambda>q. split_char q (CHR ''/''))
     (filter (\<lambda>q. q = root' \<or> below root' q) (map fst (nodes s)))"

text \<open>\<open>os.RemoveAll\<close>: no error when there is nothing; a failed removal may have removed any part.\<close>

definition os_remove_all :: "string \<Rightarrow> fs \<Rightarrow> string option \<times> fs" where
  "os_remove_all p s =
     (let doomed = filter (\<lambda>q. q = p \<or> below p q) (map fst (nodes s)) in
      if doomed = [] then (None, s)
      else case tick s of
        (Some e, s') \<Rightarrow> (Some e, s'\<lparr>nodes := filter (\<lambda>x. fst x \<notin> set (take (length e) doomed)) (nodes s')\<rparr>)
      | (None, s') \<Rightarrow> (None, s'\<lparr>nodes := filter (\<lambda>x. fst x \<notin> set doomed) (nodes s')\<rparr>))"

text \<open>\<open>os.WriteFile\<close>: create or truncate, write, close.\<close>

definition os_write_file :: "string \<Rightarrow> string \<Rightarrow> int \<Rightarrow> fs \<Rightarrow> string option \<times> fs" where
  "os_write_file p data mode s = (case os_create p mode s of
     (Some e, s1) \<Rightarrow> (Some e, s1)
   | (None, s1) \<Rightarrow> (case os_append p s1 data of
       (Some e, s2) \<Rightarrow> (let (_, s3) = os_close s2 in (Some e, s3))
     | (None, s2) \<Rightarrow> os_close s2))"

text \<open>\<open>os.Mkdir\<close>, which \<open>os.MkdirTemp\<close> calls with a name it has drawn, and \<open>os.Chmod\<close>.\<close>

definition os_mkdir :: "string \<Rightarrow> fs \<Rightarrow> string option \<times> fs" where
  "os_mkdir p s = (case tick s of
     (Some e, s') \<Rightarrow> (Some e, s')
   | (None, s') \<Rightarrow>
      (if os_stat s' p \<noteq> None then (Some ''file exists'', s')
       else if \<not> is_dir s' (path_dir p) then (Some ''no such directory'', s')
       else (None, s'\<lparr>nodes := mput p NDir (nodes s')\<rparr>)))"

definition os_chmod :: "string \<Rightarrow> int \<Rightarrow> fs \<Rightarrow> string option \<times> fs" where
  "os_chmod p mode s = (case tick s of
     (Some e, s') \<Rightarrow> (Some e, s')
   | (None, s') \<Rightarrow> (case os_stat s' p of
       None \<Rightarrow> (Some ''no such file'', s')
     | Some NDir \<Rightarrow> (None, s')
     | Some (NFile c m) \<Rightarrow> (None, s'\<lparr>nodes := mput p (NFile c mode) (nodes s')\<rparr>)))"

section \<open>What the operations leave alone\<close>

named_theorems fs_simps \<open>effect of the file operations on the files\<close>

lemma file_at_tick [fs_simps]: "tick s = (e, s') \<Longrightarrow> file_at s' p = file_at s p"
  by (auto simp: tick_def file_at_def)

lemma mkdirs_files: "mkdirs ps s = (e, s') \<Longrightarrow> file_at s' p = file_at s p"
proof (induction ps s arbitrary: e s' rule: mkdirs.induct)
  case (2 q ps s)
  show ?case
  proof (cases "map_of (nodes s) q")
    case None
    obtain e0 s0 where t: "tick s = (e0, s0)" by (cases "tick s")
    have n: "nodes s0 = nodes s" using t by (auto simp: tick_def)
    show ?thesis
    proof (cases e0)
      case None
      note N = None
      have "file_at s' p = file_at (s0\<lparr>nodes := mput q NDir (nodes s0)\<rparr>) p"
        using "2.IH"(1)[OF \<open>map_of (nodes s) q = None\<close> t[symmetric] None] "2.prems" \<open>map_of (nodes s) q = None\<close> t None
        by simp
      also have "\<dots> = file_at s p"
        using \<open>map_of (nodes s) q = None\<close> n by (simp add: file_at_def map_of_mput)
      finally show ?thesis .
    qed (use "2.prems" None t in \<open>auto simp: fs_simps\<close>)
  next
    case (Some n)
    then show ?thesis using "2.prems" "2.IH"(2)[OF Some] by (cases n) auto
  qed
qed simp

lemma os_mkdir_all_files [fs_simps]: "os_mkdir_all q s = (e, s') \<Longrightarrow> file_at s' p = file_at s p"
  by (auto simp: os_mkdir_all_def intro: mkdirs_files)

lemma tick_nodes: "tick s = (e, s') \<Longrightarrow> nodes s' = nodes s"
  by (auto simp: tick_def)

lemma os_create_files:
  assumes "os_create q mode s = (e, s')"
  shows "file_at s' p = (if p = q \<and> e = None then Some [] else file_at s p)"
proof -
  obtain e0 s0 where t: "tick s = (e0, s0)" by (cases "tick s")
  show ?thesis
    using assms t tick_nodes[OF t]
    by (cases e0) (auto simp: os_create_def file_at_def map_of_mput split: if_splits)
qed

lemma os_append_files:
  "os_append q s d = (e, s') \<Longrightarrow> p \<noteq> q \<Longrightarrow> file_at s' p = file_at s p"
  by (auto simp: os_append_def file_at_def tick_def map_of_mput split: prod.splits option.splits node.splits)

lemma os_append_None:
  "os_append q s d = (None, s') \<Longrightarrow> file_at s' q = map_option (\<lambda>c. c @ d) (file_at s q)"
  by (auto simp: os_append_def file_at_def tick_def map_of_mput split: prod.splits option.splits node.splits)

lemma os_close_files [fs_simps]: "os_close s = (e, s') \<Longrightarrow> file_at s' p = file_at s p"
  by (auto simp: os_close_def fs_simps)

lemma os_remove_files:
  "os_remove q s = (e, s') \<Longrightarrow> file_at s' p = (if p = q \<and> e = None then None else file_at s p)"
  by (auto simp: os_remove_def file_at_def tick_def map_of_mdel split: prod.splits option.splits if_splits)

lemma os_rename_files:
  assumes "os_rename src dst s = (e, s')"
  shows "file_at s' p = (if e \<noteq> None then file_at s p
      else if p = dst then file_at s src else if p = src then None else file_at s p)"
proof -
  obtain e0 s0 where t: "tick s = (e0, s0)" by (cases "tick s")
  note n = tick_nodes[OF t]
  show ?thesis
  proof (cases e0)
    case None
    show ?thesis
    proof (cases "map_of (nodes s) src")
      case N: None
      then show ?thesis using assms t n None by (auto simp: os_rename_def file_at_def)
    next
      case (Some x)
      then show ?thesis
        using assms t n None
        by (cases x) (auto simp: os_rename_def file_at_def map_of_mput map_of_mdel split: if_splits)
    qed
  next
    case (Some x)
    then show ?thesis using assms t n by (auto simp: os_rename_def file_at_def)
  qed
qed

lemma map_of_filter_keys: "map_of (filter (\<lambda>x. fst x \<notin> D) m) k = (if k \<in> D then None else map_of m k)"
  by (induction m) auto

lemma os_remove_all_nodes:
  assumes "os_remove_all q s = (e, s')"
  shows "\<exists>D. nodes s' = filter (\<lambda>x. fst x \<notin> D) (nodes s) \<and> (\<forall>r \<in> D. r = q \<or> below q r) \<and>
    (e = None \<longrightarrow> (\<forall>r \<in> fst ` set (nodes s). r = q \<or> below q r \<longrightarrow> r \<in> D))"
proof -
  let ?d = "filter (\<lambda>r. r = q \<or> below q r) (map fst (nodes s))"
  obtain e0 s0 where t: "tick s = (e0, s0)" by (cases "tick s")
  note n = tick_nodes[OF t]
  show ?thesis
  proof (cases "?d = []")
    case True
    then have "s' = s" "\<forall>r \<in> fst ` set (nodes s). \<not> (r = q \<or> below q r)"
      using assms by (auto simp: os_remove_all_def filter_empty_conv)
    then show ?thesis by (intro exI[of _ "{}"]) simp
  next
    case False
    define D where "D = (case e0 of None \<Rightarrow> set ?d | Some x \<Rightarrow> set (take (length x) ?d))"
    have e: "e = e0" using assms t False by (cases e0) (simp_all add: os_remove_all_def Let_def)
    have nd: "nodes s' = filter (\<lambda>x. fst x \<notin> D) (nodes s)"
    proof (cases e0)
      case None
      then have "s' = s0\<lparr>nodes := filter (\<lambda>x. fst x \<notin> set ?d) (nodes s0)\<rparr>"
        using assms t False unfolding os_remove_all_def Let_def by simp
      then show ?thesis using None n unfolding D_def by simp
    next
      case (Some x)
      then have "s' = s0\<lparr>nodes := filter (\<lambda>y. fst y \<notin> set (take (length x) ?d)) (nodes s0)\<rparr>"
        using assms t False unfolding os_remove_all_def Let_def by simp
      then show ?thesis using Some n unfolding D_def by simp
    qed
    have "\<forall>r \<in> D. r = q \<or> below q r" by (auto simp: D_def split: option.splits dest: in_set_takeD)
    moreover have "e = None \<longrightarrow> (\<forall>r \<in> fst ` set (nodes s). r = q \<or> below q r \<longrightarrow> r \<in> D)"
      using e by (auto simp: D_def)
    ultimately show ?thesis using nd by blast
  qed
qed

lemma os_remove_all_files:
  assumes "os_remove_all q s = (e, s')"
  shows "p \<noteq> q \<Longrightarrow> \<not> below q p \<Longrightarrow> file_at s' p = file_at s p"
    and "e = None \<Longrightarrow> p = q \<or> below q p \<Longrightarrow> file_at s' p = None"
proof -
  obtain D where D: "nodes s' = filter (\<lambda>x. fst x \<notin> D) (nodes s)" "\<forall>r \<in> D. r = q \<or> below q r"
    and all: "e = None \<longrightarrow> (\<forall>r \<in> fst ` set (nodes s). r = q \<or> below q r \<longrightarrow> r \<in> D)"
    using os_remove_all_nodes[OF assms] by blast
  have m: "map_of (nodes s') p = (if p \<in> D then None else map_of (nodes s) p)"
    by (simp add: D(1) map_of_filter_keys)
  show "file_at s' p = file_at s p" if "p \<noteq> q" "\<not> below q p"
  proof -
    have "p \<notin> D" using that D(2) by auto
    then show ?thesis using m by (simp add: file_at_def)
  qed
  show "file_at s' p = None" if "e = None" "p = q \<or> below q p"
  proof (cases "p \<in> fst ` set (nodes s)")
    case True
    then have "p \<in> D" using that all by blast
    then show ?thesis using m by (simp add: file_at_def)
  next
    case False
    then have "map_of (nodes s) p = None" by (simp add: dom_map_of_iff)
    then show ?thesis using m by (simp add: file_at_def)
  qed
qed

lemma os_write_file_files:
  assumes "os_write_file q d mode s = (e, s')"
  shows "p \<noteq> q \<Longrightarrow> file_at s' p = file_at s p" and "e = None \<Longrightarrow> file_at s' q = Some d"
proof -
  obtain e1 s1 where c: "os_create q mode s = (e1, s1)" by (cases "os_create q mode s")
  obtain e2 s2 where a: "os_append q s1 d = (e2, s2)" by (cases "os_append q s1 d")
  obtain e3 s3 where k: "os_close s2 = (e3, s3)" by (cases "os_close s2")
  have r: "(e, s') = (if e1 \<noteq> None then (e1, s1) else if e2 \<noteq> None then (e2, s3) else (e3, s3))"
    using assms c a k by (auto simp: os_write_file_def split: option.splits)
  show "file_at s' p = file_at s p" if "p \<noteq> q"
    using r os_create_files[OF c, of p] os_append_files[OF a that] os_close_files[OF k, of p] that
    by (auto split: if_splits)
  show "file_at s' q = Some d" if "e = None"
    using r that os_create_files[OF c, of q] os_append_None[of q s1 d s2] a os_close_files[OF k, of q]
    by (auto split: if_splits)
qed

lemma os_mkdir_files [fs_simps]:
  assumes "os_mkdir q s = (e, s')"
  shows "file_at s' p = file_at s p"
proof -
  obtain e0 s0 where t: "tick s = (e0, s0)" by (cases "tick s")
  show ?thesis
    using assms t tick_nodes[OF t]
    by (cases e0) (auto simp: os_mkdir_def os_stat_def file_at_def map_of_mput split: if_splits)
qed

lemma os_chmod_files [fs_simps]:
  assumes "os_chmod q mode s = (e, s')"
  shows "file_at s' p = file_at s p"
proof -
  obtain e0 s0 where t: "tick s = (e0, s0)" by (cases "tick s")
  note n = tick_nodes[OF t]
  show ?thesis
  proof (cases e0)
    case None
    show ?thesis
      using assms t n None
      by (auto simp: os_chmod_def os_stat_def file_at_def map_of_mput split: if_splits option.splits node.splits)
  next
    case (Some x)
    then show ?thesis using assms t n by (auto simp: os_chmod_def file_at_def)
  qed
qed

end
