(* ===== verification/Version.thy ===== *)
theory Version
  imports Strconv
begin

text \<open>
  Rock versions: \<open>src/deps/version.go\<close> and the record \<open>Version\<close> of \<open>src/types.go\<close>. The
  parser walks the version string token by token, the comparison pads the shorter component
  list with zeros. The regular expressions of the code become the functions
  \<open>match_digits\<close>, \<open>match_alpha\<close> and \<open>match_revision\<close>, which return the captured groups; in
  Go the group \<open>(.*)\<close> does not match a newline.
\<close>

section \<open>Data\<close>

record version =
  vRaw :: string
  vComponents :: "float64 list"
  vRevision :: int
  vHasRevision :: bool
  vIsSCM :: bool
  vIsDev :: bool

definition zero_version :: version where
  "zero_version = \<lparr>vRaw = [], vComponents = [], vRevision = 0, vHasRevision = False,
     vIsSCM = False, vIsDev = False\<rparr>"

datatype version_error =
    EmptyVersion
  | BadRevision string
  | BadNumber string
  | BadRemainder string

section \<open>Parsing\<close>

definition keywordDeltas :: "(string, int) gomap" where
  "keywordDeltas =
     [(''dev'', 120000000), (''scm'', 110000000), (''cvs'', 100000000), (''rc'', - 1000),
      (''pre'', - 10000), (''beta'', - 100000), (''alpha'', - 1000000)]"

definition is_vsep :: "char \<Rightarrow> bool" where
  "is_vsep c \<longleftrightarrow> c = CHR ''.'' \<or> c = CHR ''_'' \<or> c = CHR ''-''"

definition match_token :: "(char \<Rightarrow> bool) \<Rightarrow> string \<Rightarrow> (string \<times> string) option" where
  "match_token cls s =
     (let tok = takeWhile cls s; rest = dropWhile is_vsep (dropWhile cls s)
      in if tok = [] \<or> LF \<in> set rest then None else Some (tok, rest))"

definition match_digits :: "string \<Rightarrow> (string \<times> string) option" where
  "match_digits = match_token is_digit"

definition match_alpha :: "string \<Rightarrow> (string \<times> string) option" where
  "match_alpha = match_token is_alpha"

definition match_revision :: "string \<Rightarrow> (string \<times> string) option" where
  "match_revision s =
     (let ds = rev (takeWhile is_digit (rev s)); pre = rev (dropWhile is_digit (rev s))
      in if ds = [] \<or> pre = [] \<or> last pre \<noteq> CHR ''-'' \<or> LF \<in> set (butlast pre) then None
         else Some (butlast pre, ds))"

text \<open>\<open>add_token\<close> of a number: it merges into a slot a word has opened, else it opens its own.\<close>

definition add_number :: "nat \<Rightarrow> float64 list \<Rightarrow> int \<Rightarrow> float64 list" where
  "add_number i comps n =
     (if i < length comps
      then comps[i := f64_add (comps ! i) (f64_div (f64_of_int n) 100000)]
      else comps @ [f64_of_int n])"

definition word_delta :: "string \<Rightarrow> float64" where
  "word_delta tok = (case map_of keywordDeltas tok of
     Some d \<Rightarrow> f64_of_int d
   | None \<Rightarrow> f64_div (of_nat (byte (hd tok))) 1000)"

definition set_slot :: "nat \<Rightarrow> float64 list \<Rightarrow> float64 \<Rightarrow> float64 list" where
  "set_slot i comps d = (comps @ replicate (Suc i - length comps) 0)[i := d]"

lemma match_token_shorter:
  assumes "match_token cls s = Some (tok, rest)"
  shows "length rest < length s" and "tok \<noteq> []"
proof -
  have tok: "tok = takeWhile cls s" "tok \<noteq> []" and rest: "rest = dropWhile is_vsep (dropWhile cls s)"
    using assms by (auto simp: match_token_def Let_def split: if_splits)
  show "tok \<noteq> []" by (rule tok(2))
  have "length rest \<le> length (dropWhile cls s)" using rest by (simp add: length_dropWhile_le)
  moreover have "length s = length tok + length (dropWhile cls s)"
    using tok(1) by (metis length_append takeWhile_dropWhile_id)
  moreover have "0 < length tok" using tok(2) by (rule length_greater_0_conv[THEN iffD2])
  ultimately show "length rest < length s" by linarith
qed

lemma match_digits_shorter: "match_digits s = Some (tok, rest) \<Longrightarrow> length rest < length s"
  unfolding match_digits_def by (rule match_token_shorter(1))

lemma match_alpha_shorter: "match_alpha s = Some (tok, rest) \<Longrightarrow> length rest < length s"
  unfolding match_alpha_def by (rule match_token_shorter(1))

function parse_tokens ::
  "nat \<Rightarrow> float64 list \<Rightarrow> bool \<Rightarrow> bool \<Rightarrow> string \<Rightarrow> version_error + float64 list \<times> bool \<times> bool" where
  "parse_tokens i comps scm dev cur =
     (if cur = [] then Inr (comps, scm, dev)
      else case match_digits cur of
        Some (ds, rest) \<Rightarrow>
          (case atoi ds of
             None \<Rightarrow> Inl (BadNumber ds)
           | Some n \<Rightarrow> parse_tokens (Suc i) (add_number i comps n) scm dev rest)
      | None \<Rightarrow>
          (case match_alpha cur of
             None \<Rightarrow> Inl (BadRemainder cur)
           | Some (tok, rest) \<Rightarrow>
               parse_tokens i (set_slot i comps (word_delta tok))
                 (scm \<or> tok = ''scm'') (dev \<or> tok = ''dev'') rest))"
  by pat_completeness auto
termination
  by (relation "measure (\<lambda>(i, comps, scm, dev, cur). length cur)")
    (auto dest: match_digits_shorter match_alpha_shorter)

declare parse_tokens.simps [simp del]

definition ParseVersion :: "string \<Rightarrow> version_error + version" where
  "ParseVersion s =
     (let trimmed = trim_space s
      in if trimmed = [] then Inl EmptyVersion
         else
           (case (case match_revision trimmed of
                    None \<Rightarrow> Inr (trimmed, 0, False)
                  | Some (body, ds) \<Rightarrow>
                      (case atoi ds of
                         None \<Rightarrow> Inl (BadRevision s)
                       | Some r \<Rightarrow> Inr (body, r, True))) of
              Inl e \<Rightarrow> Inl e
            | Inr (body, r, has) \<Rightarrow>
                (case parse_tokens 0 [] False False body of
                   Inl e \<Rightarrow> Inl e
                 | Inr (comps, scm, dev) \<Rightarrow>
                     Inr \<lparr>vRaw = s, vComponents = (if comps = [] then [0] else comps),
                       vRevision = r, vHasRevision = has, vIsSCM = scm, vIsDev = dev\<rparr>)))"

section \<open>Equality and order\<close>

text \<open>\<open>Equal\<close>: the loop over \<open>a.Components\<close> indexes \<open>b.Components\<close> at the same places.\<close>

definition Equal :: "version \<Rightarrow> version \<Rightarrow> bool" where
  "Equal a b \<longleftrightarrow>
     (if length (vComponents a) \<noteq> length (vComponents b) then False
      else if \<exists>i \<in> set [0..<length (vComponents a)]. vComponents a ! i \<noteq> vComponents b ! i then False
      else if vHasRevision a \<and> vHasRevision b then vRevision a = vRevision b
      else True)"

definition nth0 :: "float64 list \<Rightarrow> nat \<Rightarrow> float64" where
  "nth0 xs i = (if i < length xs then xs ! i else 0)"

fun compare_at :: "nat list \<Rightarrow> float64 list \<Rightarrow> float64 list \<Rightarrow> int" where
  "compare_at [] as bs = 0"
| "compare_at (i # is) as bs =
     (let ai = nth0 as i; bi = nth0 bs i
      in if ai \<noteq> bi then (if ai < bi then - 1 else 1) else compare_at is as bs)"

definition Compare :: "version \<Rightarrow> version \<Rightarrow> int" where
  "Compare a b =
     (let n = max (length (vComponents b)) (length (vComponents a));
          c = compare_at [0..<n] (vComponents a) (vComponents b)
      in if c \<noteq> 0 then c
         else if vHasRevision a \<and> vHasRevision b \<and> vRevision a \<noteq> vRevision b
              then (if vRevision a < vRevision b then - 1 else 1)
         else 0)"

section \<open>The order is lexicographic on the padded components\<close>

definition pad :: "nat \<Rightarrow> float64 list \<Rightarrow> float64 list" where
  "pad n xs = map (nth0 xs) [0..<n]"

lemma length_pad [simp]: "length (pad n xs) = n"
  by (simp add: pad_def)

lemma pad_eq: "length xs \<le> n \<Longrightarrow> pad n xs = xs @ replicate (n - length xs) 0"
  by (rule nth_equalityI) (auto simp: pad_def nth0_def nth_append)

lemma compare_at_lex:
  "compare_at is as bs =
     (if map (nth0 as) is < map (nth0 bs) is then - 1
      else if map (nth0 bs) is < map (nth0 as) is then 1 else 0)"
  by (induction "is") (auto simp: Let_def)

lemma compare_at_extend:
  assumes "length as \<le> n" and "length bs \<le> n" and "n \<le> m"
  shows "compare_at [0..<m] as bs = compare_at [0..<n] as bs"
proof -
  have "compare_at (xs @ ys) as bs = (if compare_at xs as bs \<noteq> 0 then compare_at xs as bs else compare_at ys as bs)" for xs ys
    by (induction xs) (auto simp: Let_def)
  moreover have "compare_at ys as bs = 0" if "\<forall>i \<in> set ys. n \<le> i" for ys
    using that assms by (induction ys) (auto simp: nth0_def Let_def)
  moreover have "[0..<m] = [0..<n] @ [n..<m]"
    using assms(3) upt_add_eq_append[of 0 n "m - n"] by simp
  ultimately show ?thesis by simp
qed

text \<open>
  The key of a version: the padded components, then the revision, which takes part only when
  both versions carry one.
\<close>

lemma Compare_pad:
  assumes "length (vComponents a) \<le> n" and "length (vComponents b) \<le> n"
  shows "Compare a b =
    (if pad n (vComponents a) < pad n (vComponents b) then - 1
     else if pad n (vComponents b) < pad n (vComponents a) then 1
     else if vHasRevision a \<and> vHasRevision b
       then (if vRevision a < vRevision b then - 1 else if vRevision b < vRevision a then 1 else 0)
     else 0)"
proof -
  let ?m = "max (length (vComponents b)) (length (vComponents a))"
  have "compare_at [0..<n] (vComponents a) (vComponents b)
      = compare_at [0..<?m] (vComponents a) (vComponents b)"
    using assms by (intro compare_at_extend) auto
  then have "Compare a b =
      (let c = compare_at [0..<n] (vComponents a) (vComponents b)
       in if c \<noteq> 0 then c
          else if vHasRevision a \<and> vHasRevision b \<and> vRevision a \<noteq> vRevision b
               then (if vRevision a < vRevision b then - 1 else 1)
          else 0)"
    by (simp only: Compare_def Let_def)
  moreover have "compare_at [0..<n] (vComponents a) (vComponents b) =
      (if pad n (vComponents a) < pad n (vComponents b) then - 1
       else if pad n (vComponents b) < pad n (vComponents a) then 1 else 0)"
    by (simp only: compare_at_lex pad_def)
  ultimately show ?thesis
    by (cases "vRevision a" "vRevision b" rule: linorder_cases) (simp_all add: Let_def)
qed

lemma Compare_range: "Compare a b \<in> {- 1, 0, 1}"
  using Compare_pad[of a "max (length (vComponents a)) (length (vComponents b))" b] by auto

lemma Compare_self [simp]: "Compare a a = 0"
  using Compare_pad[of a "length (vComponents a)" a] by auto

text \<open>\<open>Compare\<close> is antisymmetric: swapping the arguments flips the sign of the result.\<close>

theorem Compare_swap: "Compare b a = - Compare a b"
proof -
  let ?n = "max (length (vComponents a)) (length (vComponents b))"
  show ?thesis
    using Compare_pad[of a ?n b] Compare_pad[of b ?n a] by (auto simp: not_less)
qed

lemma Compare_flip: "Compare b a = - Compare a b"
  using Compare_pad[of a "max (length (vComponents a)) (length (vComponents b))" b]
    Compare_pad[of b "max (length (vComponents a)) (length (vComponents b))" a]
  by (auto simp: not_less)

definition uniform_revision :: "bool \<Rightarrow> version \<Rightarrow> bool" where
  "uniform_revision h v \<longleftrightarrow> vHasRevision v = h"

definition newer :: "version \<Rightarrow> version \<Rightarrow> bool" where
  "newer a b \<longleftrightarrow> Compare a b > 0"

lemma newer_iff:
  assumes "uniform_revision h a" "uniform_revision h b"
    and "length (vComponents a) \<le> n" "length (vComponents b) \<le> n"
  shows "newer a b \<longleftrightarrow> pad n (vComponents b) < pad n (vComponents a) \<or>
    pad n (vComponents b) = pad n (vComponents a) \<and> h \<and> vRevision b < vRevision a"
proof -
  have "vHasRevision a = h" "vHasRevision b = h" using assms by (simp_all add: uniform_revision_def)
  then show ?thesis
    unfolding newer_def Compare_pad[OF assms(3,4)]
    by (cases "pad n (vComponents a)" "pad n (vComponents b)" rule: linorder_cases) auto
qed

lemma newer_negtrans:
  assumes u: "uniform_revision h x" "uniform_revision h y" "uniform_revision h z" and "newer x z"
  shows "newer x y \<or> newer y z"
proof -
  let ?n = "max (length (vComponents x)) (max (length (vComponents y)) (length (vComponents z)))"
  note iff = newer_iff[OF u(1,2), of ?n] newer_iff[OF u(2,3), of ?n] newer_iff[OF u(1,3), of ?n]
  show ?thesis
    using assms(4) iff
    by (cases "pad ?n (vComponents x)" "pad ?n (vComponents y)" rule: linorder_cases) auto
qed

text \<open>
  Among versions that all carry a revision, or that all lack one, \<open>Compare\<close> is a strict weak
  order, which is what sorting by it needs.
\<close>

interpretation vers: strict_weak_order newer "{v. uniform_revision h v}" for h
proof
  fix x y :: version
  assume "newer x y"
  then show "\<not> newer y x" using Compare_flip[of y x] by (simp add: newer_def)
next
  fix x y z
  assume "x \<in> {v. uniform_revision h v}" "y \<in> {v. uniform_revision h v}"
    "z \<in> {v. uniform_revision h v}" "newer x z"
  then show "newer x y \<or> newer y z" using newer_negtrans by simp
qed

section \<open>Reading a release\<close>

text \<open>The canonical spelling of a release: dotted numbers and a revision.\<close>

definition render_release :: "int list \<Rightarrow> int \<Rightarrow> string" where
  "render_release ns r = join (map dec_digits ns) ''.'' @ CHR ''-'' # dec_digits r"

lemma is_digit_class:
  assumes "is_digit c"
  shows "c \<noteq> LF" "c \<noteq> CHR ''.''" "c \<noteq> CHR ''-''" "\<not> is_vsep c" "\<not> is_alpha c"
  using assms by (auto simp: is_vsep_def char_class_defs)

lemma not_digit_seps [simp]: "\<not> is_digit (CHR ''.'')" "\<not> is_digit (CHR ''-'')" "\<not> is_digit LF"
  "is_vsep (CHR ''.'')" "is_vsep (CHR ''-'')"
  by (simp_all add: is_digit_def is_vsep_def)

lemma takeWhile_dec_digits:
  "0 \<le> n \<Longrightarrow> takeWhile is_digit (dec_digits n @ t) = dec_digits n @ takeWhile is_digit t"
  by (rule takeWhile_append2) (rule dec_digits_set)

lemma dropWhile_dec_digits:
  "0 \<le> n \<Longrightarrow> dropWhile is_digit (dec_digits n @ t) = dropWhile is_digit t"
  by (rule dropWhile_append2) (rule dec_digits_set)

lemma match_digits_last:
  "0 \<le> n \<Longrightarrow> match_digits (dec_digits n) = Some (dec_digits n, [])"
  by (simp add: match_digits_def match_token_def takeWhile_dec_digits[of n "[]", simplified append_Nil2]
      dropWhile_dec_digits[of n "[]", simplified append_Nil2] del: takeWhile_eq_all_conv dropWhile_eq_Nil_conv)

lemma match_digits_dot:
  assumes "0 \<le> n" and "is_digit c" and "LF \<notin> set t"
  shows "match_digits (dec_digits n @ CHR ''.'' # c # t) = Some (dec_digits n, c # t)"
  using assms is_digit_class[OF assms(2)]
  by (auto simp: match_digits_def match_token_def takeWhile_dec_digits dropWhile_dec_digits)

definition release_body :: "int list \<Rightarrow> string" where
  "release_body ns = join (map dec_digits ns) ''.''"

lemma release_body_simps [simp]:
  "release_body [n] = dec_digits n"
  "release_body (n # m # ms) = dec_digits n @ CHR ''.'' # release_body (m # ms)"
  by (simp_all add: release_body_def)

lemma release_body_nonempty [simp]: "release_body (n # ns) \<noteq> []"
  by (cases ns) auto

lemma release_body_set:
  assumes "\<forall>n \<in> set ns. 0 \<le> n" and "c \<in> set (release_body ns)"
  shows "is_digit c \<or> c = CHR ''.''"
  using assms
proof (induction ns)
  case Nil
  then show ?case by (simp add: release_body_def)
next
  case (Cons n ns)
  then show ?case by (cases ns) (auto dest: dec_digits_set)
qed

lemma release_body_hd: "0 \<le> n \<Longrightarrow> is_digit (hd (release_body (n # ns)))"
  by (cases ns) (auto simp: hd_dec_digits)

lemma LF_release_body: "\<forall>n \<in> set ns. 0 \<le> n \<Longrightarrow> LF \<notin> set (release_body ns)"
  using release_body_set is_digit_class(1) by fastforce

lemma parse_tokens_Nil: "parse_tokens i cs scm dev [] = Inr (cs, scm, dev)"
  by (simp add: parse_tokens.simps)

lemma parse_tokens_number:
  assumes "match_digits cur = Some (ds, rest)" and "atoi ds = Some n"
  shows "parse_tokens i cs scm dev cur = parse_tokens (Suc i) (add_number i cs n) scm dev rest"
proof -
  have "cur \<noteq> []" using assms(1) match_digits_shorter by fastforce
  then show ?thesis using assms by (simp add: parse_tokens.simps[of i cs scm dev cur])
qed

lemma match_digits_body:
  assumes "\<forall>n \<in> set (n # m # ms). 0 \<le> n"
  shows "match_digits (release_body (n # m # ms)) = Some (dec_digits n, release_body (m # ms))"
proof -
  obtain c t where ct: "release_body (m # ms) = c # t"
    using release_body_nonempty[of m ms] by (cases "release_body (m # ms)") simp_all
  have "is_digit c" using release_body_hd[of m ms] assms ct by simp
  moreover have "LF \<notin> set t" using LF_release_body[of "m # ms"] assms ct by fastforce
  ultimately show ?thesis using match_digits_dot[of n c t] assms by (simp add: ct)
qed

lemma parse_tokens_release:
  assumes "\<forall>n \<in> set (n # ns). 0 \<le> n \<and> n < 2 ^ 63"
  shows "parse_tokens (length cs) cs scm dev (release_body (n # ns))
    = Inr (cs @ map f64_of_int (n # ns), scm, dev)"
  using assms
proof (induction ns arbitrary: n cs)
  case Nil
  then have n: "match_digits (dec_digits n) = Some (dec_digits n, [])" "atoi (dec_digits n) = Some n"
    by (auto simp: match_digits_last atoi_dec_digits)
  show ?case
    by (simp add: parse_tokens_number[OF n] parse_tokens_Nil add_number_def)
next
  case (Cons m ms)
  have n: "match_digits (release_body (n # m # ms)) = Some (dec_digits n, release_body (m # ms))"
    "atoi (dec_digits n) = Some n"
    using Cons.prems match_digits_body[of n m ms] by (auto simp: atoi_dec_digits)
  have "parse_tokens (length (cs @ [f64_of_int n])) (cs @ [f64_of_int n]) scm dev
      (release_body (m # ms)) = Inr ((cs @ [f64_of_int n]) @ map f64_of_int (m # ms), scm, dev)"
    using Cons.prems by (intro Cons.IH) simp
  then show ?case
    by (simp only: parse_tokens_number[OF n] add_number_def) simp
qed

lemma is_digit_graph: "is_digit c \<Longrightarrow> is_graph c"
  by (simp add: is_digit_def is_graph_def)

lemma trim_space_digits:
  "s \<noteq> [] \<Longrightarrow> is_digit (hd s) \<Longrightarrow> is_digit (last s) \<Longrightarrow> trim_space s = s"
  by (intro trim_space_graph is_digit_graph)

lemma match_revision_render:
  assumes "0 \<le> r" and "LF \<notin> set body"
  shows "match_revision (body @ CHR ''-'' # dec_digits r) = Some (body, dec_digits r)"
proof -
  have dig: "\<And>c. c \<in> set (rev (dec_digits r)) \<Longrightarrow> is_digit c" using assms(1) dec_digits_set by simp
  have "takeWhile is_digit (rev (dec_digits r) @ CHR ''-'' # rev body) = rev (dec_digits r)"
    and "dropWhile is_digit (rev (dec_digits r) @ CHR ''-'' # rev body) = CHR ''-'' # rev body"
    using takeWhile_append2[of "rev (dec_digits r)", OF dig] dropWhile_append2[of "rev (dec_digits r)", OF dig]
    by simp_all
  then show ?thesis using assms(2) by (simp add: match_revision_def)
qed

lemma ParseVersion_render:
  assumes "\<forall>n \<in> set (n # ns). 0 \<le> n \<and> n < 2 ^ 63" and "0 \<le> r" and "r < 2 ^ 63"
  shows "ParseVersion (render_release (n # ns) r) = Inr \<lparr>vRaw = render_release (n # ns) r,
    vComponents = map f64_of_int (n # ns), vRevision = r, vHasRevision = True,
    vIsSCM = False, vIsDev = False\<rparr>"
proof -
  let ?b = "release_body (n # ns)" and ?s = "render_release (n # ns) r"
  have s: "?s = ?b @ CHR ''-'' # dec_digits r" by (simp add: render_release_def release_body_def)
  have "is_digit (hd ?s)"
    using release_body_hd[of n ns] assms(1) by (simp add: s hd_append)
  moreover have "is_digit (last ?s)"
    using dec_digits_set[OF assms(2)] last_in_set[OF dec_digits_nonempty] by (simp add: s)
  ultimately have "trim_space ?s = ?s" by (intro trim_space_digits) (auto simp: s)
  moreover have "match_revision ?s = Some (?b, dec_digits r)"
    unfolding s by (rule match_revision_render) (use assms LF_release_body[of "n # ns"] in auto)
  moreover have "atoi (dec_digits r) = Some r" using assms by (simp add: atoi_dec_digits)
  moreover have "parse_tokens 0 [] False False ?b = Inr (map f64_of_int (n # ns), False, False)"
    using parse_tokens_release[OF assms(1), of "[]"] by simp
  moreover have "?s \<noteq> []" by (simp add: s)
  ultimately show ?thesis by (simp add: ParseVersion_def)
qed

text \<open>
  C26: A release written as dotted numbers and a revision is read back exactly: the components
  are the numbers (as long as they fit 53 bits), the revision is explicit, and the version is
  neither an scm nor a dev version.
\<close>

theorem ParseVersion_release:
  assumes "\<forall>n \<in> set ns. 0 \<le> n \<and> n < 2 ^ 53" and "ns \<noteq> []" and "0 \<le> r" and "r < 2 ^ 63"
  shows "ParseVersion (render_release ns r) = Inr \<lparr>vRaw = render_release ns r,
    vComponents = map of_int ns, vRevision = r, vHasRevision = True,
    vIsSCM = False, vIsDev = False\<rparr>"
proof -
  obtain m ms where ns: "ns = m # ms" using assms(2) by (cases ns) auto
  have "map f64_of_int ns = map of_int ns" using assms(1) by (auto intro!: f64_of_int_exact)
  moreover have "\<forall>n \<in> set (m # ms). 0 \<le> n \<and> n < 2 ^ 63" using assms(1) ns by fastforce
  ultimately show ?thesis using ParseVersion_render[of m ms r] assms(3,4) ns by simp
qed

theorem ParseVersion_release_witness:
  "ParseVersion (render_release [1, 20, 3] 4) = Inr \<lparr>vRaw = render_release [1, 20, 3] 4,
    vComponents = [1, 20, 3], vRevision = 4, vHasRevision = True, vIsSCM = False, vIsDev = False\<rparr>"
  using ParseVersion_release[of "[1, 20, 3]" 4] by simp

text \<open>The versions of in-development rocks.\<close>

lemma ParseVersion_scm: "ParseVersion ''scm-1'' = Inr \<lparr>vRaw = ''scm-1'',
    vComponents = [f64_of_int 110000000], vRevision = 1, vHasRevision = True, vIsSCM = True, vIsDev = False\<rparr>"
  by code_simp

lemma ParseVersion_dev: "ParseVersion ''dev-1'' = Inr \<lparr>vRaw = ''dev-1'',
    vComponents = [f64_of_int 120000000], vRevision = 1, vHasRevision = True, vIsSCM = False, vIsDev = True\<rparr>"
  by code_simp

lemma Compare_first_component:
  assumes "vComponents a = x # xs" and "vComponents b = y # ys" and "x < y"
  shows "Compare a b = - 1"
  using assms by (simp add: Compare_def upt_conv_Cons nth0_def Let_def del: upt_Suc)

text \<open>
  Every release whose first number is below 110000000 sorts below \<open>scm-1\<close>, which sorts
  below \<open>dev-1\<close>: in-development versions are newer than all releases.
\<close>

theorem scm_dev_above_releases:
  assumes "\<forall>n \<in> set (m # ns). 0 \<le> n \<and> n < 2 ^ 63" and "m < 110000000" and "0 \<le> r" and "r < 2 ^ 63"
    and "ParseVersion (render_release (m # ns) r) = Inr rel"
    and "ParseVersion ''scm-1'' = Inr scm" and "ParseVersion ''dev-1'' = Inr dev"
  shows "Compare rel scm = - 1 \<and> Compare scm dev = - 1 \<and> Compare rel dev = - 1"
proof -
  have "vComponents rel = of_int m # map f64_of_int ns"
    using ParseVersion_render[OF assms(1,3,4)] assms(1,2,5) f64_of_int_exact[of m] by auto
  moreover have "vComponents scm = [110000000]" "vComponents dev = [120000000]"
    using assms(6,7) ParseVersion_scm ParseVersion_dev by (auto simp: f64_of_int_exact)
  moreover have "(of_int m :: rat) < 110000000" using assms(2) by (simp add: of_int_less_numeral_iff)
  ultimately show ?thesis
    using Compare_first_component[of rel] Compare_first_component[of scm] by auto
qed

theorem scm_dev_above_releases_witness:
  "\<exists>rel scm dev. ParseVersion (render_release [3, 7] 1) = Inr rel \<and>
    Compare rel scm = - 1 \<and> Compare scm dev = - 1 \<and> Compare rel dev = - 1"
proof -
  obtain rel where r: "ParseVersion (render_release [3, 7] 1) = Inr rel"
    using ParseVersion_render[of 3 "[7]" 1] by simp
  show ?thesis
    using scm_dev_above_releases[OF _ _ _ _ r ParseVersion_scm ParseVersion_dev] r by auto
qed

section \<open>Equality against order\<close>

lemma Equal_iff:
  "Equal a b \<longleftrightarrow> vComponents a = vComponents b \<and>
     (vHasRevision a \<and> vHasRevision b \<longrightarrow> vRevision a = vRevision b)"
proof -
  have neq: "length xs \<noteq> length ys \<or> (\<exists>i \<in> set [0..<length xs]. xs ! i \<noteq> ys ! i)"
    if "xs \<noteq> ys" for xs ys :: "float64 list"
    using that by (auto intro: nth_equalityI)
  show ?thesis
  proof (cases "vComponents a = vComponents b")
    case True
    then show ?thesis by (auto simp: Equal_def)
  next
    case False
    show ?thesis using neq[OF False] False by (simp add: Equal_def)
  qed
qed

lemma compare_at_eq_0: "compare_at is as bs = 0 \<longleftrightarrow> (\<forall>i \<in> set is. nth0 as i = nth0 bs i)"
  by (induction "is") (auto simp: Let_def)

lemma Compare_eq_0:
  "Compare a b = 0 \<longleftrightarrow>
     (\<forall>i \<in> {0..<max (length (vComponents b)) (length (vComponents a))}.
        nth0 (vComponents a) i = nth0 (vComponents b) i) \<and>
     (vHasRevision a \<and> vHasRevision b \<longrightarrow> vRevision a = vRevision b)"
  using compare_at_eq_0[of "[0..<max (length (vComponents b)) (length (vComponents a))]"
      "vComponents a" "vComponents b"]
  by (simp add: Compare_def Let_def)

lemma nth0_eq_iff:
  "length xs = length ys \<Longrightarrow> (\<forall>i \<in> {0..<length xs}. nth0 xs i = nth0 ys i) \<longleftrightarrow> xs = ys"
  by (auto simp: nth0_def intro: nth_equalityI)

text \<open>
  \<open>Equal\<close> is finer than the order: equal versions compare as 0, and two versions of the
  same number of components that compare as 0 are equal; 5.1 and 5.1.0 compare as 0 without
  being equal.
\<close>

theorem Equal_vs_Compare:
  "(Equal a b \<longrightarrow> Compare a b = 0) \<and>
   (Compare a b = 0 \<and> length (vComponents a) = length (vComponents b) \<longrightarrow> Equal a b)"
  using nth0_eq_iff[of "vComponents a" "vComponents b"]
  by (auto simp: Equal_iff Compare_eq_0)

theorem Equal_vs_Compare_witness:
  "Compare (zero_version\<lparr>vComponents := [5, 1]\<rparr>) (zero_version\<lparr>vComponents := [5, 1]\<rparr>) = 0"
  using Equal_vs_Compare[of "zero_version\<lparr>vComponents := [5, 1]\<rparr>" "zero_version\<lparr>vComponents := [5, 1]\<rparr>"]
  by (simp add: Equal_def zero_version_def)

end
