(* ===== verification/Rocktypes.thy ===== *)
theory Rocktypes
  imports Version
begin

text \<open>
  The field-only data types of \<open>src/types.go\<close>. A Go struct is a record, a Go map an
  association list, a pointer an option. The two recursive structs (a source or build table
  that carries per-platform tables of its own kind) are a datatype over the record of the
  flat fields and the map of the overlays. A nil map and an empty map are the same value
  here; where the code tests for nil, the model says what the test amounts to.
\<close>

record constraint =
  cOp :: string
  cVersion :: version

record dep =
  dName :: string
  dNamespace :: string
  dConstraints :: "constraint list"

record external_dep =
  xHeader :: string
  xLibrary :: string

record description =
  deSummary :: string
  deDetailed :: string
  deLicense :: string
  deHomepage :: string
  deIssuesURL :: string
  deMaintainer :: string
  deLabels :: "string list"

record source_tbl =
  sURL :: string
  sTag :: string
  sBranch :: string
  sMD5 :: string
  sFile :: string
  sDir :: string
  sModule :: string
  sIdentifier :: string

datatype source = Source (sFields: source_tbl) (sPlatforms: "(string \<times> source) list")

record module_entry =
  mPath :: string
  mSources :: "string list"
  mIncdirs :: "string list"
  mLibdirs :: "string list"
  mLibraries :: "string list"
  mDefines :: "string list"

record build_install =
  iLua :: "(string, string) gomap"
  iLib :: "(string, string) gomap"
  iBin :: "(string, string) gomap"
  iConf :: "(string, string) gomap"

record build_tbl =
  bType :: string
  bModules :: "(string, module_entry) gomap"
  bInstall :: build_install
  bCopyDirectories :: "string list"
  bVariables :: "(string, string) gomap"
  bMakefile :: string
  bBuildTarget :: string
  bBuildVariables :: "(string, string) gomap"
  bInstallTarget :: string
  bInstallVariables :: "(string, string) gomap"
  bBuildPass :: "bool option"
  bInstallPass :: "bool option"
  bBuildCommand :: string
  bInstallCommand :: string

datatype build = Build (bFields: build_tbl) (bPlatforms: "(string \<times> build) list")

text \<open>The \<open>Deploy\<close> table has one field, \<open>WrapBinScripts\<close>, with nil for an absent value.\<close>

record deploy_tbl =
  wrapBinScripts_opt :: "bool option"

record rockspec =
  rPackage :: string
  rVersion :: string
  rRockspecFormat :: string
  rDescription :: description
  rSupportedPlatforms :: "string list"
  rDependencies :: "dep list"
  rBuildDependencies :: "dep list"
  rExternalDependencies :: "(string, external_dep) gomap"
  rTestDependencies :: "dep list"
  rSource :: source
  rBuild :: build
  rDeploy :: deploy_tbl
  rHasBuild :: bool
  rRawSource :: string
  rDependenciesPlatforms :: "(string, dep list) gomap"
  rBuildDependenciesPlatforms :: "(string, dep list) gomap"
  rTestDependenciesPlatforms :: "(string, dep list) gomap"
  rExternalDependenciesPlatforms :: "(string, (string, external_dep) gomap) gomap"

record repo_entry =
  eArch :: string
  eModules :: "(string, string) gomap"
  eCommands :: "(string, string) gomap"
  eDependencies :: "(string, string) gomap"

record manifest =
  mfRepository :: "(string, (string, repo_entry) gomap) gomap"
  mfModules :: "(string, string list) gomap"
  mfCommands :: "(string, string list) gomap"
  mfDependencies :: "(string, (string, dep list) gomap) gomap"

record versioned_rock =
  vrName :: string
  vrVersion :: version
  vrURL :: string
  vrSpec :: "rockspec option"

record install_step =
  isName :: string
  isVersion :: version
  isURL :: string
  isRockspec :: "rockspec option"

record rock_manifest =
  rmRockspecFile :: string
  rmRockspec :: string
  rmLua :: "(string, string) gomap"
  rmLib :: "(string, string) gomap"
  rmBin :: "(string, string) gomap"
  rmConf :: "(string, string) gomap"
  rmDoc :: "(string, string) gomap"

section \<open>Zero values\<close>

definition zero_source_tbl :: source_tbl where
  "zero_source_tbl = \<lparr>sURL = [], sTag = [], sBranch = [], sMD5 = [], sFile = [], sDir = [],
     sModule = [], sIdentifier = []\<rparr>"

definition zero_module :: module_entry where
  "zero_module = \<lparr>mPath = [], mSources = [], mIncdirs = [], mLibdirs = [], mLibraries = [],
     mDefines = []\<rparr>"

definition zero_install :: build_install where
  "zero_install = \<lparr>iLua = [], iLib = [], iBin = [], iConf = []\<rparr>"

definition zero_build_tbl :: build_tbl where
  "zero_build_tbl = \<lparr>bType = [], bModules = [], bInstall = zero_install, bCopyDirectories = [],
     bVariables = [], bMakefile = [], bBuildTarget = [], bBuildVariables = [], bInstallTarget = [],
     bInstallVariables = [], bBuildPass = None, bInstallPass = None, bBuildCommand = [],
     bInstallCommand = []\<rparr>"

definition zero_description :: description where
  "zero_description = \<lparr>deSummary = [], deDetailed = [], deLicense = [], deHomepage = [],
     deIssuesURL = [], deMaintainer = [], deLabels = []\<rparr>"

definition zero_rockspec :: rockspec where
  "zero_rockspec = \<lparr>rPackage = [], rVersion = [], rRockspecFormat = [],
     rDescription = zero_description, rSupportedPlatforms = [], rDependencies = [],
     rBuildDependencies = [], rExternalDependencies = [], rTestDependencies = [],
     rSource = Source zero_source_tbl [], rBuild = Build zero_build_tbl [],
     rDeploy = \<lparr>wrapBinScripts_opt = None\<rparr>, rHasBuild = False, rRawSource = [],
     rDependenciesPlatforms = [], rBuildDependenciesPlatforms = [],
     rTestDependenciesPlatforms = [], rExternalDependenciesPlatforms = []\<rparr>"

end
