(* ===== verification/ManifStore.thy ===== *)
theory ManifStore
  imports LuaRoundtrip FileSystem Rocktypes
begin

text \<open>
  The manifest files: \<open>src/manif/store.go\<close>. The tree manifest and the rock manifest are
  converted to and from the values of \<open>LuaWriter\<close>, and written through a temporary file that is
  renamed into place.
\<close>

datatype store_error =
    NilManifest
  | ReadFailed string
  | ParseFailed "nat \<times> nat" parse_error
  | WantMap string
  | WantArray string
  | WantString string
  | ArchMissing
  | EmptyArchArray
  | DepEntryNotMap nat
  | ConstraintNotMap
  | MissingRockManifest
  | MkdirFailed string
  | CreateFailed string
  | EncodeFailed write_error
  | CloseFailed string
  | RenameFailed string

text \<open>A loop over the entries of a list or map that stops at the first error.\<close>

fun traverse :: "('a \<Rightarrow> 'e + 'b) \<Rightarrow> 'a list \<Rightarrow> 'e + 'b list" where
  "traverse f [] = Inr []"
| "traverse f (x # xs) = (case f x of Inl e \<Rightarrow> Inl e | Inr y \<Rightarrow>
     (case traverse f xs of Inl e \<Rightarrow> Inl e | Inr ys \<Rightarrow> Inr (y # ys)))"

lemma traverse_Inr: "(\<And>x. x \<in> set xs \<Longrightarrow> f x = Inr (g x)) \<Longrightarrow> traverse f xs = Inr (map g xs)"
  by (induction xs) auto

section \<open>Writing a file atomically\<close>

definition writeAtomic :: "string \<Rightarrow> lval \<Rightarrow> fs \<Rightarrow> store_error option \<times> fs" where
  "writeAtomic filePath tbl s0 =
     (case os_mkdir_all (path_dir filePath) s0 of
        (Some e, s1) \<Rightarrow> (Some (MkdirFailed e), s1)
      | (None, s1) \<Rightarrow>
         (let tmp = filePath @ ''.tmp'' in
          case os_create tmp 438 s1 of
            (Some e, s2) \<Rightarrow> (Some (CreateFailed e), s2)
          | (None, s2) \<Rightarrow>
             (case Write s2 (os_append tmp) tbl of
                (Some e, s3) \<Rightarrow>
                  (let (_, s4) = os_close s3; (_, s5) = os_remove tmp s4 in (Some (EncodeFailed e), s5))
              | (None, s3) \<Rightarrow>
                 (case os_close s3 of
                    (Some e, s4) \<Rightarrow> (let (_, s5) = os_remove tmp s4 in (Some (CloseFailed e), s5))
                  | (None, s4) \<Rightarrow>
                     (case os_rename tmp filePath s4 of
                        (Some e, s5) \<Rightarrow> (let (_, s6) = os_remove tmp s5 in (Some (RenameFailed e), s6))
                      | (None, s5) \<Rightarrow> (None, s5))))))"

section \<open>From a manifest to a table\<close>

definition string_map_table :: "(string, string) gomap \<Rightarrow> lval" where
  "string_map_table m = LMap (map (\<lambda>(k, v). (k, LStr v)) m)"

definition string_list_table :: "(string, string list) gomap \<Rightarrow> lval" where
  "string_list_table m = LMap (map (\<lambda>(k, v). (k, LArr (map LStr v))) m)"

definition versionToTable :: "version \<Rightarrow> lval" where
  "versionToTable v = LAnyMap ((AStr ''string'', LStr (vRaw v)) #
     map (\<lambda>(i, c). (AInt64 (int i), LFloat (Fin c))) (List.enumerate 1 (vComponents v)) @
     (if vHasRevision v then [(AStr ''revision'', LInt (vRevision v))] else []))"

definition dep_table :: "dep \<Rightarrow> lval" where
  "dep_table d = LMap ((''name'', LStr (dName d)) #
     (if dConstraints d \<noteq> [] then
        [(''constraints'', LArr (map (\<lambda>c. LMap [(''op'', LStr (cOp c)), (''version'', versionToTable (cVersion c))])
          (dConstraints d)))]
      else []))"

definition repo_entry_table :: "repo_entry \<Rightarrow> lval" where
  "repo_entry_table e = LMap ((''arch'', LStr (eArch e)) #
     (if eArch e = ''installed'' then
        [(''modules'', string_map_table (eModules e)), (''commands'', string_map_table (eCommands e)),
         (''dependencies'', string_map_table (eDependencies e))]
      else
        (if length (eModules e) > 0 then [(''modules'', string_map_table (eModules e))] else []) @
        (if length (eCommands e) > 0 then [(''commands'', string_map_table (eCommands e))] else [])))"

definition manifestToTable :: "manifest \<Rightarrow> lval" where
  "manifestToTable m = LMap
     [(''commands'', string_list_table (mfCommands m)),
      (''modules'', string_list_table (mfModules m)),
      (''repository'', LMap (map (\<lambda>(pkg, versions).
         (pkg, LMap (map (\<lambda>(ver, entry). (ver, LArr [repo_entry_table entry])) versions))) (mfRepository m))),
      (''dependencies'', LMap (map (\<lambda>(pkg, vers).
         (pkg, LMap (map (\<lambda>(ver, list). (ver, LArr (map dep_table list))) vers))) (mfDependencies m)))]"

section \<open>From a table to a manifest\<close>

definition as_map :: "lval \<Rightarrow> (string \<times> lval) list option" where
  "as_map v = (case v of LMap m \<Rightarrow> Some m | _ \<Rightarrow> None)"

definition as_array :: "lval \<Rightarrow> lval list option" where
  "as_array v = (case v of LArr xs \<Rightarrow> Some xs | _ \<Rightarrow> None)"

definition as_string :: "lval \<Rightarrow> string option" where
  "as_string v = (case v of LStr s \<Rightarrow> Some s | _ \<Rightarrow> None)"

lemmas type_tests = as_map_def as_array_def as_string_def

text \<open>\<open>m[k].(string)\<close> with the zero value when the key is absent or of another type.\<close>

definition string_field :: "(string \<times> lval) list \<Rightarrow> string \<Rightarrow> string" where
  "string_field m k = (case Option.bind (map_of m k) as_string of Some s \<Rightarrow> s | None \<Rightarrow> [])"

definition load_strings :: "string \<Rightarrow> lval list \<Rightarrow> store_error + string list" where
  "load_strings name xs = traverse (\<lambda>x. case as_string x of None \<Rightarrow> Inl (WantString name) | Some s \<Rightarrow> Inr s) xs"

definition loadStringListMap :: "lval \<Rightarrow> string \<Rightarrow> store_error + (string, string list) gomap" where
  "loadStringListMap v name = (case as_map v of
     None \<Rightarrow> Inl (WantMap name)
   | Some tm \<Rightarrow> traverse (\<lambda>(k, raw). case as_array raw of
       None \<Rightarrow> Inl (WantArray k)
     | Some arr \<Rightarrow> (case load_strings k arr of Inl e \<Rightarrow> Inl e | Inr lst \<Rightarrow> Inr (k, lst))) tm)"

definition string_submap :: "(string \<times> lval) list \<Rightarrow> string \<Rightarrow> store_error + (string, string) gomap" where
  "string_submap entry key = (case Option.bind (map_of entry key) as_map of
     None \<Rightarrow> Inr []
   | Some sub \<Rightarrow> traverse (\<lambda>(k, v). case as_string v of
       None \<Rightarrow> Inl (WantString k) | Some s \<Rightarrow> Inr (k, s)) sub)"

definition extractRepoEntry :: "lval \<Rightarrow> store_error + repo_entry" where
  "extractRepoEntry v = (case as_array v of
     None \<Rightarrow> Inl (WantArray ''arch'')
   | Some [] \<Rightarrow> Inl EmptyArchArray
   | Some (x # _) \<Rightarrow> (case as_map x of
       None \<Rightarrow> Inl (WantMap ''arch'')
     | Some entry \<Rightarrow> (case Option.bind (map_of entry ''arch'') as_string of
         None \<Rightarrow> Inl ArchMissing
       | Some arch \<Rightarrow> (case string_submap entry ''modules'' of
           Inl e \<Rightarrow> Inl e
         | Inr mods \<Rightarrow> (case string_submap entry ''commands'' of
             Inl e \<Rightarrow> Inl e
           | Inr cmds \<Rightarrow> (case string_submap entry ''dependencies'' of
               Inl e \<Rightarrow> Inl e
             | Inr deps \<Rightarrow> Inr \<lparr>eArch = arch, eModules = mods, eCommands = cmds, eDependencies = deps\<rparr>))))))"

definition numToFloat :: "lval \<Rightarrow> float64 option" where
  "numToFloat v = (case v of LInt n \<Rightarrow> Some (f64_of_int n) | LFloat (Fin q) \<Rightarrow> Some q | _ \<Rightarrow> None)"

definition trunc_float :: "float64 \<Rightarrow> int" where
  "trunc_float q = (if 0 \<le> q then \<lfloor>q\<rfloor> else \<lceil>q\<rceil>)"

definition version_fields :: "(string \<times> lval) list \<Rightarrow> float64 list \<Rightarrow> version" where
  "version_fields strs comps =
     (let out = zero_version\<lparr>vRaw := string_field strs ''string'', vComponents := comps\<rparr>
      in case Option.bind (map_of strs ''revision'') numToFloat of
           None \<Rightarrow> out
         | Some rv \<Rightarrow> out\<lparr>vRevision := trunc_float rv, vHasRevision := True\<rparr>)"

definition constraintVersionFromValue :: "lval option \<Rightarrow> version" where
  "constraintVersionFromValue v = (case v of
     Some (LStr s) \<Rightarrow> zero_version\<lparr>vRaw := s\<rparr>
   | Some (LTab strs nums) \<Rightarrow> version_fields strs (List.map_filter (\<lambda>(k, x). numToFloat x) nums)
   | Some (LMap strs) \<Rightarrow> version_fields strs []
   | _ \<Rightarrow> zero_version)"

definition load_constraint :: "lval \<Rightarrow> store_error + constraint" where
  "load_constraint c = (case as_map c of
     None \<Rightarrow> Inl ConstraintNotMap
   | Some cm \<Rightarrow> Inr \<lparr>cOp = string_field cm ''op'',
       cVersion = constraintVersionFromValue (map_of cm ''version'')\<rparr>)"

definition load_dep :: "nat \<times> lval \<Rightarrow> store_error + dep" where
  "load_dep = (\<lambda>(i, raw). case as_map raw of
     None \<Rightarrow> Inl (DepEntryNotMap i)
   | Some m \<Rightarrow>
       (case (case Option.bind (map_of m ''constraints'') as_array of
                None \<Rightarrow> Inr [] | Some cs \<Rightarrow> traverse load_constraint cs) of
          Inl e \<Rightarrow> Inl e
        | Inr cs \<Rightarrow> Inr \<lparr>dName = string_field m ''name'', dNamespace = [], dConstraints = cs\<rparr>))"

definition loadDepList :: "lval \<Rightarrow> store_error + dep list" where
  "loadDepList v = (case as_array v of
     None \<Rightarrow> (if v = LMap [] then Inr [] else Inl (WantArray ''dep''))
   | Some arr \<Rightarrow> traverse load_dep (List.enumerate 0 arr))"

text \<open>The two nested loops of \<open>manifestFromTable\<close>, over packages and over versions.\<close>

definition load_nested :: "string \<Rightarrow> (lval \<Rightarrow> store_error + 'a) \<Rightarrow> lval option \<Rightarrow>
    store_error + (string, (string, 'a) gomap) gomap" where
  "load_nested name f v = (case v of
     None \<Rightarrow> Inr []
   | Some v \<Rightarrow> (case as_map v of
       None \<Rightarrow> Inl (WantMap name)
     | Some outer \<Rightarrow> traverse (\<lambda>(pkg, vAny). case as_map vAny of
         None \<Rightarrow> Inl (WantMap pkg)
       | Some verMap \<Rightarrow>
          (case traverse (\<lambda>(ver, vv). case f vv of Inl e \<Rightarrow> Inl e | Inr x \<Rightarrow> Inr (ver, x)) verMap of
             Inl e \<Rightarrow> Inl e | Inr inner \<Rightarrow> Inr (pkg, inner))) outer))"

definition load_lists :: "string \<Rightarrow> lval option \<Rightarrow> store_error + (string, string list) gomap" where
  "load_lists name v = (case v of None \<Rightarrow> Inr [] | Some v \<Rightarrow> loadStringListMap v name)"

definition manifestFromTable :: "(string \<times> lval) list \<Rightarrow> store_error + manifest" where
  "manifestFromTable t = (case load_lists ''modules'' (map_of t ''modules'') of
     Inl e \<Rightarrow> Inl e
   | Inr mods \<Rightarrow> (case load_lists ''commands'' (map_of t ''commands'') of
       Inl e \<Rightarrow> Inl e
     | Inr cmds \<Rightarrow> (case load_nested ''repository'' extractRepoEntry (map_of t ''repository'') of
         Inl e \<Rightarrow> Inl e
       | Inr repo \<Rightarrow> (case load_nested ''dependencies'' loadDepList (map_of t ''dependencies'') of
           Inl e \<Rightarrow> Inl e
         | Inr deps \<Rightarrow> Inr \<lparr>mfRepository = repo, mfModules = mods, mfCommands = cmds, mfDependencies = deps\<rparr>))))"

definition manifest_path :: "string \<Rightarrow> string" where
  "manifest_path treePath = path_join [treePath, ''manifest'']"

definition ReadTree :: "fs \<Rightarrow> string \<Rightarrow> store_error + manifest" where
  "ReadTree s treePath = (case os_read s (manifest_path treePath) of
     Inl e \<Rightarrow> Inl (ReadFailed e)
   | Inr data \<Rightarrow> (case Parse data of
       Inl (pos, e) \<Rightarrow> Inl (ParseFailed pos e)
     | Inr v \<Rightarrow> (case as_map v of
         None \<Rightarrow> Inl (WantMap ''top'')
       | Some tm \<Rightarrow> manifestFromTable tm)))"

definition WriteTree :: "string \<Rightarrow> manifest option \<Rightarrow> fs \<Rightarrow> store_error option \<times> fs" where
  "WriteTree treePath m s = (case m of
     None \<Rightarrow> (Some NilManifest, s)
   | Some m \<Rightarrow> writeAtomic (manifest_path treePath) (manifestToTable m) s)"

section \<open>Rock manifests\<close>

text \<open>One path folded into the tree, by its components; a leaf in the way gives way to a directory.\<close>

fun nest_put :: "string list \<Rightarrow> string \<Rightarrow> (string \<times> lval) list \<Rightarrow> (string \<times> lval) list" where
  "nest_put [] md5 cur = cur"
| "nest_put [p] md5 cur = mput p (LStr md5) cur"
| "nest_put (p # q # ps) md5 cur =
     (let next = (case map_of cur p of Some (LMap n) \<Rightarrow> n | _ \<Rightarrow> [])
      in mput p (LMap (nest_put (q # ps) md5 next)) cur)"

definition stringMapToNested :: "(string, string) gomap \<Rightarrow> (string \<times> lval) list" where
  "stringMapToNested m = foldl (\<lambda>root (full, md5). nest_put (split_char full (CHR ''/'')) md5 root) [] m"

definition legacyRockspecKey :: string where
  "legacyRockspecKey = ''rockspec''"

definition addDir :: "string \<Rightarrow> (string, string) gomap \<Rightarrow> (string \<times> lval) list \<Rightarrow> (string \<times> lval) list" where
  "addDir name m out = (if length m = 0 then out else mput name (LMap (stringMapToNested m)) out)"

definition rockManifestToTable :: "rock_manifest \<Rightarrow> (string \<times> lval) list" where
  "rockManifestToTable rm =
     (let out = (if rmRockspec rm \<noteq> [] then
                   [(if rmRockspecFile rm = [] then legacyRockspecKey else rmRockspecFile rm, LStr (rmRockspec rm))]
                 else [])
      in addDir ''doc'' (rmDoc rm) (addDir ''conf'' (rmConf rm) (addDir ''bin'' (rmBin rm)
           (addDir ''lib'' (rmLib rm) (addDir ''lua'' (rmLua rm) out)))))"

text \<open>
  \<open>sprintv\<close> stands for \<open>fmt.Sprintf\<close> of a leaf that is neither a string nor a table, which the
  writer never produces.
\<close>

function flattenNested :: "(lval \<Rightarrow> string) \<Rightarrow> string \<Rightarrow> (string \<times> lval) list \<Rightarrow> (string, string) gomap \<Rightarrow>
    (string, string) gomap" where
  "flattenNested sprintv pre [] dst = dst"
| "flattenNested sprintv pre ((k, v) # m) dst =
     (let full = (if pre \<noteq> [] then pre @ ''/'' @ k else k)
      in flattenNested sprintv pre m (case v of
           LStr x \<Rightarrow> mput full x dst
         | LMap x \<Rightarrow> flattenNested sprintv full x dst
         | x \<Rightarrow> mput full (sprintv x) dst))"
  by pat_completeness auto
termination
  by (relation "measure (\<lambda>(f, pre, m, dst). size_list (size_prod (\<lambda>x. 0) size) m)") auto

definition is_rockspec_key :: "string \<Rightarrow> bool" where
  "is_rockspec_key key \<longleftrightarrow> key = legacyRockspecKey \<or> has_suffix key ''.rockspec''"

definition load_dir :: "(lval \<Rightarrow> string) \<Rightarrow> (string \<times> lval) list \<Rightarrow> string \<Rightarrow> store_error + (string, string) gomap" where
  "load_dir sprintv t key = (case map_of t key of
     None \<Rightarrow> Inr []
   | Some v \<Rightarrow> (case as_map v of None \<Rightarrow> Inl (WantMap key) | Some m \<Rightarrow> Inr (flattenNested sprintv [] m [])))"

definition rockManifestFromTable :: "(lval \<Rightarrow> string) \<Rightarrow> (string \<times> lval) list \<Rightarrow> store_error + rock_manifest" where
  "rockManifestFromTable sprintv t =
     (case (case List.find (\<lambda>(key, v). is_rockspec_key key) t of
              None \<Rightarrow> Inr ([], [])
            | Some (key, v) \<Rightarrow> (case as_string v of
                None \<Rightarrow> Inl (WantString key)
              | Some s \<Rightarrow> Inr (if key \<noteq> legacyRockspecKey then key else [], s))) of
        Inl e \<Rightarrow> Inl e
      | Inr (file, spec) \<Rightarrow>
          (case traverse (load_dir sprintv t) [''lua'', ''lib'', ''bin'', ''conf'', ''doc''] of
             Inr [lua, lib, bin, conf, doc] \<Rightarrow>
               Inr \<lparr>rmRockspecFile = file, rmRockspec = spec, rmLua = lua, rmLib = lib, rmBin = bin,
                 rmConf = conf, rmDoc = doc\<rparr>
           | Inr _ \<Rightarrow> Inl MissingRockManifest
           | Inl e \<Rightarrow> Inl e))"

definition ReadRock :: "(lval \<Rightarrow> string) \<Rightarrow> fs \<Rightarrow> string \<Rightarrow> store_error + rock_manifest" where
  "ReadRock sprintv s filePath = (case os_read s filePath of
     Inl e \<Rightarrow> Inl (ReadFailed e)
   | Inr data \<Rightarrow> (case Parse data of
       Inl (pos, e) \<Rightarrow> Inl (ParseFailed pos e)
     | Inr v \<Rightarrow> (case as_map v of
         None \<Rightarrow> Inl (WantMap ''top'')
       | Some tm \<Rightarrow> (case map_of tm ''rock_manifest'' of
           None \<Rightarrow> Inl MissingRockManifest
         | Some inner \<Rightarrow> (case as_map inner of
             None \<Rightarrow> Inl (WantMap ''rock_manifest'')
           | Some innerMap \<Rightarrow> rockManifestFromTable sprintv innerMap)))))"

definition WriteRock :: "string \<Rightarrow> rock_manifest option \<Rightarrow> fs \<Rightarrow> store_error option \<times> fs" where
  "WriteRock filePath rm s = (case rm of
     None \<Rightarrow> (Some NilManifest, s)
   | Some rm \<Rightarrow> writeAtomic filePath (LMap [(''rock_manifest'', LMap (rockManifestToTable rm))]) s)"

section \<open>Atomicity\<close>

text \<open>A sink that only changes one file, and what the file holds after a run without error.\<close>

lemma buf_write_file:
  assumes "put b = os_append t"
  shows "put (buf_write b c) = os_append t \<and>
    (\<forall>p. p \<noteq> t \<longrightarrow> file_at (sink (buf_write b c)) p = file_at (sink b) p) \<and>
    (err (buf_write b c) = None \<longrightarrow>
      err b = None \<and> file_at (sink (buf_write b c)) t = map_option (\<lambda>x. x @ c) (file_at (sink b) t))"
proof (cases "err b")
  case None
  obtain e w where w: "os_append t (sink b) c = (e, w)" by (cases "os_append t (sink b) c")
  have bw: "buf_write b c = b\<lparr>sink := w, err := map_option Sink e\<rparr>"
    using assms None w by (simp add: buf_write_def)
  have "file_at w t = map_option (\<lambda>x. x @ c) (file_at (sink b) t)" if "e = None"
    using os_append_None[OF w[unfolded that]] .
  then show ?thesis
    unfolding bw using assms None os_append_files[OF w] by (cases e) simp_all
qed (simp add: buf_write_def assms)

lemma foldl_writes:
  assumes "put b = os_append t"
  shows "(\<forall>p. p \<noteq> t \<longrightarrow> file_at (sink (foldl buf_write b cs)) p = file_at (sink b) p) \<and>
    (err (foldl buf_write b cs) = None \<longrightarrow>
      err b = None \<and> file_at (sink (foldl buf_write b cs)) t = map_option (\<lambda>x. x @ concat cs) (file_at (sink b) t))"
  using assms
proof (induction cs arbitrary: b)
  case Nil
  then show ?case by (simp add: option.map_ident)
next
  case (Cons c cs)
  define b1 where "b1 = buf_write b c"
  note one = buf_write_file[OF Cons.prems, of c, folded b1_def]
  define b2 where "b2 = foldl buf_write b1 cs"
  have rest: "(\<forall>p. p \<noteq> t \<longrightarrow> file_at (sink b2) p = file_at (sink b1) p) \<and>
      (err b2 = None \<longrightarrow> err b1 = None \<and> file_at (sink b2) t = map_option (\<lambda>x. x @ concat cs) (file_at (sink b1) t))"
    unfolding b2_def by (rule Cons.IH) (use one in simp)
  have "foldl buf_write b (c # cs) = b2" by (simp add: b1_def b2_def)
  moreover have "file_at (sink b2) p = file_at (sink b) p" if "p \<noteq> t" for p
    using conjunct1[OF conjunct2[OF one]] conjunct1[OF rest] that by simp
  moreover have "file_at (sink b2) t = map_option (\<lambda>x. x @ concat (c # cs)) (file_at (sink b) t)" if "err b2 = None"
  proof -
    have "file_at (sink b2) t = map_option (\<lambda>x. x @ concat cs) (map_option (\<lambda>x. x @ c) (file_at (sink b) t))"
      using conjunct2[OF conjunct2[OF one]] conjunct2[OF rest] that by metis
    then show ?thesis by (simp add: option.map_comp comp_def)
  qed
  moreover have "err b = None" if "err b2 = None"
    using conjunct2[OF conjunct2[OF one]] conjunct2[OF rest] that by simp
  ultimately show ?case by simp
qed

definition encodable :: "(string \<times> lval) list \<Rightarrow> bool" where
  "encodable m \<longleftrightarrow> (\<forall>(k, v) \<in> set m. isValidPlainKey k \<and> writable v)"

lemma Write_file:
  assumes "encodable m" and "Write s (os_append t) (LMap m) = (e, s')"
  shows "\<And>p. p \<noteq> t \<Longrightarrow> file_at s' p = file_at s p"
    "e = None \<Longrightarrow> file_at s' t = map_option (\<lambda>c. c @ show_assignments (sort_key fst m)) (file_at s t)"
proof -
  have ss: "\<forall>(k, v) \<in> set (by_keys m). isValidPlainKey k \<and> writable v" using assms(1) by (simp add: encodable_def by_keys_def)
  let ?b = "\<lparr>sink = s, put = os_append t, err = None\<rparr>"
  obtain cs where cs: "concat cs = show_assignments (by_keys m)"
    "\<forall>out :: fs bufWriter. writeTableAsAssignments out (by_keys m, []) = (None, foldl buf_write out cs)"
    using writes_assignments[OF ss, where 'w = fs] by auto
  define b' where "b' = foldl buf_write ?b cs"
  have r: "s' = sink b'" "e = err b'" using assms(2) cs by (simp_all add: Write_def normalizeTable_def b'_def)
  have p: "put ?b = os_append t" by simp
  show "file_at s' p = file_at s p" if "p \<noteq> t" for p
    using foldl_writes[OF p, of cs] r that by (simp add: b'_def)
  show "file_at s' t = map_option (\<lambda>c. c @ show_assignments (sort_key fst m)) (file_at s t)" if "e = None"
    using foldl_writes[OF p, of cs] r that cs(1) by (simp add: by_keys_def b'_def)
qed

lemma writeAtomic_files:
  assumes "encodable m" and "writeAtomic p (LMap m) s = (e, s')"
  shows "\<And>q. q \<noteq> p @ ''.tmp'' \<Longrightarrow> q \<noteq> p \<or> e \<noteq> None \<Longrightarrow> file_at s' q = file_at s q"
    "e = None \<Longrightarrow> file_at s' p = Some (show_assignments (sort_key fst m)) \<and> file_at s' (p @ ''.tmp'') = None"
proof -
  let ?t = "p @ ''.tmp''"
  let ?tx = "show_assignments (sort_key fst m)"
  have "(\<forall>q. q \<noteq> ?t \<longrightarrow> (q \<noteq> p \<or> e \<noteq> None) \<longrightarrow> file_at s' q = file_at s q) \<and>
      (e = None \<longrightarrow> file_at s' p = Some ?tx \<and> file_at s' ?t = None)"
  proof -
    obtain e1 s1 where 1: "os_mkdir_all (path_dir p) s = (e1, s1)" by (cases "os_mkdir_all (path_dir p) s")
    note f1 = os_mkdir_all_files[OF 1]
    obtain e2 s2 where 2: "os_create ?t 438 s1 = (e2, s2)" by (cases "os_create ?t 438 s1")
    note f2 = os_create_files[OF 2]
    obtain e3 s3 where 3: "Write s2 (os_append ?t) (LMap m) = (e3, s3)" by (cases "Write s2 (os_append ?t) (LMap m)")
    note f3 = Write_file[OF assms(1) 3]
    obtain e4 s4 where 4: "os_close s3 = (e4, s4)" by (cases "os_close s3")
    note f4 = os_close_files[OF 4]
    obtain e5 s5 where 5: "os_rename ?t p s4 = (e5, s5)" by (cases "os_rename ?t p s4")
    note f5 = os_rename_files[OF 5]
    have rm: "file_at (snd (os_remove ?t w)) q = file_at w q" if "q \<noteq> ?t" for w q
      using os_remove_files[of ?t w] that by (cases "os_remove ?t w") auto
    show ?thesis
    proof (cases e1)
      case (Some x)
      then show ?thesis using assms(2) 1 f1 by (auto simp: writeAtomic_def)
    next
      case None
      note n1 = None
      show ?thesis
      proof (cases e2)
        case (Some x)
        then show ?thesis using assms(2) 1 2 n1 f1 f2 by (auto simp: writeAtomic_def)
      next
        case None
        note n2 = None
        show ?thesis
        proof (cases e3)
          case (Some x)
          then have "s' = snd (os_remove ?t s4)" "e \<noteq> None"
            using assms(2) 1 2 3 4 n1 n2 by (auto simp: writeAtomic_def Let_def split: prod.splits)
          then show ?thesis using rm f1 f2 f3(1) f4 n2 by auto
        next
          case None
          note n3 = None
          show ?thesis
          proof (cases e4)
            case (Some x)
            then have "s' = snd (os_remove ?t s4)" "e \<noteq> None"
              using assms(2) 1 2 3 4 n1 n2 n3 by (auto simp: writeAtomic_def Let_def split: prod.splits)
            then show ?thesis using rm f1 f2 f3(1) f4 n2 by auto
          next
            case None
            note n4 = None
            show ?thesis
            proof (cases e5)
              case (Some x)
              then have "s' = snd (os_remove ?t s5)" "e \<noteq> None"
                using assms(2) 1 2 3 4 5 n1 n2 n3 n4 by (auto simp: writeAtomic_def Let_def split: prod.splits)
              then show ?thesis using rm f1 f2 f3(1) f4 f5 n2 Some by auto
            next
              case None
              then have "s' = s5" "e = None"
                using assms(2) 1 2 3 4 5 n1 n2 n3 n4 by (auto simp: writeAtomic_def Let_def)
              then show ?thesis using f1 f2 f3 f4 f5 n2 n3 None by auto
            qed
          qed
        qed
      qed
    qed
  qed
  then show "\<And>q. q \<noteq> p @ ''.tmp'' \<Longrightarrow> q \<noteq> p \<or> e \<noteq> None \<Longrightarrow> file_at s' q = file_at s q"
    "e = None \<Longrightarrow> file_at s' p = Some (show_assignments (sort_key fst m)) \<and> file_at s' (p @ ''.tmp'') = None"
    by blast+
qed

text \<open>
  C6: Writing a manifest is atomic under every schedule of disk errors: if any step fails, the
  file keeps its old content; if none fails, it holds exactly the text of the table and the
  temporary file is gone; no other file changes either way.
\<close>

theorem writeAtomic_atomic:
  assumes "encodable m" and "writeAtomic p (LMap m) s = (e, s')"
  shows "(e \<noteq> None \<longrightarrow> file_at s' p = file_at s p) \<and>
    (e = None \<longrightarrow> file_at s' p = Some (show_assignments (sort_key fst m)) \<and> file_at s' (p @ ''.tmp'') = None) \<and>
    (\<forall>q. q \<noteq> p \<longrightarrow> q \<noteq> p @ ''.tmp'' \<longrightarrow> file_at s' q = file_at s q)"
  using writeAtomic_files[OF assms] by auto

definition sample_fs :: "nat \<Rightarrow> fs" where
  "sample_fs n = \<lparr>nodes = [(''/m'', NFile ''old'' 420)], ticks = 0,
     faults = (\<lambda>i. if i = n then Some ''EIO'' else None)\<rparr>"

theorem writeAtomic_atomic_witness:
  "(case writeAtomic ''/m'' (LMap [(''a'', LBool True)]) (sample_fs 4) of
      (e, s') \<Rightarrow> e \<noteq> None \<and> file_at s' ''/m'' = Some ''old'')"
proof -
  have enc: "encodable [(''a'', LBool True)]"
    by (simp add: encodable_def w_bool isValidPlainKey_def isIdentStart_def char_class_defs luaKeywords_def)
  obtain e s' where w: "writeAtomic ''/m'' (LMap [(''a'', LBool True)]) (sample_fs 4) = (e, s')"
    by (cases "writeAtomic ''/m'' (LMap [(''a'', LBool True)]) (sample_fs 4)")
  have "fst (writeAtomic ''/m'' (LMap [(''a'', LBool True)]) (sample_fs 4)) \<noteq> None" by code_simp
  moreover have "file_at (sample_fs 4) ''/m'' = Some ''old''" by code_simp
  ultimately show ?thesis using writeAtomic_atomic[OF enc w] w by simp
qed

end
