(* ===== verification/ManifRoundtrip.thy ===== *)
theory ManifRoundtrip
  imports ManifStore
begin

text \<open>
  The store of manifests as its clients use it: every manifest can be written, a write changes one
  file, and what was written is read back.
\<close>

section \<open>Every manifest can be written\<close>

lemma writable_LMap: "\<forall>(k, x) \<in> set m. writable x \<Longrightarrow> writable (LMap m)"
  by (rule w_table [where strs = "by_keys m" and nums = "[]"]) (auto simp: normalizeTable_def by_keys_def)

lemma writable_values: "\<forall>x \<in> snd ` set m. writable x \<Longrightarrow> writable (LMap m)"
  by (rule writable_LMap) auto

lemma writable_LArr: "\<forall>x \<in> set xs. writable x \<Longrightarrow> writable (LArr xs)"
  by (rule w_table [where strs = "[]" and nums = "zip [1..int (length xs)] xs"])
    (auto simp: normalizeTable_def dest: set_zip_rightD)

lemma writable_string_map: "writable (string_map_table m)"
  by (auto simp: string_map_table_def intro!: writable_LMap w_str)

lemma writable_string_list: "writable (string_list_table m)"
  by (auto simp: string_list_table_def intro!: writable_LMap writable_LArr w_str)

lemma mput_values: "\<forall>x \<in> snd ` set l. P x \<Longrightarrow> P v \<Longrightarrow> \<forall>x \<in> snd ` set (mput a v l). P x"
  by (induction l) auto

lemma put_any_keys_writable:
  assumes "\<forall>(k, v) \<in> set m. writable v \<and> (\<forall>ty. k \<noteq> AOther ty)"
    and "\<forall>x \<in> snd ` set strs. writable x" "\<forall>x \<in> snd ` set nums. writable x"
  shows "\<exists>strs' nums'. put_any_keys m (strs, nums) = Inr (strs', nums') \<and>
    (\<forall>x \<in> snd ` set strs'. writable x) \<and> (\<forall>x \<in> snd ` set nums'. writable x)"
  using assms
proof (induction m arbitrary: strs nums)
  case (Cons kv m)
  obtain k v where kv: "kv = (k, v)" by (cases kv)
  have wv: "writable v" using Cons.prems(1) kv by simp
  have rest: "\<forall>(k, v) \<in> set m. writable v \<and> (\<forall>ty. k \<noteq> AOther ty)" using Cons.prems(1) by simp
  show ?case
  proof (cases k)
    case (AStr s)
    then show ?thesis using Cons.IH[OF rest mput_values[OF Cons.prems(2) wv, of s] Cons.prems(3)] kv by simp
  next
    case (AInt i)
    then show ?thesis using Cons.IH[OF rest Cons.prems(2) mput_values[OF Cons.prems(3) wv, of i]] kv by simp
  next
    case (AInt64 i)
    then show ?thesis using Cons.IH[OF rest Cons.prems(2) mput_values[OF Cons.prems(3) wv, of i]] kv by simp
  next
    case (AOther ty)
    then show ?thesis using Cons.prems(1) kv by auto
  qed
qed simp

lemma writable_LAnyMap:
  assumes "\<forall>(k, v) \<in> set m. writable v \<and> (\<forall>ty. k \<noteq> AOther ty)"
  shows "writable (LAnyMap m)"
proof -
  obtain strs nums where p: "put_any_keys m ([], []) = Inr (strs, nums)"
    "\<forall>x \<in> snd ` set strs. writable x" "\<forall>x \<in> snd ` set nums. writable x"
    using put_any_keys_writable[OF assms, of "[]" "[]"] by auto
  then show ?thesis
    by (intro w_table [where strs = "by_keys strs" and nums = "by_keys nums"]) (auto simp: normalizeTable_def by_keys_def)
qed

lemma writable_dep_table: "writable (dep_table d)"
  unfolding dep_table_def versionToTable_def
  by (intro writable_LMap) (auto intro!: writable_LArr writable_LMap writable_LAnyMap w_str w_int w_float)

lemma writable_repo_entry: "writable (repo_entry_table e)"
  unfolding repo_entry_table_def
  by (intro writable_LMap) (auto intro!: writable_string_map w_str)

lemma plain_keys: "isValidPlainKey ''commands''" "isValidPlainKey ''modules''" "isValidPlainKey ''repository''"
  "isValidPlainKey ''dependencies''" "isValidPlainKey ''rock_manifest''"
  by (simp_all add: isValidPlainKey_def isIdentPart_def isIdentStart_def char_class_defs luaKeywords_def)

lemma writable_manifest_parts:
  "writable (LMap (map (\<lambda>(pkg, versions). (pkg, LMap (map (\<lambda>(ver, entry). (ver, LArr [repo_entry_table entry])) versions))) repo))"
  "writable (LMap (map (\<lambda>(pkg, vers). (pkg, LMap (map (\<lambda>(ver, ds). (ver, LArr (map dep_table ds))) vers))) deps))"
proof -
  have a: "writable (LArr [repo_entry_table e])" "writable (LArr (map dep_table ds))" for e ds
    by (rule writable_LArr; simp add: writable_repo_entry writable_dep_table)+
  have b: "writable (LMap (map (\<lambda>(ver, x). (ver, g x)) vers))" if "\<And>x. writable (g x)"
    for g :: "'a \<Rightarrow> lval" and vers :: "(string, 'a) gomap"
    by (rule writable_LMap) (use that in \<open>simp add: case_prod_unfold\<close>)
  show "writable (LMap (map (\<lambda>(pkg, versions). (pkg, LMap (map (\<lambda>(ver, entry). (ver, LArr [repo_entry_table entry])) versions))) repo))"
    by (rule b, rule b, rule a(1))
  show "writable (LMap (map (\<lambda>(pkg, vers). (pkg, LMap (map (\<lambda>(ver, ds). (ver, LArr (map dep_table ds))) vers))) deps))"
    by (rule b, rule b, rule a(2))
qed

lemma encodable_manifest: "\<exists>t. manifestToTable m = LMap t \<and> encodable t"
  unfolding manifestToTable_def encodable_def
  by (rule exI, rule conjI, rule refl)
    (simp only: list.set ball_simps prod.case plain_keys writable_string_list writable_manifest_parts simp_thms)

lemma writable_LMapD:
  assumes "writable (LMap n)"
  shows "\<forall>x \<in> snd ` set n. writable x"
  using assms
proof (cases rule: writable.cases)
  case (w_table strs nums)
  then have "strs = sort_key fst n" by (simp add: normalizeTable_def by_keys_def)
  then show ?thesis using w_table by auto
qed

lemma writable_nested: "\<forall>x \<in> snd ` set cur. writable x \<Longrightarrow> \<forall>x \<in> snd ` set (nest_put path md5 cur). writable x"
proof (induction path md5 cur rule: nest_put.induct)
  case (2 p md5 cur)
  show ?case unfolding nest_put.simps by (rule mput_values[OF 2 w_str])
next
  case (3 p q ps md5 cur)
  let ?next = "case map_of cur p of Some (LMap n) \<Rightarrow> n | _ \<Rightarrow> []"
  have nx: "\<forall>x \<in> snd ` set ?next. writable x"
  proof (cases "map_of cur p")
    case (Some v)
    have "(p, v) \<in> set cur" by (rule map_of_SomeD[OF Some])
    then have wv: "writable v" using "3.prems" by (metis image_eqI snd_conv)
    show ?thesis
    proof (cases v)
      case (LMap n)
      have "\<forall>x \<in> snd ` set n. writable x" using wv unfolding LMap by (rule writable_LMapD)
      then show ?thesis using Some LMap by simp
    qed (simp_all add: Some)
  qed simp
  have "\<forall>x \<in> snd ` set (nest_put (q # ps) md5 ?next). writable x"
    by (rule "3.IH"[OF refl nx])
  then have "writable (LMap (nest_put (q # ps) md5 ?next))" by (rule writable_values)
  then show ?case unfolding nest_put.simps Let_def by (rule mput_values[OF "3.prems"])
qed simp

lemma writable_stringMapToNested: "writable (LMap (stringMapToNested m))"
proof -
  have "\<forall>x \<in> snd ` set (foldl (\<lambda>root (full, md5). nest_put (split_char full (CHR ''/'')) md5 root) acc m). writable x"
    if "\<forall>x \<in> snd ` set acc. writable x" for acc
    using that
  proof (induction m arbitrary: acc)
    case (Cons kv m)
    obtain full md5 where kv: "kv = (full, md5)" by (cases kv)
    have "foldl (\<lambda>root (full, md5). nest_put (split_char full (CHR ''/'')) md5 root) acc (kv # m)
        = foldl (\<lambda>root (full, md5). nest_put (split_char full (CHR ''/'')) md5 root)
            (nest_put (split_char full (CHR ''/'')) md5 acc) m"
      by (simp add: kv)
    then show ?case using Cons.IH[OF writable_nested[OF Cons.prems]] by presburger
  qed simp
  from this[of "[]"] show ?thesis by (intro writable_values) (simp add: stringMapToNested_def)
qed

lemma writable_rock_table: "writable (LMap (rockManifestToTable rm))"
proof -
  have add: "\<forall>x \<in> snd ` set (addDir name m out). writable x" if "\<forall>x \<in> snd ` set out. writable x" for name m out
    using that mput_values[OF that writable_stringMapToNested] unfolding addDir_def by simp
  have "\<forall>x \<in> snd ` set (rockManifestToTable rm). writable x"
    unfolding rockManifestToTable_def Let_def by (intro add) (auto intro: w_str)
  then show ?thesis by (rule writable_values)
qed

lemma WriteTree_files:
  assumes "WriteTree dir (Some m) s = (e, s')"
  shows "q \<noteq> manifest_path dir @ ''.tmp'' \<Longrightarrow> q \<noteq> manifest_path dir \<or> e \<noteq> None \<Longrightarrow> file_at s' q = file_at s q"
proof -
  obtain t where t: "manifestToTable m = LMap t" "encodable t" using encodable_manifest by blast
  then have "writeAtomic (manifest_path dir) (LMap t) s = (e, s')" using assms by (simp add: WriteTree_def)
  then show "q \<noteq> manifest_path dir @ ''.tmp'' \<Longrightarrow> q \<noteq> manifest_path dir \<or> e \<noteq> None \<Longrightarrow> file_at s' q = file_at s q"
    using writeAtomic_files(1)[OF t(2)] by blast
qed

lemma WriteRock_files:
  assumes "WriteRock p (Some rm) s = (e, s')"
  shows "q \<noteq> p @ ''.tmp'' \<Longrightarrow> q \<noteq> p \<or> e \<noteq> None \<Longrightarrow> file_at s' q = file_at s q"
proof -
  have "encodable [(''rock_manifest'', LMap (rockManifestToTable rm))]"
    using writable_rock_table plain_keys by (simp add: encodable_def)
  from writeAtomic_files(1)[OF this] show "q \<noteq> p @ ''.tmp'' \<Longrightarrow> q \<noteq> p \<or> e \<noteq> None \<Longrightarrow> file_at s' q = file_at s q"
    using assms by (auto simp: WriteRock_def)
qed

section \<open>What was written is read back\<close>

text \<open>
  A tidy manifest is one the client can have built: the keys of a map are distinct, no name
  contains a return, the provider lists are one-line and not empty, only an installed entry has
  dependencies, and a dependency list has what the file format keeps of a constraint (no
  namespace, integral components, no development flags).
\<close>

definition keyed :: "('v \<Rightarrow> bool) \<Rightarrow> (string, 'v) gomap \<Rightarrow> bool" where
  "keyed P m \<longleftrightarrow> distinct (map fst m) \<and> (\<forall>(k, x) \<in> set m. CR \<notin> set k \<and> P x)"

definition clean_string :: "string \<Rightarrow> bool" where
  "clean_string s \<longleftrightarrow> CR \<notin> set s"

definition tidy_providers :: "string list \<Rightarrow> bool" where
  "tidy_providers xs \<longleftrightarrow> xs \<noteq> [] \<and> (\<forall>x \<in> set xs. CR \<notin> set x \<and> LF \<notin> set x)"

definition tidy_entry :: "repo_entry \<Rightarrow> bool" where
  "tidy_entry e \<longleftrightarrow> clean_string (eArch e) \<and> keyed clean_string (eModules e) \<and> keyed clean_string (eCommands e) \<and>
     keyed clean_string (eDependencies e) \<and> (eArch e \<noteq> ''installed'' \<longrightarrow> eDependencies e = [])"

definition tidy_version :: "version \<Rightarrow> bool" where
  "tidy_version v \<longleftrightarrow> clean_string (vRaw v) \<and> (\<forall>c \<in> set (vComponents v). c = of_int \<lfloor>c\<rfloor> \<and> \<bar>\<lfloor>c\<rfloor>\<bar> < 2 ^ 53) \<and>
     \<bar>vRevision v\<bar> < 2 ^ 53 \<and> (vHasRevision v \<or> vRevision v = 0) \<and> \<not> vIsSCM v \<and> \<not> vIsDev v"

definition tidy_dep :: "dep \<Rightarrow> bool" where
  "tidy_dep d \<longleftrightarrow> clean_string (dName d) \<and> dNamespace d = [] \<and>
     (\<forall>c \<in> set (dConstraints d). clean_string (cOp c) \<and> tidy_version (cVersion c))"

definition tidy_manifest :: "manifest \<Rightarrow> bool" where
  "tidy_manifest m \<longleftrightarrow> keyed tidy_providers (mfModules m) \<and> keyed tidy_providers (mfCommands m) \<and>
     keyed (keyed tidy_entry) (mfRepository m) \<and> keyed (keyed (list_all tidy_dep)) (mfDependencies m)"

text \<open>The order of the keys is all that a round trip changes.\<close>

definition in_key_order :: "('v \<Rightarrow> 'w) \<Rightarrow> (string, 'v) gomap \<Rightarrow> (string, 'w) gomap" where
  "in_key_order f m = map (\<lambda>(k, x). (k, f x)) (sort_key fst m)"

definition ordered_entry :: "repo_entry \<Rightarrow> repo_entry" where
  "ordered_entry e = e\<lparr>eModules := in_key_order id (eModules e), eCommands := in_key_order id (eCommands e),
     eDependencies := in_key_order id (eDependencies e)\<rparr>"

definition ordered_manifest :: "manifest \<Rightarrow> manifest" where
  "ordered_manifest m = \<lparr>mfRepository = in_key_order (in_key_order ordered_entry) (mfRepository m),
     mfModules = in_key_order id (mfModules m), mfCommands = in_key_order id (mfCommands m),
     mfDependencies = in_key_order (in_key_order id) (mfDependencies m)\<rparr>"

lemma distinct_sort_key: "distinct (map fst m) \<Longrightarrow> distinct (map fst (sort_key fst m))"
  by (simp add: distinct_map inj_on_def)

lemma map_of_in_key_order:
  "distinct (map fst m) \<Longrightarrow> map_of (in_key_order f m) k = map_option f (map_of m k)"
proof -
  assume d: "distinct (map fst m)"
  have "distinct (map fst (sort_key fst m))" by (rule distinct_sort_key[OF d])
  then have "map_of (sort_key fst m) = map_of m" using d by (subst map_of_inject_set) auto
  then show ?thesis by (simp add: in_key_order_def map_of_map)
qed

lemma insort_key_map: "insort_key f (g x) (map g xs) = map g (insort_key (\<lambda>x. f (g x)) x xs)"
  by (induction xs) auto

lemma sort_key_map: "sort_key f (map g xs) = map g (sort_key (\<lambda>x. f (g x)) xs)"
  by (induction xs) (auto simp: insort_key_map)

lemma reread_map:
  assumes "distinct (map fst m)" and "\<forall>(k, x) \<in> set m. CR \<notin> set k \<and> persistable x"
  shows "persistable (LMap m)" and "reread (LMap m) = LMap (in_key_order reread m)"
proof -
  have n: "normalizeTable (LMap m) = Inr (sort_key fst m, [])" by (simp add: normalizeTable_def by_keys_def)
  have d: "distinct (map fst (sort_key fst m))" by (rule distinct_sort_key[OF assms(1)])
  show "persistable (LMap m)" by (rule p_table[OF n sorted_sort_key d]) (use assms(2) in auto)
  show "reread (LMap m) = LMap (in_key_order reread m)" by (simp add: reread_table[OF n] table_value_def in_key_order_def)
qed

lemma reread_arr:
  assumes "\<forall>x \<in> set xs. one_line x \<and> persistable x"
  shows "persistable (LArr xs)" and "reread (LArr xs) = (if xs = [] then LMap [] else LArr (map reread xs))"
proof -
  have n: "normalizeTable (LArr xs) = Inr ([], zip [1..int (length xs)] xs)" by (simp add: normalizeTable_def)
  have s: "map (\<lambda>(k, x). reread x) (zip [1..int (length xs)] xs) = map reread xs"
    by (rule nth_equalityI) (auto simp: nth_zip)
  show "persistable (LArr xs)" by (rule p_table[OF n]) (use assms in \<open>auto dest: set_zip_rightD\<close>)
  show "reread (LArr xs) = (if xs = [] then LMap [] else LArr (map reread xs))"
    by (simp add: reread_table[OF n] s table_value_def)
qed

lemma reread_str: "CR \<notin> set s \<Longrightarrow> reread (LStr s) = LStr s"
  by (simp add: reread.simps reread_string_plain)

text \<open>
  \<open>restores load v x\<close>: the value \<open>v\<close> can be written, and \<open>load\<close> makes \<open>x\<close> of what comes back. A map
  whose values are restored is restored, in the order of its keys.
\<close>

definition restores :: "(lval \<Rightarrow> store_error + 'a) \<Rightarrow> lval \<Rightarrow> 'a \<Rightarrow> bool" where
  "restores load v x \<longleftrightarrow> persistable v \<and> load (reread v) = Inr x"

lemma restores_map:
  assumes "keyed P m" and "\<And>x. P x \<Longrightarrow> persistable (g x)"
    and "\<And>k x. P x \<Longrightarrow> F (k, reread (g x)) = Inr (k, f x)"
  shows "persistable (LMap (map (\<lambda>(k, x). (k, g x)) m))"
    and "reread (LMap (map (\<lambda>(k, x). (k, g x)) m)) = LMap (in_key_order (\<lambda>x. reread (g x)) m)"
    and "traverse F (in_key_order (\<lambda>x. reread (g x)) m) = Inr (in_key_order f m)"
proof -
  let ?t = "map (\<lambda>(k, x). (k, g x)) m"
  have d: "distinct (map fst ?t)" using assms(1) by (simp add: keyed_def comp_def case_prod_unfold)
  have p: "\<forall>(k, x) \<in> set ?t. CR \<notin> set k \<and> persistable x" using assms(1,2) by (auto simp: keyed_def)
  show "persistable (LMap ?t)" by (rule reread_map(1)[OF d p])
  have "in_key_order reread ?t = in_key_order (\<lambda>x. reread (g x)) m"
    by (simp add: in_key_order_def sort_key_map case_prod_unfold)
  then show "reread (LMap ?t) = LMap (in_key_order (\<lambda>x. reread (g x)) m)" using reread_map(2)[OF d p] by simp
  have "traverse F (map (\<lambda>(k, x). (k, reread (g x))) kx) = Inr (map (\<lambda>(k, x). (k, f x)) kx)" if "set kx \<subseteq> set m" for kx
    using that assms(1,3) by (induction kx) (auto simp: keyed_def)
  from this[of "sort_key fst m"] show "traverse F (in_key_order (\<lambda>x. reread (g x)) m) = Inr (in_key_order f m)"
    by (simp add: in_key_order_def)
qed

subsection \<open>The parts of a manifest\<close>

lemma restores_string_map:
  assumes "keyed clean_string m"
  shows "persistable (string_map_table m)"
    and "Option.bind (Some (reread (string_map_table m))) as_map = Some (map (\<lambda>(k, x). (k, LStr x)) (in_key_order id m))"
proof -
  note r = restores_map[OF assms, of LStr "\<lambda>(k, v). Inr (k, v)" LStr]
  show "persistable (string_map_table m)"
    unfolding string_map_table_def by (rule r(1)) (auto simp: p_str clean_string_def reread_str)
  have "reread (string_map_table m) = LMap (in_key_order (\<lambda>x. reread (LStr x)) m)"
    unfolding string_map_table_def by (rule r(2)) (auto simp: p_str clean_string_def reread_str)
  moreover have "in_key_order (\<lambda>x. reread (LStr x)) m = map (\<lambda>(k, x). (k, LStr x)) (in_key_order id m)"
    using assms by (auto simp: in_key_order_def keyed_def clean_string_def reread_str)
  ultimately show "Option.bind (Some (reread (string_map_table m))) as_map = Some (map (\<lambda>(k, x). (k, LStr x)) (in_key_order id m))"
    by (simp add: as_map_def)
qed

lemma restores_lists:
  assumes "keyed tidy_providers m"
  shows "persistable (string_list_table m) \<and> load_lists name (Some (reread (string_list_table m))) = Inr (in_key_order id m)"
proof -
  have a: "persistable (LArr (map LStr xs)) \<and> reread (LArr (map LStr xs)) = LArr (map LStr xs)" if "tidy_providers xs" for xs
  proof -
    have l: "\<forall>x \<in> set (map LStr xs). one_line x \<and> persistable x \<and> reread x = x"
      using that by (auto simp: tidy_providers_def one_line_def p_str reread_str)
    then have "map reread (map LStr xs) = map LStr xs" by (intro map_idI) auto
    then show ?thesis using reread_arr[of "map LStr xs"] l that by (simp add: tidy_providers_def)
  qed
  have s: "load_strings k (map LStr xs) = Inr xs" for k xs
    by (induction xs) (auto simp: load_strings_def as_string_def)
  let ?F = "\<lambda>(k, raw). case as_array raw of
       None \<Rightarrow> Inl (WantArray k)
     | Some arr \<Rightarrow> (case load_strings k arr of Inl e \<Rightarrow> Inl e | Inr lst \<Rightarrow> Inr (k, lst))"
  note r = restores_map[OF assms, of "\<lambda>xs. LArr (map LStr xs)" ?F id]
  have F: "?F (k, reread (LArr (map LStr xs))) = Inr (k, id xs)" if "tidy_providers xs" for k xs
    using a[OF that] s by (simp add: as_array_def)
  show ?thesis
    unfolding string_list_table_def using r(1)[OF _ F] r(2)[OF _ F] r(3)[OF _ F] a
    by (simp add: load_lists_def loadStringListMap_def as_map_def)
qed

lemma restores_nested:
  assumes "keyed (keyed P) m" and r: "\<And>x. P x \<Longrightarrow> restores load (g x) (f x)"
  shows "restores (\<lambda>v. load_nested name load (Some v))
    (LMap (map (\<lambda>(pkg, vers). (pkg, LMap (map (\<lambda>(ver, x). (ver, g x)) vers))) m)) (in_key_order (in_key_order f) m)"
proof -
  let ?G = "\<lambda>vers. LMap (map (\<lambda>(ver, x). (ver, g x)) vers)"
  let ?H = "\<lambda>(ver :: string, vv). case load vv of Inl e \<Rightarrow> Inl e | Inr x \<Rightarrow> Inr (ver, x)"
  let ?F = "\<lambda>(pkg, vAny). case as_map vAny of
      None \<Rightarrow> Inl (WantMap pkg)
    | Some verMap \<Rightarrow> (case traverse ?H verMap of Inl e \<Rightarrow> Inl e | Inr inner \<Rightarrow> Inr (pkg, inner))"
  have g: "persistable (g x)" "?H (k, reread (g x)) = Inr (k, f x)" if "P x" for k x
    using r[OF that] by (simp_all add: restores_def)
  have G: "persistable (?G vers)" "?F (k, reread (?G vers)) = Inr (k, in_key_order f vers)" if "keyed P vers" for k vers
    using restores_map[OF that, of g ?H f, OF g] by (simp_all add: as_map_def)
  show ?thesis
    using restores_map[OF assms(1), of ?G ?F "in_key_order f", OF G]
    by (simp add: restores_def load_nested_def as_map_def)
qed

lemma map_of_sorted_fields:
  "distinct (map fst t) \<Longrightarrow> map_of (in_key_order reread t) k = map_option reread (map_of t k)"
  by (rule map_of_in_key_order)

lemma restores_entry:
  assumes "tidy_entry e"
  shows "restores extractRepoEntry (LArr [repo_entry_table e]) (ordered_entry e)"
proof -
  let ?sm = "\<lambda>m. string_map_table m"
  let ?t = "(''arch'', LStr (eArch e)) #
     (if eArch e = ''installed'' then
        [(''modules'', ?sm (eModules e)), (''commands'', ?sm (eCommands e)), (''dependencies'', ?sm (eDependencies e))]
      else
        (if length (eModules e) > 0 then [(''modules'', ?sm (eModules e))] else []) @
        (if length (eCommands e) > 0 then [(''commands'', ?sm (eCommands e))] else []))"
  have k: "keyed clean_string (eModules e)" "keyed clean_string (eCommands e)" "keyed clean_string (eDependencies e)"
    and arch: "CR \<notin> set (eArch e)" and nodeps: "eArch e \<noteq> ''installed'' \<Longrightarrow> eDependencies e = []"
    using assms by (simp_all add: tidy_entry_def clean_string_def)
  have d: "distinct (map fst ?t)" by simp
  have pv: "\<forall>(k, x) \<in> set ?t. CR \<notin> set k \<and> persistable x"
    using restores_string_map(1)[OF k(1)] restores_string_map(1)[OF k(2)] restores_string_map(1)[OF k(3)]
    by (auto simp: p_str)
  have p: "persistable (LMap ?t)" and rt: "reread (LMap ?t) = LMap (in_key_order reread ?t)"
    using reread_map[OF d pv] by simp_all
  note m = map_of_sorted_fields[OF d]
  let ?r = "in_key_order reread ?t"
  have sub: "string_submap ?r key = Inr (in_key_order id x)"
    if kx: "keyed clean_string x" and f: "map_of ?t key = Some (?sm x) \<or> map_of ?t key = None \<and> x = []" for key x
  proof (cases "map_of ?t key")
    case None
    then have "x = []" using f by simp
    then show ?thesis using m[of key] None by (simp add: string_submap_def in_key_order_def)
  next
    case (Some v)
    then have "v = ?sm x" using f by simp
    then have b: "Option.bind (map_of ?r key) as_map = Some (map (\<lambda>(k, x). (k, LStr x)) (in_key_order id x))"
      using m[of key] Some restores_string_map(2)[OF kx] by simp
    have "traverse (\<lambda>(k, v). case as_string v of None \<Rightarrow> Inl (WantString k) | Some s \<Rightarrow> Inr (k, s))
        (map (\<lambda>(k, x). (k, LStr x)) ys) = Inr ys" for ys
      by (induction ys) (auto simp: as_string_def)
    then show ?thesis unfolding string_submap_def b by simp
  qed
  have mods: "string_submap ?r ''modules'' = Inr (in_key_order id (eModules e))" by (rule sub[OF k(1)]) auto
  have cmds: "string_submap ?r ''commands'' = Inr (in_key_order id (eCommands e))" by (rule sub[OF k(2)]) auto
  have deps: "string_submap ?r ''dependencies'' = Inr (in_key_order id (eDependencies e))"
    by (rule sub[OF k(3)]) (use nodeps in auto)
  have ar: "Option.bind (map_of ?r ''arch'') as_string = Some (eArch e)"
    using m[of "''arch''"] reread_str[OF arch] by (simp add: as_string_def)
  have one: "\<forall>x \<in> set [LMap ?t]. one_line x \<and> persistable x" using p by (simp add: one_line_def)
  have "reread (LArr [LMap ?t]) = LArr [LMap ?r]" using reread_arr(2)[OF one] rt by simp
  moreover have "extractRepoEntry (LArr [LMap ?r]) = Inr (ordered_entry e)"
    using mods cmds deps ar by (simp add: extractRepoEntry_def as_array_def as_map_def ordered_entry_def)
  ultimately show ?thesis using reread_arr(1)[OF one] by (simp add: restores_def repo_entry_table_def)
qed

lemma put_any_strings_ints:
  assumes "distinct (map fst nums @ ks)" "length ks = length xs"
  shows "put_any_keys (map (\<lambda>(i, c). (AInt64 i, c)) (zip ks xs) @ rest) (strs, nums) = put_any_keys rest (strs, nums @ zip ks xs)"
  using assms
proof (induction ks xs arbitrary: nums rule: list_induct2')
  case (4 k ks x xs)
  have "mput k x nums = nums @ [(k, x)]" using "4.prems" by (intro mput_new) auto
  then show ?case using "4.IH"[of "nums @ [(k, x)]"] "4.prems" by simp
qed auto

lemma tidy_version_reread:
  assumes "tidy_version v"
  shows "persistable (versionToTable v)" and "constraintVersionFromValue (Some (reread (versionToTable v))) = v"
proof -
  let ?cs = "vComponents v"
  define ks where "ks = map int [1..<Suc (length (vComponents v))]"
  have lk: "length ks = length ?cs" by (simp add: ks_def del: upt_Suc)
  have dk: "distinct ks" and srt: "sorted ks"
    by (simp_all add: ks_def distinct_map inj_on_def sorted_iff_nth_mono nth_append del: upt_Suc)
  let ?nums = "zip ks (map (\<lambda>c. LFloat (Fin c)) ?cs)"
  let ?strs = "(''string'', LStr (vRaw v)) # (if vHasRevision v then [(''revision'', LInt (vRevision v))] else [])"
  have "List.enumerate 1 ?cs = zip [1..<1 + length ?cs] ?cs" by (rule enumerate_eq_zip)
  then have en: "map (\<lambda>(i, c). (AInt64 (int i), LFloat (Fin c))) (List.enumerate 1 ?cs) = map (\<lambda>(i, c). (AInt64 i, c)) ?nums"
    by (simp add: ks_def zip_map_map case_prod_unfold comp_def del: upt_Suc)
  have pa: "put_any_keys ((AStr ''string'', LStr (vRaw v)) # map (\<lambda>(i, c). (AInt64 (int i), LFloat (Fin c))) (List.enumerate 1 ?cs) @
      (if vHasRevision v then [(AStr ''revision'', LInt (vRevision v))] else [])) ([], []) = Inr (?strs, ?nums)"
    unfolding en using put_any_strings_ints[of "[]" ks "map (\<lambda>c. LFloat (Fin c)) ?cs"] dk lk by simp
  have sk: "map fst ?nums = ks" using lk by simp
  have bn: "by_keys ?nums = ?nums" by (rule by_keys_sorted, unfold sk) (rule srt, rule dk)
  have dstr: "distinct (map fst ?strs)" by simp
  have n: "normalizeTable (versionToTable v) = Inr (sort_key fst ?strs, ?nums)"
    unfolding normalizeTable_def versionToTable_def lval.case pa sum.case prod.case bn by (simp only: by_keys_def)
  have dn: "distinct (map fst (sort_key fst ?strs))" by (rule distinct_sort_key[OF dstr])
  have raw: "CR \<notin> set (vRaw v)" and rev: "\<bar>vRevision v\<bar> < 2 ^ 53" and ci: "\<And>c. c \<in> set ?cs \<Longrightarrow> c = of_int \<lfloor>c\<rfloor> \<and> \<bar>\<lfloor>c\<rfloor>\<bar> < 2 ^ 53"
    using assms by (auto simp: tidy_version_def clean_string_def)
  have strs: "\<forall>(k, x) \<in> set (sort_key fst ?strs). CR \<notin> set k \<and> persistable x"
    using rev by (auto simp: p_str intro!: p_int)
  have comp: "persistable (LFloat (Fin c))" "reread (LFloat (Fin c)) = LInt \<lfloor>c\<rfloor>" "numToFloat (LInt \<lfloor>c\<rfloor>) = Some c" if "c \<in> set ?cs" for c
  proof -
    have i: "c = of_int \<lfloor>c\<rfloor>" "\<bar>\<lfloor>c\<rfloor>\<bar> < 2 ^ 53" using ci[OF that] by simp_all
    have "\<bar>\<lfloor>c\<rfloor>\<bar> < 10 ^ 16" using i(2) by simp
    then show "persistable (LFloat (Fin c))" using p_float[of "\<lfloor>c\<rfloor>"] i(1) by simp
    show "reread (LFloat (Fin c)) = LInt \<lfloor>c\<rfloor>" by (simp add: reread.simps)
    show "numToFloat (LInt \<lfloor>c\<rfloor>) = Some c" using f64_of_int_exact[OF i(2)] i(1) by (simp add: numToFloat_def)
  qed
  have nm: "\<forall>(k, x) \<in> set ?nums. one_line x \<and> persistable x"
    using comp(1) by (auto simp: one_line_def dest!: set_zip_rightD)
  show "persistable (versionToTable v)" by (rule p_table[OF n sorted_sort_key dn strs nm])
  let ?S = "in_key_order reread ?strs"
  have "map (\<lambda>(k, x). reread x) ?nums = map reread (map snd ?nums)" by (simp add: case_prod_unfold comp_def)
  also have "\<dots> = map (\<lambda>c. LInt \<lfloor>c\<rfloor>) ?cs" using comp(2) lk by simp
  finally have rr: "reread (versionToTable v) = table_value ?S (map (\<lambda>c. LInt \<lfloor>c\<rfloor>) ?cs)"
    unfolding reread_table[OF n] in_key_order_def by simp
  have S: "?S \<noteq> []" by (simp add: in_key_order_def)
  have st: "string_field ?S ''string'' = vRaw v" "map_of ?S ''revision'' = (if vHasRevision v then Some (LInt (vRevision v)) else None)"
    using map_of_sorted_fields[OF dstr] reread_str[OF raw] by (simp_all add: string_field_def as_string_def reread.simps)
  have nf: "List.map_filter (\<lambda>(k, x). numToFloat x) (zip ks (map (\<lambda>c. LInt \<lfloor>c\<rfloor>) cs)) = cs"
    if "set cs \<subseteq> set ?cs" "length ks = length cs" for cs and ks :: "int list"
    using that(2,1) by (induction ks cs rule: list_induct2) (auto simp: List.map_filter_simps comp(3))
  have vf: "version_fields ?S ?cs = v"
    using st assms rev f64_of_int_exact[OF rev]
    by (cases v) (auto simp: version_fields_def zero_version_def numToFloat_def trunc_float_def tidy_version_def)
  show "constraintVersionFromValue (Some (reread (versionToTable v))) = v"
  proof (cases "?cs = []")
    case True
    then show ?thesis using rr vf by (simp add: table_value_def constraintVersionFromValue_def)
  next
    case False
    then show ?thesis
      using rr vf S nf[of ?cs "[1..int (length ?cs)]"] by (simp add: table_value_def constraintVersionFromValue_def)
  qed
qed

lemma restores_constraint:
  assumes "clean_string (cOp c)" and "tidy_version (cVersion c)"
  shows "restores load_constraint (LMap [(''op'', LStr (cOp c)), (''version'', versionToTable (cVersion c))]) c"
proof -
  let ?t = "[(''op'', LStr (cOp c)), (''version'', versionToTable (cVersion c))]"
  note v = tidy_version_reread[OF assms(2)]
  have op: "CR \<notin> set (cOp c)" using assms(1) by (simp add: clean_string_def)
  have d: "distinct (map fst ?t)" by simp
  have p: "\<forall>(k, x) \<in> set ?t. CR \<notin> set k \<and> persistable x" using v(1) by (simp add: p_str)
  note m = map_of_sorted_fields[OF d]
  have "load_constraint (LMap (in_key_order reread ?t)) = Inr c"
    using m[of "''op''"] m[of "''version''"] reread_str[OF op] v(2)
    by (simp add: load_constraint_def as_map_def string_field_def as_string_def)
  then show ?thesis using reread_map[OF d p] by (simp add: restores_def)
qed

lemma restores_list:
  assumes "\<And>x. x \<in> set xs \<Longrightarrow> restores load (g x) x \<and> one_line (g x)" and "xs \<noteq> []"
  shows "persistable (LArr (map g xs))" and "reread (LArr (map g xs)) = LArr (map (\<lambda>x. reread (g x)) xs)"
    and "traverse load (map (\<lambda>x. reread (g x)) xs) = Inr xs"
proof -
  have p: "\<forall>y \<in> set (map g xs). one_line y \<and> persistable y" using assms(1) by (auto simp: restores_def)
  show "persistable (LArr (map g xs))" by (rule reread_arr(1)[OF p])
  show "reread (LArr (map g xs)) = LArr (map (\<lambda>x. reread (g x)) xs)" using reread_arr(2)[OF p] assms(2) by simp
  have "traverse load (map (\<lambda>x. reread (g x)) ys) = Inr ys" if "set ys \<subseteq> set xs" for ys
    using that assms(1) by (induction ys) (auto simp: restores_def)
  then show "traverse load (map (\<lambda>x. reread (g x)) xs) = Inr xs" by simp
qed

lemma restores_dep:
  assumes "tidy_dep d"
  shows "restores (\<lambda>v. load_dep (i, v)) (dep_table d) d"
proof -
  let ?g = "\<lambda>c. LMap [(''op'', LStr (cOp c)), (''version'', versionToTable (cVersion c))]"
  let ?cs = "LArr (map ?g (dConstraints d))"
  let ?t = "(''name'', LStr (dName d)) # (if dConstraints d \<noteq> [] then [(''constraints'', ?cs)] else [])"
  have c: "restores load_constraint (?g c) c \<and> one_line (?g c)" if "c \<in> set (dConstraints d)" for c
    using assms that restores_constraint by (simp add: tidy_dep_def one_line_def)
  note l = restores_list[of "dConstraints d" load_constraint ?g, OF c]
  have nm: "CR \<notin> set (dName d)" using assms by (simp add: tidy_dep_def clean_string_def)
  have d: "distinct (map fst ?t)" by simp
  have p: "\<forall>(k, x) \<in> set ?t. CR \<notin> set k \<and> persistable x" using l(1) by (auto simp: p_str)
  note m = map_of_sorted_fields[OF d]
  have "load_dep (i, LMap (in_key_order reread ?t)) = Inr d"
  proof (cases "dConstraints d = []")
    case True
    then show ?thesis
      using m[of "''name''"] m[of "''constraints''"] reread_str[OF nm] assms
      by (cases d) (simp add: load_dep_def as_map_def string_field_def as_string_def tidy_dep_def)
  next
    case False
    then have "Option.bind (map_of (in_key_order reread ?t) ''constraints'') as_array = Some (map (\<lambda>c. reread (?g c)) (dConstraints d))"
      using m[of "''constraints''"] l(2) by (simp add: as_array_def)
    then show ?thesis
      using m[of "''name''"] reread_str[OF nm] l(3)[OF _ False] assms
      by (cases d) (simp add: load_dep_def as_map_def string_field_def as_string_def tidy_dep_def)
  qed
  then show ?thesis using reread_map[OF d p] by (simp add: restores_def dep_table_def)
qed

lemma restores_dep_list:
  assumes "list_all tidy_dep ds"
  shows "restores loadDepList (LArr (map dep_table ds)) ds"
proof -
  have p: "\<forall>y \<in> set (map dep_table ds). one_line y \<and> persistable y"
    using assms restores_dep by (auto simp: list_all_iff restores_def dep_table_def one_line_def)
  have "traverse load_dep (List.enumerate n (map reread (map dep_table xs))) = Inr xs" if "set xs \<subseteq> set ds" for xs n
    using that assms restores_dep by (induction xs arbitrary: n) (auto simp: list_all_iff restores_def)
  from this[of ds 0] show ?thesis
    using reread_arr[OF p] by (auto simp: restores_def loadDepList_def as_array_def)
qed

lemma manifest_keys_distinct:
  "distinct (map fst [(''commands'', c), (''modules'', m), (''repository'', r), (''dependencies'', d)])"
  by simp

lemma ReadTree_of_file:
  assumes "tidy_manifest m" and "manifestToTable m = LMap t"
    and "file_at s (manifest_path dir) = Some (show_assignments (sort_key fst t))"
  shows "ReadTree s dir = Inr (ordered_manifest m)"
proof -
  have t: "t = [(''commands'', string_list_table (mfCommands m)), (''modules'', string_list_table (mfModules m)),
      (''repository'', LMap (map (\<lambda>(pkg, versions). (pkg, LMap (map (\<lambda>(ver, entry). (ver, LArr [repo_entry_table entry])) versions))) (mfRepository m))),
      (''dependencies'', LMap (map (\<lambda>(pkg, vers). (pkg, LMap (map (\<lambda>(ver, ds). (ver, LArr (map dep_table ds))) vers))) (mfDependencies m)))]"
    using assms(2) by (simp add: manifestToTable_def)
  have k: "keyed tidy_providers (mfModules m)" "keyed tidy_providers (mfCommands m)"
    "keyed (keyed tidy_entry) (mfRepository m)" "keyed (keyed (list_all tidy_dep)) (mfDependencies m)"
    using assms(1) by (simp_all add: tidy_manifest_def)
  note mods = restores_lists[OF k(1)] and cmds = restores_lists[OF k(2)]
  note repo = restores_nested[OF k(3), of extractRepoEntry "\<lambda>entry. LArr [repo_entry_table entry]" ordered_entry, OF restores_entry]
  note deps = restores_nested[OF k(4), of loadDepList "\<lambda>ds. LArr (map dep_table ds)" id, unfolded id_apply, OF restores_dep_list]
  have d: "distinct (map fst t)" unfolding t by (rule manifest_keys_distinct)
  have p: "\<forall>(k, v) \<in> set t. isValidPlainKey k \<and> persistable v"
    unfolding t using mods cmds repo deps plain_keys
    by (simp only: list.set ball_simps prod.case restores_def simp_thms)
  have w: "snd (Write [] append_sink (LMap t)) = show_assignments (sort_key fst t)"
  proof -
    have "writeTableAsAssignments (text_writer []) (by_keys t, []) = (None, text_writer ([] @ show_assignments (by_keys t)))"
      by (rule writeTableAsAssignments_text) (use p persistable_writable in \<open>auto simp: by_keys_def\<close>)
    then show ?thesis by (simp add: Write_def normalizeTable_def text_writer_def by_keys_def)
  qed
  have "Parse (show_assignments (sort_key fst t)) = Inr (LMap (in_key_order reread t))"
    using Parse_Write_text[OF p d] w by (simp add: in_key_order_def)
  moreover have "os_read s (manifest_path dir) = Inr (show_assignments (sort_key fst t))"
    using assms(3) by (auto simp: os_read_def file_at_def split: option.splits node.splits)
  moreover have "manifestFromTable (in_key_order reread t) = Inr (ordered_manifest m)"
  proof -
    let ?r = "in_key_order reread t"
    note f = map_of_sorted_fields[OF d, unfolded t, simplified]
    have "load_lists ''modules'' (map_of ?r ''modules'') = Inr (in_key_order id (mfModules m))"
      unfolding t f using mods by simp
    moreover have "load_lists ''commands'' (map_of ?r ''commands'') = Inr (in_key_order id (mfCommands m))"
      unfolding t f using cmds by simp
    moreover have "load_nested ''repository'' extractRepoEntry (map_of ?r ''repository'') =
        Inr (in_key_order (in_key_order ordered_entry) (mfRepository m))"
      unfolding t f using repo by (simp add: restores_def)
    moreover have "load_nested ''dependencies'' loadDepList (map_of ?r ''dependencies'') =
        Inr (in_key_order (in_key_order id) (mfDependencies m))"
      unfolding t f using deps by (simp add: restores_def id_def)
    ultimately show ?thesis by (simp only: manifestFromTable_def sum.case ordered_manifest_def)
  qed
  ultimately show ?thesis by (simp add: ReadTree_def as_map_def)
qed

text \<open>
  C7: The store is faithful: when writing a tidy manifest reports success, reading it back gives
  the same manifest, with its keys in order, whatever the manifest was before and whatever the
  schedule of disk errors.
\<close>

theorem ReadTree_WriteTree:
  assumes "tidy_manifest m" and "WriteTree dir (Some m) s = (None, s')"
  shows "ReadTree s' dir = Inr (ordered_manifest m)"
proof -
  obtain t where t: "manifestToTable m = LMap t" "encodable t" using encodable_manifest by blast
  then have "writeAtomic (manifest_path dir) (LMap t) s = (None, s')" using assms(2) by (simp add: WriteTree_def)
  then show ?thesis using ReadTree_of_file[OF assms(1) t(1)] writeAtomic_files(2)[OF t(2)] by simp
qed

text \<open>Writes to an open file of a disk without faults all succeed and leave the directories alone.\<close>

lemma quiet_writes:
  assumes "put b = os_append t" and "err b = None" and "\<forall>n. faults (sink b) n = None"
    and "\<exists>c m. map_of (nodes (sink b)) t = Some (NFile c m)"
  shows "err (foldl buf_write b cs) = None \<and> (\<forall>n. faults (sink (foldl buf_write b cs)) n = None) \<and>
    (\<exists>c m. map_of (nodes (sink (foldl buf_write b cs))) t = Some (NFile c m)) \<and>
    (\<forall>q. q \<noteq> t \<longrightarrow> map_of (nodes (sink (foldl buf_write b cs))) q = map_of (nodes (sink b)) q)"
  using assms
proof (induction cs arbitrary: b)
  case (Cons c cs)
  obtain x m where f: "map_of (nodes (sink b)) t = Some (NFile x m)" using Cons.prems(4) by blast
  have w: "os_append t (sink b) c = (None, (sink b)\<lparr>ticks := ticks (sink b) + 1, nodes := mput t (NFile (x @ c) m) (nodes (sink b))\<rparr>)"
    using f Cons.prems(3) by (simp add: os_append_def tick_def)
  define b1 where "b1 = b\<lparr>sink := (sink b)\<lparr>ticks := ticks (sink b) + 1, nodes := mput t (NFile (x @ c) m) (nodes (sink b))\<rparr>\<rparr>"
  have "buf_write b c = b1" using w Cons.prems(1,2) by (cases b) (simp add: buf_write_def b1_def)
  moreover have "put b1 = os_append t" "err b1 = None" "\<forall>n. faults (sink b1) n = None"
    "map_of (nodes (sink b1)) t = Some (NFile (x @ c) m)" "\<And>q. q \<noteq> t \<Longrightarrow> map_of (nodes (sink b1)) q = map_of (nodes (sink b)) q"
    using Cons.prems by (simp_all add: b1_def go_simps)
  ultimately show ?case using Cons.IH[of b1] by simp
qed simp

lemma quiet_mkdirs: "\<forall>q \<in> set ps. map_of (nodes s) q = Some NDir \<Longrightarrow> mkdirs ps s = (None, s)"
  by (induction ps) auto

text \<open>A disk without faults on which a file can be written at the path.\<close>

definition ready :: "fs \<Rightarrow> string \<Rightarrow> bool" where
  "ready s p \<longleftrightarrow> (\<forall>n. faults s n = None) \<and> (\<forall>q \<in> set (path_chain (path_dir p)). map_of (nodes s) q = Some NDir) \<and>
     is_dir s (path_dir (p @ ''.tmp'')) \<and> map_of (nodes s) p \<noteq> Some NDir \<and> map_of (nodes s) (p @ ''.tmp'') \<noteq> Some NDir"

lemma quiet_writeAtomic:
  assumes "ready s p" and t: "encodable t"
  shows "\<exists>s'. writeAtomic p (LMap t) s = (None, s') \<and> (\<forall>n. faults s' n = None) \<and>
    (\<forall>q. q \<noteq> p \<and> q \<noteq> p @ ''.tmp'' \<longrightarrow> map_of (nodes s') q = map_of (nodes s) q)"
proof -
  let ?tmp = "p @ ''.tmp''"
  have r: "\<forall>n. faults s n = None" "\<forall>q \<in> set (path_chain (path_dir p)). map_of (nodes s) q = Some NDir"
    "is_dir s (path_dir ?tmp)" "map_of (nodes s) p \<noteq> Some NDir" "map_of (nodes s) ?tmp \<noteq> Some NDir"
    using assms(1) by (simp_all add: ready_def)
  have ss: "\<forall>(k, v) \<in> set (by_keys t). isValidPlainKey k \<and> writable v" using t by (simp add: encodable_def by_keys_def)
  obtain cs where cs: "\<forall>out :: fs bufWriter. writeTableAsAssignments out (by_keys t, []) = (None, foldl buf_write out cs)"
    using writes_assignments[OF ss, where 'w = fs] by auto
  have mk: "os_mkdir_all (path_dir p) s = (None, s)" using quiet_mkdirs[OF r(2)] by (simp add: os_mkdir_all_def)
  obtain m where cr: "os_create ?tmp 438 s = (None, s\<lparr>ticks := ticks s + 1, nodes := mput ?tmp (NFile [] m) (nodes s)\<rparr>)"
    using r(1,3,5) by (simp add: os_create_def tick_def is_dir_def)
  define s1 where "s1 = s\<lparr>ticks := ticks s + 1, nodes := mput ?tmp (NFile [] m) (nodes s)\<rparr>"
  define b where "b = \<lparr>sink = s1, put = os_append ?tmp, err = None\<rparr>"
  have s1: "\<forall>n. faults s1 n = None" "map_of (nodes s1) ?tmp = Some (NFile [] m)" "map_of (nodes s1) p \<noteq> Some NDir"
    "\<forall>q. q \<noteq> ?tmp \<longrightarrow> map_of (nodes s1) q = map_of (nodes s) q"
    using r(1,4) by (simp_all add: s1_def go_simps)
  define b2 where "b2 = foldl buf_write b cs"
  have q: "err b2 = None \<and> (\<forall>n. faults (sink b2) n = None) \<and> (\<exists>c m. map_of (nodes (sink b2)) ?tmp = Some (NFile c m)) \<and>
      (\<forall>q. q \<noteq> ?tmp \<longrightarrow> map_of (nodes (sink b2)) q = map_of (nodes s1) q)"
    unfolding b2_def using quiet_writes[of b ?tmp cs] s1 by (simp add: b_def)
  have wr: "Write s1 (os_append ?tmp) (LMap t) = (None, sink b2)"
    using cs q by (simp add: Write_def normalizeTable_def b_def b2_def)
  obtain s3 where cl: "os_close (sink b2) = (None, s3)" "faults s3 = faults (sink b2)" "nodes s3 = nodes (sink b2)"
    using q by (simp add: os_close_def tick_def)
  obtain c m' where f: "map_of (nodes s3) ?tmp = Some (NFile c m')" using q cl(3) by auto
  have d: "map_of (nodes s3) p \<noteq> Some NDir" using q cl(3) s1(3) by simp
  define s4 where "s4 = s3\<lparr>ticks := ticks s3 + 1, nodes := mput p (NFile c m') (mdel ?tmp (nodes s3))\<rparr>"
  have rn: "os_rename ?tmp p s3 = (None, s4)"
    using q cl(2) f d by (simp add: os_rename_def tick_def s4_def)
  have "writeAtomic p (LMap t) s = (None, s4)"
    by (simp only: writeAtomic_def mk cr[folded s1_def] wr cl(1) rn prod.case option.case Let_def)
  moreover have "\<forall>n. faults s4 n = None" using q cl(2) by (simp add: s4_def)
  moreover have "map_of (nodes s4) q = map_of (nodes s) q" if "q \<noteq> p" "q \<noteq> ?tmp" for q
    using that q cl(3) s1(4) by (simp add: s4_def go_simps)
  ultimately show ?thesis by blast
qed

lemma quiet_WriteTree:
  assumes "ready s (manifest_path dir)"
  shows "\<exists>s'. WriteTree dir (Some m) s = (None, s') \<and> (\<forall>n. faults s' n = None) \<and>
    (\<forall>q. q \<noteq> manifest_path dir \<and> q \<noteq> manifest_path dir @ ''.tmp'' \<longrightarrow> map_of (nodes s') q = map_of (nodes s) q)"
proof -
  obtain t where t: "manifestToTable m = LMap t" "encodable t" using encodable_manifest by blast
  show ?thesis using quiet_writeAtomic[OF assms t(2)] t(1) by (simp add: WriteTree_def)
qed

lemma quiet_WriteRock:
  assumes "ready s p"
  shows "\<exists>s'. WriteRock p (Some rm) s = (None, s') \<and> (\<forall>n. faults s' n = None) \<and>
    (\<forall>q. q \<noteq> p \<and> q \<noteq> p @ ''.tmp'' \<longrightarrow> map_of (nodes s') q = map_of (nodes s) q)"
proof -
  have "encodable [(''rock_manifest'', LMap (rockManifestToTable rm))]"
    using writable_rock_table plain_keys by (simp add: encodable_def)
  from quiet_writeAtomic[OF assms this] show ?thesis by (simp add: WriteRock_def)
qed

text \<open>
  C35: The store always can: on a disk without faults, in a tree whose directory exists, every
  manifest is written.
\<close>

theorem WriteTree_succeeds:
  assumes "ready s (manifest_path dir)"
  shows "\<exists>s'. WriteTree dir (Some m) s = (None, s')"
  using quiet_WriteTree[OF assms] by blast

definition tidy_example :: manifest where
  "tidy_example = \<lparr>mfRepository = [(''b'', [(''1.0-1'', \<lparr>eArch = ''installed'', eModules = [(''b'', ''b.lua'')], eCommands = [],
       eDependencies = [(''a'', ''2-1'')]\<rparr>)])],
     mfModules = [(''b'', [''b/1.0-1''])], mfCommands = [],
     mfDependencies = [(''b'', [(''1.0-1'', [\<lparr>dName = ''a'', dNamespace = [], dConstraints =
       [\<lparr>cOp = ''>='', cVersion = zero_version\<lparr>vRaw := ''1'', vComponents := [1]\<rparr>\<rparr>]\<rparr>])])]\<rparr>"

definition tree_disk :: fs where
  "tree_disk = \<lparr>nodes = [(''/t'', NDir), (''/t/manifest'', NFile ''old'' 420)], ticks = 0, faults = (\<lambda>_. None)\<rparr>"

lemma tree_disk_ready: "ready tree_disk (manifest_path ''/t'')"
proof -
  have c: "manifest_path ''/t'' = ''/t/manifest''" "path_dir ''/t/manifest'' = ''/t''" "path_chain ''/t'' = [''/t'']"
    "path_dir (''/t/manifest'' @ ''.tmp'') = ''/t''"
    by code_simp+
  show ?thesis unfolding ready_def c by (simp add: tree_disk_def is_dir_def)
qed

theorem WriteTree_succeeds_witness: "\<exists>s'. WriteTree ''/t'' (Some tidy_example) tree_disk = (None, s')"
  by (rule WriteTree_succeeds[OF tree_disk_ready])

theorem ReadTree_WriteTree_witness:
  "\<exists>s'. WriteTree ''/t'' (Some tidy_example) tree_disk = (None, s') \<and> ReadTree s' ''/t'' = Inr tidy_example"
proof -
  have t: "tidy_manifest tidy_example"
    by (simp add: tidy_manifest_def tidy_example_def keyed_def tidy_providers_def tidy_entry_def clean_string_def
      tidy_dep_def tidy_version_def zero_version_def)
  have o: "ordered_manifest tidy_example = tidy_example" by code_simp
  obtain s' where "WriteTree ''/t'' (Some tidy_example) tree_disk = (None, s')"
    using quiet_WriteTree[OF tree_disk_ready] by blast
  then show ?thesis using ReadTree_WriteTree[OF t] o by auto
qed

end
