(* ===== verification/PathFacts.thy ===== *)
theory PathFacts
  imports FileSystem
begin

text \<open>
  Facts about clean paths. A clean path is a list of components, none of them empty, a dot or two
  dots, under a root or not; on such paths \<open>filepath.Join\<close>, \<open>Rel\<close> and \<open>Dir\<close> are list operations.
\<close>

definition comp :: "string \<Rightarrow> bool" where
  "comp c \<longleftrightarrow> c \<noteq> [] \<and> c \<noteq> ''.'' \<and> c \<noteq> ''..'' \<and> CHR ''/'' \<notin> set c"

definition mk_path :: "bool \<Rightarrow> string list \<Rightarrow> string" where
  "mk_path r cs = (if r then ''/'' else []) @ join cs ''/''"

lemma split_char_no_sep: "c \<notin> set s \<Longrightarrow> split_char s c = [s]"
  by (induction s) auto

lemma split_char_sep: "c \<notin> set s \<Longrightarrow> split_char (s @ c # t) c = s # split_char t c"
  by (induction s) auto

lemma split_join: "cs \<noteq> [] \<Longrightarrow> \<forall>x \<in> set cs. CHR ''/'' \<notin> set x \<Longrightarrow> split_char (join cs ''/'') (CHR ''/'') = cs"
  by (induction cs "''/''" rule: join.induct) (auto simp: split_char_no_sep split_char_sep)

lemma join_append: "cs \<noteq> [] \<Longrightarrow> ds \<noteq> [] \<Longrightarrow> join (cs @ ds) sep = join cs sep @ sep @ join ds sep"
proof (induction cs sep rule: join.induct)
  case (2 x sep)
  then show ?case by (cases ds) simp_all
qed simp_all

lemma join_Cons: "ds \<noteq> [] \<Longrightarrow> join (c # ds) sep = c @ sep @ join ds sep"
  by (cases ds) simp_all

lemma join_nonempty: "cs \<noteq> [] \<Longrightarrow> list_all comp cs \<Longrightarrow> join cs sep \<noteq> []"
  by (cases cs; cases "tl cs") (auto simp: comp_def)

lemma hd_join: "cs \<noteq> [] \<Longrightarrow> list_all comp cs \<Longrightarrow> hd (join cs sep) = hd (hd cs)"
  by (cases cs; cases "tl cs") (auto simp: comp_def)

lemma hd_join_slash: "cs \<noteq> [] \<Longrightarrow> list_all comp cs \<Longrightarrow> hd (join cs sep) \<noteq> CHR ''/''"
  by (subst hd_join) (auto simp: comp_def neq_Nil_conv)

lemma clean_fold: "list_all comp cs \<Longrightarrow> foldl (clean_step r) out cs = out @ cs"
  by (induction cs arbitrary: out) (auto simp: comp_def)

lemma path_clean_mk [simp]:
  assumes "cs \<noteq> []" and "list_all comp cs"
  shows "path_clean (mk_path r cs) = mk_path r cs"
proof -
  have no: "\<forall>x \<in> set cs. CHR ''/'' \<notin> set x" using assms(2) by (auto simp: list_all_iff comp_def)
  note j = join_nonempty[OF assms] hd_join_slash[OF assms] split_join[OF assms(1) no] clean_fold[OF assms(2), of r "[]"]
  show ?thesis
  proof (cases r)
    case True
    then have "split_char (mk_path r cs) (CHR ''/'') = [] # cs" using j by (simp add: mk_path_def)
    then show ?thesis using True j by (simp add: path_clean_def mk_path_def clean_fold assms(2))
  next
    case False
    then show ?thesis using j by (simp add: path_clean_def mk_path_def)
  qed
qed

lemma mk_path_nonempty: "cs \<noteq> [] \<Longrightarrow> list_all comp cs \<Longrightarrow> mk_path r cs \<noteq> []"
  by (simp add: mk_path_def join_nonempty)

lemma mk_path_append: "cs \<noteq> [] \<Longrightarrow> ds \<noteq> [] \<Longrightarrow> mk_path r (cs @ ds) = mk_path r cs @ ''/'' @ join ds ''/''"
  by (simp add: mk_path_def join_append)

lemma path_join_mk:
  assumes "cs \<noteq> []" "list_all comp cs" "\<forall>d \<in> set dss. d \<noteq> [] \<and> list_all comp d"
  shows "path_join (mk_path r cs # map (\<lambda>d. join d ''/'') dss) = mk_path r (cs @ concat dss)"
proof -
  have "filter (\<lambda>e. e \<noteq> []) (mk_path r cs # map (\<lambda>d. join d ''/'') dss) = mk_path r cs # map (\<lambda>d. join d ''/'') dss"
    using assms mk_path_nonempty join_nonempty by (auto intro!: filter_True)
  moreover have "join (mk_path r cs # map (\<lambda>d. join d ''/'') dss) ''/'' = mk_path r (cs @ concat dss)"
    using assms(1,3)
  proof (induction dss arbitrary: cs)
    case (Cons d dss)
    have "join (mk_path r cs # map (\<lambda>d. join d ''/'') (d # dss)) ''/''
        = join (mk_path r (cs @ d) # map (\<lambda>d. join d ''/'') dss) ''/''"
      using Cons.prems by (cases dss) (simp_all add: mk_path_append)
    then show ?case using Cons.IH[of "cs @ d"] Cons.prems by simp
  qed simp
  moreover have "list_all comp (cs @ concat dss)" using assms by (auto simp: list_all_iff)
  ultimately show ?thesis using assms(1) by (simp add: path_join_def)
qed

lemma path_join_comp:
  "cs \<noteq> [] \<Longrightarrow> list_all comp cs \<Longrightarrow> list_all comp ds \<Longrightarrow> path_join (mk_path r cs # ds) = mk_path r (cs @ ds)"
proof -
  assume a: "cs \<noteq> []" "list_all comp cs" "list_all comp ds"
  have "map (\<lambda>d. join d ''/'') (map (\<lambda>d. [d]) ds) = ds" by (induction ds) simp_all
  moreover have "concat (map (\<lambda>d. [d]) ds) = ds" by (induction ds) simp_all
  moreover have "\<forall>d \<in> set (map (\<lambda>d. [d]) ds). d \<noteq> [] \<and> list_all comp d" using a(3) by (auto simp: list_all_iff)
  ultimately show ?thesis using path_join_mk[OF a(1,2), of "map (\<lambda>d. [d]) ds" r] by simp
qed

lemma has_prefix_slash_mk: "cs \<noteq> [] \<Longrightarrow> list_all comp cs \<Longrightarrow> has_prefix (mk_path r cs) ''/'' = r"
  using hd_join_slash[of cs "''/''"] join_nonempty[of cs "''/''"]
  by (cases "join cs ''/''") (auto simp: mk_path_def has_prefix_def)

lemma path_comps_mk:
  assumes "cs \<noteq> []" "list_all comp cs"
  shows "path_comps (mk_path r cs) = (if r then [] # cs else cs)"
proof -
  have no: "\<forall>x \<in> set cs. CHR ''/'' \<notin> set x" using assms(2) by (auto simp: list_all_iff comp_def)
  have "split_char (mk_path r cs) (CHR ''/'') = (if r then [] # cs else cs)"
    using split_join[OF assms(1) no] by (simp add: mk_path_def)
  moreover have "mk_path r cs \<noteq> ''.''"
  proof
    assume "mk_path r cs = ''.''"
    then have "split_char (mk_path r cs) (CHR ''/'') = [''.'']" by simp
    then show False using calculation assms by (auto simp: comp_def split: if_splits)
  qed
  moreover have "mk_path r cs \<noteq> ''/''"
  proof
    assume "mk_path r cs = ''/''"
    then have "split_char (mk_path r cs) (CHR ''/'') = [[], []]" by simp
    then show False using calculation assms by (auto simp: comp_def split: if_splits)
  qed
  ultimately show ?thesis by (simp add: path_comps_def)
qed

lemma strip_common_prefix: "strip_common xs (xs @ ys) = ([], ys)"
  by (induction xs) simp_all

lemma mk_path_inj:
  assumes "cs \<noteq> []" "list_all comp cs" "ds \<noteq> []" "list_all comp ds" "mk_path r cs = mk_path q ds"
  shows "r = q \<and> cs = ds"
  using has_prefix_slash_mk[OF assms(1,2), of r] has_prefix_slash_mk[OF assms(3,4), of q]
    path_comps_mk[OF assms(1,2), of r] path_comps_mk[OF assms(3,4), of q] assms(5)
  by (auto split: if_splits)

lemma path_rel_mk:
  assumes "cs \<noteq> []" "list_all comp cs" "ds \<noteq> []" "list_all comp ds"
  shows "path_rel (mk_path r cs) (mk_path r (cs @ ds)) = Some (join ds ''/'')"
proof -
  have cd: "cs @ ds \<noteq> []" "list_all comp (cs @ ds)" using assms by simp_all
  have ne: "mk_path r (cs @ ds) \<noteq> mk_path r cs"
    using mk_path_inj[OF cd assms(1,2), of r r] assms(3) by auto
  show ?thesis
    using assms(1,2) cd ne
    by (cases r) (simp_all add: path_rel_def Let_def has_prefix_slash_mk path_comps_mk strip_common_prefix)
qed

lemma last_index_append: "last_index (s @ t) c = (case last_index t c of
    Some i \<Rightarrow> Some (length s + i) | None \<Rightarrow> last_index s c)"
  by (induction s) (auto split: option.splits)

lemma last_index_None: "last_index s c = None \<longleftrightarrow> c \<notin> set s"
  by (induction s) (auto split: option.splits)

lemma last_index_last: "c \<notin> set t \<Longrightarrow> last_index (s @ c # t) c = Some (length s)"
  using last_index_None[of t c] by (simp add: last_index_append)

lemma path_dir_mk:
  assumes "cs \<noteq> []" "list_all comp cs" "comp x"
  shows "path_dir (mk_path r (cs @ [x])) = mk_path r cs"
proof -
  have e: "mk_path r (cs @ [x]) = mk_path r cs @ CHR ''/'' # x" using assms(1) by (simp add: mk_path_append)
  have "CHR ''/'' \<notin> set x" using assms(3) by (simp add: comp_def)
  then have "last_index (mk_path r (cs @ [x])) (CHR ''/'') = Some (length (mk_path r cs))"
    unfolding e by (rule last_index_last)
  then have d: "path_dir (mk_path r (cs @ [x])) = path_clean (mk_path r cs @ ''/'')"
    unfolding e by (simp add: path_dir_def)
  have no: "\<forall>x \<in> set (cs @ [[]]). CHR ''/'' \<notin> set x" using assms(2) by (auto simp: list_all_iff comp_def)
  have s: "mk_path r cs @ ''/'' = (if r then ''/'' else []) @ join (cs @ [[]]) ''/''"
    using assms(1) by (simp add: mk_path_def join_append)
  have f: "foldl (clean_step r) [] (cs @ [[]]) = cs" using clean_fold[OF assms(2), of r "[]"] by simp
  have hs: "hd (mk_path r cs @ ''/'') = CHR ''/'' \<longleftrightarrow> r"
    using hd_join_slash[OF assms(1,2)] join_nonempty[OF assms(1,2)] by (simp add: mk_path_def)
  have sp: "split_char (mk_path r cs @ ''/'') (CHR ''/'') = (if r then [] # cs @ [[]] else cs @ [[]])"
    unfolding s using split_join[of "cs @ [[]]"] no by simp
  show ?thesis
    unfolding d using hs sp f join_nonempty[OF assms(1,2)]
    by (cases r) (simp_all add: path_clean_def mk_path_def)
qed

end
