(* ===== verification/Constraint.thy ===== *)
theory Constraint
  imports Rocktypes
begin

text \<open>
  Version constraints: \<open>src/deps/constraint.go\<close> and the choice of the newest candidate,
  \<open>pickNewest\<close> of \<open>src/deps/resolver.go\<close> and of \<open>src/client/client.go\<close>.
\<close>

datatype constraint_error =
    CannotParse string
  | UnknownOperator string
  | ConstraintVersion version_error

definition operatorAliases :: "(string, string) gomap" where
  "operatorAliases =
     [(''=='', ''==''), (''~='', ''~=''), (''>'', ''>''), (''<'', ''<''), (''>='', ''>=''),
      (''<='', ''<=''), (''~>'', ''~>''), ('''', ''==''), (''='', ''==''), (''!='', ''~='')]"

definition is_opchar :: "char \<Rightarrow> bool" where
  "is_opchar c \<longleftrightarrow> c = CHR ''<'' \<or> c = CHR ''>'' \<or> c = CHR ''='' \<or> c = CHR ''~'' \<or> c = CHR ''!''"

definition is_verchar :: "char \<Rightarrow> bool" where
  "is_verchar c \<longleftrightarrow> is_alnum c \<or> c = CHR ''.'' \<or> c = CHR ''_'' \<or> c = CHR ''-''"

definition is_csep :: "char \<Rightarrow> bool" where
  "is_csep c \<longleftrightarrow> re_space c \<or> c = CHR '',''"

text \<open>
  The common front of the two patterns: blanks, an optional at sign, the operator, blanks, the
  version. The result is the operator, the version and what is left.
\<close>

definition match_op_version :: "string \<Rightarrow> string \<times> string \<times> string" where
  "match_op_version s =
     (let s1 = dropWhile re_space s;
          s2 = (if s1 \<noteq> [] \<and> hd s1 = CHR ''@'' then tl s1 else s1);
          s3 = dropWhile re_space (dropWhile is_opchar s2)
      in (takeWhile is_opchar s2, takeWhile is_verchar s3, dropWhile is_verchar s3))"

definition match_constraint :: "string \<Rightarrow> (string \<times> string) option" where
  "match_constraint s =
     (let (op, ver, rest) = match_op_version s
      in if ver = [] \<or> dropWhile re_space rest \<noteq> [] then None else Some (op, ver))"

definition match_constraint_token :: "string \<Rightarrow> (string \<times> string \<times> string) option" where
  "match_constraint_token s =
     (let (op, ver, rest) = match_op_version s; tail = dropWhile is_csep rest
      in if ver = [] \<or> LF \<in> set tail then None else Some (op, ver, tail))"

definition parse_op_version :: "string \<Rightarrow> string \<Rightarrow> constraint_error + constraint" where
  "parse_op_version op ver = (case map_of operatorAliases op of
     None \<Rightarrow> Inl (UnknownOperator op)
   | Some canon \<Rightarrow> (case ParseVersion ver of
       Inl e \<Rightarrow> Inl (ConstraintVersion e)
     | Inr v \<Rightarrow> Inr \<lparr>cOp = canon, cVersion = v\<rparr>))"

definition ParseConstraint :: "string \<Rightarrow> constraint_error + constraint" where
  "ParseConstraint s = (case match_constraint s of
     None \<Rightarrow> Inl (CannotParse s)
   | Some (op, ver) \<Rightarrow> parse_op_version op ver)"

lemma match_op_version_shorter:
  "match_op_version s = (op, ver, rest) \<Longrightarrow> length ver + length rest \<le> length s"
proof -
  assume m: "match_op_version s = (op, ver, rest)"
  define s1 where "s1 = dropWhile re_space s"
  define s2 where "s2 = (if s1 \<noteq> [] \<and> hd s1 = CHR ''@'' then tl s1 else s1)"
  define s3 where "s3 = dropWhile re_space (dropWhile is_opchar s2)"
  have "ver = takeWhile is_verchar s3" "rest = dropWhile is_verchar s3"
    using m by (auto simp: match_op_version_def Let_def s1_def s2_def s3_def)
  then have "length ver + length rest = length s3"
    by (simp flip: length_append)
  moreover have "length s3 \<le> length (dropWhile is_opchar s2)" "length (dropWhile is_opchar s2) \<le> length s2"
    unfolding s3_def by (rule length_dropWhile_le)+
  moreover have "length s2 \<le> length s1" by (simp add: s2_def)
  moreover have "length s1 \<le> length s" unfolding s1_def by (rule length_dropWhile_le)
  ultimately show ?thesis by linarith
qed

lemma match_constraint_token_shorter:
  assumes "match_constraint_token s = Some (op, ver, tail)"
  shows "length tail < length s"
proof -
  obtain rest where m: "match_op_version s = (op, ver, rest)" and "ver \<noteq> []" and t: "tail = dropWhile is_csep rest"
    using assms by (auto simp: match_constraint_token_def Let_def split: prod.splits if_splits)
  then have "0 < length ver" by simp
  moreover have "length tail \<le> length rest" unfolding t by (rule length_dropWhile_le)
  ultimately show ?thesis using match_op_version_shorter[OF m] by linarith
qed

function parse_constraints_from :: "constraint list \<Rightarrow> string \<Rightarrow> constraint_error + constraint list" where
  "parse_constraints_from out rest =
     (if rest = [] then Inr out
      else case match_constraint_token rest of
        None \<Rightarrow> Inl (CannotParse rest)
      | Some (op, ver, tail) \<Rightarrow>
          (case parse_op_version op ver of
             Inl e \<Rightarrow> Inl e
           | Inr c \<Rightarrow> parse_constraints_from (out @ [c]) (trim_space tail)))"
  by pat_completeness auto
termination
proof (relation "measure (\<lambda>(out, rest). length rest)")
  fix out :: "constraint list" and rest op ver tail x y z c
  assume "match_constraint_token rest = Some x" "(op, y) = x" "(ver, tail) = y"
  then have "length tail < length rest" using match_constraint_token_shorter by blast
  then show "((out @ [c], trim_space tail), (out, rest)) \<in> measure (\<lambda>(out, rest). length rest)"
    using length_trim_space[of tail] by simp
qed simp

declare parse_constraints_from.simps [simp del]

definition ParseConstraints :: "string \<Rightarrow> constraint_error + constraint list" where
  "ParseConstraints s = parse_constraints_from [] (trim_space s)"

section \<open>Matching\<close>

text \<open>\<open>~>\<close>: every component of the request agrees, then an explicit revision must agree.\<close>

definition partialMatch :: "version \<Rightarrow> version \<Rightarrow> bool" where
  "partialMatch v requested \<longleftrightarrow>
     (if list_ex (\<lambda>(i, ri). ri \<noteq> nth0 (vComponents v) i)
           (List.enumerate 0 (vComponents requested)) then False
      else if vHasRevision requested then vRevision v = vRevision requested
      else True)"

definition matchOne :: "version \<Rightarrow> constraint \<Rightarrow> bool" where
  "matchOne v c =
     (let cv = cVersion c; cmp = Compare v cv
      in if cOp c = ''=='' then Equal v cv
         else if cOp c = ''~='' then \<not> Equal v cv
         else if cOp c = ''>'' then cmp > 0
         else if cOp c = ''<'' then cmp < 0
         else if cOp c = ''>='' then cmp \<ge> 0
         else if cOp c = ''<='' then cmp \<le> 0
         else if cOp c = ''~>'' then partialMatch v cv
         else False)"

fun Match :: "version \<Rightarrow> constraint list \<Rightarrow> bool" where
  "Match v [] = True"
| "Match v (c # cs) = (if \<not> matchOne v c then False else Match v cs)"

lemma Match_iff: "Match v cs \<longleftrightarrow> (\<forall>c \<in> set cs. matchOne v c)"
  by (induction cs) auto

section \<open>Picking the newest candidate\<close>

definition pickNewest :: "versioned_rock list \<Rightarrow> constraint list \<Rightarrow> versioned_rock option" where
  "pickNewest candidates cs =
     (let filtered = filter (\<lambda>c. Match (vrVersion c) cs) candidates
      in if filtered = [] then None
         else Some (hd (slice_stable (\<lambda>a b. Compare (vrVersion a) (vrVersion b) > 0) filtered)))"

text \<open>The client's own version of it: one scan that keeps the first best candidate.\<close>

fun client_scan ::
  "versioned_rock list \<Rightarrow> constraint list \<Rightarrow> versioned_rock option \<Rightarrow> versioned_rock option" where
  "client_scan [] cs best = best"
| "client_scan (c # candidates) cs best =
     (if \<not> Match (vrVersion c) cs then client_scan candidates cs best
      else case best of
        None \<Rightarrow> client_scan candidates cs (Some c)
      | Some b \<Rightarrow>
          (if Compare (vrVersion c) (vrVersion b) > 0 then client_scan candidates cs (Some c)
           else client_scan candidates cs (Some b)))"

definition client_pickNewest :: "versioned_rock list \<Rightarrow> constraint list \<Rightarrow> versioned_rock option" where
  "client_pickNewest candidates cs = client_scan candidates cs None"

text \<open>The candidates inherit the order of their versions.\<close>

interpretation rock_order: strict_weak_order
  "\<lambda>a b. Compare (vrVersion a) (vrVersion b) > 0" "{c. uniform_revision h (vrVersion c)}" for h
  using vers.vimage[of vrVersion h] by (simp add: newer_def)

lemma client_scan_fold:
  "client_scan cands cs (Some b) =
     Some (foldl (\<lambda>b y. if Compare (vrVersion y) (vrVersion b) > 0 then y else b) b
       (filter (\<lambda>c. Match (vrVersion c) cs) cands))"
  by (induction cands arbitrary: b) auto

lemma client_scan_filter:
  "client_scan cands cs None =
     (case filter (\<lambda>c. Match (vrVersion c) cs) cands of
        [] \<Rightarrow> None
      | x # xs \<Rightarrow> Some (foldl (\<lambda>b y. if Compare (vrVersion y) (vrVersion b) > 0 then y else b) x xs))"
  by (induction cands) (auto simp: client_scan_fold)

lemma pickNewest_scan:
  assumes "\<forall>c \<in> set cands. uniform_revision h (vrVersion c)"
  shows "pickNewest cands cs = client_pickNewest cands cs"
proof (cases "filter (\<lambda>c. Match (vrVersion c) cs) cands")
  case Nil
  then show ?thesis by (simp add: pickNewest_def client_pickNewest_def client_scan_filter)
next
  case (Cons x xs)
  have "set (x # xs) \<subseteq> {c. uniform_revision h (vrVersion c)}"
    using assms unfolding Cons[symmetric] by auto
  then show ?thesis
    using rock_order.slice_stable_hd_scan[of x xs h] Cons
    by (simp add: pickNewest_def client_pickNewest_def client_scan_filter)
qed

lemma pickNewest_Some:
  assumes "pickNewest cands cs = Some r"
  shows "r \<in> set cands" and "Match (vrVersion r) cs"
proof -
  let ?f = "filter (\<lambda>c. Match (vrVersion c) cs) cands"
  let ?s = "slice_stable (\<lambda>a b. Compare (vrVersion a) (vrVersion b) > 0) ?f"
  have "?f \<noteq> []" and r: "r = hd ?s" using assms by (auto simp: pickNewest_def Let_def split: if_splits)
  then have "?s \<noteq> []" by (metis length_0_conv length_slice_stable)
  then have "hd ?s \<in> set ?s" by (rule hd_in_set)
  then have "r \<in> set ?f" unfolding r by simp
  then show "r \<in> set cands" "Match (vrVersion r) cs" by auto
qed

text \<open>
  C12: When the candidates all carry a revision (or all lack one), the resolver picks a candidate
  that satisfies the constraints and that no satisfying candidate is newer than, it fails only
  when no candidate satisfies them, and the client's own scan picks the same candidate.
\<close>

theorem pickNewest_correct:
  assumes "\<forall>c \<in> set cands. uniform_revision h (vrVersion c)"
  shows "client_pickNewest cands cs = pickNewest cands cs \<and>
    (case pickNewest cands cs of
       None \<Rightarrow> \<forall>c \<in> set cands. \<not> Match (vrVersion c) cs
     | Some r \<Rightarrow> r \<in> set cands \<and> Match (vrVersion r) cs \<and>
         (\<forall>c \<in> set cands. Match (vrVersion c) cs \<longrightarrow> \<not> Compare (vrVersion c) (vrVersion r) > 0))"
proof (cases "pickNewest cands cs")
  case None
  then show ?thesis
    using pickNewest_scan[OF assms, of cs, symmetric]
    by simp (auto simp: pickNewest_def Let_def filter_empty_conv split: if_splits)
next
  case (Some r)
  let ?f = "filter (\<lambda>c. Match (vrVersion c) cs) cands"
  have "set ?f \<subseteq> {c. uniform_revision h (vrVersion c)}" using assms by auto
  moreover have "r = hd (slice_stable (\<lambda>a b. Compare (vrVersion a) (vrVersion b) > 0) ?f)"
    using Some by (auto simp: pickNewest_def Let_def split: if_splits)
  ultimately show ?thesis
    using Some rock_order.slice_stable_hd_least[of ?f h] pickNewest_Some[OF Some] pickNewest_scan[OF assms]
    by auto
qed

text \<open>Three offerings of one release: revision 1, no revision, revision 2.\<close>

definition release_1_0 :: "bool \<Rightarrow> int \<Rightarrow> versioned_rock" where
  "release_1_0 has r = \<lparr>vrName = ''a'', vrVersion = \<lparr>vRaw = [], vComponents = [1, 0], vRevision = r,
     vHasRevision = has, vIsSCM = False, vIsDev = False\<rparr>, vrURL = [], vrSpec = None\<rparr>"

theorem pickNewest_correct_witness:
  "pickNewest [release_1_0 True 1, release_1_0 True 2] [] = Some (release_1_0 True 2) \<and>
   client_pickNewest [release_1_0 True 1, release_1_0 True 2] [] = Some (release_1_0 True 2)"
proof -
  have u: "\<forall>c \<in> set [release_1_0 True 1, release_1_0 True 2]. uniform_revision True (vrVersion c)"
    by (simp add: uniform_revision_def release_1_0_def)
  have "pickNewest [release_1_0 True 1, release_1_0 True 2] [] = Some (release_1_0 True 2)"
    by code_simp
  then show ?thesis using pickNewest_correct[OF u, of "[]"] by simp
qed

text \<open>
  Without that, the two functions disagree and the resolver's choice is not the newest: a
  version that lacks a revision is order-equal to every revision of its release, so the order
  is not transitive. From revision 1, no revision, revision 2 of one release the resolver takes
  revision 1 and the client revision 2.
\<close>

theorem pickNewest_mixed_revisions:
  "pickNewest [release_1_0 True 1, release_1_0 False 0, release_1_0 True 2] [] = Some (release_1_0 True 1) \<and>
   client_pickNewest [release_1_0 True 1, release_1_0 False 0, release_1_0 True 2] []
     = Some (release_1_0 True 2) \<and>
   Compare (vrVersion (release_1_0 True 2)) (vrVersion (release_1_0 True 1)) = 1"
  by code_simp

section \<open>The pessimistic operator\<close>

lemma partialMatch_iff:
  "partialMatch v req \<longleftrightarrow>
     (\<forall>i < length (vComponents req). vComponents req ! i = nth0 (vComponents v) i) \<and>
     (vHasRevision req \<longrightarrow> vRevision v = vRevision req)"
  by (auto simp: partialMatch_def list_ex_iff in_set_enumerate_eq)

lemma nonneg_list_order:
  fixes xs ys :: "rat list"
  assumes "length xs = length ys" and "\<forall>i < length xs. xs ! i = ys ! i \<or> xs ! i = 0 \<and> 0 \<le> ys ! i"
  shows "\<not> ys < xs"
  using assms
proof (induction xs ys rule: list_induct2)
  case Nil
  then show ?case by simp
next
  case (Cons x xs y ys)
  have "\<forall>i < length xs. xs ! i = ys ! i \<or> xs ! i = 0 \<and> 0 \<le> ys ! i"
    using Cons.prems by (metis Suc_less_eq length_Cons nth_Cons_Suc)
  moreover have "x = y \<or> x = 0 \<and> 0 \<le> y" using Cons.prems by (metis length_Cons nth_Cons_0 zero_less_Suc)
  ultimately show ?case using Cons.IH by auto
qed

lemma append_less:
  fixes xs ys :: "'a :: linorder list"
  assumes "length xs = length ys"
  shows "xs @ us < ys @ vs \<longleftrightarrow> xs < ys \<or> xs = ys \<and> us < vs"
  using assms by (induction xs ys rule: list_induct2) auto

text \<open>
  A release has whole components. What a pessimistic request stands for is an interval: from the
  request itself up to the release whose last given component is one higher.
\<close>

definition whole :: "version \<Rightarrow> bool" where
  "whole v \<longleftrightarrow> (\<forall>c \<in> set (vComponents v). \<exists>n :: nat. c = of_nat n)"

definition at_least :: "version \<Rightarrow> version" where
  "at_least req = req\<lparr>vHasRevision := False\<rparr>"

definition bump :: "version \<Rightarrow> version" where
  "bump req = req\<lparr>vHasRevision := False, vComponents := butlast (vComponents req) @ [last (vComponents req) + 1]\<rparr>"

lemma interval_prefix:
  assumes "length us = Suc (length bs)" and "\<forall>c \<in> set us. \<exists>n :: nat. c = of_nat n" and "\<forall>c \<in> set ws. 0 \<le> c"
  shows "us = bs @ [of_nat l] \<longleftrightarrow>
    \<not> us @ ws < (bs @ [of_nat l]) @ replicate (length ws) 0 \<and>
    us @ ws < (bs @ [of_nat l + (1 :: rat)]) @ replicate (length ws) 0"
proof -
  obtain cs u where us: "us = cs @ [u]" "length cs = length bs" using assms(1) by (cases us rule: rev_cases) auto
  obtain m :: nat where u: "u = of_nat m" using assms(2) us(1) by auto
  have ws: "\<not> ws < replicate (length ws) 0"
    using assms(3) by (intro nonneg_list_order) auto
  have "u < of_nat l + 1 \<longleftrightarrow> m \<le> l" unfolding u by (metis of_nat_Suc of_nat_less_iff less_Suc_eq_le add.commute)
  then show ?thesis using us ws u by (auto simp: append_less)
qed

text \<open>
  C28: \<open>~>\<close> is an interval. A release is accepted exactly when it is not older than the request,
  older than the release one higher in the last component the request gives, and, when the request
  has a revision, of that revision. Releases are the versions whose components are natural numbers;
  a request has at least one component.
\<close>

theorem pessimistic_match:
  assumes "whole v" "whole req" and "vComponents req \<noteq> []"
  shows "matchOne v \<lparr>cOp = ''~>'', cVersion = req\<rparr> \<longleftrightarrow>
    0 \<le> Compare v (at_least req) \<and> Compare v (bump req) < 0 \<and> (vHasRevision req \<longrightarrow> vRevision v = vRevision req)"
proof -
  let ?k = "length (vComponents req)"
  define n where "n = max (length (vComponents v)) ?k"
  define us where "us = take ?k (pad n (vComponents v))"
  define ws where "ws = drop ?k (pad n (vComponents v))"
  have len: "length us = ?k" "length ws = n - ?k" by (simp_all add: us_def ws_def n_def)
  obtain l :: nat where l: "last (vComponents req) = of_nat l"
    using assms(2,3) last_in_set unfolding whole_def by blast
  have nat: "\<exists>m :: nat. c = of_nat m" if "c \<in> set (pad n (vComponents v))" for c
    using assms(1) that by (auto simp: pad_def nth0_def whole_def intro: exI[of _ 0])
  have us: "\<forall>c \<in> set us. \<exists>m :: nat. c = of_nat m" using nat by (auto simp: us_def dest: in_set_takeD)
  have ws: "\<forall>c \<in> set ws. 0 \<le> c" using nat by (fastforce simp: ws_def dest: in_set_dropD)
  have v: "pad n (vComponents v) = us @ ws" by (simp add: us_def ws_def)
  have r: "vComponents req = butlast (vComponents req) @ [of_nat l]" using l assms(3) by (metis append_butlast_last_id)
  have req: "pad n (vComponents req) = (butlast (vComponents req) @ [of_nat l]) @ replicate (length ws) 0"
    using r len(2) by (subst pad_eq) (simp_all add: n_def)
  have up: "pad n (vComponents (bump req)) = (butlast (vComponents req) @ [of_nat l + 1]) @ replicate (length ws) 0"
    using assms(3) len(2) l by (subst pad_eq) (simp_all add: n_def bump_def)
  have "matchOne v \<lparr>cOp = ''~>'', cVersion = req\<rparr> \<longleftrightarrow>
      (\<forall>i < ?k. vComponents req ! i = nth0 (vComponents v) i) \<and> (vHasRevision req \<longrightarrow> vRevision v = vRevision req)"
    by (simp add: matchOne_def partialMatch_iff)
  moreover have "(\<forall>i < ?k. vComponents req ! i = nth0 (vComponents v) i) \<longleftrightarrow> us = vComponents req"
  proof -
    have "us = map (nth0 (vComponents v)) [0..<?k]" by (simp add: us_def pad_def take_map n_def)
    then have "us = vComponents req \<longleftrightarrow> (\<forall>i < ?k. nth0 (vComponents v) i = vComponents req ! i)"
      by (simp only: list_eq_iff_nth_eq) simp
    then show ?thesis by (simp only: eq_commute)
  qed
  moreover have "us = vComponents req \<longleftrightarrow> \<not> pad n (vComponents v) < pad n (vComponents req) \<and>
      pad n (vComponents v) < pad n (vComponents (bump req))"
  proof -
    have k: "length us = Suc (length (butlast (vComponents req)))" using len(1) assms(3) by simp
    show ?thesis unfolding v req up using interval_prefix[OF k us ws, of l] unfolding r[symmetric] .
  qed
  moreover have "0 \<le> Compare v (at_least req) \<longleftrightarrow> \<not> pad n (vComponents v) < pad n (vComponents req)"
    using Compare_pad[of v n "at_least req"] by (auto simp: at_least_def n_def)
  moreover have "Compare v (bump req) < 0 \<longleftrightarrow> pad n (vComponents v) < pad n (vComponents (bump req))"
    using Compare_pad[of v n "bump req"] assms(3) by (auto simp: bump_def n_def)
  ultimately show ?thesis by blast
qed

theorem pessimistic_match_witness:
  "let req = zero_version\<lparr>vComponents := [1, 2]\<rparr>; v = (\<lambda>cs. zero_version\<lparr>vComponents := cs\<rparr>)
   in matchOne (v [1, 2, 9]) \<lparr>cOp = ''~>'', cVersion = req\<rparr> \<and> \<not> matchOne (v [1, 3]) \<lparr>cOp = ''~>'', cVersion = req\<rparr>"
proof -
  have w: "whole (zero_version\<lparr>vComponents := [1, 2]\<rparr>)" "whole (zero_version\<lparr>vComponents := [1, 2, 9]\<rparr>)"
    "whole (zero_version\<lparr>vComponents := [1, 3]\<rparr>)"
    by (auto simp: whole_def intro: exI[of _ "1 :: nat"] exI[of _ "2 :: nat"] exI[of _ "3 :: nat"] exI[of _ "9 :: nat"])
  have "0 \<le> Compare (zero_version\<lparr>vComponents := [1, 2, 9]\<rparr>) (at_least (zero_version\<lparr>vComponents := [1, 2]\<rparr>))"
    "Compare (zero_version\<lparr>vComponents := [1, 2, 9]\<rparr>) (bump (zero_version\<lparr>vComponents := [1, 2]\<rparr>)) < 0"
    "\<not> Compare (zero_version\<lparr>vComponents := [1, 3]\<rparr>) (bump (zero_version\<lparr>vComponents := [1, 2]\<rparr>)) < 0"
    by code_simp+
  then show ?thesis
    using pessimistic_match[OF w(2,1)] pessimistic_match[OF w(3,1)] by (simp add: Let_def zero_version_def)
qed

section \<open>Reading a constraint expression\<close>

definition render_constraint :: "string \<times> string \<Rightarrow> string" where
  "render_constraint p = fst p @ CHR '' '' # snd p"

definition render_constraints :: "(string \<times> string) list \<Rightarrow> string" where
  "render_constraints ps = join (map render_constraint ps) '', ''"

lemma opchar_class: "is_opchar c \<Longrightarrow> is_graph c \<and> \<not> is_verchar c \<and> c \<noteq> CHR ''@'' \<and> c \<noteq> CHR '','' \<and> \<not> is_csep c"
  by (auto simp: is_opchar_def is_graph_def is_verchar_def is_csep_def char_class_defs)

lemma verchar_class: "is_verchar c \<Longrightarrow> is_graph c \<and> \<not> is_opchar c \<and> c \<noteq> CHR '',''"
  by (auto simp: is_opchar_def is_graph_def is_verchar_def char_class_defs)

definition plain_constraint :: "string \<times> string \<Rightarrow> bool" where
  "plain_constraint p \<longleftrightarrow> fst p \<noteq> [] \<and> list_all is_opchar (fst p) \<and> snd p \<noteq> [] \<and> list_all is_verchar (snd p)"

lemma match_op_version_render:
  assumes "plain_constraint (op, ver)" and "rest = [] \<or> \<not> is_verchar (hd rest)"
  shows "match_op_version (render_constraint (op, ver) @ rest) = (op, ver, rest)"
proof -
  obtain c op' where op: "op = c # op'" using assms(1) by (cases op) (auto simp: plain_constraint_def)
  obtain d ver' where ver: "ver = d # ver'" using assms(1) by (cases ver) (auto simp: plain_constraint_def)
  have all: "\<forall>x \<in> set op. is_opchar x" "\<forall>x \<in> set ver. is_verchar x"
    using assms(1) by (auto simp: plain_constraint_def list_all_iff)
  have c: "\<not> re_space c" "c \<noteq> CHR ''@''" and d: "\<not> re_space d"
    using all op ver opchar_class verchar_class is_graph_no_space by auto
  have sp: "\<not> is_opchar (CHR '' '')" "re_space (CHR '' '')" by (simp_all add: is_opchar_def re_space_def)
  have "takeWhile is_opchar (op @ CHR '' '' # ver @ rest) = op"
    and "dropWhile is_opchar (op @ CHR '' '' # ver @ rest) = CHR '' '' # ver @ rest"
    using all(1) sp by (simp_all add: takeWhile_append2 dropWhile_append2)
  moreover have "takeWhile is_verchar (ver @ rest) = ver" "dropWhile is_verchar (ver @ rest) = rest"
    using all(2) assms(2) by (cases rest; simp add: takeWhile_append2 dropWhile_append2)+
  ultimately show ?thesis
    using c d sp op ver by (simp add: match_op_version_def render_constraint_def)
qed

lemma render_constraints_Cons:
  "render_constraints (p # ps) = render_constraint p @
     (if ps = [] then [] else CHR '','' # CHR '' '' # render_constraints ps)"
  by (cases ps) (simp_all add: render_constraints_def)

lemma render_constraint_graph:
  assumes "plain_constraint q"
  shows "render_constraint q \<noteq> []" "is_graph (hd (render_constraint q))" "is_graph (last (render_constraint q))"
    "\<not> is_csep (hd (render_constraint q))" "LF \<notin> set (render_constraint q)"
proof -
  obtain a b where q: "q = (a, b)" by (cases q)
  have ab: "a \<noteq> []" "\<forall>x \<in> set a. is_opchar x" "b \<noteq> []" "\<forall>x \<in> set b. is_verchar x"
    using assms q by (auto simp: plain_constraint_def list_all_iff)
  show "render_constraint q \<noteq> []" by (simp add: render_constraint_def)
  show "is_graph (hd (render_constraint q))" "\<not> is_csep (hd (render_constraint q))"
    using ab opchar_class[of "hd a"] q by (simp_all add: render_constraint_def)
  show "is_graph (last (render_constraint q))"
    using ab verchar_class[of "last b"] q by (simp add: render_constraint_def)
  show "LF \<notin> set (render_constraint q)"
    using ab opchar_class[of LF] verchar_class[of LF] is_graph_no_space(7)[of LF] q
    by (auto simp: render_constraint_def)
qed

lemma render_constraints_graph:
  assumes "\<forall>p \<in> set (q # ps). plain_constraint p"
  shows "is_graph (hd (render_constraints (q # ps)))" "is_graph (last (render_constraints (q # ps)))"
    "\<not> is_csep (hd (render_constraints (q # ps)))" "LF \<notin> set (render_constraints (q # ps))"
    "render_constraints (q # ps) \<noteq> []"
proof -
  have q: "plain_constraint q" using assms by simp
  note g = render_constraint_graph[OF q]
  show "is_graph (hd (render_constraints (q # ps)))" "\<not> is_csep (hd (render_constraints (q # ps)))"
    "render_constraints (q # ps) \<noteq> []"
    using g by (simp_all add: render_constraints_Cons)
  show "is_graph (last (render_constraints (q # ps)))" "LF \<notin> set (render_constraints (q # ps))"
    using assms
  proof (induction ps arbitrary: q)
    case Nil
    {
      case 1
      then show ?case using render_constraint_graph(3)[of q] by (simp add: render_constraints_def)
    next
      case 2
      then show ?case using render_constraint_graph(5)[of q] by (simp add: render_constraints_def)
    }
  next
    case (Cons p ps)
    {
      case 1
      moreover have "render_constraints (p # ps) \<noteq> []"
        using 1 render_constraint_graph(1)[of p] by (simp add: render_constraints_Cons[of p])
      ultimately show ?case using Cons(1)[of p] by (simp add: render_constraints_Cons[of q])
    next
      case 2
      then show ?case
        using Cons(2)[of p] render_constraint_graph(5)[of q] by (simp add: render_constraints_Cons[of q])
    }
  qed
qed

lemma match_token_render:
  assumes "\<forall>p \<in> set ((op, ver) # ps). plain_constraint p"
  shows "match_constraint_token (render_constraints ((op, ver) # ps))
    = Some (op, ver, if ps = [] then [] else render_constraints ps)"
proof -
  let ?rest = "if ps = [] then [] else CHR '','' # CHR '' '' # render_constraints ps"
  have m: "match_op_version (render_constraints ((op, ver) # ps)) = (op, ver, ?rest)"
    unfolding render_constraints_Cons
    by (rule match_op_version_render) (use assms in \<open>auto simp: is_verchar_def char_class_defs\<close>)
  have "dropWhile is_csep ?rest = (if ps = [] then [] else render_constraints ps)"
  proof (cases ps)
    case (Cons p qs)
    then have "\<not> is_csep (hd (render_constraints ps))" "render_constraints ps \<noteq> []"
      using render_constraints_graph(3,5)[of p qs] assms by auto
    then show ?thesis using Cons
      by (cases "render_constraints ps") (auto simp: is_csep_def re_space_def)
  qed simp
  moreover have "LF \<notin> set (if ps = [] then [] else render_constraints ps)"
    using assms render_constraints_graph(4) by (cases ps) auto
  moreover have "ver \<noteq> []" using assms by (simp add: plain_constraint_def)
  ultimately show ?thesis using m by (simp add: match_constraint_token_def Let_def)
qed

definition read_constraint :: "string \<times> string \<Rightarrow> constraint" where
  "read_constraint p = \<lparr>cOp = the (map_of operatorAliases (fst p)), cVersion = projr (ParseVersion (snd p))\<rparr>"

definition good_constraint :: "string \<times> string \<Rightarrow> bool" where
  "good_constraint p \<longleftrightarrow> plain_constraint p \<and> map_of operatorAliases (fst p) \<noteq> None \<and> \<not> isl (ParseVersion (snd p))"

lemma parse_op_version_good:
  "good_constraint (op, ver) \<Longrightarrow> parse_op_version op ver = Inr (read_constraint (op, ver))"
  by (auto simp: good_constraint_def parse_op_version_def read_constraint_def split: sum.splits)

lemma parse_constraints_from_render:
  "\<forall>p \<in> set (q # ps). good_constraint p \<Longrightarrow>
   parse_constraints_from out (render_constraints (q # ps)) = Inr (out @ map read_constraint (q # ps))"
proof (induction ps arbitrary: q out)
  case Nil
  obtain op ver where q: "q = (op, ver)" by (cases q)
  have "match_constraint_token (render_constraints [q]) = Some (op, ver, [])"
    using match_token_render[of op ver "[]"] Nil q by (simp add: good_constraint_def)
  moreover have "render_constraints [q] \<noteq> []"
    using render_constraints_graph(5)[of q "[]"] Nil by (simp add: good_constraint_def)
  ultimately show ?case
    using Nil q parse_op_version_good[of op ver]
    by (simp add: parse_constraints_from.simps[of out "render_constraints _"] parse_constraints_from.simps[of _ "[]"])
next
  case (Cons p ps)
  obtain op ver where q: "q = (op, ver)" by (cases q)
  let ?r = "render_constraints (p # ps)"
  have plain: "\<forall>p' \<in> set (q # p # ps). plain_constraint p'" using Cons.prems by (auto simp: good_constraint_def)
  have "match_constraint_token (render_constraints (q # p # ps)) = Some (op, ver, ?r)"
    using match_token_render[of op ver "p # ps"] plain q by simp
  moreover have "render_constraints (q # p # ps) \<noteq> []" using render_constraints_graph(5)[OF plain] .
  moreover have "trim_space ?r = ?r"
    using plain render_constraints_graph[of p ps] by (intro trim_space_graph) auto
  ultimately have "parse_constraints_from out (render_constraints (q # p # ps))
      = parse_constraints_from (out @ [read_constraint q]) ?r"
    using Cons.prems q parse_op_version_good[of op ver]
    by (simp add: parse_constraints_from.simps[of out "render_constraints (_ # _)"])
  then show ?case using Cons.IH[of p "out @ [read_constraint q]"] Cons.prems by simp
qed

text \<open>
  C27: A constraint expression written as operator and version pairs separated by commas is read
  back as the list of these constraints, in order, with each operator in canonical form.
\<close>

theorem ParseConstraints_render:
  assumes "\<forall>p \<in> set ps. good_constraint p"
  shows "ParseConstraints (render_constraints ps) = Inr (map read_constraint ps)"
proof (cases ps)
  case Nil
  then show ?thesis
    by (simp add: ParseConstraints_def render_constraints_def parse_constraints_from.simps)
next
  case (Cons q qs)
  then have plain: "\<forall>p \<in> set (q # qs). plain_constraint p" using assms by (auto simp: good_constraint_def)
  have "trim_space (render_constraints ps) = render_constraints ps"
    using render_constraints_graph[OF plain] Cons by (intro trim_space_graph) auto
  then show ?thesis
    using parse_constraints_from_render[of q qs "[]"] assms Cons by (simp add: ParseConstraints_def)
qed

theorem ParseConstraints_render_witness:
  "ParseConstraints ''>= 1.2, < 2.0'' = Inr [read_constraint (''>='', ''1.2''), read_constraint (''<'', ''2.0'')]"
proof -
  have "\<forall>p \<in> set [(''>='', ''1.2''), (''<'', ''2.0'')]. good_constraint p" by code_simp
  moreover have "render_constraints [(''>='', ''1.2''), (''<'', ''2.0'')] = ''>= 1.2, < 2.0''" by code_simp
  ultimately show ?thesis
    using ParseConstraints_render[of "[(''>='', ''1.2''), (''<'', ''2.0'')]"] by simp
qed

end
