(* ===== verification/Rockspec.thy ===== *)
theory Rockspec
  imports Constraint
begin

text \<open>
  Rockspecs once they are loaded: \<open>src/rockspec/validate.go\<close> (which rockspecs are accepted),
  \<open>src/rockspec/platforms.go\<close> (folding the per-platform overlays into the base) and the
  dependency strings of \<open>src/rockspec/eval.go\<close>.
\<close>

section \<open>Validation\<close>

datatype validate_error =
    NilSpec
  | MissingField string
  | VersionSchema string
  | FormatTooNew string
  | UnsupportedField string string string
  | UnsupportedBuildType string
  | BuildTableMissing
  | BuildTypeMissing

definition allowedBuildTypes :: "string list" where
  "allowedBuildTypes = ['''', ''builtin'', ''cmake'', ''make'', ''command'', ''none'']"

definition SupportedRockspecFormat :: string where
  "SupportedRockspecFormat = ''3.0''"

definition defaultRockspecFormat :: string where
  "defaultRockspecFormat = ''1.0''"

text \<open>The pattern \<open>versionRe\<close>: letters, digits and dots, one hyphen, digits to the end.\<close>

definition versionRe :: "string \<Rightarrow> bool" where
  "versionRe s =
     (let ds = takeWhile is_digit (rev s); pre = dropWhile is_digit (rev s)
      in ds \<noteq> [] \<and> pre \<noteq> [] \<and> hd pre = CHR ''-'' \<and> tl pre \<noteq> [] \<and>
         list_all (\<lambda>c. is_alnum c \<or> c = CHR ''.'') (tl pre))"

definition effective_format :: "string \<Rightarrow> string" where
  "effective_format format = (if format = [] then defaultRockspecFormat else format)"

definition formatAtLeast :: "string \<Rightarrow> string \<Rightarrow> bool" where
  "formatAtLeast format minimum =
     (case ParseVersion (effective_format format) of
        Inl _ \<Rightarrow> False
      | Inr fv \<Rightarrow> (case ParseVersion minimum of Inl _ \<Rightarrow> False | Inr mv \<Rightarrow> Compare fv mv \<ge> 0))"

definition formatExceeds :: "string \<Rightarrow> string \<Rightarrow> bool" where
  "formatExceeds format ceiling' =
     (case ParseVersion (effective_format format) of
        Inl _ \<Rightarrow> False
      | Inr fv \<Rightarrow> (case ParseVersion ceiling' of Inl _ \<Rightarrow> False | Inr cv \<Rightarrow> Compare fv cv > 0))"

definition unsupportedFieldErr :: "string \<Rightarrow> string \<Rightarrow> string \<Rightarrow> validate_error" where
  "unsupportedFieldErr field format required = UnsupportedField field (effective_format format) required"

definition Validate :: "rockspec option \<Rightarrow> validate_error option" where
  "Validate sp = (case sp of
     None \<Rightarrow> Some NilSpec
   | Some spec \<Rightarrow>
      (let format = rRockspecFormat spec; url = sURL (sFields (rSource spec)); btype = bType (bFields (rBuild spec)) in
       if rPackage spec = [] then Some (MissingField ''package'')
       else if rVersion spec = [] then Some (MissingField ''version'')
       else if \<not> versionRe (rVersion spec) then Some (VersionSchema (rVersion spec))
       else if url = [] then Some (MissingField ''source.url'')
       else if format \<noteq> [] \<and> formatExceeds format SupportedRockspecFormat then Some (FormatTooNew format)
       else if \<not> formatAtLeast format ''3.0'' \<and> rBuildDependencies spec \<noteq> [] then
         Some (unsupportedFieldErr ''build_dependencies'' format ''3.0'')
       else if \<not> formatAtLeast format ''3.0'' \<and> rTestDependencies spec \<noteq> [] then
         Some (unsupportedFieldErr ''test_dependencies'' format ''3.0'')
       else if \<not> formatAtLeast format ''3.0'' \<and> deLabels (rDescription spec) \<noteq> [] then
         Some (unsupportedFieldErr ''labels'' format ''3.0'')
       else if \<not> formatAtLeast format ''3.0'' \<and> deIssuesURL (rDescription spec) \<noteq> [] then
         Some (unsupportedFieldErr ''issues_url'' format ''3.0'')
       else if wrapBinScripts_opt (rDeploy spec) \<noteq> None \<and> \<not> formatAtLeast format ''1.1'' then
         Some (unsupportedFieldErr ''deploy'' format ''1.1'')
       else if btype \<notin> set allowedBuildTypes then Some (UnsupportedBuildType btype)
       else if btype = [] \<and> \<not> formatAtLeast format ''3.0'' then
         (if \<not> rHasBuild spec then Some BuildTableMissing else Some BuildTypeMissing)
       else None))"

section \<open>Platform overlays\<close>

definition runtimePlatformsFor :: "string \<Rightarrow> string list" where
  "runtimePlatformsFor goos =
     (if goos = ''linux'' then [''unix'', ''linux'']
      else if goos = ''darwin'' then [''unix'', ''bsd'', ''macosx'']
      else if goos \<in> {''freebsd'', ''openbsd'', ''netbsd'', ''dragonfly''} then [''unix'', ''bsd'', goos]
      else [''unix''])"

text \<open>A scalar of an overlay overwrites the base unless it is the zero value.\<close>

definition overwrite :: "string \<Rightarrow> string \<Rightarrow> string" where
  "overwrite dst src = (if src \<noteq> [] then src else dst)"

definition mergeSource :: "source \<Rightarrow> source \<Rightarrow> source" where
  "mergeSource dst src =
     (let d = sFields dst; s = sFields src in
      Source (d\<lparr>sURL := overwrite (sURL d) (sURL s), sTag := overwrite (sTag d) (sTag s),
        sBranch := overwrite (sBranch d) (sBranch s), sMD5 := overwrite (sMD5 d) (sMD5 s),
        sFile := overwrite (sFile d) (sFile s), sDir := overwrite (sDir d) (sDir s),
        sModule := overwrite (sModule d) (sModule s)\<rparr>) (sPlatforms dst))"

text \<open>The index-wise merge loop that replaces an element or appends one.\<close>

definition put_at :: "'a list \<Rightarrow> nat \<times> 'a \<Rightarrow> 'a list" where
  "put_at xs = (\<lambda>(i, d). if i < length xs then xs[i := d] else xs @ [d])"

definition mergeDepList :: "dep list \<Rightarrow> dep list \<Rightarrow> dep list" where
  "mergeDepList base over = foldl put_at base (List.enumerate 0 over)"

definition mergeExternalDeps ::
  "(string, external_dep) gomap \<Rightarrow> (string, external_dep) gomap \<Rightarrow> (string, external_dep) gomap" where
  "mergeExternalDeps base over = maps_copy base over"

definition mergeList :: "string list \<Rightarrow> string list \<Rightarrow> string list" where
  "mergeList dst src =
     (if length src = 0 then dst
      else src @ (if length dst > length src then drop (length src) dst else []))"

definition mergeStringMap :: "(string, string) gomap \<Rightarrow> (string, string) gomap \<Rightarrow> (string, string) gomap" where
  "mergeStringMap dst src = (if length src = 0 then dst else maps_copy dst src)"

definition mergeModule :: "module_entry \<Rightarrow> module_entry \<Rightarrow> module_entry" where
  "mergeModule dst src =
     dst\<lparr>mPath := overwrite (mPath dst) (mPath src), mSources := mergeList (mSources dst) (mSources src),
       mIncdirs := mergeList (mIncdirs dst) (mIncdirs src), mLibdirs := mergeList (mLibdirs dst) (mLibdirs src),
       mLibraries := mergeList (mLibraries dst) (mLibraries src), mDefines := mergeList (mDefines dst) (mDefines src)\<rparr>"

definition merge_one_module :: "(string, module_entry) gomap \<Rightarrow> string \<times> module_entry \<Rightarrow> (string, module_entry) gomap" where
  "merge_one_module dst = (\<lambda>(k, s). mput k (case map_of dst k of Some base \<Rightarrow> mergeModule base s | None \<Rightarrow> s) dst)"

definition mergeModules ::
  "(string, module_entry) gomap \<Rightarrow> (string, module_entry) gomap \<Rightarrow> (string, module_entry) gomap" where
  "mergeModules dst src = (if length src = 0 then dst else foldl merge_one_module dst src)"

definition mergeInstall :: "build_install \<Rightarrow> build_install \<Rightarrow> build_install" where
  "mergeInstall dst src =
     dst\<lparr>iLua := mergeStringMap (iLua dst) (iLua src), iLib := mergeStringMap (iLib dst) (iLib src),
       iBin := mergeStringMap (iBin dst) (iBin src), iConf := mergeStringMap (iConf dst) (iConf src)\<rparr>"

definition mergeBuild :: "build \<Rightarrow> build \<Rightarrow> build" where
  "mergeBuild dst src =
     (let d = bFields dst; s = bFields src in
      Build (d\<lparr>bType := overwrite (bType d) (bType s),
        bBuildTarget := overwrite (bBuildTarget d) (bBuildTarget s),
        bInstallTarget := overwrite (bInstallTarget d) (bInstallTarget s),
        bBuildCommand := overwrite (bBuildCommand d) (bBuildCommand s),
        bInstallCommand := overwrite (bInstallCommand d) (bInstallCommand s),
        bCopyDirectories := foldl put_at (bCopyDirectories d) (List.enumerate 0 (bCopyDirectories s)),
        bModules := mergeModules (bModules d) (bModules s),
        bVariables := mergeStringMap (bVariables d) (bVariables s),
        bBuildVariables := mergeStringMap (bBuildVariables d) (bBuildVariables s),
        bInstallVariables := mergeStringMap (bInstallVariables d) (bInstallVariables s),
        bInstall := mergeInstall (bInstall d) (bInstall s)\<rparr>) (bPlatforms dst))"

text \<open>The body of the loop over the platform names.\<close>

definition apply_overlay :: "'o option \<Rightarrow> ('o \<Rightarrow> rockspec \<Rightarrow> rockspec) \<Rightarrow> rockspec \<Rightarrow> rockspec" where
  "apply_overlay ov f spec = (case ov of Some o' \<Rightarrow> f o' spec | None \<Rightarrow> spec)"

definition merge_platform :: "rockspec \<Rightarrow> string \<Rightarrow> rockspec" where
  "merge_platform sp name =
     (let sp = apply_overlay (map_of (bPlatforms (rBuild sp)) name)
             (\<lambda>ov s. s\<lparr>rBuild := mergeBuild (rBuild s) ov\<rparr>) sp;
          sp = apply_overlay (map_of (sPlatforms (rSource sp)) name)
             (\<lambda>ov s. s\<lparr>rSource := mergeSource (rSource s) ov\<rparr>) sp;
          sp = apply_overlay (map_of (rDependenciesPlatforms sp) name)
             (\<lambda>ov s. s\<lparr>rDependencies := mergeDepList (rDependencies s) ov\<rparr>) sp;
          sp = apply_overlay (map_of (rBuildDependenciesPlatforms sp) name)
             (\<lambda>ov s. s\<lparr>rBuildDependencies := mergeDepList (rBuildDependencies s) ov\<rparr>) sp;
          sp = apply_overlay (map_of (rTestDependenciesPlatforms sp) name)
             (\<lambda>ov s. s\<lparr>rTestDependencies := mergeDepList (rTestDependencies s) ov\<rparr>) sp
      in apply_overlay (map_of (rExternalDependenciesPlatforms sp) name)
             (\<lambda>ov s. s\<lparr>rExternalDependencies := mergeExternalDeps (rExternalDependencies s) ov\<rparr>) sp)"

definition clear_platforms :: "rockspec \<Rightarrow> rockspec" where
  "clear_platforms sp =
     sp\<lparr>rBuild := Build (bFields (rBuild sp)) [], rSource := Source (sFields (rSource sp)) [],
       rDependenciesPlatforms := [], rBuildDependenciesPlatforms := [],
       rTestDependenciesPlatforms := [], rExternalDependenciesPlatforms := []\<rparr>"

definition MergePlatforms :: "rockspec option \<Rightarrow> string list \<Rightarrow> rockspec option" where
  "MergePlatforms sp plats = (case sp of
     None \<Rightarrow> None
   | Some spec \<Rightarrow> Some (clear_platforms (foldl merge_platform spec plats)))"

section \<open>Dependency strings\<close>

definition isDepNameChar :: "char \<Rightarrow> bool" where
  "isDepNameChar b \<longleftrightarrow> is_alnum b \<or> b = CHR ''.'' \<or> b = CHR ''_'' \<or> b = CHR ''-'' \<or> b = CHR ''/''"

definition isValidDepName :: "string \<Rightarrow> bool" where
  "isValidDepName s \<longleftrightarrow> list_all isDepNameChar s \<and> list_ex is_alnum s"

text \<open>\<open>user/rock\<close> is split when both halves are there and the rock has no further slash.\<close>

definition split_dep_name :: "string \<Rightarrow> string \<times> string" where
  "split_dep_name name =
     (let ns = takeWhile (\<lambda>c. c \<noteq> CHR ''/'') name; r = dropWhile (\<lambda>c. c \<noteq> CHR ''/'') name in
      if r \<noteq> [] \<and> ns \<noteq> [] \<and> tl r \<noteq> [] \<and> CHR ''/'' \<notin> set (tl r) then (ns, tl r) else ([], name))"

definition parseDepString :: "string \<Rightarrow> dep option" where
  "parseDepString s0 =
     (let s = trim_space s0 in
      if s = [] then None
      else
        (let name = takeWhile isDepNameChar s; rest = trim_space (dropWhile isDepNameChar s) in
         if name = [] \<or> \<not> isValidDepName name then None
         else
           (let (namespace, rock) = split_dep_name name in
            if rest \<noteq> [] then
              (case ParseConstraints rest of
                 Inl _ \<Rightarrow> None
               | Inr cs \<Rightarrow> Some \<lparr>dName = rock, dNamespace = namespace, dConstraints = cs\<rparr>)
            else Some \<lparr>dName = rock, dNamespace = namespace, dConstraints = []\<rparr>)))"

section \<open>List merges\<close>

lemma put_at_loop:
  "foldl put_at (front @ rest) (List.enumerate (length front) over) = front @ over @ drop (length over) rest"
proof (induction over arbitrary: front rest)
  case Nil
  then show ?case by simp
next
  case (Cons x over)
  show ?case
  proof (cases rest)
    case Nil
    then show ?thesis using Cons[of "front @ [x]" "[]"] by (simp add: put_at_def)
  next
    case (Cons y ys)
    then show ?thesis using Cons.IH[of "front @ [x]" ys] by (simp add: put_at_def)
  qed
qed

lemma put_at_merge: "foldl put_at base (List.enumerate 0 over) = over @ drop (length over) base"
  using put_at_loop[of "[]" base over] by simp

lemma mergeList_eq: "mergeList dst src = src @ drop (length src) dst"
  by (simp add: mergeList_def)

text \<open>
  The two index-wise list merges of the overlays, the loop that replaces or appends in place
  and the copy of the overlay followed by the tail of the base, are the same function: entry
  i of the overlay replaces entry i of the base and the rest of the base survives.
\<close>

theorem list_merges_agree:
  "foldl put_at base (List.enumerate 0 over) = mergeList base over \<and>
   length (mergeList base over) = max (length base) (length over) \<and>
   (i < length (mergeList base over) \<longrightarrow>
      mergeList base over ! i = (if i < length over then over ! i else base ! i))"
  by (auto simp: put_at_merge mergeList_eq nth_append max_def)

theorem list_merges_agree_witness:
  "mergeList [''doc'', ''samples''] [''extra''] = [''extra'', ''samples''] \<and>
   mergeList [''doc'', ''samples''] [''extra''] ! 1 = ''samples''"
  using list_merges_agree[of "[''doc'', ''samples'']" "[''extra'']" 1] by (simp add: mergeList_def)

section \<open>Overlays refine the table merge of LuaRocks\<close>

text \<open>
  The tables a rockspec is made of, and \<open>util.deep_merge\<close> of
  \<open>src/internal/luarocks/src/src/luarocks/core/util.lua\<close> on them: a table merges into a table
  key by key, anything else replaces.
\<close>

datatype tkey = Fld string | Idx nat

datatype tree = Leaf string | Tab "tkey \<Rightarrow> tree option"

primrec merge_into :: "tree \<Rightarrow> tree option \<Rightarrow> tree" where
  "merge_into (Leaf s) d = Leaf s"
| "merge_into (Tab g) d = (case d of
     Some (Leaf _) \<Rightarrow> Tab g
   | _ \<Rightarrow> Tab (\<lambda>k. case map_option merge_into (g k) of
       None \<Rightarrow> (case d of Some (Tab f) \<Rightarrow> f k | _ \<Rightarrow> None)
     | Some m \<Rightarrow> Some (m (case d of Some (Tab f) \<Rightarrow> f k | _ \<Rightarrow> None))))"

definition merge_opt :: "tree option \<Rightarrow> tree option \<Rightarrow> tree option" where
  "merge_opt s d = (case s of None \<Rightarrow> d | Some t \<Rightarrow> Some (merge_into t d))"

lemma merge_into_None: "merge_into t None = t"
proof (induction t)
  case (Tab g)
  show ?case unfolding merge_into.simps option.case tree.inject
  proof
    fix k
    show "(case map_option merge_into (g k) of None \<Rightarrow> None | Some m \<Rightarrow> Some (m None)) = g k"
    proof (cases "g k")
      case (Some a)
      then have "Some a \<in> range g" by (metis rangeI)
      then show ?thesis using Tab[of "Some a" a] Some by simp
    qed simp
  qed
qed simp

lemma merge_opt_None [simp]: "merge_opt s None = s" "merge_opt None d = d"
  by (simp_all add: merge_opt_def merge_into_None split: option.splits)

lemma merge_opt_Leaf [simp]: "merge_opt (Some (Leaf s)) d = Some (Leaf s)"
  by (simp add: merge_opt_def)

lemma merge_into_Tab [simp]: "merge_into (Tab g) (Some (Tab f)) = Tab (\<lambda>k. merge_opt (g k) (f k))"
  unfolding merge_into.simps option.case tree.case tree.inject
proof
  fix k
  show "(case map_option merge_into (g k) of None \<Rightarrow> f k | Some m \<Rightarrow> Some (m (f k))) = merge_opt (g k) (f k)"
    by (cases "g k") (simp_all add: merge_opt_def)
qed

lemma merge_opt_Tab [simp]: "merge_opt (Some (Tab g)) (Some (Tab f)) = Some (Tab (\<lambda>k. merge_opt (g k) (f k)))"
  unfolding merge_opt_def[of "Some (Tab g)"] option.case merge_into_Tab ..

declare merge_into.simps [simp del]

text \<open>How the parts of a build table show as tables; an empty part is an absent field.\<close>

definition str_view :: "string \<Rightarrow> tree option" where
  "str_view s = (if s = [] then None else Some (Leaf s))"

definition list_view :: "string list \<Rightarrow> tree option" where
  "list_view xs = (if xs = [] then None
     else Some (Tab (\<lambda>k. case k of Idx i \<Rightarrow> if i < length xs then Some (Leaf (xs ! i)) else None | Fld _ \<Rightarrow> None)))"

definition map_view :: "('v \<Rightarrow> tree) \<Rightarrow> (string, 'v) gomap \<Rightarrow> tree option" where
  "map_view f m = (if m = [] then None
     else Some (Tab (\<lambda>k. case k of Fld s \<Rightarrow> map_option f (map_of m s) | Idx _ \<Rightarrow> None)))"

definition fields :: "(string \<times> tree option) list \<Rightarrow> tree" where
  "fields ps = Tab (\<lambda>k. case k of Fld s \<Rightarrow> (case map_of ps s of Some (Some t) \<Rightarrow> Some t | _ \<Rightarrow> None) | Idx _ \<Rightarrow> None)"

definition module_view :: "module_entry \<Rightarrow> tree" where
  "module_view m = (if mPath m \<noteq> [] then Leaf (mPath m)
     else fields [(''sources'', list_view (mSources m)), (''incdirs'', list_view (mIncdirs m)),
       (''libdirs'', list_view (mLibdirs m)), (''libraries'', list_view (mLibraries m)),
       (''defines'', list_view (mDefines m))])"

definition install_view :: "build_install \<Rightarrow> tree" where
  "install_view b = fields [(''lua'', map_view Leaf (iLua b)), (''lib'', map_view Leaf (iLib b)),
     (''bin'', map_view Leaf (iBin b)), (''conf'', map_view Leaf (iConf b))]"

definition pass_view :: "bool option \<Rightarrow> tree option" where
  "pass_view p = map_option (\<lambda>b. Leaf (if b then ''true'' else ''false'')) p"

definition build_view :: "build \<Rightarrow> tree" where
  "build_view bd = (let b = bFields bd in fields
     [(''type'', str_view (bType b)), (''build_target'', str_view (bBuildTarget b)),
      (''install_target'', str_view (bInstallTarget b)), (''build_command'', str_view (bBuildCommand b)),
      (''install_command'', str_view (bInstallCommand b)),
      (''copy_directories'', list_view (bCopyDirectories b)), (''modules'', map_view module_view (bModules b)),
      (''variables'', map_view Leaf (bVariables b)), (''build_variables'', map_view Leaf (bBuildVariables b)),
      (''install_variables'', map_view Leaf (bInstallVariables b)), (''install'', Some (install_view (bInstall b))),
     (''makefile'', str_view (bMakefile b)), (''build_pass'', pass_view (bBuildPass b)),
     (''install_pass'', pass_view (bInstallPass b))])"

lemma fields_merge:
  assumes "map fst ps = map fst qs"
  shows "merge_into (fields qs) (Some (fields ps))
    = fields (map2 (\<lambda>p q. (fst p, merge_opt (snd q) (snd p))) ps qs)"
  unfolding fields_def merge_into_Tab tree.inject
proof
  fix k
  show "merge_opt (case k of Fld s \<Rightarrow> (case map_of qs s of Some (Some t) \<Rightarrow> Some t | _ \<Rightarrow> None) | Idx _ \<Rightarrow> None)
      (case k of Fld s \<Rightarrow> (case map_of ps s of Some (Some t) \<Rightarrow> Some t | _ \<Rightarrow> None) | Idx _ \<Rightarrow> None)
    = (case k of Fld s \<Rightarrow> (case map_of (map2 (\<lambda>p q. (fst p, merge_opt (snd q) (snd p))) ps qs) s of
        Some (Some t) \<Rightarrow> Some t | _ \<Rightarrow> None) | Idx _ \<Rightarrow> None)"
    using assms
  proof (induction ps arbitrary: qs)
    case Nil
    then show ?case by (simp split: tkey.split)
  next
    case (Cons p ps)
    then obtain q qs' where qs: "qs = q # qs'" "fst q = fst p" "map fst ps = map fst qs'" by (cases qs) auto
    show ?case using Cons.IH[OF qs(3)] qs(1,2)
      by (cases p; cases q) (auto split: tkey.split option.splits)
  qed
qed

lemma str_view_merge: "str_view (overwrite d s) = merge_opt (str_view s) (str_view d)"
  by (simp add: str_view_def overwrite_def)

lemma list_view_merge: "list_view (s @ drop (length s) d) = merge_opt (list_view s) (list_view d)"
  by (auto simp: list_view_def fun_eq_iff nth_append split: tkey.split)

lemma map_view_merge:
  assumes "distinct (map fst s)"
  shows "map_view Leaf (mergeStringMap d s) = merge_opt (map_view Leaf s) (map_view Leaf d)"
proof -
  have "maps_copy d s \<noteq> []" if "s \<noteq> []"
  proof
    assume "maps_copy d s = []"
    then have "map_of d ++ map_of s = Map.empty" using map_of_maps_copy[OF assms, of d] by simp
    then show False using that by (cases s) (auto simp: map_add_def fun_eq_iff split: option.splits if_splits)
  qed
  moreover have "map_option Leaf ((map_of d ++ map_of s) x) = merge_opt (map_option Leaf (map_of s x)) (map_option Leaf (map_of d x))"
    for x by (simp add: map_add_def split: option.split)
  ultimately show ?thesis
    using map_of_maps_copy[OF assms, of d]
    by (cases "d = []") (simp_all add: map_view_def mergeStringMap_def fun_eq_iff split: tkey.split)
qed

lemma module_view_merge:
  assumes "mPath d = [] \<or> mPath s \<noteq> []"
  shows "module_view (mergeModule d s) = merge_into (module_view s) (Some (module_view d))"
proof (cases "mPath s = []")
  case True
  then show ?thesis using assms
    by (simp add: module_view_def mergeModule_def overwrite_def fields_merge mergeList_eq list_view_merge)
next
  case False
  then show ?thesis by (simp add: module_view_def mergeModule_def overwrite_def merge_into.simps)
qed

lemma install_view_merge:
  assumes "distinct (map fst (iLua s))" "distinct (map fst (iLib s))" "distinct (map fst (iBin s))"
    "distinct (map fst (iConf s))"
  shows "merge_opt (Some (install_view s)) (Some (install_view d)) = Some (install_view (mergeInstall d s))"
  unfolding merge_opt_def[of "Some (install_view s)"] option.case option.inject
  by (simp add: install_view_def mergeInstall_def fields_merge map_view_merge assms)

text \<open>An overlay and its base agree on which modules are given by a path and which by a table.\<close>

definition same_kind :: "(string, module_entry) gomap \<Rightarrow> (string, module_entry) gomap \<Rightarrow> bool" where
  "same_kind d s \<longleftrightarrow> list_all (\<lambda>(k, m). case map_of d k of None \<Rightarrow> True | Some b \<Rightarrow> mPath b = [] \<or> mPath m \<noteq> []) s"

lemma map_of_merge_modules:
  "distinct (map fst s) \<Longrightarrow> map_of (foldl merge_one_module d s) k =
     (case map_of s k of None \<Rightarrow> map_of d k
      | Some m \<Rightarrow> Some (case map_of d k of Some b \<Rightarrow> mergeModule b m | None \<Rightarrow> m))"
proof (induction s arbitrary: d)
  case Nil
  then show ?case by simp
next
  case (Cons km s)
  obtain k' m where km: "km = (k', m)" by (cases km)
  have "map_of s k' = None" using Cons.prems km by (simp add: map_of_eq_None_iff)
  then show ?case using Cons km
    by (auto simp: merge_one_module_def go_simps split: option.splits)
qed

lemma modules_view_merge:
  assumes "distinct (map fst s)" and "same_kind d s"
  shows "map_view module_view (mergeModules d s) = merge_opt (map_view module_view s) (map_view module_view d)"
proof (cases "s = []")
  case True
  then show ?thesis by (simp add: mergeModules_def map_view_def)
next
  case False
  let ?m = "foldl merge_one_module d s"
  obtain k v rest where "s = (k, v) # rest" using False by (metis list.exhaust surj_pair)
  then have kv: "map_of s k = Some v" by simp
  have "?m \<noteq> []" using map_of_merge_modules[OF assms(1), of d k] kv by auto
  moreover have "map_option module_view (map_of ?m x)
      = merge_opt (map_option module_view (map_of s x)) (map_option module_view (map_of d x))" for x
  proof (cases "map_of s x")
    case None
    then show ?thesis by (simp add: map_of_merge_modules assms(1))
  next
    case (Some m)
    then have "case map_of d x of None \<Rightarrow> True | Some b \<Rightarrow> mPath b = [] \<or> mPath m \<noteq> []"
      using assms(2) map_of_SomeD[OF Some] unfolding same_kind_def list_all_iff by auto
    then show ?thesis using Some module_view_merge
      by (auto simp: map_of_merge_modules assms(1) merge_opt_def merge_into_None split: option.splits)
  qed
  ultimately show ?thesis using False
    by (cases "d = []") (simp_all add: mergeModules_def map_view_def fun_eq_iff split: tkey.split)
qed

definition wf_build :: "build_tbl \<Rightarrow> bool" where
  "wf_build b \<longleftrightarrow> distinct (map fst (bModules b)) \<and> distinct (map fst (bVariables b)) \<and>
     distinct (map fst (bBuildVariables b)) \<and> distinct (map fst (bInstallVariables b)) \<and>
     distinct (map fst (iLua (bInstall b))) \<and> distinct (map fst (iLib (bInstall b))) \<and>
     distinct (map fst (iBin (bInstall b))) \<and> distinct (map fst (iConf (bInstall b)))"

text \<open>The fields of an overlay that \<open>mergeBuild\<close> looks at: all but three.\<close>

definition seen_fields :: "build \<Rightarrow> build" where
  "seen_fields s = Build ((bFields s)\<lparr>bMakefile := [], bBuildPass := None, bInstallPass := None\<rparr>) (bPlatforms s)"

text \<open>
  C18: Folding a platform overlay into a build table refines LuaRocks' table merge, with two
  exceptions. On the view of a build as a Lua table, all its fields included, \<open>mergeBuild\<close> is
  \<open>deep_merge\<close> of the overlay without its \<open>makefile\<close>, \<open>build_pass\<close> and \<open>install_pass\<close>, which are
  ignored, provided no module changes from a path to a table, where the path is kept.
\<close>

theorem mergeBuild_deep_merge:
  assumes "wf_build (bFields s)" and "same_kind (bModules (bFields d)) (bModules (bFields s))"
  shows "build_view (mergeBuild d s) = merge_into (build_view (seen_fields s)) (Some (build_view d))"
  using assms
  by (simp add: build_view_def seen_fields_def mergeBuild_def Let_def fields_merge str_view_merge put_at_merge list_view_merge
      map_view_merge modules_view_merge install_view_merge wf_build_def str_view_def[of "[]"] pass_view_def[of None]
      del: merge_opt_Tab)

text \<open>A base with two directories and a Lua module, and overlays that replace parts of it.\<close>

definition base_build :: build where
  "base_build = Build (zero_build_tbl\<lparr>bType := ''builtin'', bCopyDirectories := [''doc'', ''samples''],
     bMakefile := ''Makefile'', bModules := [(''m'', zero_module\<lparr>mPath := ''m.lua''\<rparr>)]\<rparr>) []"

definition overlay_build :: "module_entry \<Rightarrow> build" where
  "overlay_build m = Build (zero_build_tbl\<lparr>bCopyDirectories := [''extra''], bMakefile := ''Makefile.win'',
     bModules := [(''m'', m)]\<rparr>) []"

theorem mergeBuild_deep_merge_witness:
  "build_view (mergeBuild base_build (overlay_build (zero_module\<lparr>mPath := ''n.lua''\<rparr>))) =
   merge_into (build_view (seen_fields (overlay_build (zero_module\<lparr>mPath := ''n.lua''\<rparr>)))) (Some (build_view base_build))"
  by (rule mergeBuild_deep_merge)
    (simp_all add: wf_build_def same_kind_def overlay_build_def base_build_def zero_build_tbl_def zero_install_def
      zero_module_def)

text \<open>
  Both exceptions are real. An overlay that turns a Lua module given by its path into a C module
  with sources keeps the path of the base, where \<open>deep_merge\<close> replaces the entry, so the merged
  module still is the Lua file; and an overlay's \<open>makefile\<close> is ignored altogether.
\<close>

theorem mergeBuild_overlay_lost:
  "(let ov = overlay_build (zero_module\<lparr>mSources := [''m.c'']\<rparr>); merged = bFields (mergeBuild base_build ov) in
    map_option mPath (map_of (bModules merged) ''m'') = Some ''m.lua'' \<and>
    module_view (the (map_of (bModules merged) ''m'')) = Leaf ''m.lua'' \<and>
    merge_into (module_view (zero_module\<lparr>mSources := [''m.c'']\<rparr>)) (Some (Leaf ''m.lua''))
      = module_view (zero_module\<lparr>mSources := [''m.c'']\<rparr>) \<and>
    bMakefile (bFields ov) = ''Makefile.win'' \<and> bMakefile merged = ''Makefile'')"
  by (simp add: overlay_build_def base_build_def mergeBuild_def mergeModules_def merge_one_module_def
      mergeModule_def overwrite_def zero_module_def zero_build_tbl_def module_view_def merge_into.simps fields_def)

section \<open>Platforms that are declared and platforms that are not\<close>

definition declared :: "rockspec \<Rightarrow> string \<Rightarrow> bool" where
  "declared sp name \<longleftrightarrow> map_of (bPlatforms (rBuild sp)) name \<noteq> None \<or> map_of (sPlatforms (rSource sp)) name \<noteq> None \<or>
     map_of (rDependenciesPlatforms sp) name \<noteq> None \<or> map_of (rBuildDependenciesPlatforms sp) name \<noteq> None \<or>
     map_of (rTestDependenciesPlatforms sp) name \<noteq> None \<or> map_of (rExternalDependenciesPlatforms sp) name \<noteq> None"

lemma apply_overlay_keeps: "(\<And>ov s. g (f ov s) = g s) \<Longrightarrow> g (apply_overlay ov f s) = g s"
  by (simp add: apply_overlay_def split: option.split)

lemmas overlay_keeps =
  apply_overlay_keeps[where g = "\<lambda>s. bPlatforms (rBuild s)"]
  apply_overlay_keeps[where g = "\<lambda>s. sPlatforms (rSource s)"]
  apply_overlay_keeps[where g = rDependenciesPlatforms]
  apply_overlay_keeps[where g = rBuildDependenciesPlatforms]
  apply_overlay_keeps[where g = rTestDependenciesPlatforms]
  apply_overlay_keeps[where g = rExternalDependenciesPlatforms]

lemma merge_platforms_kept [simp]:
  "bPlatforms (rBuild (merge_platform sp n)) = bPlatforms (rBuild sp)"
  "sPlatforms (rSource (merge_platform sp n)) = sPlatforms (rSource sp)"
  "rDependenciesPlatforms (merge_platform sp n) = rDependenciesPlatforms sp"
  "rBuildDependenciesPlatforms (merge_platform sp n) = rBuildDependenciesPlatforms sp"
  "rTestDependenciesPlatforms (merge_platform sp n) = rTestDependenciesPlatforms sp"
  "rExternalDependenciesPlatforms (merge_platform sp n) = rExternalDependenciesPlatforms sp"
  by (simp_all add: merge_platform_def Let_def overlay_keeps mergeBuild_def mergeSource_def)

lemma merge_platform_undeclared: "\<not> declared sp n \<Longrightarrow> merge_platform sp n = sp"
  by (simp add: declared_def merge_platform_def apply_overlay_def)

lemma declared_merge [simp]: "declared (merge_platform sp n) = declared sp"
  by (simp add: declared_def fun_eq_iff)

lemma fold_declared: "foldl merge_platform sp ps = foldl merge_platform sp (filter (declared sp) ps)"
  by (induction ps arbitrary: sp) (auto simp: merge_platform_undeclared)

lemma fold_undeclared: "(\<And>n. \<not> declared sp n) \<Longrightarrow> foldl merge_platform sp ps = sp"
  by (induction ps arbitrary: sp) (auto simp: merge_platform_undeclared)

text \<open>
  Folding the overlays consumes them: folding a second time, for any platforms, changes
  nothing, and a platform that no overlay names has no effect.
\<close>

theorem MergePlatforms_idempotent:
  "MergePlatforms (MergePlatforms sp ps) qs = MergePlatforms sp ps \<and>
   MergePlatforms (Some spec) ps = MergePlatforms (Some spec) (filter (declared spec) ps)"
proof
  have "\<not> declared (clear_platforms s) n" for s n by (simp add: declared_def clear_platforms_def)
  moreover have "clear_platforms (clear_platforms s) = clear_platforms s" for s by (simp add: clear_platforms_def)
  ultimately show "MergePlatforms (MergePlatforms sp ps) qs = MergePlatforms sp ps"
    by (simp add: MergePlatforms_def fold_undeclared split: option.split)
  show "MergePlatforms (Some spec) ps = MergePlatforms (Some spec) (filter (declared spec) ps)"
    using fold_declared[of spec ps] by (simp add: MergePlatforms_def)
qed

definition overlay_commands :: "(string \<times> build) list \<Rightarrow> string list \<Rightarrow> string list" where
  "overlay_commands plats ps = filter (\<lambda>c. c \<noteq> [])
     (List.map_filter (\<lambda>n. map_option (\<lambda>ov. bBuildCommand (bFields ov)) (map_of plats n)) ps)"

lemma merge_platform_command:
  "bBuildCommand (bFields (rBuild (merge_platform sp n))) = (case map_of (bPlatforms (rBuild sp)) n of
     None \<Rightarrow> bBuildCommand (bFields (rBuild sp))
   | Some ov \<Rightarrow> overwrite (bBuildCommand (bFields (rBuild sp))) (bBuildCommand (bFields ov)))"
proof -
  have "bBuildCommand (bFields (rBuild (merge_platform sp n)))
      = bBuildCommand (bFields (rBuild (apply_overlay (map_of (bPlatforms (rBuild sp)) n)
             (\<lambda>ov s. s\<lparr>rBuild := mergeBuild (rBuild s) ov\<rparr>) sp)))"
    by (simp add: merge_platform_def Let_def apply_overlay_keeps[where g = "\<lambda>s. bBuildCommand (bFields (rBuild s))"])
  then show ?thesis by (simp add: apply_overlay_def mergeBuild_def Let_def split: option.split)
qed

text \<open>
  The platforms are applied from the least to the most specific one: the build command of the
  result is the one of the last listed platform whose overlay sets one, and the command of
  the base when none does.
\<close>

theorem MergePlatforms_last_wins:
  "map_option (\<lambda>s. bBuildCommand (bFields (rBuild s))) (MergePlatforms (Some sp) ps)
   = Some (last (bBuildCommand (bFields (rBuild sp)) # overlay_commands (bPlatforms (rBuild sp)) ps))"
proof -
  have "bBuildCommand (bFields (rBuild (foldl merge_platform sp ps)))
      = last (bBuildCommand (bFields (rBuild sp)) # overlay_commands (bPlatforms (rBuild sp)) ps)"
  proof (induction ps arbitrary: sp)
    case Nil
    then show ?case by (simp add: overlay_commands_def)
  next
    case (Cons n ps)
    show ?case using Cons[of "merge_platform sp n"]
      by (auto simp: merge_platform_command overlay_commands_def overwrite_def List.map_filter_simps
          split: option.splits)
  qed
  then show ?thesis by (simp add: MergePlatforms_def clear_platforms_def)
qed

section \<open>Accepted versions\<close>

lemma int_of_dec_less: "list_all is_digit ds \<Longrightarrow> int_of_dec ds < 10 ^ length ds"
proof (induction ds rule: rev_induct)
  case (snoc c ds)
  then have "digit_val c \<le> 9" by (auto simp: digit_val_def is_digit_def)
  then show ?case using snoc by (simp add: int_of_dec_snoc)
qed simp

lemma atoi_short:
  assumes "list_all is_digit ds" and "ds \<noteq> []" and "length ds \<le> 18"
  shows "\<exists>n. atoi ds = Some n"
proof -
  have "int_of_dec ds < 10 ^ length ds" using assms(1) by (rule int_of_dec_less)
  also have "(10::int) ^ length ds \<le> 10 ^ 18" using assms(3) by (intro power_increasing) simp_all
  finally show ?thesis by (simp add: atoi_def)
qed

definition is_body_char :: "char \<Rightarrow> bool" where
  "is_body_char c \<longleftrightarrow> is_alnum c \<or> is_vsep c"

lemma body_char_LF: "\<not> is_body_char LF"
  by (simp add: is_body_char_def is_vsep_def char_class_defs)

text \<open>A token followed by separators leaves a text that starts with a letter or digit again.\<close>

lemma match_token_body:
  assumes "list_all is_body_char s" and "s \<noteq> []" and "cls (hd s)"
  shows "\<exists>rest. match_token cls s = Some (takeWhile cls s, rest) \<and> list_all is_body_char rest \<and>
    (rest = [] \<or> is_alnum (hd rest)) \<and> length rest < length s"
proof -
  let ?rest = "dropWhile is_vsep (dropWhile cls s)"
  have sub: "set ?rest \<subseteq> set s" by (meson set_dropWhileD subsetI)
  then have all: "list_all is_body_char ?rest" using assms(1) by (auto simp: list_all_iff)
  moreover have "LF \<notin> set ?rest" using all body_char_LF by (auto simp: list_all_iff)
  moreover have "takeWhile cls s \<noteq> []" using assms(2,3) by (cases s) auto
  ultimately have m: "match_token cls s = Some (takeWhile cls s, ?rest)" by (simp add: match_token_def)
  have "is_alnum (hd ?rest)" if "?rest \<noteq> []"
  proof -
    have "\<not> is_vsep (hd ?rest)" using hd_dropWhile[OF that] .
    moreover have "is_body_char (hd ?rest)" using all that by (cases ?rest) auto
    ultimately show ?thesis by (simp add: is_body_char_def)
  qed
  then show ?thesis using m all match_token_shorter(1)[OF m] by blast
qed

lemma parse_tokens_total:
  assumes "list_all is_body_char cur" and "cur = [] \<or> is_alnum (hd cur)" and "length cur \<le> 18"
  shows "\<exists>r. parse_tokens i comps scm dev cur = Inr r"
  using assms
proof (induction "length cur" arbitrary: cur i comps scm dev rule: less_induct)
  case less
  show ?case
  proof (cases "cur = []")
    case True
    then show ?thesis by (simp add: parse_tokens_Nil)
  next
    case False
    then have al: "is_alnum (hd cur)" using less.prems(2) by simp
    show ?thesis
    proof (cases "is_digit (hd cur)")
      case True
      obtain rest where r: "match_digits cur = Some (takeWhile is_digit cur, rest)" "list_all is_body_char rest"
          "rest = [] \<or> is_alnum (hd rest)" "length rest < length cur"
        unfolding match_digits_def using match_token_body[of cur is_digit] less.prems(1) False True by blast
      have "list_all is_digit (takeWhile is_digit cur)" by (auto simp: list_all_iff dest: set_takeWhileD)
      moreover have "takeWhile is_digit cur \<noteq> []" using False True by (cases cur) auto
      moreover have "length (takeWhile is_digit cur) \<le> 18"
        using length_takeWhile_le[of is_digit cur] less.prems(3) by linarith
      ultimately obtain n where n: "atoi (takeWhile is_digit cur) = Some n" using atoi_short by blast
      show ?thesis using less.hyps[OF r(4) r(2) r(3)] r(1,4) n False less.prems(3)
        by (simp add: parse_tokens.simps[of _ _ _ _ cur])
    next
      case nd: False
      then have a: "is_alpha (hd cur)" using al by (simp add: is_alnum_def)
      obtain rest where r: "match_alpha cur = Some (takeWhile is_alpha cur, rest)" "list_all is_body_char rest"
          "rest = [] \<or> is_alnum (hd rest)" "length rest < length cur"
        unfolding match_alpha_def using match_token_body[of cur is_alpha] less.prems(1) False a by blast
      have "match_digits cur = None"
        using nd False by (cases cur) (auto simp: match_digits_def match_token_def)
      then show ?thesis using less.hyps[OF r(4) r(2) r(3)] r(1,4) False less.prems(3)
        by (simp add: parse_tokens.simps[of _ _ _ _ cur])
    qed
  qed
qed

text \<open>A version of the schema is a body, a hyphen and digits, and \<open>match_revision\<close> splits it so.\<close>

lemma versionRe_split:
  assumes "versionRe s"
  obtains body ds where "s = body @ CHR ''-'' # ds" "body \<noteq> []" "ds \<noteq> []" "list_all is_digit ds"
    "list_all (\<lambda>c. is_alnum c \<or> c = CHR ''.'') body" "match_revision s = Some (body, ds)"
proof -
  let ?ds = "takeWhile is_digit (rev s)" and ?pre = "dropWhile is_digit (rev s)"
  have v: "?ds \<noteq> []" "?pre \<noteq> []" "hd ?pre = CHR ''-''" "tl ?pre \<noteq> []"
      "list_all (\<lambda>c. is_alnum c \<or> c = CHR ''.'') (tl ?pre)"
    using assms by (auto simp: versionRe_def Let_def)
  define body where "body = rev (tl ?pre)"
  have pre: "?pre = CHR ''-'' # tl ?pre" using v(2,3) by (metis list.collapse)
  have rp: "rev ?pre = body @ [CHR ''-'']" unfolding body_def by (subst pre) simp
  have "s = rev ?pre @ rev ?ds" by (metis rev_append rev_rev_ident takeWhile_dropWhile_id)
  then have s: "s = body @ CHR ''-'' # rev ?ds" using rp by simp
  have b: "list_all (\<lambda>c. is_alnum c \<or> c = CHR ''.'') body" using v(5) by (simp add: body_def list_all_iff)
  have "LF \<notin> set body"
  proof
    assume "LF \<in> set body"
    then show False using b by (auto simp: list_all_iff char_class_defs)
  qed
  then have "match_revision s = Some (body, rev ?ds)"
    using v(1,2) rp by (simp add: match_revision_def Let_def)
  moreover have "list_all is_digit (rev ?ds)" by (auto simp: list_all_iff dest: set_takeWhileD)
  moreover have "body \<noteq> []" using v(4) by (simp add: body_def)
  ultimately show ?thesis using that s b v(1) by auto
qed

lemma Validate_None_version: "Validate (Some sp) = None \<Longrightarrow> versionRe (rVersion sp)"
  by (simp add: Validate_def Let_def split: if_splits)

text \<open>
  An accepted rockspec has a version the version parser reads, with a revision: the schema
  check leaves nothing for the parser to reject, as long as the version does not start with a
  dot and is short enough that its numbers fit 64 bits.
\<close>

theorem Validate_version_parses:
  assumes "Validate (Some sp) = None" and "hd (rVersion sp) \<noteq> CHR ''.''" and "length (rVersion sp) \<le> 18"
  shows "\<exists>v. ParseVersion (rVersion sp) = Inr v \<and> vHasRevision v \<and> vRaw v = rVersion sp \<and> vComponents v \<noteq> []"
proof -
  let ?s = "rVersion sp"
  obtain body ds where b: "?s = body @ CHR ''-'' # ds" "body \<noteq> []" "ds \<noteq> []" "list_all is_digit ds"
      "list_all (\<lambda>c. is_alnum c \<or> c = CHR ''.'') body" "match_revision ?s = Some (body, ds)"
    using versionRe_split[OF Validate_None_version[OF assms(1)]] .
  have "is_graph (hd ?s)" "is_graph (last ?s)"
    using b(1-5) by (cases body; cases ds rule: rev_cases; auto simp: is_graph_def char_class_defs)+
  then have t: "trim_space ?s = ?s" using b(1) by (intro trim_space_graph) auto
  obtain r where r: "atoi ds = Some r" using atoi_short[of ds] b(1,3,4) assms(3) by auto
  have "list_all is_body_char body" using b(5) by (auto simp: list_all_iff is_body_char_def is_vsep_def)
  moreover have "is_alnum (hd body)" using b(1,2,5) assms(2) by (cases body) auto
  ultimately obtain comps scm dev where "parse_tokens 0 [] False False body = Inr (comps, scm, dev)"
    using parse_tokens_total[of body 0 "[]" False False] b(1) assms(3) by auto
  then show ?thesis using t b(1,6) r by (simp add: ParseVersion_def Let_def)
qed

definition sample_spec :: rockspec where
  "sample_spec = zero_rockspec\<lparr>rPackage := ''a'', rVersion := ''1.2beta3-1'',
     rSource := Source (zero_source_tbl\<lparr>sURL := ''u''\<rparr>) [], rBuild := Build (zero_build_tbl\<lparr>bType := ''none''\<rparr>) []\<rparr>"

theorem Validate_version_parses_witness:
  "\<exists>v. ParseVersion ''1.2beta3-1'' = Inr v \<and> vHasRevision v \<and> vRaw v = ''1.2beta3-1'' \<and> vComponents v \<noteq> []"
proof -
  have "Validate (Some sample_spec) = None" by code_simp
  then show ?thesis using Validate_version_parses[of sample_spec] by (simp add: sample_spec_def)
qed

text \<open>
  Declaring the newest format never hurts: a rockspec that is accepted under the format it
  declares is accepted when it declares 3.0 instead.
\<close>

theorem Validate_newest_format:
  assumes "Validate (Some sp) = None"
  shows "Validate (Some (sp\<lparr>rRockspecFormat := ''3.0''\<rparr>)) = None"
proof -
  have "\<not> formatExceeds ''3.0'' ''3.0''" "formatAtLeast ''3.0'' ''3.0''" "formatAtLeast ''3.0'' ''1.1''"
    by code_simp+
  then show ?thesis using assms
    by (simp add: Validate_def Let_def SupportedRockspecFormat_def split: if_splits)
qed

theorem Validate_newest_format_witness: "Validate (Some (sample_spec\<lparr>rRockspecFormat := ''3.0''\<rparr>)) = None"
proof -
  have "Validate (Some sample_spec) = None" by code_simp
  then show ?thesis by (rule Validate_newest_format)
qed

section \<open>Reading a dependency string\<close>

definition render_dep :: "string \<Rightarrow> string \<Rightarrow> (string \<times> string) list \<Rightarrow> string" where
  "render_dep ns name ps = (if ns = [] then name else ns @ CHR ''/'' # name) @
     (if ps = [] then [] else CHR '' '' # render_constraints ps)"

definition good_name :: "string \<Rightarrow> bool" where
  "good_name s \<longleftrightarrow> s \<noteq> [] \<and> list_all isDepNameChar s \<and> CHR ''/'' \<notin> set s \<and> list_ex is_alnum s"

lemma dep_char_graph: "isDepNameChar c \<Longrightarrow> is_graph c"
  by (auto simp: isDepNameChar_def is_graph_def char_class_defs)

lemma trim_space_lead: "trim_space (CHR '' '' # s) = trim_space s"
proof -
  have "space_len (CHR '' '' # s) = 1" by (simp add: ascii_space_def re_space_def)
  then have "trim_by space_len (CHR '' '' # s) = trim_by space_len s"
    by (subst trim_by.simps) simp
  then show ?thesis by (simp add: trim_space_def)
qed

lemma split_dep_name_render:
  assumes "good_name name" and "ns = [] \<or> good_name ns"
  shows "split_dep_name (if ns = [] then name else ns @ CHR ''/'' # name) = (ns, name)"
proof (cases "ns = []")
  case True
  have "dropWhile (\<lambda>c. c \<noteq> CHR ''/'') name = []"
    using assms(1) by (auto simp: good_name_def dropWhile_eq_Nil_conv)
  then show ?thesis using True by (simp add: split_dep_name_def)
next
  case False
  then have "\<forall>c \<in> set ns. c \<noteq> CHR ''/''" using assms(2) by (auto simp: good_name_def)
  then have "takeWhile (\<lambda>c. c \<noteq> CHR ''/'') (ns @ CHR ''/'' # name) = ns"
    "dropWhile (\<lambda>c. c \<noteq> CHR ''/'') (ns @ CHR ''/'' # name) = CHR ''/'' # name"
    by (simp_all add: takeWhile_append2 dropWhile_append2)
  then show ?thesis using False assms(1) by (simp add: split_dep_name_def good_name_def)
qed

text \<open>
  A dependency written as an optional namespace, a name and a list of constraints is read back
  as these: the namespace is split off at the slash and the constraints are parsed in order.
\<close>

theorem parseDepString_render:
  assumes "good_name name" and "ns = [] \<or> good_name ns" and "\<forall>p \<in> set ps. good_constraint p"
  shows "parseDepString (render_dep ns name ps)
    = Some \<lparr>dName = name, dNamespace = ns, dConstraints = map read_constraint ps\<rparr>"
proof -
  define full where "full = (if ns = [] then name else ns @ CHR ''/'' # name)"
  define tail where "tail = (if ps = [] then [] else CHR '' '' # render_constraints ps)"
  have full: "full \<noteq> []" "\<forall>c \<in> set full. isDepNameChar c" "list_ex is_alnum full"
    using assms(1,2) by (auto simp: full_def good_name_def list_all_iff list_ex_iff isDepNameChar_def)
  have sp: "\<not> isDepNameChar (CHR '' '')" by (simp add: isDepNameChar_def char_class_defs)
  have tw: "takeWhile isDepNameChar (full @ tail) = full" "dropWhile isDepNameChar (full @ tail) = tail"
    using full(2) sp by (simp_all add: tail_def takeWhile_append2 dropWhile_append2)
  have plain: "\<forall>p \<in> set ps. plain_constraint p" using assms(3) by (auto simp: good_constraint_def)
  have rc: "trim_space tail = (if ps = [] then [] else render_constraints ps) \<and>
      (ps \<noteq> [] \<longrightarrow> render_constraints ps \<noteq> [] \<and> is_graph (last (render_constraints ps)) \<and>
        ParseConstraints (render_constraints ps) = Inr (map read_constraint ps))"
  proof (cases ps)
    case (Cons q qs)
    note g = render_constraints_graph[of q qs, folded Cons, OF plain]
    have t: "trim_space (render_constraints ps) = render_constraints ps" using g by (intro trim_space_graph) auto
    have "trim_space tail = trim_space (render_constraints ps)"
      using Cons by (simp add: tail_def trim_space_lead)
    then show ?thesis using t g Cons parse_constraints_from_render[of q qs "[]"] assms(3)
      by (simp add: ParseConstraints_def)
  qed (simp add: tail_def)
  have "is_graph (hd (full @ tail))" using full dep_char_graph by (cases full) auto
  moreover have "is_graph (last (full @ tail))"
    using full dep_char_graph rc by (cases "ps = []") (auto simp: tail_def)
  ultimately have "trim_space (full @ tail) = full @ tail" using full(1) by (intro trim_space_graph) auto
  moreover have "isValidDepName full" using full by (simp add: isValidDepName_def list_all_iff)
  ultimately show ?thesis
    using full(1) tw rc split_dep_name_render[OF assms(1,2)]
    by (auto simp: parseDepString_def render_dep_def full_def tail_def)
qed

theorem parseDepString_render_witness:
  "parseDepString ''user/rock >= 1.2, < 2.0''
   = Some \<lparr>dName = ''rock'', dNamespace = ''user'', dConstraints = map read_constraint [(''>='', ''1.2''), (''<'', ''2.0'')]\<rparr>"
proof -
  have "\<forall>p \<in> set [(''>='', ''1.2''), (''<'', ''2.0'')]. good_constraint p" by code_simp
  moreover have "good_name ''rock''" "good_name ''user''" by code_simp+
  moreover have "render_dep ''user'' ''rock'' [(''>='', ''1.2''), (''<'', ''2.0'')] = ''user/rock >= 1.2, < 2.0''"
    by code_simp
  ultimately show ?thesis
    using parseDepString_render[of "''rock''" "''user''" "[(''>='', ''1.2''), (''<'', ''2.0'')]"] by simp
qed

end
