(* ===== verification/TreePaths.thy ===== *)
theory TreePaths
  imports PathFacts Rockspec LuaParser
begin

text \<open>
  The layout of a rocks tree: \<open>src/tree/paths.go\<close>, the lookup of \<open>which.go\<close>, the naming rules of
  \<open>conflicts.go\<close> and \<open>deploy.go\<close> (where a module goes, what a file's module name is, what a
  demoted file is called) and the text of the command wrappers.
\<close>

record bin_wrap =
  bwInterpreter :: string
  bwSysconfdir :: string

text \<open>A tree: its path, the wrapper settings and the provider of a deployed item.\<close>

record tree =
  tTree :: string
  tBinWrap :: "bin_wrap option"
  tProvider :: "(string \<Rightarrow> (string \<times> string) option) option"

datatype tree_error =
    EmptyTree
  | NilRockspec
  | NoPackageVersion
  | TreeMkdir string
  | TreeWrite string
  | TreeOpen string
  | TreeCreate string
  | TreeCopy string
  | TreeClose string
  | TreeRename string
  | TreeRemove string
  | TreeStat string
  | NotADirectory string
  | NoRelativePath
  | UnsupportedExt string
  | EmptyModule

section \<open>Directories\<close>

definition RocksDir :: "string \<Rightarrow> string" where
  "RocksDir t = path_join [t, ''share'', ''tarantool'', ''rocks'']"

definition InstallDir :: "string \<Rightarrow> string \<Rightarrow> string \<Rightarrow> string" where
  "InstallDir t name ver = path_join [RocksDir t, name, ver]"

definition DeployLuaDir :: "string \<Rightarrow> string" where
  "DeployLuaDir t = path_join [t, ''share'', ''tarantool'']"

definition DeployLibDir :: "string \<Rightarrow> string" where
  "DeployLibDir t = path_join [t, ''lib'', ''tarantool'']"

definition BinDir :: "string \<Rightarrow> string" where
  "BinDir t = path_join [t, ''bin'']"

definition ConfDir :: "string \<Rightarrow> string \<Rightarrow> string \<Rightarrow> string" where
  "ConfDir t name ver = path_join [InstallDir t name ver, ''conf'']"

definition DocDir :: "string \<Rightarrow> string \<Rightarrow> string \<Rightarrow> string" where
  "DocDir t name ver = path_join [InstallDir t name ver, ''doc'']"

fun mkdir_each :: "string list \<Rightarrow> fs \<Rightarrow> string option \<times> fs" where
  "mkdir_each [] s = (None, s)"
| "mkdir_each (d # ds) s = (case os_mkdir_all d s of
     (Some e, s') \<Rightarrow> (Some e, s') | (None, s') \<Rightarrow> mkdir_each ds s')"

definition Open :: "string \<Rightarrow> fs \<Rightarrow> (tree_error + tree) \<times> fs" where
  "Open t s =
     (if t = [] then (Inl EmptyTree, s)
      else case mkdir_each [RocksDir t, DeployLuaDir t, DeployLibDir t, BinDir t] s of
        (Some e, s') \<Rightarrow> (Inl (TreeMkdir e), s')
      | (None, s') \<Rightarrow> (Inr \<lparr>tTree = t, tBinWrap = None, tProvider = None\<rparr>, s'))"

definition slashed :: "string \<Rightarrow> string" where
  "slashed m = replace_char m (CHR ''.'') ''/''"

definition Which :: "fs \<Rightarrow> string \<Rightarrow> string \<Rightarrow> string option" where
  "Which s t m = find (\<lambda>c. case os_stat s c of Some (NFile x y) \<Rightarrow> True | _ \<Rightarrow> False)
     [path_join [DeployLuaDir t, slashed m @ ''.lua''], path_join [DeployLuaDir t, slashed m, ''init.lua''],
      path_join [DeployLibDir t, slashed m @ ''.so'']]"

section \<open>Names\<close>

definition versionGreater :: "string \<Rightarrow> string \<Rightarrow> bool" where
  "versionGreater a b = (case ParseVersion a of
     Inl _ \<Rightarrow> False
   | Inr av \<Rightarrow> (case ParseVersion b of Inl _ \<Rightarrow> False | Inr bv \<Rightarrow> Compare av bv > 0))"

definition pathToModule :: "string \<Rightarrow> string" where
  "pathToModule rel =
     (let name = (case last_index rel (CHR ''.'') of Some i \<Rightarrow> take i rel | None \<Rightarrow> rel)
      in trim_char (replace_char name (CHR ''/'') ''.'') (CHR ''.''))"

definition mungedVersion :: "string \<Rightarrow> string \<Rightarrow> string" where
  "mungedVersion pkg ver = replace_char (replace_char (pkg @ ''_'' @ ver) (CHR ''-'') ''_'') (CHR ''.'') ''_''"

definition MungedPath :: "string \<Rightarrow> string \<Rightarrow> string \<Rightarrow> string \<Rightarrow> string" where
  "MungedPath deployDir target pkg ver =
     (let rest = trim_left_char (trim_prefix target deployDir) (CHR ''/'')
      in path_join [deployDir, mungedVersion pkg ver @ ''-'' @ rest])"

text \<open>The two passes over the lua and the lib section; a later binding replaces an earlier one.\<close>

definition index_files :: "string \<Rightarrow> (string, string) gomap \<Rightarrow> (string, string) gomap \<Rightarrow> (string, string) gomap" where
  "index_files mungedPrefix files out = foldl (\<lambda>out (rel, _).
     if has_prefix rel mungedPrefix then out
     else if pathToModule rel \<noteq> [] then mput (pathToModule rel) rel out else out) out files"

definition ModuleIndex :: "rock_manifest option \<Rightarrow> string \<Rightarrow> string \<Rightarrow> (string, string) gomap" where
  "ModuleIndex rm pkg ver = (case rm of
     None \<Rightarrow> []
   | Some m \<Rightarrow> (let p = mungedVersion pkg ver @ ''-'' in index_files p (rmLib m) (index_files p (rmLua m) [])))"

datatype kind = KindLua | KindLib

definition deployDirForKind :: "string \<Rightarrow> kind \<Rightarrow> string" where
  "deployDirForKind t k = (case k of KindLua \<Rightarrow> DeployLuaDir t | KindLib \<Rightarrow> DeployLibDir t)"

definition resolveModule ::
  "string \<Rightarrow> string \<Rightarrow> string \<Rightarrow> module_entry \<Rightarrow> string \<Rightarrow> tree_error + string \<times> string \<times> kind" where
  "resolveModule srcDir buildDir modName m t =
     (let slashName = slashed modName; compiled = path_join [buildDir, ''lib'', slashName @ ''.so''];
          libDst = path_join [DeployLibDir t, slashName @ ''.so'']
      in if mPath m \<noteq> [] then
           (let ext = to_lower (path_ext (mPath m)) in
            if ext = ''.lua'' then
              Inr (path_join [srcDir, mPath m], path_join [DeployLuaDir t, slashName @ ''.lua''], KindLua)
            else if ext \<in> {''.so'', ''.dylib''} then Inr (path_join [srcDir, mPath m], libDst, KindLib)
            else if ext \<in> {''.c'', ''.cpp'', ''.cxx'', ''.cc''} then Inr (compiled, libDst, KindLib)
            else Inl (UnsupportedExt ext))
         else if length (mSources m) > 0 then Inr (compiled, libDst, KindLib)
         else Inl EmptyModule)"

definition moduleToPathDir :: "string \<Rightarrow> string" where
  "moduleToPathDir m = replace_char (case last_index m (CHR ''.'') of Some i \<Rightarrow> take (i + 1) m | None \<Rightarrow> [])
     (CHR ''.'') ''/''"

definition moduleLastSegment :: "string \<Rightarrow> string" where
  "moduleLastSegment m = (case last_index m (CHR ''.'') of Some i \<Rightarrow> drop (i + 1) m | None \<Rightarrow> m)"

definition installDest :: "string \<Rightarrow> string \<Rightarrow> string \<Rightarrow> bool \<Rightarrow> string" where
  "installDest dir key srcRel isModulePath =
     (if \<not> isModulePath then path_join [dir, key]
      else let b = path_base srcRel;
               filename = (if has_suffix (to_lower b) ''.lua'' then moduleLastSegment key @ ''.lua'' else b)
           in path_join [dir, moduleToPathDir key, filename])"

section \<open>Wrappers\<close>

definition luaQuote_char :: "char \<Rightarrow> string" where
  "luaQuote_char c =
     (if c = CHR 0x22 then [CHR 0x5C, CHR 0x22]
      else if c = CHR 0x5C then [CHR 0x5C, CHR 0x5C]
      else if c = LF then [CHR 0x5C, CHR ''n'']
      else if c = CR then [CHR 0x5C, CHR ''r'']
      else if c = CHR 0x00 then [CHR 0x5C, CHR ''0'']
      else [c])"

definition luaQuote :: "string \<Rightarrow> string" where
  "luaQuote s = CHR 0x22 # concat (map luaQuote_char s) @ [CHR 0x22]"

abbreviation SQ :: char where "SQ \<equiv> CHR 0x27"

definition shellQuote :: "string \<Rightarrow> string" where
  "shellQuote s = SQ # replace_char s SQ [SQ, CHR 0x5C, SQ, SQ] @ [SQ]"

definition wrapper_luainit :: "string \<Rightarrow> string \<Rightarrow> string \<Rightarrow> string" where
  "wrapper_luainit t name ver =
     (let lua = DeployLuaDir t; lib = DeployLibDir t;
          lpath = lua @ ''/?.lua;'' @ lua @ ''/?/init.lua''; lcpath = lib @ ''/?.so''
      in ''package.path='' @ luaQuote (lpath @ '';'') @ ''..package.path'' @
         '';package.cpath='' @ luaQuote (lcpath @ '';'') @ ''..package.cpath'' @
         '';local k,l,_=pcall(require,'' @ luaQuote ''luarocks.loader'' @ '') _=k and l.add_context('' @
         luaQuote name @ '','' @ luaQuote ver @ '')'')"

definition binWrapperScript :: "string \<Rightarrow> bin_wrap \<Rightarrow> string \<Rightarrow> string \<Rightarrow> string \<Rightarrow> string" where
  "binWrapperScript t bw realScript name ver =
     ''#!/bin/sh'' @ [LF, LF] @ ''LUAROCKS_SYSCONFDIR='' @ shellQuote (bwSysconfdir bw) @
     '' exec '' @ shellQuote (bwInterpreter bw) @ '' -e '' @ shellQuote (wrapper_luainit t name ver) @
     '' '' @ shellQuote realScript @ '' '' @ [CHR 0x22] @ ''$@'' @ [CHR 0x22] @ [LF]"

section \<open>Quoting is undone by the shell and by Lua\<close>

text \<open>
  One word of the POSIX shell, as far as the wrapper needs it: text in single quotes is literal,
  a backslash outside them takes the next byte, a blank ends the word.
\<close>

fun sh_word :: "bool \<Rightarrow> string \<Rightarrow> string \<Rightarrow> (string \<times> string) option" where
  "sh_word quoted acc [] = (if quoted then None else Some (acc, []))"
| "sh_word quoted acc (c # s) =
     (if quoted then (if c = SQ then sh_word False acc s else sh_word True (acc @ [c]) s)
      else if c = SQ then sh_word True acc s
      else if c = CHR 0x5C then (case s of [] \<Rightarrow> None | d # t \<Rightarrow> sh_word False (acc @ [d]) t)
      else if c = CHR '' '' \<or> c = LF then Some (acc, c # s)
      else sh_word False (acc @ [c]) s)"

lemma sh_word_quoted:
  "sh_word True acc (replace_char s SQ [SQ, CHR 0x5C, SQ, SQ] @ SQ # t) = sh_word False (acc @ s) t"
  by (induction s arbitrary: acc) (simp_all add: replace_char_def)

lemma sh_word_shellQuote: "sh_word False [] (shellQuote s @ t) = sh_word False s t"
  using sh_word_quoted[of "[]" s t] by (simp add: shellQuote_def)

lemma luaQuote_char_simps:
  "luaQuote_char (CHR 0x22) = [CHR 0x5C, CHR 0x22]" "luaQuote_char (CHR 0x5C) = [CHR 0x5C, CHR 0x5C]"
  "luaQuote_char LF = [CHR 0x5C, CHR ''n'']" "luaQuote_char CR = [CHR 0x5C, CHR ''r'']"
  by (simp_all add: luaQuote_char_def)

lemma parse_luaQuote:
  "CHR 0x00 \<notin> set s \<Longrightarrow>
   parseShortString (CHR 0x22) b (concat (map luaQuote_char s) @ CHR 0x22 # t) = Inr (b @ s, t)"
proof (induction s arbitrary: b)
  case Nil
  then show ?case by (simp add: parseShortString_Cons)
next
  case (Cons c s)
  have IH: "parseShortString (CHR 0x22) (b @ [c]) (concat (map luaQuote_char s) @ CHR 0x22 # t) = Inr (b @ c # s, t)"
    using Cons.IH[of "b @ [c]"] Cons.prems by simp
  consider "c = CHR 0x22" | "c = CHR 0x5C" | "c = LF" | "c = CR"
    | "c \<noteq> CHR 0x22" "c \<noteq> CHR 0x5C" "c \<noteq> LF" "c \<noteq> CR" by blast
  then show ?case
  proof cases
    case 5
    then have "luaQuote_char c = [c]" using Cons.prems by (auto simp: luaQuote_char_def)
    then show ?thesis using IH 5 by (simp add: parseShortString_Cons)
  qed (use IH in \<open>simp_all add: luaQuote_char_simps parseShortString_Cons simple_escape_def\<close>)
qed

text \<open>
  C32: What the wrapper quotes arrives unchanged: the shell reads \<open>shellQuote s\<close> as the one word
  \<open>s\<close>, whatever bytes it has, and Lua reads \<open>luaQuote s\<close> as the string \<open>s\<close> when it has no NUL.
\<close>

theorem quoting_roundtrip:
  assumes "CHR 0x00 \<notin> set u"
  shows "sh_word False [] (shellQuote s @ CHR '' '' # t) = Some (s, CHR '' '' # t) \<and>
    parseShortString (hd (luaQuote u)) [] (tl (luaQuote u) @ r) = Inr (u, r)"
  using parse_luaQuote[OF assms, of "[]" r] by (simp add: sh_word_shellQuote luaQuote_def)

theorem quoting_roundtrip_witness:
  "sh_word False [] (shellQuote ''it's'' @ CHR '' '' # []) = Some (''it's'', '' '') \<and>
   parseShortString (hd (luaQuote [CHR 0x5C, LF])) [] (tl (luaQuote [CHR 0x5C, LF]) @ []) = Inr ([CHR 0x5C, LF], [])"
  by (rule quoting_roundtrip) simp

section \<open>Versioned names\<close>

lemma munge_map: "replace_char (replace_char s (CHR ''-'') ''_'') (CHR ''.'') ''_''
    = map (\<lambda>c. if c = CHR ''-'' \<or> c = CHR ''.'' then CHR ''_'' else c) s"
  by (induction s) (auto simp: replace_char_def)

abbreviation munge :: "string \<Rightarrow> string" where
  "munge \<equiv> map (\<lambda>c. if c = CHR ''-'' \<or> c = CHR ''.'' then CHR ''_'' else c)"

lemma mungedVersion_munge: "mungedVersion pkg ver = munge pkg @ CHR ''_'' # munge ver"
  by (simp add: mungedVersion_def munge_map)

text \<open>A version of the schema is determined by its munged form: the last underscore was the hyphen.\<close>

lemma munge_body:
  assumes "list_all (\<lambda>c. is_alnum c \<or> c = CHR ''.'') xs" "list_all (\<lambda>c. is_alnum c \<or> c = CHR ''.'') ys"
    and "munge xs = munge ys"
  shows "xs = ys"
  using assms
proof (induction xs arbitrary: ys)
  case (Cons x xs)
  then obtain y ys' where ys: "ys = y # ys'" by (cases ys) auto
  have u: "\<not> is_alnum (CHR ''_'')" "\<not> is_alnum (CHR ''-'')" by (simp_all add: char_class_defs)
  have "x = y" using Cons.prems ys u by (auto split: if_splits)
  then show ?case using Cons ys by simp
qed simp

lemma munge_digits: "list_all is_digit ds \<Longrightarrow> munge ds = ds"
  by (induction ds) (auto simp: is_digit_def)

lemma first_sep: "x \<notin> set xs \<Longrightarrow> x \<notin> set xs' \<Longrightarrow> xs @ x # ys = xs' @ x # ys' \<Longrightarrow> xs = xs' \<and> ys = ys'"
proof (induction xs arbitrary: xs')
  case Nil
  then show ?case by (cases xs') auto
next
  case (Cons a xs)
  then show ?case by (cases xs') auto
qed

text \<open>
  Two versions of one rock never share a munged name: on versions of the schema that
  \<open>Validate\<close> enforces, \<open>mungedVersion\<close> is injective, so the files of two versions kept side by
  side are apart.
\<close>

theorem mungedVersion_inj:
  assumes "versionRe v" and "versionRe w" and "mungedVersion pkg v = mungedVersion pkg w"
  shows "v = w"
proof -
  obtain b d where v: "v = b @ CHR ''-'' # d" "list_all is_digit d" "list_all (\<lambda>c. is_alnum c \<or> c = CHR ''.'') b"
    using versionRe_split[OF assms(1)] by metis
  obtain b' d' where w: "w = b' @ CHR ''-'' # d'" "list_all is_digit d'" "list_all (\<lambda>c. is_alnum c \<or> c = CHR ''.'') b'"
    using versionRe_split[OF assms(2)] by metis
  have "munge v = munge w" using assms(3) by (simp add: mungedVersion_munge)
  then have e: "munge b @ CHR ''_'' # d = munge b' @ CHR ''_'' # d'"
    using v(1,2) w(1,2) by (simp add: munge_digits)
  have "CHR ''_'' \<notin> set d" "CHR ''_'' \<notin> set d'"
    using v(2) w(2) by (auto simp: list_all_iff is_digit_def)
  then have "rev d = rev d' \<and> rev (munge b) = rev (munge b')"
    using arg_cong[OF e, of rev] by (intro first_sep[of "CHR ''_''"]) simp_all
  then have "d = d'" "munge b = munge b'" by simp_all
  then show ?thesis using munge_body[OF v(3) w(3)] v(1) w(1) by simp
qed

theorem mungedVersion_inj_witness: "versionRe ''1.2-3'' \<and> mungedVersion ''a'' ''1.2-3'' = ''a_1_2_3'' \<and> ''1.2-3'' = ''1.2-3''"
  using mungedVersion_inj[of "''1.2-3''" "''1.2-3''" "''a''"]
  by (simp add: versionRe_def mungedVersion_munge char_class_defs)

text \<open>
  Across rocks the munged names do clash: two rocks whose names and versions are all accepted
  get the same versioned file name.
\<close>

theorem mungedVersion_clash:
  "versionRe ''1-1'' \<and> versionRe ''b.1-1'' \<and> mungedVersion ''a-b'' ''1-1'' = mungedVersion ''a'' ''b.1-1''"
  by (simp add: versionRe_def mungedVersion_munge char_class_defs)

section \<open>The module a deployed file provides\<close>

definition good_segs :: "string list \<Rightarrow> bool" where
  "good_segs segs \<longleftrightarrow> segs \<noteq> [] \<and> list_all (\<lambda>c. c \<noteq> [] \<and> CHR ''.'' \<notin> set c \<and> CHR ''/'' \<notin> set c) segs"

lemma good_segs_comp: "good_segs segs \<Longrightarrow> list_all comp segs"
  by (auto simp: good_segs_def list_all_iff comp_def)

lemma replace_char_append: "replace_char (s @ t) a r = replace_char s a r @ replace_char t a r"
  by (simp add: replace_char_def)

lemma replace_char_id: "a \<notin> set s \<Longrightarrow> replace_char s a r = s"
  by (induction s) (auto simp: replace_char_def)

lemma replace_join:
  "list_all (\<lambda>c. a \<notin> set c) segs \<Longrightarrow> replace_char (join segs [a]) a r = join segs r"
proof (induction segs "[a]" rule: join.induct)
  case (3 x y ys)
  then show ?case by (simp add: replace_char_append replace_char_id) (simp add: replace_char_def)
next
  case 1
  then show ?case by (simp add: replace_char_def)
qed (simp add: replace_char_id)

lemma slashed_join: "good_segs segs \<Longrightarrow> slashed (join segs ''.'') = join segs ''/''"
  unfolding slashed_def by (rule replace_join) (auto simp: good_segs_def list_all_iff)

lemma join_snoc_ext: "segs \<noteq> [] \<Longrightarrow> join segs sep @ ext = join (butlast segs @ [last segs @ ext]) sep"
proof (induction segs sep rule: join.induct)
  case (3 x y ys sep)
  then show ?case by (cases ys) (auto simp: join_Cons)
qed simp_all

lemma comp_ext: "list_all comp (butlast segs @ [last segs @ ext])"
  if "good_segs segs" "CHR ''/'' \<notin> set ext" "2 < length ext"
proof -
  have "comp (last segs @ ext)"
    using that last_in_set[of segs] by (auto simp: comp_def good_segs_def list_all_iff append_eq_Cons_conv Cons_eq_append_conv)
  moreover have "\<forall>x \<in> set (butlast segs). comp x"
    using good_segs_comp[OF that(1)] by (auto simp: list_all_iff dest: in_set_butlastD)
  ultimately show ?thesis by (simp add: list_all_iff)
qed

lemma trim_char_id:
  assumes "s \<noteq> []" "hd s \<noteq> c" "last s \<noteq> c"
  shows "trim_char s c = s"
proof -
  have "dropWhile (\<lambda>x. x = c) s = s" using assms(1,2) by (cases s) auto
  moreover have "dropWhile (\<lambda>x. x = c) (rev s) = rev s" using assms(1,3) by (cases "rev s") (auto simp: hd_rev[symmetric])
  ultimately show ?thesis by (simp add: trim_char_def trim_left_char_def trim_right_char_def)
qed

lemma last_join:
  assumes "segs \<noteq> []" "last segs \<noteq> []"
  shows "last (join segs sep) = last (last segs)"
proof (cases "butlast segs = []")
  case True
  then have "segs = [last segs]" using assms(1) by (metis append_butlast_last_id append_Nil)
  then have "join segs sep = last segs" by (metis join.simps(2))
  then show ?thesis by simp
next
  case False
  have "join segs sep = join (butlast segs @ [last segs]) sep" using assms(1) by simp
  also have "\<dots> = join (butlast segs) sep @ sep @ last segs" using False by (subst join_append) simp_all
  finally show ?thesis using assms(2) by simp
qed

lemma pathToModule_join:
  assumes "good_segs segs" and "CHR ''.'' \<notin> set ext"
  shows "pathToModule (join segs ''/'' @ CHR ''.'' # ext) = join segs ''.''"
proof -
  have "replace_char (join segs ''/'') (CHR ''/'') ''.'' = join segs ''.''"
    by (rule replace_join) (use assms in \<open>auto simp: good_segs_def list_all_iff\<close>)
  moreover have "trim_char (join segs ''.'') (CHR ''.'') = join segs ''.''"
  proof (rule trim_char_id)
    have c: "segs \<noteq> []" "list_all comp segs" using assms(1) good_segs_comp by (auto simp: good_segs_def)
    show "join segs ''.'' \<noteq> []" using join_nonempty[OF c] .
    show "hd (join segs ''.'') \<noteq> CHR ''.''"
    proof -
      have "hd segs \<noteq> [] \<and> CHR ''.'' \<notin> set (hd segs)"
        using assms(1) c(1) hd_in_set[of segs] by (auto simp: good_segs_def list_all_iff)
      then have "hd (hd segs) \<noteq> CHR ''.''" using hd_in_set[of "hd segs"] by metis
      then show ?thesis using hd_join[OF c, of "''.''"] by simp
    qed
    have ls: "last segs \<noteq> []" "CHR ''.'' \<notin> set (last segs)"
      using c(1) assms(1) last_in_set[of segs] by (auto simp: good_segs_def list_all_iff)
    then show "last (join segs ''.'') \<noteq> CHR ''.''"
      using last_join[OF c(1) ls(1), of "''.''"] last_in_set[OF ls(1)] by metis
  qed
  ultimately show ?thesis by (simp add: pathToModule_def last_index_last assms(2))
qed

text \<open>A tree at a clean path, and the deploy directories under it.\<close>

definition tree_at :: "bool \<Rightarrow> string list \<Rightarrow> string \<Rightarrow> bool" where
  "tree_at r cs t \<longleftrightarrow> cs \<noteq> [] \<and> list_all comp cs \<and> t = mk_path r cs"

lemma tree_dirs:
  assumes "tree_at r cs t"
  shows "DeployLuaDir t = mk_path r (cs @ [''share'', ''tarantool''])"
    "DeployLibDir t = mk_path r (cs @ [''lib'', ''tarantool''])"
    "RocksDir t = mk_path r (cs @ [''share'', ''tarantool'', ''rocks''])"
    "BinDir t = mk_path r (cs @ [''bin''])"
  using assms by (simp_all add: tree_at_def DeployLuaDir_def DeployLibDir_def RocksDir_def BinDir_def path_join_comp comp_def)

lemma deploy_dir_mk:
  assumes "tree_at r cs t"
  shows "\<exists>ds. ds \<noteq> [] \<and> list_all comp ds \<and> deployDirForKind t k = mk_path r ds"
proof -
  have c: "list_all comp cs" using assms by (simp add: tree_at_def)
  show ?thesis
  proof (cases k)
    case KindLua
    then show ?thesis using c tree_dirs(1)[OF assms]
      by (intro exI[of _ "cs @ [''share'', ''tarantool'']"]) (simp add: deployDirForKind_def comp_def)
  next
    case KindLib
    then show ?thesis using c tree_dirs(2)[OF assms]
      by (intro exI[of _ "cs @ [''lib'', ''tarantool'']"]) (simp add: deployDirForKind_def comp_def)
  qed
qed

lemma deployed_rel:
  assumes "ds \<noteq> []" "list_all comp ds" "good_segs segs" "CHR ''.'' \<notin> set ext" "CHR ''/'' \<notin> set ext" "length ext = Suc n"
    "2 \<le> length ext"
  shows "path_rel (mk_path r ds) (path_join [mk_path r ds, join segs ''/'' @ CHR ''.'' # ext])
      = Some (join segs ''/'' @ CHR ''.'' # ext) \<and>
    pathToModule (join segs ''/'' @ CHR ''.'' # ext) = join segs ''.''"
proof -
  let ?es = "butlast segs @ [last segs @ CHR ''.'' # ext]"
  have c: "list_all comp ?es" "?es \<noteq> []" using assms comp_ext[OF assms(3), of "CHR ''.'' # ext"] by simp_all
  have j: "join segs ''/'' @ CHR ''.'' # ext = join ?es ''/''"
    using assms(3) by (subst join_snoc_ext) (simp_all add: good_segs_def)
  have "path_join [mk_path r ds, join ?es ''/''] = mk_path r (ds @ ?es)"
    using path_join_mk[OF assms(1,2), of "[?es]" r] c by simp
  then have "path_rel (mk_path r ds) (path_join [mk_path r ds, join ?es ''/'']) = Some (join ?es ''/'')"
    using path_rel_mk[OF assms(1,2) c(2,1), of r] by simp
  then show ?thesis using j pathToModule_join[OF assms(3,4)] by simp
qed

text \<open>
  C31: The module a deployed file is indexed under is the module it was deployed for: the path that
  \<open>resolveModule\<close> gives a module, taken relative to its deploy directory and mapped back by
  \<open>pathToModule\<close>, is the module's name.
\<close>

theorem resolveModule_index:
  assumes "tree_at r cs t" and "good_segs segs"
    and "resolveModule srcDir buildDir (join segs ''.'') m t = Inr (src, dst, k)"
  shows "\<exists>rel. path_rel (deployDirForKind t k) dst = Some rel \<and> pathToModule rel = join segs ''.''"
proof -
  obtain ds where ds: "ds \<noteq> []" "list_all comp ds" "deployDirForKind t k = mk_path r ds"
    using deploy_dir_mk[OF assms(1)] by metis
  have sl: "slashed (join segs ''.'') = join segs ''/''" using slashed_join[OF assms(2)] .
  consider "dst = path_join [deployDirForKind t k, join segs ''/'' @ ''.lua'']"
    | "dst = path_join [deployDirForKind t k, join segs ''/'' @ ''.so'']"
    using assms(3) by (auto simp: resolveModule_def Let_def sl deployDirForKind_def split: if_splits)
  then show ?thesis
  proof cases
    case 1
    then show ?thesis using deployed_rel[OF ds(1,2) assms(2), of "''lua''" 2 r] ds(3) by auto
  next
    case 2
    then show ?thesis using deployed_rel[OF ds(1,2) assms(2), of "''so''" 1 r] ds(3) by auto
  qed
qed

theorem resolveModule_index_witness:
  "\<exists>rel. path_rel (deployDirForKind ''/t'' KindLib) ''/t/lib/tarantool/a/b.so'' = Some rel \<and> pathToModule rel = ''a.b''"
proof -
  have t: "tree_at True [''t''] ''/t''" by (simp add: tree_at_def mk_path_def comp_def)
  have g: "good_segs [''a'', ''b'']" by (simp add: good_segs_def)
  have "resolveModule ''/s'' ''/b'' (join [''a'', ''b''] ''.'') (zero_module\<lparr>mSources := [''x.c'']\<rparr>) ''/t''
      = Inr (''/b/lib/a/b.so'', ''/t/lib/tarantool/a/b.so'', KindLib)"
    by code_simp
  then show ?thesis using resolveModule_index[OF t g] by simp
qed

end
