(* ===== verification/TreeManifest.thy ===== *)
theory TreeManifest
  imports ManifRoundtrip TreePaths
begin

text \<open>
  How the manifest of the tree changes: the helpers of \<open>src/client/client.go\<close> (provider lists,
  resolved dependencies) and the updates that \<open>deployRock\<close> and \<open>Remove\<close> of
  \<open>src/client/native.go\<close> make between reading and writing it. The manifest starts empty, and every
  step either records a deployed rock or forgets a version; the invariant of these steps is that the
  indexes and the repository agree.
\<close>

section \<open>The manifest of the tree\<close>

definition upsertProvider :: "string list \<Rightarrow> string \<Rightarrow> bool \<Rightarrow> string list" where
  "upsertProvider xs provider active =
     (let out = filter (\<lambda>x. x \<noteq> provider) xs in if active then provider # out else out @ [provider])"

definition removeProvider :: "(string, string list) gomap \<Rightarrow> string \<Rightarrow> (string, string list) gomap" where
  "removeProvider index provider =
     filter (\<lambda>(item, xs). xs \<noteq> []) (map (\<lambda>(item, xs). (item, filter (\<lambda>x. x \<noteq> provider) xs)) index)"

definition first_provider :: "(string, string list) gomap \<Rightarrow> string \<Rightarrow> (string \<times> string) option" where
  "first_provider index item = (case map_of index item of
     Some (p # ps) \<Rightarrow> (let (name, ver, ok) = cut p ''/'' in if ok then Some (name, ver) else None)
   | _ \<Rightarrow> None)"

definition manifestProvider :: "manifest \<Rightarrow> string \<Rightarrow> (string \<times> string) option" where
  "manifestProvider m item = (case first_provider (mfModules m) item of
     Some nv \<Rightarrow> Some nv | None \<Rightarrow> first_provider (mfCommands m) item)"

definition highest_key :: "(string, 'v) gomap \<Rightarrow> string" where
  "highest_key vs = foldl (\<lambda>best v. if best < v then v else best) [] (map fst vs)"

definition lowest_key :: "(string, 'v) gomap \<Rightarrow> string" where
  "lowest_key vs = foldl (\<lambda>picked v. if picked = [] \<or> v < picked then v else picked) [] (map fst vs)"

definition resolveInstalledDeps :: "rockspec \<Rightarrow> manifest \<Rightarrow> (string, string) gomap" where
  "resolveInstalledDeps spec m = foldl (\<lambda>out d.
     if dName d = rPackage spec then out
     else case map_of (mfRepository m) (dName d) of
       None \<Rightarrow> out
     | Some versions \<Rightarrow> (if versions = [] then out else mput (dName d) (highest_key versions) out))
     [] (rDependencies spec)"

definition empty_manifest :: manifest where
  "empty_manifest = \<lparr>mfRepository = [], mfModules = [], mfCommands = [], mfDependencies = []\<rparr>"

definition provide :: "string \<Rightarrow> string list \<Rightarrow> (string, string list) gomap \<Rightarrow> (string, string list) gomap" where
  "provide pkgVer items index = foldl (\<lambda>index item. mput item (upsertProvider (mget index item []) pkgVer True) index) index items"

definition pkg_ver :: "string \<Rightarrow> string \<Rightarrow> string" where
  "pkg_ver name ver = name @ ''/'' @ ver"

text \<open>How the manifest changes when a rock has been deployed.\<close>

definition record_rock :: "rockspec \<Rightarrow> rock_manifest \<Rightarrow> manifest \<Rightarrow> manifest" where
  "record_rock spec rm m0 =
     (let name = rPackage spec; ver = rVersion spec; pv = pkg_ver name ver;
          mods = ModuleIndex (Some rm) name ver;
          cmds = (if rmBin rm \<noteq> [] then iBin (bInstall (bFields (rBuild spec))) else []);
          m = m0\<lparr>mfModules := provide pv (map fst mods) (mfModules m0),
                 mfCommands := provide pv (map fst cmds) (mfCommands m0),
                 mfDependencies := mput name (mput ver (rDependencies spec) (mget (mfDependencies m0) name []))
                   (mfDependencies m0)\<rparr>;
          entry = \<lparr>eArch = ''installed'', eModules = mods, eCommands = maps_copy [] cmds,
                   eDependencies = resolveInstalledDeps spec m\<rparr>
      in m\<lparr>mfRepository := mput name (mput ver entry (mget (mfRepository m0) name [])) (mfRepository m0)\<rparr>)"

text \<open>How it changes when a version has been deleted, and when a rock has no version left.\<close>

definition forget_version :: "string \<Rightarrow> string \<Rightarrow> manifest \<Rightarrow> manifest" where
  "forget_version name ver m =
     m\<lparr>mfRepository := mput name (mdel ver (mget (mfRepository m) name [])) (mfRepository m),
       mfModules := removeProvider (mfModules m) (pkg_ver name ver),
       mfCommands := removeProvider (mfCommands m) (pkg_ver name ver),
       mfDependencies := (case map_of (mfDependencies m) name of
         None \<Rightarrow> mfDependencies m | Some vers \<Rightarrow> mput name (mdel ver vers) (mfDependencies m))\<rparr>"

definition drop_if_gone :: "string \<Rightarrow> manifest \<Rightarrow> manifest" where
  "drop_if_gone name m =
     (if mget (mfRepository m) name [] = []
      then m\<lparr>mfRepository := mdel name (mfRepository m), mfDependencies := mdel name (mfDependencies m)\<rparr>
      else m)"

section \<open>Histories of a manifest\<close>

text \<open>
  Every manifest the client writes is the result of deployments and removals that started with the
  empty one; between two of them it is written to the tree and read back. A package name has no slash in it: names come from file names of rocks and from
  manifests, where the slash separates the name from the version.
\<close>

definition slash_free :: "string \<Rightarrow> bool" where
  "slash_free n \<longleftrightarrow> CHR ''/'' \<notin> set n"

inductive history :: "manifest \<Rightarrow> bool" where
  h_empty: "history empty_manifest"
| h_deploy: "history m \<Longrightarrow> slash_free (rPackage spec) \<Longrightarrow> history (record_rock spec rm m)"
| h_reload: "history m \<Longrightarrow> tidy_manifest m \<Longrightarrow> history (ordered_manifest m)"
| h_remove: "history m \<Longrightarrow> slash_free name \<Longrightarrow> map_of (mfRepository m) name \<noteq> None \<Longrightarrow>
    history (drop_if_gone name (fold (forget_version name) vs m))"

definition has_rock :: "manifest \<Rightarrow> string \<Rightarrow> string \<Rightarrow> bool" where
  "has_rock m name ver \<longleftrightarrow> map_of (mget (mfRepository m) name []) ver \<noteq> None"

text \<open>The indexes name installed rocks, and an installed rock is found under each of its items.\<close>

definition names_rock :: "manifest \<Rightarrow> string \<Rightarrow> bool" where
  "names_rock m p \<longleftrightarrow> (\<exists>n v. p = pkg_ver n v \<and> slash_free n \<and> has_rock m n v)"

definition sound_index :: "manifest \<Rightarrow> (string, string list) gomap \<Rightarrow> bool" where
  "sound_index m idx \<longleftrightarrow> (\<forall>(item, xs) \<in> set idx.
     xs \<noteq> [] \<and> (\<forall>p \<in> set xs. names_rock m p))"

definition provides :: "manifest \<Rightarrow> string \<Rightarrow> string \<Rightarrow> repo_entry \<Rightarrow> bool" where
  "provides m n v e \<longleftrightarrow> slash_free n \<and>
     (\<forall>i \<in> fst ` set (eModules e). pkg_ver n v \<in> set (mget (mfModules m) i [])) \<and>
     (\<forall>i \<in> fst ` set (eCommands e). pkg_ver n v \<in> set (mget (mfCommands m) i []))"

definition agreeing :: "manifest \<Rightarrow> bool" where
  "agreeing m \<longleftrightarrow> sound_index m (mfModules m) \<and> sound_index m (mfCommands m) \<and>
     (\<forall>n v e. map_of (mget (mfRepository m) n []) v = Some e \<longrightarrow> provides m n v e) \<and>
     (\<forall>n. map_of (mfRepository m) n = None \<longleftrightarrow> map_of (mfDependencies m) n = None) \<and>
     (\<forall>n v. has_rock m n v \<longleftrightarrow> map_of (mget (mfDependencies m) n []) v \<noteq> None)"

definition consistent :: "manifest \<Rightarrow> bool" where
  "consistent m \<longleftrightarrow> agreeing m \<and> (\<forall>n. map_of (mfRepository m) n \<noteq> Some [])"

lemma pkg_ver_inj: "slash_free n \<Longrightarrow> slash_free n' \<Longrightarrow> pkg_ver n v = pkg_ver n' v' \<longleftrightarrow> n = n' \<and> v = v'"
proof (induction n arbitrary: n')
  case Nil
  then show ?case by (cases n') (auto simp: pkg_ver_def slash_free_def)
next
  case (Cons c n)
  then show ?case by (cases n') (auto simp: pkg_ver_def slash_free_def)
qed

lemma mget_mput: "mget (mput k v m) k' d = (if k' = k then v else mget m k' d)"
  by (simp add: mget_def go_simps)

lemma mget_mdel: "mget (mdel k m) k' d = (if k' = k then d else mget m k' d)"
  by (simp add: mget_def go_simps)

subsection \<open>Provider lists\<close>

lemma provide_simps [simp]:
  "provide pv [] idx = idx"
  "provide pv (i # items) idx = provide pv items (mput i (upsertProvider (mget idx i []) pv True) idx)"
  by (simp_all add: provide_def)

lemma map_of_provide:
  "map_of (provide pv items idx) i =
     (if i \<in> set items then Some (pv # filter (\<lambda>x. x \<noteq> pv) (mget idx i [])) else map_of idx i)"
  by (induction items arbitrary: idx) (auto simp: go_simps mget_mput upsertProvider_def)

lemma removeProvider_put:
  "removeProvider (mput i (pv # filter (\<lambda>x. x \<noteq> pv) (mget idx i [])) idx) pv = removeProvider idx pv"
  by (induction idx) (auto simp: removeProvider_def mget_def)

lemma removeProvider_provide: "removeProvider (provide pv items idx) pv = removeProvider idx pv"
  by (induction items arbitrary: idx) (simp_all add: upsertProvider_def removeProvider_put)

lemma removeProvider_mget:
  "p \<in> set (mget idx i []) \<Longrightarrow> p \<noteq> pv \<Longrightarrow> p \<in> set (mget (removeProvider idx pv) i [])"
proof (induction idx)
  case (Cons kx idx)
  obtain k xs where kx: "kx = (k, xs)" by (cases kx)
  have rp: "removeProvider (kx # idx) pv = (let ys = filter (\<lambda>x. x \<noteq> pv) xs in
      if ys = [] then removeProvider idx pv else (k, ys) # removeProvider idx pv)"
    by (simp add: kx removeProvider_def)
  show ?case
  proof (cases "k = i")
    case True
    then have p: "p \<in> set xs" using Cons.prems(1) kx by (simp add: mget_def)
    then have "filter (\<lambda>x. x \<noteq> pv) xs \<noteq> []" using Cons.prems(2) by (auto simp: filter_empty_conv)
    then show ?thesis unfolding rp using True p Cons.prems(2) by (simp add: mget_def)
  next
    case False
    then have "mget (kx # idx) i [] = mget idx i []" using kx by (simp add: mget_def)
    then have IH: "p \<in> set (mget (removeProvider idx pv) i [])" using Cons by simp
    then show ?thesis unfolding rp using False by (simp add: mget_def Let_def)
  qed
qed (simp add: mget_def)

lemma removeProvider_id: "\<forall>(i, xs) \<in> set idx. xs \<noteq> [] \<and> pv \<notin> set xs \<Longrightarrow> removeProvider idx pv = idx"
proof (induction idx)
  case (Cons kx idx)
  obtain k xs where kx: "kx = (k, xs)" by (cases kx)
  have "filter (\<lambda>x. x \<noteq> pv) xs = xs" using Cons.prems kx by (auto intro: filter_True)
  then show ?case using Cons kx by (simp add: removeProvider_def)
qed (simp add: removeProvider_def)

lemma set_mput: "set (mput k v m) \<subseteq> insert (k, v) (set m)"
  by (induction m) auto

lemma mget_in: "mget idx i [] \<noteq> [] \<Longrightarrow> (i, mget idx i []) \<in> set idx"
  by (auto simp: mget_def split: option.splits dest: map_of_SomeD)

lemma sound_indexD:
  "sound_index m idx \<Longrightarrow> (i, xs) \<in> set idx \<Longrightarrow> p \<in> set xs \<Longrightarrow> names_rock m p"
  by (auto simp: sound_index_def)

lemma sound_put:
  assumes "sound_index m idx"
    and "xs \<noteq> [] \<and> (\<forall>p \<in> set xs. names_rock m p)"
  shows "sound_index m (mput i xs idx)"
proof -
  have "(j, ys) = (i, xs) \<or> (j, ys) \<in> set idx" if "(j, ys) \<in> set (mput i xs idx)" for j ys
    using that set_mput[of i xs idx] by blast
  then show ?thesis using assms unfolding sound_index_def by blast
qed

lemma sound_provide:
  assumes "sound_index m idx" and "slash_free n" "has_rock m n v"
  shows "sound_index m (provide (pkg_ver n v) items idx)"
  using assms(1)
proof (induction items arbitrary: idx)
  case (Cons i items)
  let ?pv = "pkg_ver n v"
  let ?xs = "upsertProvider (mget idx i []) ?pv True"
  have "names_rock m p" if "p \<in> set ?xs" for p
  proof (cases "p = ?pv")
    case False
    then have p: "p \<in> set (mget idx i [])" using that by (simp add: upsertProvider_def)
    then have "mget idx i [] \<noteq> []" by auto
    then have "(i, mget idx i []) \<in> set idx" by (rule mget_in)
    then show ?thesis by (rule sound_indexD[OF Cons.prems _ p])
  qed (use assms(2,3) in \<open>auto simp: names_rock_def\<close>)
  moreover have "?xs \<noteq> []" by (simp add: upsertProvider_def)
  ultimately have good: "?xs \<noteq> [] \<and> (\<forall>p \<in> set ?xs. names_rock m p)" by blast
  have "sound_index m (mput i ?xs idx)" by (rule sound_put[OF Cons.prems good])
  then show ?case using Cons.IH by simp
qed simp

lemma sound_mono: "sound_index m idx \<Longrightarrow> (\<And>n v. has_rock m n v \<Longrightarrow> has_rock m' n v) \<Longrightarrow> sound_index m' idx"
proof -
  assume s: "sound_index m idx" and i: "\<And>n v. has_rock m n v \<Longrightarrow> has_rock m' n v"
  have "names_rock m' p" if "names_rock m p" for p
    using that i unfolding names_rock_def by blast
  then show "sound_index m' idx" using s unfolding sound_index_def by blast
qed

lemma sound_remove:
  assumes "sound_index m idx" and "slash_free n"
    and "\<And>n' v'. has_rock m n' v' \<Longrightarrow> (n', v') \<noteq> (n, v) \<Longrightarrow> has_rock m' n' v'"
  shows "sound_index m' (removeProvider idx (pkg_ver n v))"
  unfolding sound_index_def
proof (intro ballI, clarify)
  fix i xs assume "(i, xs) \<in> set (removeProvider idx (pkg_ver n v))"
  then obtain ys where ys: "(i, ys) \<in> set idx" "xs = filter (\<lambda>x. x \<noteq> pkg_ver n v) ys" "xs \<noteq> []"
    by (auto simp: removeProvider_def)
  have "names_rock m' p" if "p \<in> set xs" for p
  proof -
    have "p \<in> set ys" "p \<noteq> pkg_ver n v" using that ys(2) by auto
    then obtain n' v' where "p = pkg_ver n' v'" "slash_free n'" "has_rock m n' v'" "(n', v') \<noteq> (n, v)"
      using sound_indexD[OF assms(1) ys(1), of p] by (auto simp: names_rock_def)
    then show ?thesis unfolding names_rock_def using assms(3) by blast
  qed
  then show "xs \<noteq> [] \<and> (\<forall>p \<in> set xs. names_rock m' p)" using ys(3) by blast
qed

subsection \<open>One step\<close>

lemma installed_record:
  "has_rock (record_rock spec rm m) n v \<longleftrightarrow> (n = rPackage spec \<and> v = rVersion spec) \<or> has_rock m n v"
  by (simp add: has_rock_def record_rock_def Let_def mget_mput go_simps)

lemma installed_forget: "has_rock (forget_version name ver m) n v \<longleftrightarrow> has_rock m n v \<and> (n, v) \<noteq> (name, ver)"
  by (simp add: has_rock_def forget_version_def mget_mput go_simps)

lemma record_fields:
  "mfModules (record_rock spec rm m) = provide (pkg_ver (rPackage spec) (rVersion spec))
     (map fst (ModuleIndex (Some rm) (rPackage spec) (rVersion spec))) (mfModules m)"
  "mfCommands (record_rock spec rm m) = provide (pkg_ver (rPackage spec) (rVersion spec))
     (map fst (if rmBin rm \<noteq> [] then iBin (bInstall (bFields (rBuild spec))) else [])) (mfCommands m)"
  "mfDependencies (record_rock spec rm m) = mput (rPackage spec) (mput (rVersion spec) (rDependencies spec)
     (mget (mfDependencies m) (rPackage spec) [])) (mfDependencies m)"
  by (simp_all add: record_rock_def Let_def)

lemma repository_new:
  "\<exists>ds. map_of (mget (mfRepository (record_rock spec rm m)) (rPackage spec) []) (rVersion spec) =
     Some \<lparr>eArch = ''installed'', eModules = ModuleIndex (Some rm) (rPackage spec) (rVersion spec),
       eCommands = maps_copy [] (if rmBin rm \<noteq> [] then iBin (bInstall (bFields (rBuild spec))) else []), eDependencies = ds\<rparr>"
  by (simp add: record_rock_def Let_def mget_mput go_simps)

lemma repository_other:
  "(n, v) \<noteq> (rPackage spec, rVersion spec) \<Longrightarrow>
   map_of (mget (mfRepository (record_rock spec rm m)) n []) v = map_of (mget (mfRepository m) n []) v"
  by (auto simp: record_rock_def Let_def mget_mput go_simps)

lemma fst_maps_copy: "fst ` set (maps_copy dst src) = fst ` set dst \<union> fst ` set src"
proof (induction src arbitrary: dst)
  case (Cons kv src)
  then show ?case by (cases kv) (auto simp: dom_map_of_conv_image_fst[symmetric] go_simps dom_def split: if_splits)
qed simp

lemma mget_provide:
  "mget (provide pv items idx) i [] = (if i \<in> set items then pv # filter (\<lambda>x. x \<noteq> pv) (mget idx i []) else mget idx i [])"
  by (simp add: mget_def map_of_provide)

lemma provide_mono: "p \<in> set (mget idx i []) \<Longrightarrow> p \<in> set (mget (provide pv items idx) i [])"
  by (auto simp: mget_provide)

lemma consistent_record:
  assumes c: "consistent m" and sf: "slash_free (rPackage spec)"
  shows "consistent (record_rock spec rm m)"
proof -
  let ?m = "record_rock spec rm m"
  let ?n = "rPackage spec" and ?v = "rVersion spec"
  have mono: "has_rock m n v \<Longrightarrow> has_rock ?m n v" for n v by (simp add: installed_record)
  have new: "has_rock ?m ?n ?v" by (simp add: installed_record)
  have s: "sound_index m (mfModules m)" "sound_index m (mfCommands m)"
    and p: "\<And>n v e. map_of (mget (mfRepository m) n []) v = Some e \<Longrightarrow> provides m n v e"
    and dm: "\<And>n. map_of (mfRepository m) n = None \<longleftrightarrow> map_of (mfDependencies m) n = None"
    and dv: "\<And>n v. has_rock m n v \<longleftrightarrow> map_of (mget (mfDependencies m) n []) v \<noteq> None"
    and ne: "\<And>n. map_of (mfRepository m) n \<noteq> Some []"
    using c by (simp_all add: consistent_def agreeing_def)
  have 1: "sound_index ?m (mfModules ?m)"
    unfolding record_fields by (rule sound_provide[OF sound_mono[OF s(1) mono] sf new])
  have 6: "sound_index ?m (mfCommands ?m)"
    unfolding record_fields by (rule sound_provide[OF sound_mono[OF s(2) mono] sf new])
  have 2: "provides ?m n v e" if e: "map_of (mget (mfRepository ?m) n []) v = Some e" for n v e
  proof (cases "n = ?n \<and> v = ?v")
    case True
    then obtain ds where "e = \<lparr>eArch = ''installed'', eModules = ModuleIndex (Some rm) ?n ?v,
        eCommands = maps_copy [] (if rmBin rm \<noteq> [] then iBin (bInstall (bFields (rBuild spec))) else []), eDependencies = ds\<rparr>"
      using e repository_new[of spec rm m] by auto
    then show ?thesis
      using True sf unfolding provides_def record_fields by (simp add: mget_provide fst_maps_copy)
  next
    case False
    then have "provides m n v e" using e p repository_other[of n v spec rm m] by auto
    then show ?thesis unfolding provides_def record_fields using provide_mono by blast
  qed
  have 3: "map_of (mfRepository ?m) n \<noteq> Some []" for n
    using ne[of n] by (simp add: record_rock_def Let_def go_simps)
  have 4: "map_of (mfRepository ?m) n = None \<longleftrightarrow> map_of (mfDependencies ?m) n = None" for n
    using dm[of n] by (simp add: record_rock_def Let_def go_simps)
  have 5: "has_rock ?m n v \<longleftrightarrow> map_of (mget (mfDependencies ?m) n []) v \<noteq> None" for n v
    using dv[of n v] by (simp add: installed_record record_fields mget_mput go_simps)
  show ?thesis unfolding consistent_def agreeing_def using 1 6 2 3 4 5 by blast
qed

lemma agreeing_forget:
  assumes c: "agreeing m" and sf: "slash_free name" and nm: "map_of (mfRepository m) name \<noteq> None"
  shows "agreeing (forget_version name ver m)" and "map_of (mfRepository (forget_version name ver m)) name \<noteq> None"
    and "n \<noteq> name \<Longrightarrow> map_of (mfRepository (forget_version name ver m)) n = map_of (mfRepository m) n"
proof -
  let ?m = "forget_version name ver m"
  have s: "sound_index m (mfModules m)" "sound_index m (mfCommands m)"
    and p: "\<And>n v e. map_of (mget (mfRepository m) n []) v = Some e \<Longrightarrow> provides m n v e"
    and dm: "\<And>n. map_of (mfRepository m) n = None \<longleftrightarrow> map_of (mfDependencies m) n = None"
    and dv: "\<And>n v. has_rock m n v \<longleftrightarrow> map_of (mget (mfDependencies m) n []) v \<noteq> None"
    using c by (simp_all add: agreeing_def)
  have keep: "has_rock m n v \<Longrightarrow> (n, v) \<noteq> (name, ver) \<Longrightarrow> has_rock ?m n v" for n v
    by (simp add: installed_forget)
  have f: "mfModules ?m = removeProvider (mfModules m) (pkg_ver name ver)"
    "mfCommands ?m = removeProvider (mfCommands m) (pkg_ver name ver)"
    by (simp_all add: forget_version_def)
  obtain ds where ds: "map_of (mfDependencies m) name = Some ds" using dm[of name] nm by auto
  have fd: "mfDependencies ?m = mput name (mdel ver ds) (mfDependencies m)" "mget (mfDependencies m) name [] = ds"
    using ds by (simp_all add: forget_version_def mget_def)
  have 1: "sound_index ?m (mfModules ?m)" unfolding f by (rule sound_remove[OF s(1) sf keep])
  have 6: "sound_index ?m (mfCommands ?m)" unfolding f by (rule sound_remove[OF s(2) sf keep])
  have 2: "provides ?m n v e" if e: "map_of (mget (mfRepository ?m) n []) v = Some e" for n v e
  proof -
    have old: "map_of (mget (mfRepository m) n []) v = Some e" "(n, v) \<noteq> (name, ver)"
      using e by (auto simp: forget_version_def mget_mput go_simps split: if_splits)
    have pv: "provides m n v e" using p[OF old(1)] .
    then have "pkg_ver n v \<noteq> pkg_ver name ver" using pkg_ver_inj[OF _ sf] old(2) by (auto simp: provides_def)
    then show ?thesis using pv unfolding provides_def f by (auto intro: removeProvider_mget)
  qed
  have 4: "map_of (mfRepository ?m) n = None \<longleftrightarrow> map_of (mfDependencies ?m) n = None" for n
    unfolding fd using dm[of n] nm by (simp add: forget_version_def go_simps)
  have 5: "has_rock ?m n v \<longleftrightarrow> map_of (mget (mfDependencies ?m) n []) v \<noteq> None" for n v
    unfolding fd(1) using dv[of n v] fd(2) by (auto simp: installed_forget mget_mput go_simps)
  show "agreeing ?m" unfolding agreeing_def using 1 6 2 4 5 by blast
  show "map_of (mfRepository ?m) name \<noteq> None" by (simp add: forget_version_def go_simps)
  show "map_of (mfRepository ?m) n = map_of (mfRepository m) n" if "n \<noteq> name"
    using that by (simp add: forget_version_def go_simps)
qed

lemma agreeing_forgets:
  assumes "agreeing m" and "slash_free name" and "map_of (mfRepository m) name \<noteq> None"
  shows "agreeing (fold (forget_version name) vs m) \<and>
    (\<forall>n. n \<noteq> name \<longrightarrow> map_of (mfRepository (fold (forget_version name) vs m)) n = map_of (mfRepository m) n)"
  using assms(1,3)
proof (induction vs arbitrary: m)
  case (Cons v vs)
  note f = agreeing_forget[OF Cons.prems(1) assms(2) Cons.prems(2), where ver = v]
  show ?case using Cons.IH[OF f(1,2)] f(3) by simp
qed simp

lemma consistent_drop:
  assumes a: "agreeing m" and ne: "\<forall>n. n \<noteq> name \<longrightarrow> map_of (mfRepository m) n \<noteq> Some []"
  shows "consistent (drop_if_gone name m)"
proof (cases "mget (mfRepository m) name [] = []")
  case False
  then have "map_of (mfRepository m) name \<noteq> Some []" by (auto simp: mget_def)
  then show ?thesis using False assms by (auto simp: drop_if_gone_def consistent_def)
next
  case True
  let ?m = "drop_if_gone name m"
  have m: "?m = m\<lparr>mfRepository := mdel name (mfRepository m), mfDependencies := mdel name (mfDependencies m)\<rparr>"
    using True by (simp add: drop_if_gone_def)
  have rep: "mget (mfRepository ?m) n [] = mget (mfRepository m) n []" for n
    using True by (simp add: m mget_mdel)
  then have i: "has_rock ?m n v = has_rock m n v" for n v by (simp add: has_rock_def)
  have dep: "map_of (mget (mfDependencies ?m) n []) v = map_of (mget (mfDependencies m) n []) v" for n v
  proof (cases "n = name")
    case True
    have "\<not> has_rock m name v" using \<open>mget (mfRepository m) name [] = []\<close> by (simp add: has_rock_def)
    then have "map_of (mget (mfDependencies m) name []) v = None" using a by (simp add: agreeing_def)
    then show ?thesis using True by (simp add: m mget_mdel)
  qed (simp add: m mget_mdel)
  have snd: "sound_index ?m idx = sound_index m idx" for idx by (simp add: sound_index_def names_rock_def i)
  have pr: "provides ?m n v e = provides m n v e" for n v e by (simp add: provides_def m)
  have "agreeing ?m"
    using a unfolding agreeing_def snd pr rep dep i by (simp add: m go_simps)
  moreover have "map_of (mfRepository ?m) n \<noteq> Some []" for n using ne by (simp add: m go_simps)
  ultimately show ?thesis by (simp add: consistent_def)
qed

text \<open>Writing and reading back changes the order of the keys only.\<close>

lemma set_in_key_order: "set (in_key_order f m) = (\<lambda>(k, x). (k, f x)) ` set m"
  by (simp add: in_key_order_def)

lemma set_in_key_order_id: "set (in_key_order id m) = set m"
  by (simp add: set_in_key_order)

lemma mget_in_key_order: "distinct (map fst m) \<Longrightarrow> f d = d \<Longrightarrow> mget (in_key_order f m) k d = f (mget m k d)"
  by (simp add: mget_def map_of_in_key_order split: option.split)

lemma in_key_order_Nil: "in_key_order f m = [] \<longleftrightarrow> m = []"
  using set_in_key_order[of f m] by (metis image_is_empty set_empty)

lemma ordered_repository:
  assumes "tidy_manifest m"
  shows "map_of (mfRepository (ordered_manifest m)) n = map_option (in_key_order ordered_entry) (map_of (mfRepository m) n)"
    and "map_of (mget (mfRepository (ordered_manifest m)) n []) v = map_option ordered_entry (map_of (mget (mfRepository m) n []) v)"
proof -
  have k: "keyed (keyed tidy_entry) (mfRepository m)" using assms by (simp add: tidy_manifest_def)
  then have d: "distinct (map fst (mfRepository m))" by (simp add: keyed_def)
  show 1: "map_of (mfRepository (ordered_manifest m)) n = map_option (in_key_order ordered_entry) (map_of (mfRepository m) n)"
    using d by (simp add: ordered_manifest_def map_of_in_key_order)
  have "distinct (map fst (mget (mfRepository m) n []))"
    using k by (auto simp: mget_def keyed_def split: option.split dest: map_of_SomeD)
  then show "map_of (mget (mfRepository (ordered_manifest m)) n []) v = map_option ordered_entry (map_of (mget (mfRepository m) n []) v)"
    using d by (simp add: ordered_manifest_def mget_in_key_order in_key_order_def[of _ "[]"] map_of_in_key_order)
qed

lemma ordered_dependencies:
  assumes "tidy_manifest m"
  shows "map_of (mfDependencies (ordered_manifest m)) n = map_option (in_key_order id) (map_of (mfDependencies m) n)"
    and "map_of (mget (mfDependencies (ordered_manifest m)) n []) v = map_of (mget (mfDependencies m) n []) v"
proof -
  have k: "keyed (keyed (list_all tidy_dep)) (mfDependencies m)" using assms by (simp add: tidy_manifest_def)
  then have d: "distinct (map fst (mfDependencies m))" by (simp add: keyed_def)
  show "map_of (mfDependencies (ordered_manifest m)) n = map_option (in_key_order id) (map_of (mfDependencies m) n)"
    using d by (simp add: ordered_manifest_def map_of_in_key_order)
  have "distinct (map fst (mget (mfDependencies m) n []))"
    using k by (auto simp: mget_def keyed_def split: option.split dest: map_of_SomeD)
  then show "map_of (mget (mfDependencies (ordered_manifest m)) n []) v = map_of (mget (mfDependencies m) n []) v"
    using d by (simp add: ordered_manifest_def mget_in_key_order in_key_order_def[of _ "[]"] map_of_in_key_order option.map_id)
qed

lemma consistent_ordered:
  assumes c: "consistent m" and t: "tidy_manifest m"
  shows "consistent (ordered_manifest m)"
proof -
  let ?o = "ordered_manifest m"
  have k: "distinct (map fst (mfModules m))" "distinct (map fst (mfCommands m))" using t by (simp_all add: tidy_manifest_def keyed_def)
  have has: "has_rock ?o n v = has_rock m n v" for n v by (simp add: has_rock_def ordered_repository(2)[OF t])
  have snd: "sound_index ?o (in_key_order id idx) = sound_index m idx" for idx
    by (simp add: sound_index_def names_rock_def has set_in_key_order_id)
  have idx: "mfModules ?o = in_key_order id (mfModules m)" "mfCommands ?o = in_key_order id (mfCommands m)"
    by (simp_all add: ordered_manifest_def)
  have get: "mget (mfModules ?o) i [] = mget (mfModules m) i []" "mget (mfCommands ?o) i [] = mget (mfCommands m) i []" for i
    using k by (simp_all add: idx mget_in_key_order)
  have pr: "provides ?o n v (ordered_entry e) = provides m n v e" for n v e
    by (simp add: provides_def get ordered_entry_def set_in_key_order_id)
  have "agreeing ?o"
    using c unfolding consistent_def agreeing_def idx snd has ordered_repository[OF t] ordered_dependencies[OF t]
    by (auto simp: pr)
  moreover have "map_of (mfRepository ?o) n \<noteq> Some []" for n
    using c by (auto simp: consistent_def ordered_repository(1)[OF t] in_key_order_Nil)
  ultimately show ?thesis by (simp add: consistent_def)
qed

lemma history_consistent: "history m \<Longrightarrow> consistent m"
proof (induction rule: history.induct)
  case h_empty
  then show ?case
    by (simp add: consistent_def agreeing_def empty_manifest_def sound_index_def mget_def has_rock_def)
next
  case (h_deploy m spec rm)
  then show ?case by (simp add: consistent_record)
next
  case (h_reload m)
  then show ?case by (simp add: consistent_ordered)
next
  case (h_remove m name vs)
  then have "agreeing m" "\<forall>n. map_of (mfRepository m) n \<noteq> Some []" by (simp_all add: consistent_def)
  then show ?case using agreeing_forgets[of m name vs] h_remove.hyps by (intro consistent_drop) auto
qed

text \<open>
  C4: The invariant of the tree manifest: after any sequence of deployments, removals and
  rewritings every provider an index names is an installed rock, no provider list and no version
  map is empty, an installed rock is found under each of its modules and commands, and exactly the
  installed rocks have a dependency list.
\<close>

theorem manifest_consistent:
  assumes "history m"
  shows "consistent m"
  by (rule history_consistent[OF assms])

text \<open>A key that was not there, put and taken away again.\<close>

lemma mdel_mput_fresh: "map_of l k = None \<Longrightarrow> mdel k (mput k x l) = l"
  by (induction l) (auto split: if_splits)

lemma mput_mput_mget: "mput k (mget l k d) (mput k x l) = (if map_of l k = None then l @ [(k, d)] else l)"
  by (induction l) (auto simp: mget_def)

lemma mdel_snoc: "map_of l k = None \<Longrightarrow> mdel k (l @ [(k, x)]) = l"
  by (induction l) (auto split: if_splits)

text \<open>
  C10: Removing a freshly installed rock undoes its installation: the manifest is again exactly what
  it was, the order of every provider list included, so whichever rock provided an item before
  provides it again.
\<close>

theorem install_remove:
  assumes "history m" and "slash_free (rPackage spec)" and "\<not> has_rock m (rPackage spec) (rVersion spec)"
  shows "drop_if_gone (rPackage spec) (forget_version (rPackage spec) (rVersion spec) (record_rock spec rm m)) = m"
proof -
  let ?n = "rPackage spec" and ?v = "rVersion spec" and ?r = "record_rock spec rm m"
  let ?f = "forget_version ?n ?v ?r"
  have c: "agreeing m" "map_of (mfRepository m) ?n \<noteq> Some []"
    using history_consistent[OF assms(1)] by (simp_all add: consistent_def)
  have fresh: "pkg_ver ?n ?v \<notin> set xs" if "sound_index m idx" "(i, xs) \<in> set idx" for i xs idx
  proof
    assume "pkg_ver ?n ?v \<in> set xs"
    then have "names_rock m (pkg_ver ?n ?v)" by (rule sound_indexD[OF that])
    then obtain n v where o: "pkg_ver ?n ?v = pkg_ver n v" "slash_free n" "has_rock m n v"
      unfolding names_rock_def by blast
    then have "?n = n \<and> ?v = v" using pkg_ver_inj[OF assms(2) o(2)] by blast
    then show False using o(3) assms(3) by simp
  qed
  have idx: "removeProvider (provide (pkg_ver ?n ?v) items idx) (pkg_ver ?n ?v) = idx" if "sound_index m idx" for items idx
    unfolding removeProvider_provide
    by (rule removeProvider_id) (use that fresh[OF that] in \<open>auto simp: sound_index_def\<close>)
  have s: "sound_index m (mfModules m)" "sound_index m (mfCommands m)" using c(1) by (simp_all add: agreeing_def)
  have mods: "mfModules ?f = mfModules m" "mfCommands ?f = mfCommands m"
    using idx[OF s(1)] idx[OF s(2)] by (simp_all add: forget_version_def record_fields)
  have rv: "map_of (mget (mfRepository m) ?n []) ?v = None" using assms(3) by (simp add: has_rock_def)
  have dvn: "map_of (mget (mfDependencies m) ?n []) ?v = None"
    using assms(3) c(1) unfolding agreeing_def by blast
  obtain e where rep: "mfRepository ?r = mput ?n (mput ?v e (mget (mfRepository m) ?n [])) (mfRepository m)"
    by (simp add: record_rock_def Let_def)
  have fr: "mfRepository ?f = (if map_of (mfRepository m) ?n = None then mfRepository m @ [(?n, [])] else mfRepository m)"
    using mput_mput_mget[of ?n "mfRepository m" "[]"] mdel_mput_fresh[OF rv, of e]
    by (simp add: forget_version_def rep mget_mput)
  have fd: "mfDependencies ?f = (if map_of (mfDependencies m) ?n = None then mfDependencies m @ [(?n, [])] else mfDependencies m)"
    using mput_mput_mget[of ?n "mfDependencies m" "[]"] mdel_mput_fresh[OF dvn, of "rDependencies spec"]
    by (simp add: forget_version_def record_fields mget_mput go_simps)
  have dm: "map_of (mfRepository m) ?n = None \<longleftrightarrow> map_of (mfDependencies m) ?n = None"
    using c(1) by (simp add: agreeing_def)
  show ?thesis
  proof (cases "map_of (mfRepository m) ?n")
    case None
    then have "mget (mfRepository ?f) ?n [] = []" by (simp add: fr mget_def map_add_def)
    then show ?thesis
      using None dm mods fr fd mdel_snoc[of "mfRepository m" ?n] mdel_snoc[of "mfDependencies m" ?n]
      by (simp add: drop_if_gone_def)
  next
    case (Some vs)
    then have "mget (mfRepository ?f) ?n [] \<noteq> []" using c(2) fr by (simp add: mget_def)
    moreover have "?f = m" using Some dm mods fr fd by simp
    ultimately show ?thesis by (simp add: drop_if_gone_def)
  qed
qed

section \<open>Examples\<close>

definition rock_a :: "string \<Rightarrow> rockspec" where
  "rock_a ver = zero_rockspec\<lparr>rPackage := ''a'', rVersion := ver,
     rBuild := Build (zero_build_tbl\<lparr>bInstall := zero_install\<lparr>iBin := [(''x'', ''bin/x'')]\<rparr>\<rparr>) []\<rparr>"

definition files_of_a :: "string list \<Rightarrow> string \<Rightarrow> rock_manifest" where
  "files_of_a mods bin = \<lparr>rmRockspecFile = [], rmRockspec = [], rmLua = map (\<lambda>f. (f, ''d'')) mods, rmLib = [],
     rmBin = [(bin, ''d'')], rmConf = [], rmDoc = []\<rparr>"

definition manifest_a :: manifest where
  "manifest_a = record_rock (rock_a ''2-1'') (files_of_a [''m.lua''] ''x'') empty_manifest"

lemma history_a: "history manifest_a"
  unfolding manifest_a_def by (rule h_deploy[OF h_empty]) (simp add: rock_a_def slash_free_def)

theorem manifest_consistent_witness: "consistent manifest_a"
  by (rule manifest_consistent[OF history_a])

theorem install_remove_witness:
  "drop_if_gone ''a'' (forget_version ''a'' ''3-1'' (record_rock (rock_a ''3-1'') (files_of_a [''m.lua'', ''n.lua''] ''x'') manifest_a)) = manifest_a"
proof -
  have "\<not> has_rock manifest_a (rPackage (rock_a ''3-1'')) (rVersion (rock_a ''3-1''))" by code_simp
  then show ?thesis
    using install_remove[OF history_a, of "rock_a ''3-1''" "files_of_a [''m.lua'', ''n.lua''] ''x''"]
    by (simp add: rock_a_def slash_free_def)
qed

text \<open>
  Recording a version again after it lost a module leaves the module's provider in the index, though
  the entry of the rock no longer lists the module.
\<close>

lemma stale_module_index:
  "let m = record_rock (rock_a ''2-1'') (files_of_a [] ''x'') manifest_a
   in map_option eModules (map_of (mget (mfRepository m) ''a'' []) ''2-1'') = Some [] \<and>
      mget (mfModules m) ''m'' [] = [''a/2-1'']"
  by code_simp

section \<open>The manifests the client writes can be read back\<close>

text \<open>What a rock must be for its record to survive the file format.\<close>

definition one_liner :: "string \<Rightarrow> bool" where
  "one_liner s \<longleftrightarrow> CR \<notin> set s \<and> LF \<notin> set s"

definition tidy_rock :: "rockspec \<Rightarrow> rock_manifest \<Rightarrow> bool" where
  "tidy_rock spec rm \<longleftrightarrow> one_liner (rPackage spec) \<and> one_liner (rVersion spec) \<and>
     keyed clean_string (ModuleIndex (Some rm) (rPackage spec) (rVersion spec)) \<and>
     keyed clean_string (iBin (bInstall (bFields (rBuild spec)))) \<and> list_all tidy_dep (rDependencies spec)"

lemma keyed_mput: "keyed P m \<Longrightarrow> CR \<notin> set k \<Longrightarrow> P v \<Longrightarrow> keyed P (mput k v m)"
  using set_mput[of k v m] by (auto simp: keyed_def distinct_mput)

lemma keyed_mget: "keyed P m \<Longrightarrow> P d \<Longrightarrow> P (mget m k d)"
  by (auto simp: keyed_def mget_def split: option.splits dest: map_of_SomeD)

lemma tidy_provide:
  assumes "keyed tidy_providers idx" and "CR \<notin> set pv" "LF \<notin> set pv" and "\<forall>i \<in> set items. CR \<notin> set i"
  shows "keyed tidy_providers (provide pv items idx)"
  using assms(1,4)
proof (induction items arbitrary: idx)
  case (Cons i items)
  have "\<forall>x \<in> set (mget idx i []). CR \<notin> set x \<and> LF \<notin> set x"
  proof (cases "map_of idx i")
    case (Some xs)
    then have "(i, xs) \<in> set idx" by (rule map_of_SomeD)
    then show ?thesis using Cons.prems(1) Some by (auto simp: keyed_def tidy_providers_def mget_def)
  qed (simp add: mget_def)
  then have "tidy_providers (upsertProvider (mget idx i []) pv True)"
    using assms(2,3) by (simp add: tidy_providers_def upsertProvider_def)
  then have "keyed tidy_providers (mput i (upsertProvider (mget idx i []) pv True) idx)"
    using Cons.prems by (intro keyed_mput) simp_all
  then show ?case using Cons.IH Cons.prems(2) by simp
qed simp

lemma highest_key_mem: "highest_key vs = [] \<or> highest_key vs \<in> fst ` set vs"
proof -
  have "foldl (\<lambda>best v. if best < v then v else best) b xs \<in> insert b (set xs)" for b and xs :: "string list"
    by (induction xs arbitrary: b) (auto split: if_splits)
  from this[of "[]" "map fst vs"] show ?thesis by (auto simp: highest_key_def)
qed

lemma tidy_resolved:
  assumes "\<forall>d \<in> set ds. clean_string (dName d)" and "keyed (keyed P) (mfRepository m)" and "keyed clean_string acc"
  shows "keyed clean_string (foldl (\<lambda>out d.
     if dName d = rPackage spec then out
     else case map_of (mfRepository m) (dName d) of
       None \<Rightarrow> out
     | Some versions \<Rightarrow> (if versions = [] then out else mput (dName d) (highest_key versions) out)) acc ds)"
  using assms(3,1)
proof (induction ds arbitrary: acc)
  case (Cons d ds)
  have hk: "clean_string (highest_key vs)" if v: "map_of (mfRepository m) n = Some vs" for n vs
  proof -
    have "(n, vs) \<in> set (mfRepository m)" by (rule map_of_SomeD[OF v])
    then have "keyed P vs" using assms(2) by (auto simp: keyed_def)
    then show ?thesis using highest_key_mem[of vs] by (auto simp: keyed_def clean_string_def)
  qed
  let ?acc = "if dName d = rPackage spec then acc
     else case map_of (mfRepository m) (dName d) of
       None \<Rightarrow> acc
     | Some versions \<Rightarrow> (if versions = [] then acc else mput (dName d) (highest_key versions) acc)"
  have "CR \<notin> set (dName d)" using Cons.prems(2) by (simp add: clean_string_def)
  then have "keyed clean_string ?acc"
    using Cons.prems(1) hk by (auto split: option.splits intro!: keyed_mput)
  then show ?case using Cons.IH[of ?acc] Cons.prems(2) by simp
qed simp

lemma maps_copy_fresh: "distinct (map fst (acc @ m)) \<Longrightarrow> maps_copy acc m = acc @ m"
proof (induction m arbitrary: acc)
  case (Cons kv m)
  obtain k v where kv: "kv = (k, v)" by (cases kv)
  have "mput k v acc = acc @ [(k, v)]" using Cons.prems kv by (intro mput_new) auto
  then show ?case using Cons.IH[of "acc @ [(k, v)]"] Cons.prems kv by simp
qed simp

lemma tidy_record:
  assumes t: "tidy_manifest m" and r: "tidy_rock spec rm"
  shows "tidy_manifest (record_rock spec rm m)"
proof -
  let ?n = "rPackage spec" and ?v = "rVersion spec"
  let ?cmds = "if rmBin rm \<noteq> [] then iBin (bInstall (bFields (rBuild spec))) else []"
  let ?mods = "ModuleIndex (Some rm) ?n ?v"
  have k: "keyed tidy_providers (mfModules m)" "keyed tidy_providers (mfCommands m)"
    "keyed (keyed tidy_entry) (mfRepository m)" "keyed (keyed (list_all tidy_dep)) (mfDependencies m)"
    using t by (simp_all add: tidy_manifest_def)
  have n: "CR \<notin> set ?n" "CR \<notin> set ?v" and pv: "CR \<notin> set (pkg_ver ?n ?v)" "LF \<notin> set (pkg_ver ?n ?v)"
    using r by (auto simp: tidy_rock_def one_liner_def pkg_ver_def)
  have mods: "keyed clean_string ?mods" and cmds: "keyed clean_string ?cmds" and ds: "list_all tidy_dep (rDependencies spec)"
    using r by (auto simp: tidy_rock_def keyed_def)
  have 1: "keyed tidy_providers (mfModules (record_rock spec rm m))"
    unfolding record_fields by (rule tidy_provide[OF k(1) pv]) (use mods in \<open>auto simp: keyed_def\<close>)
  have 2: "keyed tidy_providers (mfCommands (record_rock spec rm m))"
    unfolding record_fields by (rule tidy_provide[OF k(2) pv]) (use cmds in \<open>auto simp: keyed_def split: if_splits\<close>)
  have nil: "keyed P []" for P :: "'x \<Rightarrow> bool" by (simp add: keyed_def)
  have inner: "keyed (list_all tidy_dep) (mget (mfDependencies m) ?n [])" by (rule keyed_mget[OF k(4)]) (simp add: keyed_def)
  have 3: "keyed (keyed (list_all tidy_dep)) (mfDependencies (record_rock spec rm m))"
    unfolding record_fields by (intro keyed_mput k(4) inner n ds)
  define deps where "deps = resolveInstalledDeps spec (m\<lparr>mfModules := provide (pkg_ver ?n ?v) (map fst ?mods) (mfModules m),
      mfCommands := provide (pkg_ver ?n ?v) (map fst ?cmds) (mfCommands m),
      mfDependencies := mput ?n (mput ?v (rDependencies spec) (mget (mfDependencies m) ?n [])) (mfDependencies m)\<rparr>)"
  let ?e = "\<lparr>eArch = ''installed'', eModules = ?mods, eCommands = maps_copy [] ?cmds, eDependencies = deps\<rparr>"
  have "keyed clean_string deps"
    unfolding deps_def resolveInstalledDeps_def
    by (rule tidy_resolved[where P = tidy_entry]) (use ds k(3) in \<open>auto simp: keyed_def list_all_iff tidy_dep_def\<close>)
  moreover have "maps_copy [] ?cmds = ?cmds" using cmds maps_copy_fresh[of "[]" ?cmds] by (simp add: keyed_def)
  ultimately have e: "tidy_entry ?e" using mods cmds by (simp add: tidy_entry_def clean_string_def)
  have old: "keyed tidy_entry (mget (mfRepository m) ?n [])" by (rule keyed_mget[OF k(3)]) (simp add: keyed_def)
  have "mfRepository (record_rock spec rm m) = mput ?n (mput ?v ?e (mget (mfRepository m) ?n [])) (mfRepository m)"
    by (simp add: record_rock_def Let_def deps_def)
  moreover have "keyed (keyed tidy_entry) (mput ?n (mput ?v ?e (mget (mfRepository m) ?n [])) (mfRepository m))"
    by (intro keyed_mput k(3) old n e)
  ultimately have 4: "keyed (keyed tidy_entry) (mfRepository (record_rock spec rm m))" by simp
  show ?thesis using 1 2 3 4 by (simp add: tidy_manifest_def)
qed

end
