(* ===== verification/FsMonad.thy ===== *)
theory FsMonad
  imports FileSystem
begin

text \<open>
  Programs over a state that may fail: a Go function that returns an error stops at the first one,
  and what it has done to the state by then stays done. The combinators are those the code's
  control flow needs: sequencing, an operation of package \<open>os\<close> whose error is wrapped or
  ignored, a read of the state, a loop. \<open>keeps F m\<close> says that the program \<open>m\<close> leaves every file
  in \<open>F\<close> as it is, on every path through it and under every schedule of faults; its rules follow
  the combinators, so a frame condition of a long program is a search over its text.
\<close>

definition bind_io :: "('s \<Rightarrow> ('e + 'a) \<times> 's) \<Rightarrow> ('a \<Rightarrow> 's \<Rightarrow> ('e + 'b) \<times> 's) \<Rightarrow> 's \<Rightarrow> ('e + 'b) \<times> 's" where
  "bind_io m f s = (case m s of (Inl e, s') \<Rightarrow> (Inl e, s') | (Inr x, s') \<Rightarrow> f x s')"

definition ret :: "'a \<Rightarrow> 's \<Rightarrow> ('e + 'a) \<times> 's" where
  "ret x s = (Inr x, s)"

definition fail_io :: "'e \<Rightarrow> 's \<Rightarrow> ('e + 'a) \<times> 's" where
  "fail_io e s = (Inl e, s)"

definition act :: "(string \<Rightarrow> 'e) \<Rightarrow> ('s \<Rightarrow> string option \<times> 's) \<Rightarrow> 's \<Rightarrow> ('e + unit) \<times> 's" where
  "act wrap f s = (case f s of (Some e, s') \<Rightarrow> (Inl (wrap e), s') | (None, s') \<Rightarrow> (Inr (), s'))"

text \<open>An operation whose error is ignored, a read of the state, and a loop.\<close>

definition ignore :: "('s \<Rightarrow> string option \<times> 's) \<Rightarrow> 's \<Rightarrow> ('e + unit) \<times> 's" where
  "ignore f s = (Inr (), snd (f s))"

definition get :: "('s \<Rightarrow> 'a) \<Rightarrow> 's \<Rightarrow> ('e + 'a) \<times> 's" where
  "get f s = (Inr (f s), s)"

definition lift_err :: "'e + 'a \<Rightarrow> 's \<Rightarrow> ('e + 'a) \<times> 's" where
  "lift_err r s = (r, s)"

fun each_io :: "('a \<Rightarrow> 'b \<Rightarrow> 's \<Rightarrow> ('e + 'b) \<times> 's) \<Rightarrow> 'a list \<Rightarrow> 'b \<Rightarrow> 's \<Rightarrow> ('e + 'b) \<times> 's" where
  "each_io f [] acc = ret acc"
| "each_io f (x # xs) acc = bind_io (f x acc) (each_io f xs)"

text \<open>A program whose errors are wrapped, and a clean-up that runs whatever a program returned.\<close>

definition map_err :: "('e \<Rightarrow> 'f) \<Rightarrow> ('s \<Rightarrow> ('e + 'a) \<times> 's) \<Rightarrow> 's \<Rightarrow> ('f + 'a) \<times> 's" where
  "map_err w m s = (let (r, s') = m s in (map_sum w id r, s'))"

definition finally_io :: "('s \<Rightarrow> ('e + 'a) \<times> 's) \<Rightarrow> ('s \<Rightarrow> 's) \<Rightarrow> 's \<Rightarrow> ('e + 'a) \<times> 's" where
  "finally_io m clean s = (let (r, s') = m s in (r, clean s'))"

lemma act_files:
  assumes "act w f s = (r, s')" and "\<And>e t. f s = (e, t) \<Longrightarrow> P t"
  shows "P s'"
  using assms by (auto simp: act_def split: prod.splits option.splits)

lemma act_ok: "act w f s = (Inr u, s') \<longleftrightarrow> f s = (None, s')"
  by (auto simp: act_def split: prod.splits option.splits)

lemma act_error: "act w f s = (Inl x, s') \<longleftrightarrow> (\<exists>e. f s = (Some e, s') \<and> x = w e)"
  by (auto simp: act_def split: prod.splits option.splits)

lemma bind_io_eq: "bind_io m f s = (r, s') \<longleftrightarrow>
    (\<exists>e. m s = (Inl e, s') \<and> r = Inl e) \<or> (\<exists>x s1. m s = (Inr x, s1) \<and> f x s1 = (r, s'))"
  by (auto simp: bind_io_def split: prod.splits sum.splits)

lemma bind_io_Inr:
  "bind_io m f s = (Inr y, s') \<longleftrightarrow> (\<exists>x s1. m s = (Inr x, s1) \<and> f x s1 = (Inr y, s'))"
  by (auto simp: bind_io_eq)

lemma get_eq: "get f s = (r, s') \<longleftrightarrow> r = Inr (f s) \<and> s' = s"
  by (auto simp: get_def)

lemma ret_eq: "ret x s = (r, s') \<longleftrightarrow> r = Inr x \<and> s' = s"
  by (auto simp: ret_def)

lemma fail_io_eq: "fail_io e s = (r, s') \<longleftrightarrow> r = Inl e \<and> s' = s"
  by (auto simp: fail_io_def)

lemma lift_err_eq: "lift_err e s = (r, s') \<longleftrightarrow> r = e \<and> s' = s"
  by (auto simp: lift_err_def)

lemma map_err_eq: "map_err w m s = (r, s') \<longleftrightarrow> (\<exists>r0. m s = (r0, s') \<and> r = map_sum w id r0)"
  by (cases "m s") (auto simp: map_err_def)

lemma map_err_ok: "map_err w m s = (Inr x, s') \<longleftrightarrow> m s = (Inr x, s')"
proof -
  have "Inr x = map_sum w id r0 \<longleftrightarrow> r0 = Inr x" for r0 by (cases r0) auto
  then show ?thesis by (simp add: map_err_eq)
qed

lemmas io_eqs = bind_io_eq get_eq ret_eq fail_io_eq lift_err_eq act_ok act_error

section \<open>Frames\<close>

text \<open>The disk may be a part of the state, reached by \<open>d\<close>.\<close>

definition keeps :: "('s \<Rightarrow> fs) \<Rightarrow> (string \<Rightarrow> bool) \<Rightarrow> ('s \<Rightarrow> ('e + 'a) \<times> 's) \<Rightarrow> bool" where
  "keeps d F m \<longleftrightarrow> (\<forall>s r s' p. m s = (r, s') \<longrightarrow> F p \<longrightarrow> file_at (d s') p = file_at (d s) p)"

named_theorems frame \<open>rules of the frame predicate\<close>

lemma keepsI: "(\<And>s r s' p. m s = (r, s') \<Longrightarrow> F p \<Longrightarrow> file_at (d s') p = file_at (d s) p) \<Longrightarrow> keeps d F m"
  by (simp add: keeps_def)

lemma keepsD: "keeps d F m \<Longrightarrow> m s = (r, s') \<Longrightarrow> F p \<Longrightarrow> file_at (d s') p = file_at (d s) p"
  by (auto simp: keeps_def)

lemma keeps_weaken: "keeps d F m \<Longrightarrow> (\<And>p. G p \<Longrightarrow> F p) \<Longrightarrow> keeps d G m"
  by (auto simp: keeps_def)

lemma keeps_simple [frame, intro!]:
  "keeps d F (ret x)" "keeps d F (fail_io e)" "keeps d F (get f)" "keeps d F (lift_err r)"
  by (auto simp: keeps_def ret_def fail_io_def get_def lift_err_def)

lemma keeps_bind [frame]:
  assumes "keeps d F m" and "\<And>x. keeps d F (f x)"
  shows "keeps d F (bind_io m f)"
proof (rule keepsI)
  fix s r s' p
  assume b: "bind_io m f s = (r, s')" and p: "F p"
  show "file_at (d s') p = file_at (d s) p"
  proof (cases "m s")
    case (Pair r1 s1)
    have 1: "file_at (d s1) p = file_at (d s) p" by (rule keepsD[OF assms(1) Pair p])
    show ?thesis
    proof (cases r1)
      case (Inl e)
      then show ?thesis using b Pair 1 by (simp add: bind_io_def)
    next
      case (Inr x)
      then have "f x s1 = (r, s')" using b Pair by (simp add: bind_io_def)
      then show ?thesis using keepsD[OF assms(2) _ p] 1 by metis
    qed
  qed
qed

lemma keeps_each [frame]: "(\<And>x acc. x \<in> set xs \<Longrightarrow> keeps d F (f x acc)) \<Longrightarrow> keeps d F (each_io f xs acc)"
  by (induction xs arbitrary: acc) (auto intro!: keeps_bind)

lemma keeps_if [frame]: "(b \<Longrightarrow> keeps d F m) \<Longrightarrow> (\<not> b \<Longrightarrow> keeps d F n) \<Longrightarrow> keeps d F (if b then m else n)"
  by simp

lemma keeps_option [frame]:
  "(x = None \<Longrightarrow> keeps d F m) \<Longrightarrow> (\<And>y. x = Some y \<Longrightarrow> keeps d F (n y)) \<Longrightarrow> keeps d F (case x of None \<Rightarrow> m | Some y \<Rightarrow> n y)"
  by (cases x) auto

lemma keeps_sum [frame]:
  "(\<And>y. x = Inl y \<Longrightarrow> keeps d F (m y)) \<Longrightarrow> (\<And>y. x = Inr y \<Longrightarrow> keeps d F (n y)) \<Longrightarrow>
   keeps d F (case x of Inl y \<Rightarrow> m y | Inr y \<Rightarrow> n y)"
  by (cases x) auto

lemma keeps_map_err [frame]: "keeps d F m \<Longrightarrow> keeps d F (map_err w m)"
  by (auto simp: keeps_def map_err_def split: prod.splits)

lemma keeps_state: "(\<And>t. keeps d F (g t)) \<Longrightarrow> keeps d F (\<lambda>s. g s s)"
  by (auto simp: keeps_def)

definition keeps_op :: "(string \<Rightarrow> bool) \<Rightarrow> (fs \<Rightarrow> string option \<times> fs) \<Rightarrow> bool" where
  "keeps_op F f \<longleftrightarrow> (\<forall>s e s' p. f s = (e, s') \<longrightarrow> F p \<longrightarrow> file_at s' p = file_at s p)"

lemma act_state: "snd (act w f s) = snd (f s)"
  by (simp add: act_def split_beta split: option.split)

lemma keeps_opD: "keeps_op F f \<Longrightarrow> F p \<Longrightarrow> file_at (snd (f s)) p = file_at s p"
  unfolding keeps_op_def by (metis prod.collapse)

lemma keeps_act [frame]:
  assumes "keeps_op F f"
  shows "keeps id F (act w f)"
proof (rule keepsI)
  fix s r s' p assume eq: "act w f s = (r, s')" and "F p"
  have "s' = snd (f s)" using act_state [of w f s] eq by simp
  then show "file_at (id s') p = file_at (id s) p" using keeps_opD [OF assms \<open>F p\<close>, of s] by simp
qed

lemma keeps_ignore [frame]:
  assumes "keeps_op F f"
  shows "keeps id F (ignore f)"
proof (rule keepsI)
  fix s r s' p assume eq: "ignore f s = (r, s')" and "F p"
  then have "s' = snd (f s)" by (simp add: ignore_def)
  then show "file_at (id s') p = file_at (id s) p" using keeps_opD [OF assms \<open>F p\<close>, of s] by simp
qed

lemma keeps_op_mkdir [frame]: "keeps_op F (os_mkdir_all p)"
  by (auto simp: keeps_op_def fs_simps)

lemma keeps_op_mkdir1 [frame]: "keeps_op F (os_mkdir p)"
  by (auto simp: keeps_op_def fs_simps)

lemma keeps_op_chmod [frame]: "keeps_op F (os_chmod p mode)"
  by (auto simp: keeps_op_def fs_simps)

lemma keeps_op_close [frame]: "keeps_op F os_close"
  by (auto simp: keeps_op_def fs_simps)

lemma keeps_op_create [frame]: "\<not> F p \<Longrightarrow> keeps_op F (os_create p mode)"
  by (auto simp: keeps_op_def os_create_files)

lemma keeps_op_append [frame]: "\<not> F p \<Longrightarrow> keeps_op F (\<lambda>s. os_append p s c)"
  unfolding keeps_op_def using os_append_files by metis

lemma keeps_op_remove [frame]: "\<not> F p \<Longrightarrow> keeps_op F (os_remove p)"
  by (auto simp: keeps_op_def os_remove_files)

lemma keeps_op_rename [frame]: "\<not> F p \<Longrightarrow> \<not> F q \<Longrightarrow> keeps_op F (os_rename p q)"
  by (auto simp: keeps_op_def os_rename_files)

lemma keeps_op_remove_all [frame]: "\<not> F p \<Longrightarrow> (\<And>q. below p q \<Longrightarrow> \<not> F q) \<Longrightarrow> keeps_op F (os_remove_all p)"
  unfolding keeps_op_def using os_remove_all_files(1) by metis

lemma keeps_op_write_file [frame]: "\<not> F p \<Longrightarrow> keeps_op F (os_write_file p c mode)"
  unfolding keeps_op_def using os_write_file_files(1) by metis

end
