(* ===== verification/Archive.thy ===== *)
theory Archive
  imports FsMonad PathFacts
begin

text \<open>
  Writing and unpacking fetched files: \<open>copyOneFile\<close> and \<open>checkMD5\<close> of \<open>src/fetch/file.go\<close> and the
  archive half of \<open>src/fetch/http.go\<close>. What \<open>archive/zip\<close>, \<open>archive/tar\<close>, \<open>compress/gzip\<close>,
  \<open>compress/bzip2\<close> and \<open>crypto/md5\<close> make of the bytes of a file are the fields of \<open>unpackers\<close>: a zip
  file has a list of entries, each of which opens or not; a tar stream has a list of headers and
  then an error, or ends. The data of an entry are the bytes that could be read and the error that
  stopped the reading, if any. An archive is read when it is opened.
\<close>

datatype fetch_error =
    EmptyURL
  | EmptyDestination
  | FetchCtx string
  | NoScheme string
  | ParseURL string string
  | UnsupportedScheme string
  | StatSource string
  | FetchMkdir string
  | OpenSource string
  | CreateTarget string
  | CopyData string
  | CloseTarget string
  | RenamePart string
  | MD5Open string
  | MD5Read string
  | MD5Mismatch string
  | OpenArchive string
  | ReadArchive string
  | EntryEscapes string
  | OpenEntry string string
  | BadStatus string nat
  | GetFailed string string
  | NoRelative
  | CloneFailed string string
  | StripGit string
  | SourceIsDirectory string
  | SameFile string
  | NamesNoFile string

type_synonym entry_data = "string \<times> string option"

record zip_entry =
  zName :: string
  zDir :: bool
  zMode :: int
  zOpen :: "string + entry_data"

datatype tar_type = TypeDir | TypeReg | TypeSymlink | TypeLink | TypeOther

record tar_header =
  thName :: string
  thType :: tar_type
  thMode :: int
  thData :: entry_data

record unpackers =
  zip_read :: "string \<Rightarrow> string + zip_entry list"
  gzip_read :: "string \<Rightarrow> string + tar_header list \<times> string option"
  bzip2_read :: "string \<Rightarrow> tar_header list \<times> string option"
  tar_read :: "string \<Rightarrow> tar_header list \<times> string option"
  md5_hex :: "string \<Rightarrow> string"

type_synonym 'a fetch_io = "fs \<Rightarrow> (fetch_error + 'a) \<times> fs"

section \<open>One file\<close>

text \<open>\<open>io.Copy\<close> to the open file, and \<open>Close\<close>, whose error counts only after a complete copy.\<close>

definition fill_file :: "string \<Rightarrow> entry_data \<Rightarrow> unit fetch_io" where
  "fill_file target data s = (case os_append target s (fst data) of
     (Some e, s1) \<Rightarrow> (Inl (CopyData e), snd (os_close s1))
   | (None, s1) \<Rightarrow> (case snd data of
       Some e \<Rightarrow> (Inl (CopyData e), snd (os_close s1))
     | None \<Rightarrow> act CloseTarget os_close s1))"

definition data_of :: "string + string \<Rightarrow> entry_data" where
  "data_of r = (case r of Inl e \<Rightarrow> ([], Some e) | Inr c \<Rightarrow> (c, None))"

definition copyOneFile :: "string \<Rightarrow> string \<Rightarrow> int \<Rightarrow> unit fetch_io" where
  "copyOneFile src dst mode =
     bind_io (act FetchMkdir (os_mkdir_all (path_dir dst))) (\<lambda>_.
     bind_io (get (\<lambda>s. os_stat s src)) (\<lambda>st. if st = None then fail_io (OpenSource src) else
     bind_io (act CreateTarget (os_create dst mode)) (\<lambda>_.
     bind_io (get (\<lambda>s. data_of (os_read s src))) (fill_file dst))))"

definition checkMD5 :: "unpackers \<Rightarrow> string \<Rightarrow> string \<Rightarrow> unit fetch_io" where
  "checkMD5 u path want =
     (if want = [] then ret ()
      else bind_io (get (\<lambda>s. os_stat s path)) (\<lambda>st. if st = None then fail_io (MD5Open path) else
           bind_io (get (\<lambda>s. os_read s path)) (\<lambda>c. case c of
             Inl e \<Rightarrow> fail_io (MD5Read path)
           | Inr c \<Rightarrow> (if has_prefix (md5_hex u c) (to_lower want) then ret () else fail_io (MD5Mismatch (path_base path))))))"

section \<open>Archives\<close>

text \<open>The test both extractors make on the place an entry goes to.\<close>

definition escapes :: "string \<Rightarrow> string \<Rightarrow> bool" where
  "escapes dst target \<longleftrightarrow> \<not> has_prefix target (path_clean dst @ ''/'') \<and> target \<noteq> path_clean dst"

definition unzip_entry :: "string \<Rightarrow> zip_entry \<Rightarrow> unit \<Rightarrow> unit fetch_io" where
  "unzip_entry dst f acc =
     (let target = path_join [dst, zName f] in
      if escapes dst target then fail_io (EntryEscapes (zName f))
      else if zDir f then act FetchMkdir (os_mkdir_all target)
      else bind_io (act FetchMkdir (os_mkdir_all (path_dir target))) (\<lambda>_.
           case zOpen f of
             Inl e \<Rightarrow> fail_io (OpenEntry (zName f) e)
           | Inr data \<Rightarrow> bind_io (act CreateTarget (os_create target (zMode f))) (\<lambda>_. fill_file target data)))"

text \<open>The file an extractor opens.\<close>

definition open_archive :: "string \<Rightarrow> string fetch_io" where
  "open_archive archive = bind_io (get (\<lambda>s. os_read s archive)) (\<lambda>c. case c of
     Inl e \<Rightarrow> fail_io (OpenArchive e) | Inr c \<Rightarrow> ret c)"

definition unzip :: "unpackers \<Rightarrow> string \<Rightarrow> string \<Rightarrow> unit fetch_io" where
  "unzip u archive dst = bind_io (open_archive archive) (\<lambda>c. case zip_read u c of
     Inl e \<Rightarrow> fail_io (ReadArchive e)
   | Inr files \<Rightarrow> each_io (unzip_entry dst) files ())"

definition tar_entry :: "string \<Rightarrow> tar_header \<Rightarrow> unit \<Rightarrow> unit fetch_io" where
  "tar_entry dst h acc =
     (let target = path_join [dst, thName h] in
      if escapes dst target then fail_io (EntryEscapes (thName h))
      else case thType h of
        TypeDir \<Rightarrow> act FetchMkdir (os_mkdir_all target)
      | TypeReg \<Rightarrow>
          bind_io (act FetchMkdir (os_mkdir_all (path_dir target))) (\<lambda>_.
          bind_io (act CreateTarget (os_create target (thMode h))) (\<lambda>_. fill_file target (thData h)))
      | _ \<Rightarrow> ret ())"

definition extractTar :: "tar_header list \<times> string option \<Rightarrow> string \<Rightarrow> unit fetch_io" where
  "extractTar stream dst = bind_io (each_io (tar_entry dst) (fst stream) ()) (\<lambda>_. case snd stream of
     None \<Rightarrow> ret () | Some e \<Rightarrow> fail_io (ReadArchive e))"

definition untargz :: "unpackers \<Rightarrow> string \<Rightarrow> string \<Rightarrow> unit fetch_io" where
  "untargz u archive dst = bind_io (open_archive archive) (\<lambda>c. case gzip_read u c of
     Inl e \<Rightarrow> fail_io (ReadArchive e) | Inr stream \<Rightarrow> extractTar stream dst)"

definition untarbz2 :: "unpackers \<Rightarrow> string \<Rightarrow> string \<Rightarrow> unit fetch_io" where
  "untarbz2 u archive dst = bind_io (open_archive archive) (\<lambda>c. extractTar (bzip2_read u c) dst)"

definition untar :: "unpackers \<Rightarrow> string \<Rightarrow> string \<Rightarrow> unit fetch_io" where
  "untar u archive dst = bind_io (open_archive archive) (\<lambda>c. extractTar (tar_read u c) dst)"

definition extractor :: "unpackers \<Rightarrow> string \<Rightarrow> (string \<Rightarrow> string \<Rightarrow> unit fetch_io) option" where
  "extractor u lower =
     (if has_suffix lower ''.zip'' \<or> has_suffix lower ''.rock'' then Some (unzip u)
      else if has_suffix lower ''.tar.gz'' \<or> has_suffix lower ''.tgz'' then Some (untargz u)
      else if has_suffix lower ''.tar.bz2'' \<or> has_suffix lower ''.tbz2'' \<or> has_suffix lower ''.tbz'' then Some (untarbz2 u)
      else if has_suffix lower ''.tar'' then Some (untar u)
      else None)"

definition unpackArchive :: "unpackers \<Rightarrow> string \<Rightarrow> string \<Rightarrow> unit fetch_io" where
  "unpackArchive u path destDir = (case extractor u (to_lower (path_base path)) of
     None \<Rightarrow> ret ()
   | Some extract \<Rightarrow> bind_io (extract path destDir) (\<lambda>_. ignore (os_remove path)))"

section \<open>An archive stays in its directory\<close>

lemma keeps_fill_file [frame]:
  assumes "\<not> F target"
  shows "keeps id F (fill_file target data)"
proof (rule keepsI)
  fix s r s' p
  assume f: "fill_file target data s = (r, s')" and p: "F p"
  obtain e s1 where a: "os_append target s (fst data) = (e, s1)" by (cases "os_append target s (fst data)")
  obtain e2 s2 where c: "os_close s1 = (e2, s2)" by (cases "os_close s1")
  have "p \<noteq> target" using p assms by auto
  then have "file_at s2 p = file_at s p" using os_append_files[OF a] os_close_files[OF c] by simp
  moreover have "s' = s2"
    using f a c by (auto simp: fill_file_def act_def split: option.splits)
  ultimately show "file_at (id s') p = file_at (id s) p" by simp
qed

text \<open>A path outside a directory, as the extractors see it.\<close>

definition outside_dir :: "string \<Rightarrow> string \<Rightarrow> bool" where
  "outside_dir dst p \<longleftrightarrow> p \<noteq> path_clean dst \<and> \<not> has_prefix p (path_clean dst @ ''/'')"

lemma escapes_outside: "\<not> escapes dst target \<Longrightarrow> \<not> outside_dir dst target"
  by (auto simp: escapes_def outside_dir_def)

lemma keeps_unzip_entry [frame]: "keeps id (outside_dir dst) (unzip_entry dst f acc)"
  unfolding unzip_entry_def Let_def
  by (intro frame) (auto dest: escapes_outside)

lemma keeps_tar_entry [frame]: "keeps id (outside_dir dst) (tar_entry dst h acc)"
  by (cases "thType h") (auto simp: tar_entry_def Let_def intro!: frame dest: escapes_outside)

lemma keeps_open_archive [frame]: "keeps id F (open_archive a)"
  unfolding open_archive_def by (intro frame)

lemma keeps_extractTar [frame]: "keeps id (outside_dir dst) (extractTar stream dst)"
  unfolding extractTar_def by (intro frame)

lemma keeps_extractors [frame]:
  "keeps id (outside_dir dst) (unzip u archive dst)" "keeps id (outside_dir dst) (untargz u archive dst)"
  "keeps id (outside_dir dst) (untarbz2 u archive dst)" "keeps id (outside_dir dst) (untar u archive dst)"
  unfolding unzip_def untargz_def untarbz2_def untar_def
  by (intro frame; auto intro!: frame split: prod.splits)+

lemma keeps_extractor: "extractor u lower = Some ex \<Longrightarrow> keeps id (outside_dir dst) (ex archive dst)"
  by (auto simp: extractor_def frame split: if_splits)

text \<open>
  C17: Whatever an archive claims its entries are called, and wherever unpacking stops, no file
  outside the target directory changes, except that the archive itself is removed after a
  success.
\<close>

theorem unpackArchive_confined:
  assumes "unpackArchive u path destDir s = (r, s')" and "outside_dir destDir p" and "p \<noteq> path"
  shows "file_at s' p = file_at s p"
proof -
  have k: "keeps id (\<lambda>q. outside_dir destDir q \<and> q \<noteq> path) (unpackArchive u path destDir)"
    unfolding unpackArchive_def
    by (intro frame) (auto intro: keeps_weaken[OF keeps_extractor])
  show ?thesis using keepsD[OF k assms(1), of p] assms(2,3) by simp
qed

text \<open>A zip reader that gives an archive two entries, the second named to climb out.\<close>

definition demo_entry :: "string \<Rightarrow> zip_entry" where
  "demo_entry name = \<lparr>zName = name, zDir = False, zMode = 420, zOpen = Inr (''new'', None)\<rparr>"

definition demo_unpackers :: unpackers where
  "demo_unpackers = \<lparr>zip_read = (\<lambda>c. Inr [demo_entry ''x/a'', demo_entry ''../b'']), gzip_read = (\<lambda>c. Inl ''gzip''),
     bzip2_read = (\<lambda>c. ([], None)), tar_read = (\<lambda>c. ([], None)), md5_hex = (\<lambda>c. c)\<rparr>"

definition demo_files :: fs where
  "demo_files = \<lparr>nodes = [(''/d'', NDir), (''/d/u.zip'', NFile ''zip'' 420), (''/b'', NFile ''old'' 420)],
     ticks = 0, faults = (\<lambda>_. None)\<rparr>"

theorem unpackArchive_confined_witness:
  "(case unpackArchive demo_unpackers ''/d/u.zip'' ''/d'' demo_files of
      (r, s) \<Rightarrow> r = Inl (EntryEscapes ''../b'') \<and> file_at s ''/d/x/a'' = Some ''new'') \<and>
   file_at (snd (unpackArchive demo_unpackers ''/d/u.zip'' ''/d'' demo_files)) ''/b'' = file_at demo_files ''/b''"
proof
  show "case unpackArchive demo_unpackers ''/d/u.zip'' ''/d'' demo_files of
      (r, s) \<Rightarrow> r = Inl (EntryEscapes ''../b'') \<and> file_at s ''/d/x/a'' = Some ''new''"
    by code_simp
  have "outside_dir ''/d'' ''/b''" by code_simp
  then show "file_at (snd (unpackArchive demo_unpackers ''/d/u.zip'' ''/d'' demo_files)) ''/b'' = file_at demo_files ''/b''"
    using unpackArchive_confined[OF prod.collapse[symmetric]] by simp
qed

text \<open>
  The test for escaping entries refuses every entry when the target directory is given as
  \<open>.\<close>, an entry with a plain name too: the cleaned path of the entry does not start with \<open>./\<close>.
\<close>

theorem unzip_into_dot:
  "fst (unzip (demo_unpackers\<lparr>zip_read := (\<lambda>c. Inr [demo_entry ''a''])\<rparr>) ''/d/u.zip'' ''.'' demo_files) =
     Inl (EntryEscapes ''a'') \<and>
   fst (unzip (demo_unpackers\<lparr>zip_read := (\<lambda>c. Inr [demo_entry ''a''])\<rparr>) ''/d/u.zip'' ''/d'' demo_files) = Inr ()"
  by code_simp

end
