(* ===== verification/RemoteManifest.thy ===== *)
theory RemoteManifest
  imports ManifStore
begin

text \<open>
  What a rock server offers: \<open>src/remote/remote.go\<close> (probing, decoding and projecting a server's
  manifest, the choice of an artifact, its URL), \<open>src/remote/file.go\<close> (servers that are local
  directories) and the rendering of a server's name in \<open>src/remote/search.go\<close>. The packages
  \<open>archive/zip\<close> and \<open>encoding/json\<close> and the constants of package \<open>runtime\<close> are fields of
  \<open>ext\<close>. A struct with one field (\<open>archEntry\<close>) is its field.
\<close>

datatype project_error =
    MissingRepository
  | RepositoryNotMap
  | RockNotMap string
  | ArchEntryNotMap string string nat
  | ArchNotArray string string

datatype remote_error =
    NoServers
  | NoServerDirectory
  | NotLocalDirectory string
  | ContextDone string
  | LoadServer string remote_error
  | GetManifest string string
  | UnzipManifest string string
  | DecodeJSON string string
  | ParseManifest string "nat \<times> nat" parse_error
  | TopLevelNotMap string
  | ProjectFailed string project_error
  | NoVariant string
  | NoVariantIn string string
  | StatServer string
  | ServerNotDirectory string
  | BadVersionKey string string version_error
  | AcrossServers string remote_error

record ext =
  zip_entries :: "string \<Rightarrow> string + (string \<times> (string + string)) list"
  json_object :: "string \<Rightarrow> string + (string \<times> lval) list"
  go_os :: string
  go_arch :: string

section \<open>The manifest of a server\<close>

record remote_manifest =
  rmServer :: string
  rmRepository :: "(string, (string, string list) gomap) gomap"

record manifest_probe =
  pName :: string
  pIsJSON :: bool
  pIsZip :: bool
  pInner :: string

definition manifestProbes :: "string \<Rightarrow> manifest_probe list" where
  "manifestProbes lv =
     [\<lparr>pName = ''manifest-'' @ lv @ ''.zip'', pIsJSON = False, pIsZip = True, pInner = ''manifest-'' @ lv\<rparr>,
      \<lparr>pName = ''manifest-'' @ lv, pIsJSON = False, pIsZip = False, pInner = []\<rparr>,
      \<lparr>pName = ''manifest'', pIsJSON = False, pIsZip = False, pInner = []\<rparr>,
      \<lparr>pName = ''manifest-'' @ lv @ ''.json'', pIsJSON = True, pIsZip = False, pInner = []\<rparr>]"

definition unzipManifest :: "ext \<Rightarrow> string \<Rightarrow> string \<Rightarrow> string + string" where
  "unzipManifest x body inner = (case zip_entries x body of
     Inl e \<Rightarrow> Inl e
   | Inr [] \<Rightarrow> Inl ''empty zip archive''
   | Inr (f # fs) \<Rightarrow> (case find (\<lambda>e. fst e = inner) (f # fs) of Some e \<Rightarrow> snd e | None \<Rightarrow> snd f))"

definition toArchArr :: "string \<Rightarrow> string \<Rightarrow> lval \<Rightarrow> project_error + string list" where
  "toArchArr name ver v = (case v of
     LArr arr \<Rightarrow> traverse (\<lambda>(i, e). case as_map e of
         None \<Rightarrow> Inl (ArchEntryNotMap name ver i) | Some em \<Rightarrow> Inr (string_field em ''arch'')) (List.enumerate 0 arr)
   | LMap arr \<Rightarrow> Inr [string_field arr ''arch'']
   | _ \<Rightarrow> Inl (ArchNotArray name ver))"

definition project_versions :: "string \<times> lval \<Rightarrow> project_error + string \<times> (string, string list) gomap" where
  "project_versions = (\<lambda>(name, vAny). case as_map vAny of
     None \<Rightarrow> Inl (RockNotMap name)
   | Some versions \<Rightarrow>
       (case traverse (\<lambda>(ver, entry). case toArchArr name ver entry of
            Inl e \<Rightarrow> Inl e | Inr arr \<Rightarrow> Inr (ver, arr)) versions of
          Inl e \<Rightarrow> Inl e
        | Inr inner \<Rightarrow> Inr (name, inner)))"

definition projectManifest :: "string \<Rightarrow> (string \<times> lval) list \<Rightarrow> project_error + remote_manifest" where
  "projectManifest server raw = (case map_of raw ''repository'' of
     None \<Rightarrow> Inl MissingRepository
   | Some repoRaw \<Rightarrow> (case as_map repoRaw of
       None \<Rightarrow> Inl RepositoryNotMap
     | Some repoMap \<Rightarrow> (case traverse project_versions repoMap of
         Inl e \<Rightarrow> Inl e
       | Inr repo \<Rightarrow> Inr \<lparr>rmServer = server, rmRepository = repo\<rparr>)))"

definition decode_raw :: "ext \<Rightarrow> string \<Rightarrow> manifest_probe \<Rightarrow> string \<Rightarrow> remote_error + (string \<times> lval) list" where
  "decode_raw x path p body =
     (if pIsJSON p then (case json_object x body of Inl e \<Rightarrow> Inl (DecodeJSON path e) | Inr raw \<Rightarrow> Inr raw)
      else (case Parse body of
              Inl (pos, e) \<Rightarrow> Inl (ParseManifest path pos e)
            | Inr v \<Rightarrow> (case as_map v of None \<Rightarrow> Inl (TopLevelNotMap path) | Some raw \<Rightarrow> Inr raw)))"

definition decodeManifest :: "ext \<Rightarrow> string \<Rightarrow> string \<Rightarrow> manifest_probe \<Rightarrow> string \<Rightarrow> remote_error + remote_manifest" where
  "decodeManifest x server path p body0 =
     (case (if pIsZip p then (case unzipManifest x body0 (pInner p) of
              Inl e \<Rightarrow> Inl (UnzipManifest path e) | Inr b \<Rightarrow> Inr b) else Inr body0) of
        Inl e \<Rightarrow> Inl e
      | Inr body \<Rightarrow>
         (case decode_raw x path p body of
            Inl e \<Rightarrow> Inl e
          | Inr raw \<Rightarrow>
             (case projectManifest server raw of
                Inl e \<Rightarrow> Inl (ProjectFailed path e)
              | Inr m \<Rightarrow> Inr m)))"

section \<open>Architectures\<close>

definition luaOSName :: "string \<Rightarrow> string" where
  "luaOSName goos = (if goos = ''darwin'' then ''macosx'' else goos)"

definition luaCPUName :: "string \<Rightarrow> string" where
  "luaCPUName goarch =
     (if goarch = ''amd64'' then ''x86_64'' else if goarch = ''386'' then ''x86''
      else if goarch = ''arm64'' then ''aarch64'' else goarch)"

definition hostArch :: "ext \<Rightarrow> string" where
  "hostArch x = luaOSName (go_os x) @ ''-'' @ luaCPUName (go_arch x)"

definition acceptedArches :: "ext \<Rightarrow> string list \<Rightarrow> string \<Rightarrow> string list" where
  "acceptedArches x arches want =
     (let host = (if want = [] then hostArch x else want)
      in filter (\<lambda>a. a = ''src'' \<or> a = ''all'' \<or> a = ''rockspec'' \<or> a = ''installed'' \<or> a = host) arches)"

section \<open>Merging the offers of the servers\<close>

record merged_item =
  miServer :: string
  miArch :: string

text \<open>The loop keeps the index of the best item so far.\<close>

definition pick_step :: "merged_item list \<Rightarrow> nat \<Rightarrow> nat \<Rightarrow> nat" where
  "pick_step items pick i =
     (if miArch (items ! i) = ''src'' \<and> miArch (items ! pick) = ''rockspec'' \<or>
         miArch (items ! i) \<noteq> ''src'' \<and> miArch (items ! i) \<noteq> ''rockspec''
      then i else pick)"

definition pickMergedItem :: "merged_item list \<Rightarrow> nat" where
  "pickMergedItem items = foldl (pick_step items) 0 [0..<length items]"

definition merge_version ::
  "ext \<Rightarrow> string \<Rightarrow> string \<Rightarrow> (string, merged_item list) gomap \<Rightarrow> string \<times> string list \<Rightarrow> (string, merged_item list) gomap" where
  "merge_version x srv want merged = (\<lambda>(verStr, arches).
     foldl (\<lambda>m a. mput verStr (mget m verStr [] @ [\<lparr>miServer = srv, miArch = a\<rparr>]) m)
       merged (acceptedArches x arches want))"

fun merged_loop ::
  "string \<Rightarrow> (string, merged_item list) gomap \<Rightarrow> (string \<Rightarrow> string \<Rightarrow> string \<Rightarrow> string \<Rightarrow> string) \<Rightarrow>
   string list \<Rightarrow> versioned_rock list \<Rightarrow> remote_error option \<Rightarrow> versioned_rock list \<times> remote_error option" where
  "merged_loop name merged makeURL [] out parseErr = (out, parseErr)"
| "merged_loop name merged makeURL (verStr # vers) out parseErr =
     (let items = mget merged verStr [] in
      case ParseVersion verStr of
        Inl e \<Rightarrow> merged_loop name merged makeURL vers out
          (if parseErr = None then Some (BadVersionKey verStr name e) else parseErr)
      | Inr v \<Rightarrow>
          (let win = items ! pickMergedItem items
           in merged_loop name merged makeURL vers
             (out @ [\<lparr>vrName = name, vrVersion = v, vrURL = makeURL (miServer win) name verStr (miArch win),
                vrSpec = None\<rparr>]) parseErr))"

definition mergedRocks ::
  "string \<Rightarrow> (string, merged_item list) gomap \<Rightarrow> (string \<Rightarrow> string \<Rightarrow> string \<Rightarrow> string \<Rightarrow> string) \<Rightarrow>
   versioned_rock list \<times> remote_error option" where
  "mergedRocks name merged makeURL = merged_loop name merged makeURL (sorted_keys merged) [] None"

section \<open>Artifact locations\<close>

definition makeRockURL :: "string \<Rightarrow> string \<Rightarrow> string \<Rightarrow> string \<Rightarrow> string" where
  "makeRockURL server name version arch =
     (let base = trim_right_char server (CHR ''/'') @ ''/'' in
      if arch = ''rockspec'' then base @ name @ ''-'' @ version @ ''.rockspec''
      else if arch = ''installed'' then base @ name @ ''/'' @ version @ ''/'' @ name @ ''-'' @ version @ ''.rockspec''
      else base @ name @ ''-'' @ version @ ''.'' @ arch @ ''.rock'')"

definition is_file_url :: "string \<Rightarrow> bool" where
  "is_file_url server \<longleftrightarrow> 7 \<le> length server \<and> equal_fold (take 7 server) ''file://''"

definition LocalServerPath :: "string \<Rightarrow> string option" where
  "LocalServerPath server =
     (if server = [] then None
      else if is_file_url server then Some (drop 7 server)
      else if contains_sub server ''://'' then None
      else Some server)"

definition filePrefixOf :: "string \<Rightarrow> string" where
  "filePrefixOf server = (if is_file_url server then ''file://'' else [])"

definition localRockURL :: "string \<Rightarrow> string \<Rightarrow> string \<Rightarrow> string \<Rightarrow> string \<Rightarrow> string" where
  "localRockURL dir pre name version arch =
     (if arch = ''rockspec'' then pre @ path_join [dir, name @ ''-'' @ version @ ''.rockspec'']
      else if arch = ''installed'' then pre @ path_join [dir, name, version, name @ ''-'' @ version @ ''.rockspec'']
      else pre @ path_join [dir, name @ ''-'' @ version @ ''.'' @ arch @ ''.rock''])"

section \<open>The name of a server in a listing\<close>

definition unquote :: "string \<Rightarrow> string" where
  "unquote s =
     (if 2 \<le> length s \<and> (hd s = CHR 0x22 \<and> last s = CHR 0x22 \<or> hd s = CHR 0x27 \<and> last s = CHR 0x27)
      then butlast (tl s) else s)"

definition splitURL :: "string \<Rightarrow> string \<times> string" where
  "splitURL url0 =
     (let url = unquote url0 in
      case index_sub url ''://'' of
        Some i \<Rightarrow> (if CHR '':'' \<notin> set (take i url) then (take i url, drop (i + 3) url) else (''file'', url))
      | None \<Rightarrow> (''file'', url))"

fun halve_slashes :: "string \<Rightarrow> string" where
  "halve_slashes (c # d # s) =
     (if c = CHR ''/'' \<and> d = CHR ''/'' then CHR ''/'' # halve_slashes s else c # halve_slashes (d # s))"
| "halve_slashes s = s"

definition push_piece :: "string list \<Rightarrow> string \<Rightarrow> string list" where
  "push_piece pieces piece =
     (if piece = ''.'' then pieces
      else if piece \<noteq> ''..'' then pieces @ [piece]
      else if pieces = [] \<or> last pieces = ''..'' then pieces @ [piece]
      else if last pieces \<noteq> [] then butlast pieces
      else pieces)"

definition server_pieces :: "string \<Rightarrow> string list" where
  "server_pieces path = foldl push_piece [] (split_char path (CHR ''/''))"

definition drop_slashes :: "string \<Rightarrow> string" where
  "drop_slashes path = (let q = trim_right_char path (CHR ''/'') in if q = [] then take 1 path else q)"

definition NormalizeServer :: "string \<Rightarrow> string" where
  "NormalizeServer server =
     (let (proto, path0) = splitURL server;
          path1 = map (\<lambda>c. if c = CHR 0x5C then CHR ''/'' else c) path0;
          path2 = halve_slashes (drop_slashes path1);
          (drive, path3) = (if 2 \<le> length path2 \<and> path2 ! 1 = CHR '':'' then (take 2 path2, drop 2 path2) else ([], path2));
          pieces = server_pieces path3;
          path4 = (if pieces = [] then drive @ ''.''
                   else if pieces = [[]] then drive @ ''/''
                   else drive @ join pieces ''/'')
      in if equal_fold proto ''file'' then path4 else proto @ ''://'' @ path4)"

section \<open>The choice of an artifact\<close>

text \<open>A prebuilt rock ranks above a source rock, a bare rockspec last.\<close>

definition arch_rank :: "string \<Rightarrow> nat" where
  "arch_rank a = (if a = ''rockspec'' then 0 else if a = ''src'' then 1 else 2)"

lemma pick_step_rank:
  "pick_step items p i =
     (if arch_rank (miArch (items ! p)) < arch_rank (miArch (items ! i)) \<or> arch_rank (miArch (items ! i)) = 2
      then i else p)"
  by (auto simp: pick_step_def arch_rank_def)

definition best_upto :: "merged_item list \<Rightarrow> nat \<Rightarrow> nat \<Rightarrow> bool" where
  "best_upto items n p \<longleftrightarrow> p < n \<and>
     (\<forall>i < n. arch_rank (miArch (items ! i)) \<le> arch_rank (miArch (items ! p))) \<and>
     (\<forall>i < n. p < i \<longrightarrow> arch_rank (miArch (items ! i)) < 2) \<and>
     (\<forall>i < p. arch_rank (miArch (items ! p)) < 2 \<longrightarrow> arch_rank (miArch (items ! i)) < arch_rank (miArch (items ! p)))"

lemma arch_rank_le: "arch_rank a \<le> 2"
  by (simp add: arch_rank_def)

lemma best_upto_step:
  assumes "best_upto items n p"
  shows "best_upto items (Suc n) (pick_step items p n)"
proof -
  let ?r = "\<lambda>i. arch_rank (miArch (items ! i))"
  have p: "p < n" "\<And>i. i < n \<Longrightarrow> ?r i \<le> ?r p" "\<And>i. i < n \<Longrightarrow> p < i \<Longrightarrow> ?r i < 2"
    "\<And>i. i < p \<Longrightarrow> ?r p < 2 \<Longrightarrow> ?r i < ?r p"
    using assms unfolding best_upto_def by blast+
  note le2 = arch_rank_le[of "miArch (items ! n)"]
  show ?thesis
  proof (cases "?r p < ?r n \<or> ?r n = 2")
    case True
    have le: "?r i \<le> ?r n" if "i < n" for i using p(2)[OF that] True arch_rank_le[of "miArch (items ! i)"] by linarith
    have lt: "?r i < ?r n" if "i < n" "?r n < 2" for i using p(2)[OF that(1)] True that(2) by linarith
    have st: "pick_step items p n = n" using True unfolding pick_step_rank by simp
    show ?thesis
      using le lt unfolding best_upto_def st by (simp add: less_Suc_eq)
  next
    case False
    then have "?r n \<le> ?r p" "?r n < 2" using le2 by linarith+
    then show ?thesis
      using False p unfolding best_upto_def pick_step_rank by (simp add: less_Suc_eq)
  qed
qed

lemma best_upto_loop: "0 < n \<Longrightarrow> best_upto items n (foldl (pick_step items) 0 [0..<n])"
proof (induction n)
  case (Suc n)
  show ?case
  proof (cases n)
    case 0
    then show ?thesis by (auto simp: best_upto_def pick_step_rank)
  next
    case (Suc m)
    then show ?thesis using Suc.IH best_upto_step by simp
  qed
qed simp

text \<open>
  C34: For a version that some server offers, the picked item exists, no item ranks above it; of
  several prebuilt rocks it is the last one listed, of several source rocks or rockspecs the
  first.
\<close>

theorem pickMergedItem_best:
  assumes "items \<noteq> []"
  shows "pickMergedItem items < length items \<and>
    (\<forall>i < length items. arch_rank (miArch (items ! i)) \<le> arch_rank (miArch (items ! pickMergedItem items))) \<and>
    (\<forall>i < length items. pickMergedItem items < i \<longrightarrow> arch_rank (miArch (items ! i)) < 2) \<and>
    (\<forall>i < pickMergedItem items. arch_rank (miArch (items ! pickMergedItem items)) < 2 \<longrightarrow>
       arch_rank (miArch (items ! i)) < arch_rank (miArch (items ! pickMergedItem items)))"
  using best_upto_loop[of "length items" items] assms
  unfolding pickMergedItem_def best_upto_def by blast

theorem pickMergedItem_best_witness:
  "pickMergedItem (map (\<lambda>a. \<lparr>miServer = ''s'', miArch = a\<rparr>) [''rockspec'', ''all'', ''src'', ''installed'', ''src'']) = 3 \<and>
   pickMergedItem (map (\<lambda>a. \<lparr>miServer = ''s'', miArch = a\<rparr>) [''rockspec'', ''src'', ''src'']) < 3"
proof
  show "pickMergedItem (map (\<lambda>a. \<lparr>miServer = ''s'', miArch = a\<rparr>) [''rockspec'', ''all'', ''src'', ''installed'', ''src'']) = 3"
    by code_simp
  show "pickMergedItem (map (\<lambda>a. \<lparr>miServer = ''s'', miArch = a\<rparr>) [''rockspec'', ''src'', ''src'']) < 3"
    using pickMergedItem_best[of "map (\<lambda>a. \<lparr>miServer = ''s'', miArch = a\<rparr>) [''rockspec'', ''src'', ''src'']"] by simp
qed

section \<open>The pieces of a listed server\<close>

text \<open>
  No piece is \<open>.\<close>, and the pieces \<open>..\<close> all stand at the front.
\<close>

definition resolved :: "string list \<Rightarrow> bool" where
  "resolved ps \<longleftrightarrow> (\<exists>k rest. ps = replicate k ''..'' @ rest \<and> ''..'' \<notin> set rest \<and> ''.'' \<notin> set rest)"

lemma resolved_push:
  assumes "resolved ps"
  shows "resolved (push_piece ps c)"
proof -
  obtain k rest where ps: "ps = replicate k ''..'' @ rest" and r: "''..'' \<notin> set rest" "''.'' \<notin> set rest"
    using assms by (auto simp: resolved_def)
  show ?thesis
  proof (cases "c = ''.''")
    case False
    note nd = this
    show ?thesis
    proof (cases "c = ''..''")
      case True
      show ?thesis
      proof (cases rest rule: rev_cases)
        case Nil
        have "replicate k ''..'' @ [''..''] = replicate (Suc k) ''..''" by (simp add: replicate_append_same)
        then have "push_piece ps c = replicate (Suc k) ''..'' @ []"
          using True ps Nil by (cases k) (simp_all add: push_piece_def del: replicate_Suc)
        then show ?thesis unfolding resolved_def by (intro exI[of _ "Suc k"] exI[of _ "[]"]) simp
      next
        case (snoc rest' y)
        then have "push_piece ps c = replicate k ''..'' @ (if y \<noteq> [] then rest' else rest)"
          using True ps r by (auto simp: push_piece_def butlast_append)
        moreover have "''..'' \<notin> set rest'" "''.'' \<notin> set rest'" using r snoc by simp_all
        ultimately show ?thesis unfolding resolved_def using r by (cases "y \<noteq> []") force+
      qed
    next
      case False
      then have "push_piece ps c = replicate k ''..'' @ rest @ [c]" using nd ps by (simp add: push_piece_def)
      moreover have "''..'' \<notin> set (rest @ [c])" "''.'' \<notin> set (rest @ [c])" using r nd False by auto
      ultimately show ?thesis unfolding resolved_def by blast
    qed
  qed (use assms in \<open>simp add: push_piece_def\<close>)
qed

lemma resolved_server_pieces: "resolved (server_pieces path)"
proof -
  have "resolved ps \<Longrightarrow> resolved (foldl push_piece ps cs)" for ps cs
    by (induction cs arbitrary: ps) (auto intro: resolved_push)
  moreover have "resolved []" by (auto simp: resolved_def)
  ultimately show ?thesis by (simp add: server_pieces_def)
qed

lemma NormalizeServer_examples:
  "NormalizeServer ''https://rocks.example.org/'' = ''https://rocks.example.org''"
  "NormalizeServer ''file:///tmp/repo/'' = ''/tmp/repo''"
  "NormalizeServer ''/a/./b/../c//'' = ''/a/c''"
  "NormalizeServer ''a///..'' = ''a/''"
  by code_simp+

end
