(* ===== verification/Resolver.thy ===== *)
theory Resolver
  imports Constraint
begin

text \<open>
  Dependency resolution: \<open>src/deps/resolver.go\<close>. The struct \<open>resolver\<close> is split in the
  fields that the options set (\<open>rconf\<close>) and those that \<open>walk\<close> changes (\<open>rstate\<close>). What
  the walk calls and this file does not define (the context, the remote index, the fetcher of
  rockspecs) acts on a world of an arbitrary type that the walk threads through its calls, so
  the order of the calls is part of the model and an answer may depend on everything asked
  before; an error carries the world it was met in. \<open>walk\<close> carries fuel for its recursion depth; \<open>Resolve_terminates\<close> gives the
  amount that is enough.
\<close>

datatype resolve_error =
    NilRoot
  | CtxDone string
  | VMProvides string string string
  | CycleDetected string "string list"
  | ConflictFor string string string string
  | QueryFailed string string
  | NoVersion string string string nat
  | FetchFailed string string
  | OutOfFuel

type_synonym 'w ctx = "'w \<Rightarrow> string option \<times> 'w"
type_synonym 'w remote_index = "'w \<Rightarrow> string \<Rightarrow> string \<Rightarrow> (string + versioned_rock list) \<times> 'w"
type_synonym 'w spec_fetcher = "'w \<Rightarrow> versioned_rock \<Rightarrow> (string + rockspec option) \<times> 'w"
type_synonym installed_lookup = "string \<Rightarrow> version list"

record 'w rconf =
  idx :: "'w remote_index"
  fetch :: "'w spec_fetcher option"
  provided :: "(string, version) gomap"
  installed :: "installed_lookup option"

record 'w rstate =
  chosen :: "(string, install_step) gomap"
  inFlight :: "(string, bool) gomap"
  order :: "string list"
  world :: 'w

definition mustVersion :: "string \<Rightarrow> version option" where
  "mustVersion s = (case ParseVersion s of Inl e \<Rightarrow> None | Inr v \<Rightarrow> Some v)"

definition defaultProvided :: "(string, version) gomap" where
  "defaultProvided = [(''lua'', the (mustVersion ''5.1-1'')), (''luajit'', the (mustVersion ''2.1-1'')),
     (''luabitop'', the (mustVersion ''1.0.2-1''))]"

definition IsProvided :: "string \<Rightarrow> bool" where
  "IsProvided name \<longleftrightarrow> map_of defaultProvided name \<noteq> None"

datatype 'w option_fn =
    WithSpecFetcher "'w spec_fetcher"
  | WithProvided "(string, version) gomap"
  | WithInstalled installed_lookup

fun apply_option :: "'w option_fn \<Rightarrow> 'w rconf \<Rightarrow> 'w rconf" where
  "apply_option (WithSpecFetcher f) r = r\<lparr>fetch := Some f\<rparr>"
| "apply_option (WithProvided p) r = r\<lparr>provided := maps_copy (provided r) p\<rparr>"
| "apply_option (WithInstalled l) r = r\<lparr>installed := Some l\<rparr>"

definition new_conf :: "'w remote_index \<Rightarrow> 'w option_fn list \<Rightarrow> 'w rconf" where
  "new_conf ix opts = foldl (\<lambda>r opt. apply_option opt r)
     \<lparr>idx = ix, fetch = None, provided = defaultProvided, installed = None\<rparr> opts"

definition new_state :: "'w \<Rightarrow> 'w rstate" where
  "new_state w = \<lparr>chosen = [], inFlight = [], order = [], world = w\<rparr>"

definition installedSatisfies :: "'w rconf \<Rightarrow> dep \<Rightarrow> bool" where
  "installedSatisfies r d = (case installed r of
     None \<Rightarrow> False
   | Some lookup \<Rightarrow> list_ex (\<lambda>iv. Match iv (dConstraints d)) (lookup (dName d)))"

definition formatConstraints :: "constraint list \<Rightarrow> string" where
  "formatConstraints cs = (if cs = [] then ''(any)''
     else join (map (\<lambda>c. cOp c @ '' '' @ vRaw (cVersion c)) cs) '', '')"

section \<open>The walk\<close>

text \<open>
  One round of the loop, up to the point where a name is visited: \<open>Inr (True, s)\<close> is a
  \<open>continue\<close>, \<open>Inr (False, s)\<close> goes on to the query.
\<close>

definition check_dep ::
  "'w ctx \<Rightarrow> 'w rconf \<Rightarrow> string \<Rightarrow> dep \<Rightarrow> string list \<Rightarrow> 'w rstate \<Rightarrow> (resolve_error \<times> 'w) + bool \<times> 'w rstate" where
  "check_dep ctx r parent d chain s0 =
     (let (cerr, w) = ctx (world s0); s = s0\<lparr>world := w\<rparr> in
      case cerr of
        Some e \<Rightarrow> Inl (CtxDone e, w)
      | None \<Rightarrow>
          (case map_of (provided r) (dName d) of
             Some pv \<Rightarrow>
               (if Match pv (dConstraints d) then Inr (True, s)
                else Inl (VMProvides (dName d) (formatConstraints (dConstraints d)) (vRaw pv), w))
           | None \<Rightarrow>
               (if installedSatisfies r d then Inr (True, s)
                else if mget (inFlight s) (dName d) False
                then Inl (CycleDetected (dName d) (chain @ [dName d]), w)
                else case map_of (chosen s) (dName d) of
                  Some existing \<Rightarrow>
                    (if \<not> Match (isVersion existing) (dConstraints d)
                     then Inl (ConflictFor (dName d) (vRaw (isVersion existing)) parent
                            (formatConstraints (dConstraints d)), w)
                     else Inr (True, s))
                | None \<Rightarrow> Inr (False, s))))"

text \<open>The visit of a name: mark it, query, pick, fetch the rockspec if need be, record the step.\<close>

definition choose_dep ::
  "'w rconf \<Rightarrow> string \<Rightarrow> dep \<Rightarrow> 'w rstate \<Rightarrow> (resolve_error \<times> 'w) + rockspec option \<times> 'w rstate" where
  "choose_dep r parent d s0 =
     (let s = s0\<lparr>inFlight := mput (dName d) True (inFlight s0)\<rparr>;
          (answer, w) = idx r (world s) (dName d) (dNamespace d)
      in case answer of
        Inl e \<Rightarrow> Inl (QueryFailed (dName d) e, w)
      | Inr candidates \<Rightarrow>
          (case pickNewest candidates (dConstraints d) of
             None \<Rightarrow> Inl (NoVersion (dName d) (formatConstraints (dConstraints d)) parent (length candidates), w)
           | Some picked \<Rightarrow>
               (case (case (vrSpec picked, fetch r) of
                        (None, Some f) \<Rightarrow> f w picked
                      | _ \<Rightarrow> (Inr (vrSpec picked), w)) of
                  (Inl e, w') \<Rightarrow> Inl (FetchFailed (dName d) e, w')
                | (Inr spec, w') \<Rightarrow>
                    Inr (spec, s\<lparr>world := w',
                      chosen := mput (dName d) \<lparr>isName = vrName picked, isVersion = vrVersion picked,
                        isURL = vrURL picked, isRockspec = spec\<rparr> (chosen s)\<rparr>))))"

definition leave_dep :: "dep \<Rightarrow> 'w rstate \<Rightarrow> 'w rstate" where
  "leave_dep d s = s\<lparr>inFlight := mdel (dName d) (inFlight s), order := order s @ [dName d]\<rparr>"

fun walk ::
  "'w ctx \<Rightarrow> 'w rconf \<Rightarrow> nat \<Rightarrow> string \<Rightarrow> dep list \<Rightarrow> string list \<Rightarrow> 'w rstate \<Rightarrow>
   (resolve_error \<times> 'w) + 'w rstate" where
  "walk ctx r k parent [] chain s = Inr s"
| "walk ctx r k parent (d # ds) chain s =
     (case check_dep ctx r parent d chain s of
        Inl e \<Rightarrow> Inl e
      | Inr (True, s1) \<Rightarrow> walk ctx r k parent ds chain s1
      | Inr (False, s1) \<Rightarrow>
          (case choose_dep r parent d s1 of
             Inl e \<Rightarrow> Inl e
           | Inr (spec, s2) \<Rightarrow>
               (case (case spec of
                        None \<Rightarrow> Inr s2
                      | Some sp \<Rightarrow>
                          (case k of
                             0 \<Rightarrow> Inl (OutOfFuel, world s2)
                           | Suc k' \<Rightarrow> walk ctx r k' (dName d) (rDependencies sp) (chain @ [dName d]) s2)) of
                  Inl e \<Rightarrow> Inl e
                | Inr s3 \<Rightarrow> walk ctx r k parent ds chain (leave_dep d s3))))"

definition Resolve ::
  "nat \<Rightarrow> 'w ctx \<Rightarrow> rockspec option \<Rightarrow> 'w remote_index \<Rightarrow> 'w option_fn list \<Rightarrow> 'w \<Rightarrow>
   (resolve_error + install_step list) \<times> 'w" where
  "Resolve k ctx rootspec ix opts w = (case rootspec of
     None \<Rightarrow> (Inl NilRoot, w)
   | Some rs \<Rightarrow>
       (case walk ctx (new_conf ix opts) k (rPackage rs) (rDependencies rs) [] (new_state w) of
          Inl (e, w') \<Rightarrow> (Inl e, w')
        | Inr s \<Rightarrow> (Inr (map (\<lambda>name. the (map_of (chosen s) name)) (order s)), world s)))"

section \<open>The state the walk keeps\<close>

text \<open>
  \<open>met r s xs d\<close>: the dependency is met by the VM, by the tree, or by the choice of a name
  among \<open>xs\<close>.
\<close>

definition met :: "'w rconf \<Rightarrow> (string, install_step) gomap \<Rightarrow> string set \<Rightarrow> dep \<Rightarrow> bool" where
  "met r ch xs d \<longleftrightarrow>
     (case map_of (provided r) (dName d) of
        Some pv \<Rightarrow> Match pv (dConstraints d)
      | None \<Rightarrow> installedSatisfies r d \<or>
          (\<exists>st. dName d \<in> xs \<and> map_of ch (dName d) = Some st \<and> Match (isVersion st) (dConstraints d)))"

definition in_flight :: "'w rstate \<Rightarrow> string set" where
  "in_flight s = {n. mget (inFlight s) n False}"

definition deps_of :: "install_step \<Rightarrow> dep list" where
  "deps_of st = (case isRockspec st of None \<Rightarrow> [] | Some sp \<Rightarrow> rDependencies sp)"

definition topological :: "'w rconf \<Rightarrow> 'w rstate \<Rightarrow> bool" where
  "topological r s \<longleftrightarrow>
     (\<forall>i < length (order s). \<forall>st. map_of (chosen s) (order s ! i) = Some st \<longrightarrow>
        (\<forall>d \<in> set (deps_of st). met r (chosen s) (set (take i (order s))) d))"

definition walk_inv :: "'w rconf \<Rightarrow> 'w rstate \<Rightarrow> bool" where
  "walk_inv r s \<longleftrightarrow> distinct (order s) \<and> set (order s) \<inter> in_flight s = {} \<and>
     dom (map_of (chosen s)) = set (order s) \<union> in_flight s \<and> topological r s"

definition grows :: "'w rstate \<Rightarrow> 'w rstate \<Rightarrow> bool" where
  "grows s s' \<longleftrightarrow> map_of (chosen s) \<subseteq>\<^sub>m map_of (chosen s') \<and> (\<exists>new. order s' = order s @ new)"

lemma grows_refl: "grows s s"
  by (simp add: grows_def)

lemma grows_trans: "grows s s' \<Longrightarrow> grows s' s'' \<Longrightarrow> grows s s''"
  by (force simp: grows_def intro: map_le_trans)

lemma met_mono:
  "met r ch xs d \<Longrightarrow> map_of ch \<subseteq>\<^sub>m map_of ch' \<Longrightarrow> xs \<subseteq> xs' \<Longrightarrow> met r ch' xs' d"
  by (auto simp: met_def map_le_def dom_def split: option.splits)

lemma check_dep_world: "check_dep ctx r parent d chain s = Inr (b, s1) \<Longrightarrow> \<exists>w. s1 = s\<lparr>world := w\<rparr>"
  by (auto simp: check_dep_def Let_def split: prod.splits option.splits if_splits)

lemma check_dep_continue:
  assumes "check_dep ctx r parent d chain s = Inr (True, s1)" and "walk_inv r s"
  shows "walk_inv r s1 \<and> grows s s1 \<and> in_flight s1 = in_flight s \<and> met r (chosen s1) (set (order s1)) d"
proof -
  obtain w where s1: "s1 = s\<lparr>world := w\<rparr>"
    using assms(1) by (auto simp: check_dep_def Let_def split: prod.splits option.splits if_splits)
  have "met r (chosen s) (set (order s)) d"
    using assms
    by (auto simp: check_dep_def met_def walk_inv_def in_flight_def dom_def Let_def set_eq_iff
        split: prod.splits option.splits if_splits)
  then show ?thesis
    using assms(2) by (simp add: s1 walk_inv_def grows_def in_flight_def topological_def)
qed

lemma check_dep_visit:
  assumes "check_dep ctx r parent d chain s = Inr (False, s1)"
  shows "chosen s1 = chosen s \<and> order s1 = order s \<and> inFlight s1 = inFlight s \<and>
    dName d \<notin> in_flight s \<and> map_of (chosen s) (dName d) = None \<and> map_of (provided r) (dName d) = None"
  using assms
  by (auto simp: check_dep_def in_flight_def Let_def split: prod.splits option.splits if_splits)

lemma choose_dep_Inr:
  assumes "choose_dep r parent d s = Inr (spec, s2)"
  obtains st cands w picked where "chosen s2 = mput (dName d) st (chosen s)" "isRockspec st = spec"
    "order s2 = order s" "inFlight s2 = mput (dName d) True (inFlight s)"
    "Match (isVersion st) (dConstraints d)"
    "idx r (world s) (dName d) (dNamespace d) = (Inr cands, w)" "picked \<in> set cands"
    "isName st = vrName picked" "vrSpec picked = None \<longrightarrow> fetch r = None \<longrightarrow> spec = None"
    "vrSpec picked \<noteq> None \<longrightarrow> spec = vrSpec picked"
    "\<forall>f. vrSpec picked = None \<longrightarrow> fetch r = Some f \<longrightarrow> (\<exists>w w'. f w picked = (Inr spec, w'))"
proof -
  let ?s = "s\<lparr>inFlight := mput (dName d) True (inFlight s)\<rparr>"
  obtain cands w where q: "idx r (world ?s) (dName d) (dNamespace d) = (Inr cands, w)"
    using assms by (auto simp: choose_dep_def Let_def split: prod.splits sum.splits)
  obtain picked where p: "pickNewest cands (dConstraints d) = Some picked"
    using assms q by (auto simp: choose_dep_def Let_def split: option.splits)
  obtain w' where f: "(case (vrSpec picked, fetch r) of (None, Some f) \<Rightarrow> f w picked
      | _ \<Rightarrow> (Inr (vrSpec picked), w)) = (Inr spec, w')"
    and s2: "s2 = ?s\<lparr>world := w', chosen := mput (dName d) \<lparr>isName = vrName picked,
      isVersion = vrVersion picked, isURL = vrURL picked, isRockspec = spec\<rparr> (chosen ?s)\<rparr>"
    using assms q p by (auto simp: choose_dep_def Let_def split: prod.splits sum.splits)
  show thesis
  proof (rule that[of "\<lparr>isName = vrName picked, isVersion = vrVersion picked, isURL = vrURL picked,
      isRockspec = spec\<rparr>" cands w picked])
    show "Match (isVersion \<lparr>isName = vrName picked, isVersion = vrVersion picked, isURL = vrURL picked,
      isRockspec = spec\<rparr>) (dConstraints d)"
      using pickNewest_Some(2)[OF p] by simp
    show "picked \<in> set cands" by (rule pickNewest_Some(1)[OF p])
    show "idx r (world s) (dName d) (dNamespace d) = (Inr cands, w)" using q by simp
  qed (use f s2 in \<open>auto split: option.splits\<close>)
qed

lemma enter_dep:
  assumes "walk_inv r s" and "dName d \<notin> in_flight s" and "map_of (chosen s) (dName d) = None"
    and "choose_dep r parent d s = Inr (spec, s2)"
  obtains st where "map_of (chosen s2) (dName d) = Some st" "isRockspec st = spec"
    "Match (isVersion st) (dConstraints d)" "walk_inv r s2" "grows s s2"
    "in_flight s2 = insert (dName d) (in_flight s)"
proof -
  obtain st where st: "chosen s2 = mput (dName d) st (chosen s)" "isRockspec st = spec"
    "order s2 = order s" "inFlight s2 = mput (dName d) True (inFlight s)"
    "Match (isVersion st) (dConstraints d)"
    by (rule choose_dep_Inr[OF assms(4)]) (rule that; assumption)
  have fl: "in_flight s2 = insert (dName d) (in_flight s)"
    by (auto simp: in_flight_def st(4) mget_def go_simps)
  have le: "map_of (chosen s) \<subseteq>\<^sub>m map_of (chosen s2)"
    using assms(3) by (auto simp: st(1) go_simps map_le_def)
  have out: "dName d \<notin> set (order s)" using assms(1,3) by (auto simp: walk_inv_def)
  have "topological r s2"
    unfolding topological_def
  proof (intro allI impI ballI)
    fix i st' x
    assume i: "i < length (order s2)" and st': "map_of (chosen s2) (order s2 ! i) = Some st'"
      and x: "x \<in> set (deps_of st')"
    have "order s ! i \<in> set (order s)" using i st(3) by simp
    then have "map_of (chosen s) (order s ! i) = Some st'" using st' out by (auto simp: st(1,3) go_simps split: if_splits)
    then have "met r (chosen s) (set (take i (order s))) x"
      using assms(1) i x st(3) by (auto simp: walk_inv_def topological_def)
    then show "met r (chosen s2) (set (take i (order s2))) x"
      using met_mono[OF _ le] st(3) by auto
  qed
  then have "walk_inv r s2"
    using assms(1) fl out by (auto simp: walk_inv_def st go_simps)
  then show thesis
    using that[of st] st fl le by (simp add: grows_def go_simps)
qed

lemma exit_dep:
  assumes "walk_inv r s" and "dName d \<in> in_flight s" and "map_of (chosen s) (dName d) = Some st"
    and "\<forall>x \<in> set (deps_of st). met r (chosen s) (set (order s)) x"
  shows "walk_inv r (leave_dep d s) \<and> grows s (leave_dep d s) \<and>
    in_flight (leave_dep d s) = in_flight s - {dName d}"
proof -
  have fl: "in_flight (leave_dep d s) = in_flight s - {dName d}"
    by (auto simp: in_flight_def leave_dep_def mget_def go_simps split: option.splits if_splits)
  have "topological r (leave_dep d s)"
    using assms by (auto simp: topological_def leave_dep_def nth_append walk_inv_def less_Suc_eq)
  then have "walk_inv r (leave_dep d s)"
    using assms(1,2) fl by (auto simp: walk_inv_def) (auto simp: leave_dep_def)
  then show ?thesis using fl by (auto simp: grows_def leave_dep_def)
qed

lemma visit_dep:
  assumes "check_dep ctx r parent d chain s = Inr (False, s1)" and "choose_dep r parent d s1 = Inr (spec, s2)"
    and "walk_inv r s"
  obtains st where "walk_inv r s2" "grows s s2" "dName d \<in> in_flight s2" "in_flight s2 - {dName d} = in_flight s"
    "map_of (chosen s2) (dName d) = Some st" "isRockspec st = spec" "Match (isVersion st) (dConstraints d)"
proof -
  note v = check_dep_visit[OF assms(1)]
  have s1: "walk_inv r s1" "grows s s1" "in_flight s1 = in_flight s"
    using assms(3) v by (simp_all add: walk_inv_def grows_def in_flight_def topological_def)
  have "dName d \<notin> in_flight s1" "map_of (chosen s1) (dName d) = None" using v s1(3) by simp_all
  then obtain st where "map_of (chosen s2) (dName d) = Some st" "isRockspec st = spec"
    "Match (isVersion st) (dConstraints d)" "walk_inv r s2" "grows s1 s2"
    "in_flight s2 = insert (dName d) (in_flight s1)"
    using enter_dep[OF s1(1) _ _ assms(2)] by blast
  then show thesis using that[of st] s1 v grows_trans[of s s1 s2] by auto
qed

lemma met_grows: "met r (chosen s) (set (order s)) d \<Longrightarrow> grows s s' \<Longrightarrow> met r (chosen s') (set (order s')) d"
  using met_mono[of r "chosen s" "set (order s)" d] by (auto simp: grows_def)

lemma met_leave:
  assumes "check_dep ctx r parent d chain s = Inr (False, s1)"
    and "map_of (chosen s3) (dName d) = Some st" and "Match (isVersion st) (dConstraints d)"
  shows "met r (chosen (leave_dep d s3)) (set (order (leave_dep d s3))) d"
  using check_dep_visit[OF assms(1)] assms(2,3) by (simp add: met_def leave_dep_def)

lemma visit_in_flight:
  assumes "check_dep ctx r parent d chain s = Inr (False, s1)" and "choose_dep r parent d s1 = Inr (spec, s2)"
  shows "in_flight s2 = insert (dName d) (in_flight s) \<and> dName d \<notin> in_flight s"
proof -
  have "inFlight s2 = mput (dName d) True (inFlight s1)"
    by (rule choose_dep_Inr[OF assms(2)]) assumption
  then show ?thesis
    using check_dep_visit[OF assms(1)] by (auto simp: in_flight_def mget_def go_simps)
qed

text \<open>The induction over a walk that succeeds, by what a round of the loop does.\<close>

lemma walk_ok_induct [consumes 1, case_names Stop Skip Leaf Descend]:
  assumes "walk ctx r k parent ds chain s = Inr s'"
    and "\<And>k parent chain s. P k parent [] chain s s"
    and "\<And>k parent d ds chain s s1 s'. \<lbrakk>check_dep ctx r parent d chain s = Inr (True, s1);
      P k parent ds chain s1 s'\<rbrakk> \<Longrightarrow> P k parent (d # ds) chain s s'"
    and "\<And>k parent d ds chain s s1 s2 s'. \<lbrakk>check_dep ctx r parent d chain s = Inr (False, s1);
      choose_dep r parent d s1 = Inr (None, s2);
      P k parent ds chain (leave_dep d s2) s'\<rbrakk> \<Longrightarrow> P k parent (d # ds) chain s s'"
    and "\<And>k parent d ds chain s s1 sp s2 s3 s'. \<lbrakk>check_dep ctx r parent d chain s = Inr (False, s1);
      choose_dep r parent d s1 = Inr (Some sp, s2);
      P k (dName d) (rDependencies sp) (chain @ [dName d]) s2 s3;
      P (Suc k) parent ds chain (leave_dep d s3) s'\<rbrakk> \<Longrightarrow> P (Suc k) parent (d # ds) chain s s'"
  shows "P k parent ds chain s s'"
  using assms(1)
proof (induction ctx\<equiv>ctx r\<equiv>r k parent ds chain s arbitrary: s' rule: walk.induct)
  case (1 k parent chain s)
  then show ?case using assms(2) by simp
next
  case (2 k parent d ds chain s)
  from "2.prems" obtain b s1 where c: "check_dep ctx r parent d chain s = Inr (b, s1)"
    by (auto split: sum.splits)
  show ?case
  proof (cases b rule: bool.exhaust)
    case True
    then have "walk ctx r k parent ds chain s1 = Inr s'" using "2.prems" c by simp
    then show ?thesis using assms(3) c True "2.hyps"(1)[OF c[unfolded True] refl] by simp
  next
    case False
    obtain spec s2 where ch: "choose_dep r parent d s1 = Inr (spec, s2)"
      using "2.prems" c False by (auto split: sum.splits)
    obtain s3 where s3: "(case spec of None \<Rightarrow> Inr s2 | Some sp \<Rightarrow> (case k of 0 \<Rightarrow> Inl (OutOfFuel, world s2)
        | Suc k' \<Rightarrow> walk ctx r k' (dName d) (rDependencies sp) (chain @ [dName d]) s2)) = Inr s3"
      and rest: "walk ctx r k parent ds chain (leave_dep d s3) = Inr s'"
      using "2.prems" c False ch by (auto split: sum.splits)
    have P3: "P k parent ds chain (leave_dep d s3) s'"
      using "2.hyps"(3)[OF c[unfolded False] refl refl ch refl s3] rest by simp
    show ?thesis
    proof (cases spec)
      case None
      then show ?thesis using assms(4)[OF c[unfolded False]] ch s3 P3 by simp
    next
      case (Some sp)
      then obtain k' where k': "k = Suc k'"
        and w: "walk ctx r k' (dName d) (rDependencies sp) (chain @ [dName d]) s2 = Inr s3"
        using s3 by (cases k) auto
      have "P k' (dName d) (rDependencies sp) (chain @ [dName d]) s2 s3"
        using "2.hyps"(2)[OF c[unfolded False] refl refl ch refl Some k' w] by simp
      then show ?thesis using assms(5)[OF c[unfolded False]] ch P3 Some k' by simp
    qed
  qed
qed

lemma walk_props:
  assumes "walk ctx r k parent ds chain s = Inr s'" and "walk_inv r s"
  shows "walk_inv r s' \<and> grows s s' \<and> in_flight s' = in_flight s \<and>
    (\<forall>d \<in> set ds. met r (chosen s') (set (order s')) d)"
  using assms
proof (induction rule: walk_ok_induct)
  case (Stop k parent chain s)
  then show ?case by (simp add: grows_refl)
next
  case (Skip k parent d ds chain s s1 s')
  then have "walk_inv r s1" "grows s s1" "in_flight s1 = in_flight s" "met r (chosen s1) (set (order s1)) d"
    using check_dep_continue by blast+
  then show ?case using Skip.IH met_grows[of r s1 d s'] grows_trans[of s s1 s'] by auto
next
  case (Leaf k parent d ds chain s s1 s2 s')
  then obtain st where e: "walk_inv r s2" "grows s s2" "dName d \<in> in_flight s2" "in_flight s2 - {dName d} = in_flight s"
    "map_of (chosen s2) (dName d) = Some st" "isRockspec st = None" "Match (isVersion st) (dConstraints d)"
    using visit_dep[OF Leaf.hyps Leaf.prems] by blast
  then have x: "walk_inv r (leave_dep d s2)" "grows s2 (leave_dep d s2)"
      "in_flight (leave_dep d s2) = in_flight s" "met r (chosen (leave_dep d s2)) (set (order (leave_dep d s2))) d"
    using exit_dep[OF e(1,3,5)] met_leave[OF Leaf.hyps(1) e(5,7)] by (simp_all add: deps_of_def)
  then show ?case
    using Leaf.IH met_grows[of r "leave_dep d s2" d s'] grows_trans[OF e(2) x(2)]
      grows_trans[of s "leave_dep d s2" s'] by auto
next
  case (Descend k parent d ds chain s s1 sp s2 s3 s')
  then obtain st where e: "walk_inv r s2" "grows s s2" "dName d \<in> in_flight s2" "in_flight s2 - {dName d} = in_flight s"
    "map_of (chosen s2) (dName d) = Some st" "isRockspec st = Some sp" "Match (isVersion st) (dConstraints d)"
    using visit_dep[OF Descend.hyps Descend.prems] by blast
  then have s3: "walk_inv r s3" "grows s2 s3" "in_flight s3 = in_flight s2"
      "\<forall>x \<in> set (deps_of st). met r (chosen s3) (set (order s3)) x"
    using Descend.IH(1) by (simp_all add: deps_of_def)
  have m3: "map_of (chosen s3) (dName d) = Some st"
    using s3(2) e(5) by (auto simp: grows_def map_le_def dom_def)
  have x: "walk_inv r (leave_dep d s3)" "grows s3 (leave_dep d s3)"
      "in_flight (leave_dep d s3) = in_flight s" "met r (chosen (leave_dep d s3)) (set (order (leave_dep d s3))) d"
    using exit_dep[OF s3(1) _ m3 s3(4)] met_leave[OF Descend.hyps(1) m3 e(7)] e(3,4) s3(3) by simp_all
  have "grows s (leave_dep d s3)" using e(2) s3(2) x(2) grows_trans by blast
  then show ?case
    using Descend.IH(2) x met_grows[of r "leave_dep d s3" d s'] grows_trans[of s "leave_dep d s3" s'] by auto
qed

lemma walk_inv_new: "walk_inv r (new_state w)"
  by (simp add: walk_inv_def new_state_def in_flight_def mget_def topological_def)

text \<open>An answer of the resolver, seen through the state the walk ends with.\<close>

lemma Resolve_Inr:
  assumes "fst (Resolve k ctx (Some rs) ix opts w) = Inr steps"
  obtains s where "walk_inv (new_conf ix opts) s" "in_flight s = {}"
    "steps = map (\<lambda>name. the (map_of (chosen s) name)) (order s)"
    "\<forall>d \<in> set (rDependencies rs). met (new_conf ix opts) (chosen s) (set (order s)) d"
    "walk ctx (new_conf ix opts) k (rPackage rs) (rDependencies rs) [] (new_state w) = Inr s"
proof -
  obtain s where s: "walk ctx (new_conf ix opts) k (rPackage rs) (rDependencies rs) [] (new_state w) = Inr s"
    and "steps = map (\<lambda>name. the (map_of (chosen s) name)) (order s)"
    using assms by (auto simp: Resolve_def split: sum.splits)
  moreover have "in_flight (new_state w) = {}" by (simp add: in_flight_def new_state_def mget_def)
  ultimately show thesis using that walk_props[OF s walk_inv_new] by auto
qed

lemma leave_dep_simps [simp]:
  "chosen (leave_dep d s) = chosen s"
  "order (leave_dep d s) = order s @ [dName d]"
  "in_flight (leave_dep d s) = in_flight s - {dName d}"
  by (auto simp: in_flight_def leave_dep_def mget_def go_simps split: option.splits if_splits)

text \<open>A fact about every recorded step follows from what a single visit records.\<close>

lemma walk_chosen_all:
  assumes "walk ctx r k parent ds chain s = Inr s'"
    and visit: "\<And>parent d chain s s1 spec s2 st. \<lbrakk>check_dep ctx r parent d chain s = Inr (False, s1);
      choose_dep r parent d s1 = Inr (spec, s2); map_of (chosen s2) (dName d) = Some st\<rbrakk> \<Longrightarrow> Q (dName d) st"
    and "\<forall>n st. map_of (chosen s) n = Some st \<longrightarrow> Q n st"
  shows "\<forall>n st. map_of (chosen s') n = Some st \<longrightarrow> Q n st"
  using assms(1,3)
proof (induction rule: walk_ok_induct)
  case (Skip k parent d ds chain s s1 s')
  then show ?case using check_dep_world[OF Skip.hyps(1)] Skip.IH by auto
next
  case (Leaf k parent d ds chain s s1 s2 s')
  obtain st where "chosen s2 = mput (dName d) st (chosen s1)"
    by (rule choose_dep_Inr[OF Leaf.hyps(2)]) (rule that; assumption)
  then have "\<forall>n st. map_of (chosen s2) n = Some st \<longrightarrow> Q n st"
    using visit[OF Leaf.hyps, of st] Leaf.prems check_dep_visit[OF Leaf.hyps(1)]
    by (auto simp: map_of_mput)
  then have "\<forall>n st. map_of (chosen (leave_dep d s2)) n = Some st \<longrightarrow> Q n st" by simp
  then show ?case by (rule Leaf.IH)
next
  case (Descend k parent d ds chain s s1 sp s2 s3 s')
  obtain st where "chosen s2 = mput (dName d) st (chosen s1)"
    by (rule choose_dep_Inr[OF Descend.hyps(2)]) (rule that; assumption)
  then have "\<forall>n st. map_of (chosen s2) n = Some st \<longrightarrow> Q n st"
    using visit[OF Descend.hyps, of st] Descend.prems check_dep_visit[OF Descend.hyps(1)]
    by (auto simp: map_of_mput)
  then have "\<forall>n st. map_of (chosen s3) n = Some st \<longrightarrow> Q n st" by (rule Descend.IH(1))
  then have "\<forall>n st. map_of (chosen (leave_dep d s3)) n = Some st \<longrightarrow> Q n st" by simp
  then show ?case by (rule Descend.IH(2))
qed simp

section \<open>The contract of a remote index\<close>

text \<open>
  \<open>RemoteIndex.Query\<close> answers with candidates of the name it was asked for. Under this
  contract every recorded step is a step of the name it is recorded under. \<open>Remote\<close> interprets
  the locale on the projection of a server's manifest.
\<close>

locale remote_index =
  fixes query :: "'w remote_index"
  assumes query_named: "\<lbrakk>query w n ns = (Inr cs, w'); c \<in> set cs\<rbrakk> \<Longrightarrow> vrName c = n"
begin

lemma choose_named:
  assumes "choose_dep r parent d s = Inr (spec, s2)" and "idx r = query"
    and "map_of (chosen s2) (dName d) = Some st"
  shows "isName st = dName d"
proof -
  obtain st' cands w picked where ch: "chosen s2 = mput (dName d) st' (chosen s)"
    and q: "idx r (world s) (dName d) (dNamespace d) = (Inr cands, w)" "picked \<in> set cands"
    and n: "isName st' = vrName picked"
    by (rule choose_dep_Inr[OF assms(1)]) (rule that; assumption)
  have "isName st' = dName d" using query_named[OF q[unfolded assms(2)]] n by simp
  then show ?thesis using assms(3) by (simp add: ch map_of_mput)
qed

lemma walk_named:
  assumes "walk ctx r k parent ds chain (new_state w) = Inr s'" and "idx r = query"
    and "map_of (chosen s') n = Some st"
  shows "isName st = n \<and> map_of (provided r) n = None"
proof -
  have "\<forall>n st. map_of (chosen s') n = Some st \<longrightarrow> isName st = n \<and> map_of (provided r) n = None"
  proof (rule walk_chosen_all[OF assms(1)])
    fix parent d chain s s1 spec s2 st
    assume "check_dep ctx r parent d chain s = Inr (False, s1)" "choose_dep r parent d s1 = Inr (spec, s2)"
      "map_of (chosen s2) (dName d) = Some st"
    then show "isName st = dName d \<and> map_of (provided r) (dName d) = None"
      using choose_named[OF _ assms(2)] check_dep_visit by metis
  qed (simp add: new_state_def)
  then show ?thesis using assms(3) by blast
qed

end

lemma idx_new_conf: "idx (new_conf ix opts) = ix"
proof -
  have "idx (foldl (\<lambda>r opt. apply_option opt r) r opts) = idx r" for r :: "'a rconf"
  proof (induction opts arbitrary: r)
    case (Cons a opts)
    then show ?case by (cases a) simp_all
  qed simp
  then show ?thesis by (simp add: new_conf_def)
qed

definition satisfied_by :: "'w rconf \<Rightarrow> install_step list \<Rightarrow> dep \<Rightarrow> bool" where
  "satisfied_by r steps d \<longleftrightarrow> (case map_of (provided r) (dName d) of
     Some pv \<Rightarrow> Match pv (dConstraints d)
   | None \<Rightarrow> installedSatisfies r d \<or>
       list_ex (\<lambda>st. isName st = dName d \<and> Match (isVersion st) (dConstraints d)) steps)"

lemma met_satisfied_by:
  assumes "met r ch (set ns) d" and "steps = map (\<lambda>n. the (map_of ch n)) ns"
    and "\<And>n st. map_of ch n = Some st \<Longrightarrow> isName st = n"
  shows "satisfied_by r steps d"
  using assms by (force simp: met_def satisfied_by_def list_ex_iff split: option.splits)

text \<open>What it means for a list of steps to be an installation order for the dependencies of a rock.\<close>

definition installs_in_order :: "'w rconf \<Rightarrow> rockspec \<Rightarrow> install_step list \<Rightarrow> bool" where
  "installs_in_order r rs steps \<longleftrightarrow> distinct (map isName steps) \<and>
    (\<forall>st \<in> set steps. map_of (provided r) (isName st) = None) \<and>
    (\<forall>i < length steps. \<forall>d \<in> set (deps_of (steps ! i)). satisfied_by r (take i steps) d) \<and>
    (\<forall>d \<in> set (rDependencies rs). satisfied_by r steps d)"

lemma resolved_in_order:
  assumes "remote_index ix" and "fst (Resolve k ctx (Some rs) ix opts w) = Inr steps"
  shows "installs_in_order (new_conf ix opts) rs steps"
proof -
  let ?r = "new_conf ix opts"
  obtain s where s: "walk_inv ?r s" "in_flight s = {}"
    "steps = map (\<lambda>name. the (map_of (chosen s) name)) (order s)"
    "\<forall>d \<in> set (rDependencies rs). met ?r (chosen s) (set (order s)) d"
    "walk ctx ?r k (rPackage rs) (rDependencies rs) [] (new_state w) = Inr s"
    using Resolve_Inr[OF assms(2)] .
  have nm: "isName st = n \<and> map_of (provided ?r) n = None" if "map_of (chosen s) n = Some st" for n st
    using remote_index.walk_named[OF assms(1) s(5) idx_new_conf that] .
  have ex: "\<exists>st. map_of (chosen s) n = Some st" if "n \<in> set (order s)" for n
    using that s(1) by (auto simp: walk_inv_def)
  have names: "map isName steps = order s"
    unfolding s(3) using ex nm by (auto intro!: map_idI)
  have "satisfied_by ?r (take i steps) d" if i: "i < length steps" and d: "d \<in> set (deps_of (steps ! i))" for i d
  proof -
    obtain st where st: "map_of (chosen s) (order s ! i) = Some st" using ex i s(3) by force
    then have "met ?r (chosen s) (set (take i (order s))) d"
      using s(1,3) i d by (auto simp: walk_inv_def topological_def)
    then show ?thesis
      by (rule met_satisfied_by) (simp add: s(3) take_map, use nm in blast)
  qed
  moreover have "\<forall>d \<in> set (rDependencies rs). satisfied_by ?r steps d"
    using s(4) nm by (blast intro: met_satisfied_by[OF _ s(3)])
  moreover have "map_of (provided ?r) (isName st) = None" if "st \<in> set steps" for st
    using that names ex nm by (metis imageI list.set_map)
  ultimately show ?thesis using names s(1) by (auto simp: walk_inv_def installs_in_order_def)
qed

text \<open>
  C1: When resolution succeeds, the list it returns is an installation order: no rock occurs
  twice and none of them is a rock the VM provides, every dependency of a listed rock is
  satisfied by the VM, by the tree, or by a rock that stands before it, and every dependency of
  the root is satisfied by the VM, the tree or the list.
\<close>

theorem Resolve_order:
  assumes "remote_index ix" and "fst (Resolve k ctx (Some rs) ix opts w) = Inr steps"
  shows "installs_in_order (new_conf ix opts) rs steps"
  by (rule resolved_in_order[OF assms])

text \<open>A small index: \<open>b\<close> depends on \<open>a\<close>, \<open>c\<close> depends on itself.\<close>

definition plain_dep :: "string \<Rightarrow> dep" where
  "plain_dep n = \<lparr>dName = n, dNamespace = [], dConstraints = []\<rparr>"

definition spec_needing :: "string list \<Rightarrow> rockspec" where
  "spec_needing ns = zero_rockspec\<lparr>rDependencies := map plain_dep ns\<rparr>"

definition small_index :: "unit remote_index" where
  "small_index w n ns = (Inr [\<lparr>vrName = n, vrVersion = zero_version\<lparr>vComponents := [1]\<rparr>, vrURL = [],
     vrSpec = Some (spec_needing (if n = ''b'' then [''a''] else if n = ''c'' then [''c''] else []))\<rparr>], w)"

definition no_deadline :: "'w ctx" where
  "no_deadline w = (None, w)"

theorem Resolve_order_witness:
  "(case fst (Resolve 2 no_deadline (Some (spec_needing [''lua'', ''b''])) small_index [] ()) of
      Inr steps \<Rightarrow> map isName steps = [''a'', ''b''] \<and> distinct (map isName steps)
    | Inl _ \<Rightarrow> False)"
proof -
  have ix: "remote_index small_index" by unfold_locales (auto simp: small_index_def)
  have "(case fst (Resolve 2 no_deadline (Some (spec_needing [''lua'', ''b''])) small_index [] ()) of
      Inr steps \<Rightarrow> map isName steps = [''a'', ''b''] | Inl _ \<Rightarrow> False)"
    by code_simp
  then show ?thesis
    using Resolve_order[OF ix, of 2 no_deadline "spec_needing [''lua'', ''b'']" "[]" "()"]
    by (auto simp: installs_in_order_def split: sum.splits)
qed

section \<open>Termination\<close>

lemma walk_in_flight:
  assumes "walk ctx r k parent ds chain s = Inr s'"
  shows "in_flight s' = in_flight s"
  using assms
proof (induction rule: walk_ok_induct)
  case (Skip k parent d ds chain s s1 s')
  then show ?case using check_dep_world[OF Skip.hyps(1)] by (auto simp: in_flight_def)
next
  case (Leaf k parent d ds chain s s1 s2 s')
  then show ?case using visit_in_flight[OF Leaf.hyps] by simp
next
  case (Descend k parent d ds chain s s1 sp s2 s3 s')
  then show ?case using visit_in_flight[OF Descend.hyps] by simp
qed simp

text \<open>
  \<open>closed_index r S\<close>: every rockspec the index or the fetcher can ever hand out depends on
  names of \<open>S\<close> only.
\<close>

definition closed_index :: "'w rconf \<Rightarrow> string set \<Rightarrow> bool" where
  "closed_index r S \<longleftrightarrow>
     (\<forall>w n ns cs w' c sp. idx r w n ns = (Inr cs, w') \<longrightarrow> c \<in> set cs \<longrightarrow> vrSpec c = Some sp \<longrightarrow>
        dName ` set (rDependencies sp) \<subseteq> S) \<and>
     (\<forall>f w c sp w'. fetch r = Some f \<longrightarrow> f w c = (Inr (Some sp), w') \<longrightarrow> dName ` set (rDependencies sp) \<subseteq> S)"

lemma closed_choose:
  assumes "closed_index r S" and "choose_dep r parent d s = Inr (Some sp, s2)"
  shows "dName ` set (rDependencies sp) \<subseteq> S"
proof -
  obtain cands w picked where q: "idx r (world s) (dName d) (dNamespace d) = (Inr cands, w)" "picked \<in> set cands"
    and n: "vrSpec picked = None \<longrightarrow> fetch r = None \<longrightarrow> Some sp = None"
      "vrSpec picked \<noteq> None \<longrightarrow> Some sp = vrSpec picked"
      "\<forall>f. vrSpec picked = None \<longrightarrow> fetch r = Some f \<longrightarrow> (\<exists>w w'. f w picked = (Inr (Some sp), w'))"
    by (rule choose_dep_Inr[OF assms(2)]) (rule that; assumption)
  show ?thesis
  proof (cases "vrSpec picked")
    case None
    then obtain f w w' where "fetch r = Some f" "f w picked = (Inr (Some sp), w')" using n by auto
    then show ?thesis using assms(1) unfolding closed_index_def by blast
  next
    case (Some sp')
    then have "vrSpec picked = Some sp" using n(2) by simp
    then show ?thesis using assms(1) q unfolding closed_index_def by blast
  qed
qed

lemma walk_fuel:
  assumes "finite S" and "closed_index r S" and "dName ` set ds \<subseteq> S" and "card (S - in_flight s) \<le> k"
  shows "walk ctx r k parent ds chain s \<noteq> Inl (OutOfFuel, v)"
  using assms(2-)
proof (induction ctx r k parent ds chain s rule: walk.induct)
  case (1 ctx r k parent chain s)
  then show ?case by simp
next
  case (2 ctx r k parent d ds chain s)
  have not_check: "check_dep ctx r parent d chain s \<noteq> Inl (OutOfFuel, v)"
    by (auto simp: check_dep_def Let_def split: prod.splits option.splits)
  have not_choose: "choose_dep r parent d s1 \<noteq> Inl (OutOfFuel, v)" for s1
    by (auto simp: choose_dep_def Let_def split: prod.splits sum.splits option.splits)
  show ?case
  proof (cases "check_dep ctx r parent d chain s")
    case (Inl e)
    then show ?thesis using not_check by simp
  next
    case (Inr bs)
    then obtain b s1 where c: "check_dep ctx r parent d chain s = Inr (b, s1)" by (cases bs) simp
    have f1: "in_flight s1 = in_flight s" using check_dep_world[OF c] by (auto simp: in_flight_def)
    show ?thesis
    proof (cases b rule: bool.exhaust)
      case True
      then show ?thesis
        using "2.IH"(1)[OF c[unfolded True] refl refl] "2.prems" f1 c by simp
    next
      case False
      show ?thesis
      proof (cases "choose_dep r parent d s1")
        case (Inl e)
        then show ?thesis using c False not_choose[of s1] by simp
      next
        case (Inr x)
        then obtain spec s2 where ch: "choose_dep r parent d s1 = Inr (spec, s2)" by (cases x) simp
        have fl: "in_flight s2 = insert (dName d) (in_flight s)" "dName d \<notin> in_flight s"
          using visit_in_flight[OF c[unfolded False] ch] by auto
        have drop: "S - in_flight s = insert (dName d) (S - in_flight s2)" "dName d \<notin> S - in_flight s2"
          using fl "2.prems"(2) by auto
        then have card: "card (S - in_flight s) = Suc (card (S - in_flight s2))"
          using assms(1) by simp
        let ?sub = "case spec of None \<Rightarrow> Inr s2 | Some sp \<Rightarrow> (case k of 0 \<Rightarrow> Inl (OutOfFuel, world s2)
          | Suc k' \<Rightarrow> walk ctx r k' (dName d) (rDependencies sp) (chain @ [dName d]) s2)"
        have sub: "?sub \<noteq> Inl (OutOfFuel, v)"
        proof (cases spec)
          case (Some sp)
          obtain k' where k': "k = Suc k'" using card "2.prems"(3) by (cases k) auto
          show ?thesis
            using "2.IH"(2)[OF c[unfolded False] refl refl ch refl Some k' "2.prems"(1)]
              closed_choose[OF "2.prems"(1) ch[unfolded Some]] card k' "2.prems"(3) Some by simp
        qed simp
        have "in_flight s3 = in_flight s2" if "?sub = Inr s3" for s3
          using that by (auto dest!: walk_in_flight split: option.splits nat.splits)
        then have "walk ctx r k parent ds chain (leave_dep d s3) \<noteq> Inl (OutOfFuel, v)" if "?sub = Inr s3" for s3
          using "2.IH"(3)[OF c[unfolded False] refl refl ch refl that "2.prems"(1)] "2.prems" that fl by simp
        then show ?thesis using c False ch sub by (auto split: sum.splits)
      qed
    qed
  qed
qed

lemma walk_more_fuel:
  assumes "\<forall>v. walk ctx r k parent ds chain s \<noteq> Inl (OutOfFuel, v)" and "k \<le> k'"
  shows "walk ctx r k' parent ds chain s = walk ctx r k parent ds chain s"
  using assms
proof (induction ctx r k parent ds chain s arbitrary: k' rule: walk.induct)
  case (1 ctx r k parent chain s)
  then show ?case by simp
next
  case (2 ctx r k parent d ds chain s)
  show ?case
  proof (cases "check_dep ctx r parent d chain s")
    case (Inl e)
    then show ?thesis by simp
  next
    case (Inr bs)
    then obtain b s1 where c: "check_dep ctx r parent d chain s = Inr (b, s1)" by (cases bs) simp
    show ?thesis
    proof (cases b rule: bool.exhaust)
      case True
      then show ?thesis using "2.IH"(1)[OF c[unfolded True] refl refl, of k'] "2.prems" c by simp
    next
      case False
      show ?thesis
      proof (cases "choose_dep r parent d s1")
        case (Inl e)
        then show ?thesis using c False by simp
      next
        case (Inr x)
        then obtain spec s2 where ch: "choose_dep r parent d s1 = Inr (spec, s2)" by (cases x) simp
        define sub where "sub k = (case spec of None \<Rightarrow> Inr s2 | Some sp \<Rightarrow> (case k of 0 \<Rightarrow> Inl (OutOfFuel, world s2)
          | Suc k' \<Rightarrow> walk ctx r k' (dName d) (rDependencies sp) (chain @ [dName d]) s2))" for k
        have unroll: "walk ctx r k parent (d # ds) chain s = (case sub k of Inl e \<Rightarrow> Inl e
            | Inr s3 \<Rightarrow> walk ctx r k parent ds chain (leave_dep d s3))" for k
          using c False ch by (simp add: sub_def)
        have enough: "\<forall>v. sub k \<noteq> Inl (OutOfFuel, v)" using "2.prems"(1) unfolding unroll by auto
        have same: "sub k' = sub k"
        proof (cases spec)
          case (Some sp)
          obtain k1 where k1: "k = Suc k1" using enough Some by (cases k) (auto simp: sub_def)
          obtain k2 where k2: "k' = Suc k2" "k1 \<le> k2" using "2.prems"(2) k1 by (cases k') auto
          show ?thesis
            using "2.IH"(2)[OF c[unfolded False] refl refl ch refl Some k1 _ k2(2)] enough
            by (simp add: sub_def Some k1 k2(1))
        qed (simp add: sub_def)
        show ?thesis
        proof (cases "sub k")
          case (Inl e)
          then show ?thesis unfolding unroll same by simp
        next
          case (Inr s3)
          then show ?thesis
            using "2.IH"(3)[OF c[unfolded False] refl refl ch refl Inr[unfolded sub_def], of k'] "2.prems"
            unfolding unroll same by simp
        qed
      qed
    qed
  qed
qed

text \<open>
  C11: Resolution terminates when finitely many dependency names can occur: with fuel equal to
  their number the recursion never runs out, and more fuel gives the same answer.
\<close>

theorem Resolve_terminates:
  assumes "finite S" and "closed_index (new_conf ix opts) S" and "dName ` set (rDependencies rs) \<subseteq> S"
    and "card S \<le> k"
  shows "fst (Resolve k ctx (Some rs) ix opts w) \<noteq> Inl OutOfFuel \<and>
    Resolve k ctx (Some rs) ix opts w = Resolve (card S) ctx (Some rs) ix opts w"
proof -
  have "in_flight (new_state w) = {}" by (simp add: in_flight_def new_state_def mget_def)
  then have n: "\<forall>v. walk ctx (new_conf ix opts) (card S) (rPackage rs) (rDependencies rs) [] (new_state w) \<noteq> Inl (OutOfFuel, v)"
    using walk_fuel[OF assms(1-3)] by simp
  show ?thesis using n walk_more_fuel[OF n assms(4)] by (auto simp: Resolve_def split: sum.splits)
qed

theorem Resolve_terminates_witness:
  "fst (Resolve 9 no_deadline (Some (spec_needing [''c''])) small_index [] ()) \<noteq> Inl OutOfFuel"
proof -
  have "closed_index (new_conf small_index []) {''a'', ''b'', ''c''}"
    by (auto simp: closed_index_def new_conf_def small_index_def spec_needing_def zero_rockspec_def plain_dep_def
        split: if_splits)
  moreover have "dName ` set (rDependencies (spec_needing [''c''])) \<subseteq> {''a'', ''b'', ''c''}"
    by (simp add: spec_needing_def plain_dep_def)
  moreover have "finite {''a'', ''b'', ''c''}" "card {''a'', ''b'', ''c''} \<le> 9" by simp_all
  ultimately show ?thesis
    using Resolve_terminates[of "{''a'', ''b'', ''c''}" small_index "[]" "spec_needing [''c'']" 9 no_deadline "()"]
    by blast
qed

section \<open>Cycles\<close>

lemma walk_cycle:
  assumes "walk ctx r k parent ds chain s = Inl (CycleDetected n ch, v)" and "in_flight s = set chain"
  shows "\<exists>pre mid. ch = pre @ n # mid @ [n]"
  using assms
proof (induction ctx r k parent ds chain s rule: walk.induct)
  case (1 ctx r k parent chain s)
  then show ?case by simp
next
  case (2 ctx r k parent d ds chain s)
  have chk: "\<exists>pre mid. ch = pre @ n # mid @ [n]" if "check_dep ctx r parent d chain s = Inl (CycleDetected n ch, v)"
  proof -
    have "ch = chain @ [n]" "n \<in> in_flight s"
      using that by (auto simp: check_dep_def Let_def in_flight_def split: prod.splits option.splits if_splits)
    then show ?thesis using "2.prems"(2) split_list[of n chain] by auto
  qed
  have not_choose: "choose_dep r parent d s1 \<noteq> Inl (CycleDetected n ch, v)" for s1
    by (auto simp: choose_dep_def Let_def split: prod.splits sum.splits option.splits)
  show ?case
  proof (cases "check_dep ctx r parent d chain s")
    case (Inl e)
    then show ?thesis using chk "2.prems"(1) by simp
  next
    case (Inr bs)
    then obtain b s1 where c: "check_dep ctx r parent d chain s = Inr (b, s1)" by (cases bs) simp
    have f1: "in_flight s1 = in_flight s" using check_dep_world[OF c] by (auto simp: in_flight_def)
    show ?thesis
    proof (cases b rule: bool.exhaust)
      case True
      then show ?thesis using "2.IH"(1)[OF c[unfolded True] refl refl] "2.prems" f1 c by simp
    next
      case False
      show ?thesis
      proof (cases "choose_dep r parent d s1")
        case (Inl e)
        then show ?thesis using c False not_choose[of s1] "2.prems"(1) by simp
      next
        case (Inr x)
        then obtain spec s2 where ch: "choose_dep r parent d s1 = Inr (spec, s2)" by (cases x) simp
        have fl: "in_flight s2 = insert (dName d) (in_flight s)" "dName d \<notin> in_flight s"
          using visit_in_flight[OF c[unfolded False] ch] by auto
        let ?sub = "case spec of None \<Rightarrow> Inr s2 | Some sp \<Rightarrow> (case k of 0 \<Rightarrow> Inl (OutOfFuel, world s2)
          | Suc k' \<Rightarrow> walk ctx r k' (dName d) (rDependencies sp) (chain @ [dName d]) s2)"
        show ?thesis
        proof (cases ?sub)
          case (Inl e)
          then have "?sub = Inl (CycleDetected n ch, v)" using "2.prems"(1) c False ch by simp
          then show ?thesis
            using "2.IH"(2)[OF c[unfolded False] refl refl ch refl] fl "2.prems"(2)
            by (auto split: option.splits nat.splits)
        next
          case (Inr s3)
          moreover have "in_flight s3 = in_flight s2"
            using Inr by (auto dest!: walk_in_flight split: option.splits nat.splits)
          ultimately show ?thesis
            using "2.IH"(3)[OF c[unfolded False] refl refl ch refl Inr] "2.prems" c False ch fl by simp
        qed
      qed
    qed
  qed
qed

text \<open>
  C29: A cycle is reported for a real return: the reported chain ends in the repeated name and
  passes through it once before.
\<close>

theorem Resolve_cycle:
  assumes "fst (Resolve k ctx (Some rs) ix opts w) = Inl (CycleDetected n ch)"
  shows "\<exists>pre mid. ch = pre @ n # mid @ [n]"
proof (rule walk_cycle)
  show "walk ctx (new_conf ix opts) k (rPackage rs) (rDependencies rs) [] (new_state w) =
      Inl (CycleDetected n ch, snd (Resolve k ctx (Some rs) ix opts w))"
    using assms by (auto simp: Resolve_def split: sum.splits)
qed (simp add: in_flight_def new_state_def mget_def)

theorem Resolve_cycle_witness:
  "fst (Resolve 3 no_deadline (Some (spec_needing [''c''])) small_index [] ()) = Inl (CycleDetected ''c'' [''c'', ''c'']) \<and>
   (\<exists>pre mid. [''c'', ''c''] = pre @ ''c'' # mid @ [''c''])"
proof -
  have c: "fst (Resolve 3 no_deadline (Some (spec_needing [''c''])) small_index [] ()) = Inl (CycleDetected ''c'' [''c'', ''c''])"
    by code_simp
  show ?thesis using c Resolve_cycle[OF c] by (rule conjI)
qed

end
