(* ===== verification/RemoteIndex.thy ===== *)
theory RemoteIndex
  imports RemoteManifest Resolver
begin

text \<open>
  The rock servers as the resolver sees them: \<open>src/remote/remote.go\<close>, \<open>src/remote/file.go\<close>,
  \<open>src/remote/index.go\<close>, \<open>src/remote/cache.go\<close> and the choice of a transport in
  \<open>src/internal/transport/transport.go\<close>. An index is a value with its own cache of manifests; the
  world holds the disk, the cache that the indexes of a client share, and the network, which a
  request may change. \<open>url.Parse\<close>, the HTTP client and the context are fields of \<open>ext_net\<close>.
\<close>

record 'w ext_net = ext +
  url_host :: "string \<Rightarrow> string + string"
  http_do :: "bool \<Rightarrow> string \<Rightarrow> string \<Rightarrow> 'w \<Rightarrow> (string + nat \<times> (string + string)) \<times> 'w"
  ctx_err :: "'w \<Rightarrow> string option"

record index_options =
  ioInsecureServers :: "string list"
  ioUserAgent :: string
  ioLuaVersion :: string
  ioArch :: string
  ioCache :: bool

record http_index =
  hServers :: "string list"
  hInsecureServers :: "string list"
  hUserAgent :: string
  hLuaVersion :: string
  hArch :: string
  hCache :: bool
  hMemo :: "(string, remote_manifest) gomap"

record file_index =
  fServer :: string
  fLuaVersion :: string
  fArch :: string
  fCache :: bool
  fMemo :: "(string, remote_manifest) gomap"

datatype index = HTTPRemoteIndex http_index | FileRemoteIndex file_index | OrderedIndex "index list"

record manifestKey =
  mkServer :: string
  mkNamespace :: string
  mkLuaVersion :: string

record 'w net =
  disk :: fs
  manifests :: "(manifestKey, remote_manifest) gomap"
  outside :: 'w

section \<open>The shared cache\<close>

text \<open>The flag says whether the index holds a cache or a nil pointer.\<close>

definition cache_get :: "bool \<Rightarrow> manifestKey \<Rightarrow> 'w net \<Rightarrow> remote_manifest option" where
  "cache_get c key w = (if c then map_of (manifests w) key else None)"

definition cache_put :: "bool \<Rightarrow> manifestKey \<Rightarrow> remote_manifest \<Rightarrow> 'w net \<Rightarrow> 'w net" where
  "cache_put c key m w = (if c then w\<lparr>manifests := mput key m (manifests w)\<rparr> else w)"

definition lua_version :: "string \<Rightarrow> string" where
  "lua_version lv = (if lv = [] then ''5.1'' else lv)"

section \<open>HTTP servers\<close>

definition transport_For :: "string \<Rightarrow> string list \<Rightarrow> bool" where
  "transport_For host insecure = list_ex (\<lambda>h. equal_fold h host) insecure"

definition http_get :: "'w ext_net \<Rightarrow> http_index \<Rightarrow> string \<Rightarrow> 'w net \<Rightarrow> (remote_error + string) \<times> 'w net" where
  "http_get x h rawURL w = (case url_host x rawURL of
     Inl e \<Rightarrow> (Inl (GetManifest rawURL e), w)
   | Inr host \<Rightarrow>
      (let ua = (if hUserAgent h = [] then ''go-luarocks/0.1'' else hUserAgent h);
           (answer, o') = http_do x (transport_For host (hInsecureServers h)) ua rawURL (outside w);
           w' = w\<lparr>outside := o'\<rparr>
       in case answer of
            Inl e \<Rightarrow> (Inl (GetManifest rawURL e), w')
          | Inr (status, body) \<Rightarrow>
             (if 400 \<le> status then (Inl (GetManifest rawURL ''status''), w')
              else case body of Inl e \<Rightarrow> (Inl (GetManifest rawURL e), w') | Inr b \<Rightarrow> (Inr b, w'))))"

definition http_base :: "string \<Rightarrow> string \<Rightarrow> string" where
  "http_base server namespace =
     (trim_right_char server (CHR ''/'') @ ''/'') @
     (if namespace \<noteq> [] then ''manifests/'' @ namespace @ ''/'' else [])"

fun http_probe ::
  "'w ext_net \<Rightarrow> http_index \<Rightarrow> string \<Rightarrow> string \<Rightarrow> manifest_probe list \<Rightarrow> remote_error option \<Rightarrow> 'w net \<Rightarrow>
   (remote_error + remote_manifest) \<times> 'w net" where
  "http_probe x h server base [] lastErr w =
     (Inl (case lastErr of None \<Rightarrow> NoVariant server | Some e \<Rightarrow> e), w)"
| "http_probe x h server base (p # ps) lastErr w =
     (let path = base @ pName p in
      case http_get x h path w of
        (Inl e, w') \<Rightarrow> http_probe x h server base ps (Some e) w'
      | (Inr body, w') \<Rightarrow>
          (case decodeManifest (ext.truncate x) server path p body of
             Inl e \<Rightarrow> http_probe x h server base ps (Some e) w'
           | Inr m \<Rightarrow> (Inr m, w')))"

definition memo_key :: "string \<Rightarrow> string \<Rightarrow> string" where
  "memo_key server namespace = server @ CHR 0x00 # namespace"

definition http_load ::
  "'w ext_net \<Rightarrow> http_index \<Rightarrow> string \<Rightarrow> string \<Rightarrow> 'w net \<Rightarrow> (remote_error + remote_manifest) \<times> http_index \<times> 'w net" where
  "http_load x h server namespace w =
     (let cacheKey = memo_key server namespace in
      case map_of (hMemo h) cacheKey of
        Some m \<Rightarrow> (Inr m, h, w)
      | None \<Rightarrow>
         (let lv = lua_version (hLuaVersion h);
              shared = \<lparr>mkServer = server, mkNamespace = namespace, mkLuaVersion = lv\<rparr> in
          case cache_get (hCache h) shared w of
            Some m \<Rightarrow> (Inr m, h\<lparr>hMemo := mput cacheKey m (hMemo h)\<rparr>, w)
          | None \<Rightarrow>
             (case http_probe x h server (http_base server namespace) (manifestProbes lv) None w of
                (Inl e, w') \<Rightarrow> (Inl e, h, w')
              | (Inr m, w') \<Rightarrow>
                  (Inr m, h\<lparr>hMemo := mput cacheKey m (hMemo h)\<rparr>, cache_put (hCache h) shared m w'))))"

text \<open>The loop over the servers: the merged offers and the first load error.\<close>

fun http_servers ::
  "'w ext_net \<Rightarrow> string \<Rightarrow> string \<Rightarrow> string list \<Rightarrow> (string, merged_item list) gomap \<Rightarrow> remote_error option \<Rightarrow>
   http_index \<Rightarrow> 'w net \<Rightarrow> (string, merged_item list) gomap \<times> remote_error option \<times> http_index \<times> 'w net" where
  "http_servers x name namespace [] merged loadErr h w = (merged, loadErr, h, w)"
| "http_servers x name namespace (srv # srvs) merged loadErr h w =
     (case http_load x h srv namespace w of
        (Inl e, h', w') \<Rightarrow>
          http_servers x name namespace srvs merged (if loadErr = None then Some (LoadServer srv e) else loadErr) h' w'
      | (Inr mf, h', w') \<Rightarrow>
          (case map_of (rmRepository mf) name of
             None \<Rightarrow> http_servers x name namespace srvs merged loadErr h' w'
           | Some versions \<Rightarrow>
               http_servers x name namespace srvs
                 (foldl (merge_version (ext.truncate x) srv (hArch h)) merged versions) loadErr h' w'))"

definition HTTP_Query ::
  "'w ext_net \<Rightarrow> http_index \<Rightarrow> string \<Rightarrow> string \<Rightarrow> 'w net \<Rightarrow>
   (remote_error + versioned_rock list) \<times> http_index \<times> 'w net" where
  "HTTP_Query x h name namespace w =
     (if hServers h = [] then (Inl NoServers, h, w)
      else (let (merged, loadErr0, h', w') = http_servers x name namespace (hServers h) [] None h w;
                (out, parseErr) = mergedRocks name merged makeRockURL;
                loadErr = (if loadErr0 = None then parseErr else loadErr0)
            in case loadErr of
                 Some e \<Rightarrow> (if out = [] then (Inl e, h', w') else (Inr out, h', w'))
               | None \<Rightarrow> (Inr out, h', w')))"

section \<open>Local directories\<close>

fun file_probe ::
  "ext \<Rightarrow> fs \<Rightarrow> string \<Rightarrow> string \<Rightarrow> manifest_probe list \<Rightarrow> string \<Rightarrow> remote_error option \<Rightarrow>
   remote_error + remote_manifest" where
  "file_probe x d server base [] readErr decodeErr =
     Inl (case decodeErr of Some e \<Rightarrow> e | None \<Rightarrow> NoVariantIn base readErr)"
| "file_probe x d server base (p # ps) readErr decodeErr =
     (let path = path_join [base, pName p] in
      case os_read d path of
        Inl e \<Rightarrow> file_probe x d server base ps e decodeErr
      | Inr body \<Rightarrow>
          (case decodeManifest x server path p body of
             Inl e \<Rightarrow> file_probe x d server base ps readErr (if decodeErr = None then Some e else decodeErr)
           | Inr m \<Rightarrow> Inr m))"

definition file_base :: "string \<Rightarrow> string \<Rightarrow> string" where
  "file_base dir namespace = (if namespace \<noteq> [] then path_join [dir, ''manifests'', namespace] else dir)"

definition file_read :: "ext \<Rightarrow> fs \<Rightarrow> string \<Rightarrow> string \<Rightarrow> string \<Rightarrow> string \<Rightarrow> remote_error + remote_manifest" where
  "file_read x d server lv dir namespace =
     (let base = file_base dir namespace in
      case os_stat d base of
        None \<Rightarrow> Inl (StatServer base)
      | Some (NFile c m) \<Rightarrow> Inl (ServerNotDirectory base)
      | Some NDir \<Rightarrow> file_probe x d server base (manifestProbes lv) [] None)"

definition file_load ::
  "'w ext_net \<Rightarrow> file_index \<Rightarrow> string \<Rightarrow> string \<Rightarrow> 'w net \<Rightarrow> (remote_error + remote_manifest) \<times> file_index \<times> 'w net" where
  "file_load x f dir namespace w =
     (case map_of (fMemo f) namespace of
        Some m \<Rightarrow> (Inr m, f, w)
      | None \<Rightarrow>
         (let lv = lua_version (fLuaVersion f);
              shared = \<lparr>mkServer = fServer f, mkNamespace = namespace, mkLuaVersion = lv\<rparr> in
          case cache_get (fCache f) shared w of
            Some m \<Rightarrow> (Inr m, f\<lparr>fMemo := mput namespace m (fMemo f)\<rparr>, w)
          | None \<Rightarrow>
             (case file_read (ext.truncate x) (disk w) (fServer f) lv dir namespace of
                Inl e \<Rightarrow> (Inl e, f, w)
              | Inr m \<Rightarrow>
                  (Inr m, f\<lparr>fMemo := mput namespace m (fMemo f)\<rparr>, cache_put (fCache f) shared m w))))"

definition File_Query ::
  "'w ext_net \<Rightarrow> file_index \<Rightarrow> string \<Rightarrow> string \<Rightarrow> 'w net \<Rightarrow>
   (remote_error + versioned_rock list) \<times> file_index \<times> 'w net" where
  "File_Query x f name namespace w = (case ctx_err x (outside w) of
     Some e \<Rightarrow> (Inl (ContextDone e), f, w)
   | None \<Rightarrow>
      (if fServer f = [] then (Inl NoServerDirectory, f, w)
       else case LocalServerPath (fServer f) of
         None \<Rightarrow> (Inl (NotLocalDirectory (fServer f)), f, w)
       | Some dir \<Rightarrow>
          (case file_load x f dir namespace w of
             (Inl e, f', w') \<Rightarrow> (Inl (LoadServer (fServer f) e), f', w')
           | (Inr mf, f', w') \<Rightarrow>
              (let merged = foldl (merge_version (ext.truncate x) (fServer f) (fArch f)) [] (mget (rmRepository mf) name []);
                   (out, parseErr) = mergedRocks name merged (\<lambda>_. localRockURL dir (filePrefixOf (fServer f)))
               in case parseErr of
                    Some e \<Rightarrow> (if out = [] then (Inl e, f', w') else (Inr out, f', w'))
                  | None \<Rightarrow> (Inr out, f', w')))))"

section \<open>Indexes over a list of servers\<close>

definition NewIndex :: "index_options \<Rightarrow> string \<Rightarrow> index" where
  "NewIndex opts server = (case LocalServerPath server of
     Some _ \<Rightarrow> FileRemoteIndex \<lparr>fServer = server, fLuaVersion = ioLuaVersion opts, fArch = ioArch opts,
       fCache = ioCache opts, fMemo = []\<rparr>
   | None \<Rightarrow> HTTPRemoteIndex \<lparr>hServers = [server], hInsecureServers = ioInsecureServers opts,
       hUserAgent = ioUserAgent opts, hLuaVersion = ioLuaVersion opts, hArch = ioArch opts,
       hCache = ioCache opts, hMemo = []\<rparr>)"

definition NewIndexes :: "index_options \<Rightarrow> string list \<Rightarrow> index list" where
  "NewIndexes opts servers = map (NewIndex opts) servers"

text \<open>
  \<open>Query\<close> of any index. The loop of an ordered index carries the members it has asked, with
  their caches, and the last error.
\<close>

fun index_query ::
    "'w ext_net \<Rightarrow> string \<Rightarrow> string \<Rightarrow> index \<Rightarrow> 'w net \<Rightarrow>
     (remote_error + versioned_rock list) \<times> index \<times> 'w net"
  and ordered_query ::
    "'w ext_net \<Rightarrow> string \<Rightarrow> string \<Rightarrow> index list \<Rightarrow> index list \<Rightarrow> remote_error option \<Rightarrow> 'w net \<Rightarrow>
     (remote_error + versioned_rock list) \<times> index list \<times> 'w net" where
  "index_query x name namespace (HTTPRemoteIndex h) w =
     (let (r, h', w') = HTTP_Query x h name namespace w in (r, HTTPRemoteIndex h', w'))"
| "index_query x name namespace (FileRemoteIndex f) w =
     (let (r, f', w') = File_Query x f name namespace w in (r, FileRemoteIndex f', w'))"
| "index_query x name namespace (OrderedIndex ixs) w =
     (if ixs = [] then (Inl NoServers, OrderedIndex ixs, w)
      else let (r, ixs', w') = ordered_query x name namespace [] ixs None w in (r, OrderedIndex ixs', w'))"
| "ordered_query x name namespace asked [] lastErr w =
     (case lastErr of Some e \<Rightarrow> (Inl (AcrossServers name e), asked, w) | None \<Rightarrow> (Inr [], asked, w))"
| "ordered_query x name namespace asked (ix # ixs) lastErr w =
     (case index_query x name namespace ix w of
        (Inl e, ix', w') \<Rightarrow> ordered_query x name namespace (asked @ [ix']) ixs (Some e) w'
      | (Inr found, ix', w') \<Rightarrow>
          (if found \<noteq> [] then (Inr found, asked @ ix' # ixs, w')
           else ordered_query x name namespace (asked @ [ix']) ixs lastErr w'))"

text \<open>An index as the resolver uses it, over a world that holds the index too.\<close>

definition as_remote_index :: "'w ext_net \<Rightarrow> (remote_error \<Rightarrow> string) \<Rightarrow> (index \<times> 'w net) remote_index" where
  "as_remote_index x show_error = (\<lambda>(ix, w) name namespace.
     (let (r, ix', w') = index_query x name namespace ix w
      in (case r of Inl e \<Rightarrow> Inl (show_error e) | Inr vs \<Rightarrow> Inr vs, (ix', w'))))"

section \<open>Every row bears the name that was asked\<close>

lemma merged_loop_named:
  "\<lbrakk>merged_loop name merged makeURL vers out pe = (out', pe'); \<forall>c \<in> set out. vrName c = name; c \<in> set out'\<rbrakk> \<Longrightarrow>
   vrName c = name"
  by (induction name merged makeURL vers out pe rule: merged_loop.induct)
    (auto simp: Let_def split: sum.splits)

lemma mergedRocks_named: "mergedRocks name merged makeURL = (out, pe) \<Longrightarrow> c \<in> set out \<Longrightarrow> vrName c = name"
  using merged_loop_named[of name merged makeURL "sorted_keys merged" "[]" None out pe c]
  by (simp add: mergedRocks_def)

lemma HTTP_Query_named: "HTTP_Query x h name ns w = (Inr rows, h', w') \<Longrightarrow> c \<in> set rows \<Longrightarrow> vrName c = name"
  by (auto simp: HTTP_Query_def Let_def split: if_splits prod.splits option.splits dest: mergedRocks_named)

lemma File_Query_named: "File_Query x f name ns w = (Inr rows, f', w') \<Longrightarrow> c \<in> set rows \<Longrightarrow> vrName c = name"
  by (auto simp: File_Query_def Let_def split: if_splits prod.splits option.splits sum.splits dest: mergedRocks_named)

lemma index_query_named:
  "index_query x name ns ix w = (Inr rows, ix', w') \<Longrightarrow> c \<in> set rows \<Longrightarrow> vrName c = name"
  "ordered_query x name ns asked ixs lastErr w = (Inr rows, ixs', w') \<Longrightarrow> c \<in> set rows \<Longrightarrow> vrName c = name"
proof (induction x name ns ix w and x name ns asked ixs lastErr w arbitrary: ix' w' and ixs' w'
    rule: index_query_ordered_query.induct)
  case (5 x name ns asked ix ixs lastErr w)
  obtain r ix1 w1 where q: "index_query x name ns ix w = (r, ix1, w1)" by (cases "index_query x name ns ix w")
  show ?case
  proof (cases r)
    case (Inl e)
    then show ?thesis using 5 q by auto
  next
    case (Inr found)
    then show ?thesis using 5 q by (cases "found = []") auto
  qed
qed (auto simp: Let_def split: if_splits prod.splits option.splits dest: HTTP_Query_named File_Query_named)

interpretation configured: remote_index "as_remote_index x show_error" for x show_error
  by unfold_locales
    (auto simp: as_remote_index_def Let_def split: prod.splits sum.splits dest: index_query_named)

section \<open>The caches hold what the servers hold\<close>

text \<open>
  The network stands still when a request leaves it as it was. Then a server has one manifest,
  the one that is read when no cache is consulted.
\<close>

definition still :: "'w ext_net \<Rightarrow> 'w net \<Rightarrow> bool" where
  "still x w \<longleftrightarrow> (\<forall>i ua u. snd (http_do x i ua u (outside w)) = outside w)"

definition opts_index :: "index_options \<Rightarrow> http_index" where
  "opts_index opts = \<lparr>hServers = [], hInsecureServers = ioInsecureServers opts, hUserAgent = ioUserAgent opts,
     hLuaVersion = ioLuaVersion opts, hArch = ioArch opts, hCache = False, hMemo = []\<rparr>"

definition server_manifest ::
  "'w ext_net \<Rightarrow> index_options \<Rightarrow> 'w net \<Rightarrow> string \<Rightarrow> string \<Rightarrow> remote_error + remote_manifest" where
  "server_manifest x opts w srv ns = (case LocalServerPath srv of
     Some dir \<Rightarrow> file_read (ext.truncate x) (disk w) srv (lua_version (ioLuaVersion opts)) dir ns
   | None \<Rightarrow> fst (http_probe x (opts_index opts) srv (http_base srv ns)
       (manifestProbes (lua_version (ioLuaVersion opts))) None w))"

definition same_net :: "'w net \<Rightarrow> 'w net \<Rightarrow> bool" where
  "same_net w w' \<longleftrightarrow> disk w' = disk w \<and> outside w' = outside w"

definition shared_ok :: "'w ext_net \<Rightarrow> index_options \<Rightarrow> 'w net \<Rightarrow> bool" where
  "shared_ok x opts w \<longleftrightarrow> (\<forall>srv ns m.
     map_of (manifests w) \<lparr>mkServer = srv, mkNamespace = ns, mkLuaVersion = lua_version (ioLuaVersion opts)\<rparr> = Some m \<longrightarrow>
     server_manifest x opts w srv ns = Inr m)"

definition plain_server :: "string \<Rightarrow> bool" where
  "plain_server srv \<longleftrightarrow> CHR 0x00 \<notin> set srv"

definition http_ok :: "'w ext_net \<Rightarrow> index_options \<Rightarrow> 'w net \<Rightarrow> http_index \<Rightarrow> bool" where
  "http_ok x opts w h \<longleftrightarrow>
     hInsecureServers h = ioInsecureServers opts \<and> hUserAgent h = ioUserAgent opts \<and>
     hLuaVersion h = ioLuaVersion opts \<and>
     (\<forall>srv \<in> set (hServers h). LocalServerPath srv = None \<and> plain_server srv) \<and>
     (\<forall>srv ns m. LocalServerPath srv = None \<longrightarrow> plain_server srv \<longrightarrow>
        map_of (hMemo h) (memo_key srv ns) = Some m \<longrightarrow> server_manifest x opts w srv ns = Inr m)"

definition file_ok :: "'w ext_net \<Rightarrow> index_options \<Rightarrow> 'w net \<Rightarrow> file_index \<Rightarrow> bool" where
  "file_ok x opts w f \<longleftrightarrow> fLuaVersion f = ioLuaVersion opts \<and>
     (\<forall>dir. LocalServerPath (fServer f) = Some dir \<longrightarrow>
       (\<forall>ns m. map_of (fMemo f) ns = Some m \<longrightarrow> server_manifest x opts w (fServer f) ns = Inr m))"

fun index_ok :: "'w ext_net \<Rightarrow> index_options \<Rightarrow> 'w net \<Rightarrow> index \<Rightarrow> bool" where
  "index_ok x opts w (HTTPRemoteIndex h) = http_ok x opts w h"
| "index_ok x opts w (FileRemoteIndex f) = file_ok x opts w f"
| "index_ok x opts w (OrderedIndex ixs) = (\<forall>ix \<in> set ixs. index_ok x opts w ix)"

lemma memo_key_inject:
  assumes "memo_key s ns = memo_key s' ns'" and "plain_server s" and "plain_server s'"
  shows "s = s' \<and> ns = ns'"
proof -
  have "takeWhile (\<lambda>c. c \<noteq> CHR 0x00) (memo_key s ns) = s" if "plain_server s" for s ns :: string
  proof -
    have "\<And>c. c \<in> set s \<Longrightarrow> c \<noteq> CHR 0x00" using that unfolding plain_server_def by blast
    then show ?thesis unfolding memo_key_def by (subst takeWhile_append2) simp_all
  qed
  then have "s = s'" using assms by metis
  then show ?thesis using assms(1) by (simp add: memo_key_def)
qed

lemma same_net_refl [simp]: "same_net w w"
  by (simp add: same_net_def)

lemma same_net_trans: "same_net w w1 \<Longrightarrow> same_net w1 w2 \<Longrightarrow> same_net w w2"
  by (simp add: same_net_def)

lemma still_same: "same_net w w' \<Longrightarrow> still x w' = still x w"
  by (simp add: still_def same_net_def)

lemma http_get_still:
  assumes "still x w"
  shows "snd (http_get x h u w) = w"
proof (cases "url_host x u")
  case (Inr host)
  let ?ua = "if hUserAgent h = [] then ''go-luarocks/0.1'' else hUserAgent h"
  obtain a where "http_do x (transport_For host (hInsecureServers h)) ?ua u (outside w) = (a, outside w)"
    using assms unfolding still_def by (metis prod.collapse)
  then show ?thesis using Inr by (simp add: http_get_def Let_def split: sum.splits prod.splits)
qed (simp add: http_get_def)

lemma http_get_outside:
  assumes "outside w' = outside w" and "hInsecureServers h' = hInsecureServers h" and "hUserAgent h' = hUserAgent h"
  shows "fst (http_get x h' u w') = fst (http_get x h u w)"
  using assms by (simp add: http_get_def Let_def split: sum.splits prod.splits)

lemma http_probe_still:
  assumes "still x w"
  shows "snd (http_probe x h srv base ps le w) = w"
  using assms
proof (induction ps arbitrary: le)
  case (Cons p ps)
  obtain r w' where g: "http_get x h (base @ pName p) w = (r, w')" by (cases "http_get x h (base @ pName p) w")
  then have "w' = w" using http_get_still[OF Cons.prems, of h "base @ pName p"] by simp
  then show ?case using g Cons by (simp add: Let_def split: sum.splits)
qed simp

lemma http_probe_outside:
  assumes "still x w" and "outside w' = outside w" and "hInsecureServers h' = hInsecureServers h" and "hUserAgent h' = hUserAgent h"
  shows "fst (http_probe x h' srv base ps le w') = fst (http_probe x h srv base ps le w)"
proof (induction ps arbitrary: le)
  case (Cons p ps)
  have st: "still x w'" using assms(1,2) by (simp add: still_def)
  obtain r where g: "http_get x h (base @ pName p) w = (r, w)"
    using http_get_still[OF assms(1), of h "base @ pName p"] by (metis prod.collapse)
  have "http_get x h' (base @ pName p) w' = (r, w')"
    using http_get_still[OF st, of h' "base @ pName p"] http_get_outside[OF assms(2-4), of x "base @ pName p"] g
    by (metis fst_conv prod.collapse)
  then show ?case using g Cons by (simp add: Let_def split: sum.splits)
qed simp

lemma server_manifest_same:
  assumes "still x w" and "same_net w w'"
  shows "server_manifest x opts w' = server_manifest x opts w"
proof -
  have eq: "disk w' = disk w" "outside w' = outside w" using assms(2) by (simp_all add: same_net_def)
  show ?thesis
    unfolding fun_eq_iff server_manifest_def eq(1) http_probe_outside[OF assms(1) eq(2) refl refl] by simp
qed

lemma shared_ok_same:
  assumes "still x w" and "same_net w w'" and "manifests w' = manifests w"
  shows "shared_ok x opts w' = shared_ok x opts w"
  unfolding shared_ok_def server_manifest_same[OF assms(1,2)] assms(3) ..

lemma http_ok_same:
  assumes "still x w" and "same_net w w'"
  shows "http_ok x opts w' = http_ok x opts w"
  unfolding http_ok_def server_manifest_same[OF assms] ..

lemma file_ok_same:
  assumes "still x w" and "same_net w w'"
  shows "file_ok x opts w' = file_ok x opts w"
  unfolding file_ok_def server_manifest_same[OF assms] ..

lemma index_ok_same:
  assumes "still x w" and "same_net w w'"
  shows "index_ok x opts w' ix = index_ok x opts w ix"
proof (induction ix)
  case (OrderedIndex ixs)
  then show ?case by simp
qed (simp_all add: http_ok_same[OF assms] file_ok_same[OF assms])

lemma same_net_cache_put [simp]: "same_net w (cache_put c k m w)"
  by (simp add: cache_put_def same_net_def)

lemma cache_put_ok:
  assumes "still x w" and "shared_ok x opts w" and "server_manifest x opts w srv ns = Inr m"
  shows "shared_ok x opts (cache_put c \<lparr>mkServer = srv, mkNamespace = ns, mkLuaVersion = lua_version (ioLuaVersion opts)\<rparr> m w)"
  using assms(2,3) unfolding shared_ok_def server_manifest_same[OF assms(1) same_net_cache_put]
  by (auto simp: cache_put_def go_simps)

lemma http_ok_memo:
  assumes "http_ok x opts w h" and "plain_server srv" and "server_manifest x opts w srv ns = Inr m"
  shows "http_ok x opts w (h\<lparr>hMemo := mput (memo_key srv ns) m (hMemo h)\<rparr>)"
  unfolding http_ok_def
proof (intro conjI allI impI)
  fix s n m'
  assume s: "LocalServerPath s = None" "plain_server s"
    and get: "map_of (hMemo (h\<lparr>hMemo := mput (memo_key srv ns) m (hMemo h)\<rparr>)) (memo_key s n) = Some m'"
  show "server_manifest x opts w s n = Inr m'"
  proof (cases "memo_key s n = memo_key srv ns")
    case True
    then show ?thesis using memo_key_inject[OF True s(2) assms(2)] get assms(3) by (simp add: go_simps)
  next
    case False
    then have "map_of (hMemo h) (memo_key s n) = Some m'" using get by (simp add: go_simps)
    then show ?thesis using assms(1) s unfolding http_ok_def by blast
  qed
qed (use assms(1) in \<open>simp_all add: http_ok_def\<close>)

lemma http_load_ok:
  assumes "still x w" and "shared_ok x opts w" and "http_ok x opts w h" and "LocalServerPath srv = None"
    and "plain_server srv" and "http_load x h srv ns w = (r, h', w')"
  shows "r = server_manifest x opts w srv ns \<and> http_ok x opts w h' \<and> shared_ok x opts w' \<and> same_net w w' \<and>
    hServers h' = hServers h \<and> hArch h' = hArch h"
proof -
  let ?key = "\<lparr>mkServer = srv, mkNamespace = ns, mkLuaVersion = lua_version (ioLuaVersion opts)\<rparr>"
  have lv: "hLuaVersion h = ioLuaVersion opts" "hInsecureServers h = ioInsecureServers opts" "hUserAgent h = ioUserAgent opts"
    using assms(3) by (simp_all add: http_ok_def)
  have memo: "http_ok x opts w (h\<lparr>hMemo := mput (memo_key srv ns) m (hMemo h)\<rparr>)"
    if "server_manifest x opts w srv ns = Inr m" for m
    by (rule http_ok_memo[OF assms(3,5) that])
  have probe: "http_probe x h srv (http_base srv ns) (manifestProbes (lua_version (ioLuaVersion opts))) None w =
      (server_manifest x opts w srv ns, w)"
    using http_probe_still[OF assms(1)] http_probe_outside[OF assms(1) refl, of h "opts_index opts"] assms(4) lv
    by (simp add: server_manifest_def opts_index_def prod_eq_iff)
  show ?thesis
  proof (cases "map_of (hMemo h) (memo_key srv ns)")
    case (Some m)
    then have "server_manifest x opts w srv ns = Inr m" using assms(3,4,5) by (simp add: http_ok_def)
    then show ?thesis using assms Some by (simp add: http_load_def Let_def)
  next
    case None
    note N = None
    show ?thesis
    proof (cases "cache_get (hCache h) ?key w")
      case (Some m)
      then have "server_manifest x opts w srv ns = Inr m"
        using assms(2) by (auto simp: cache_get_def shared_ok_def split: if_splits)
      then show ?thesis using assms(2,6) N Some lv memo by (auto simp: http_load_def Let_def)
    next
      case None
      show ?thesis
      proof (cases "server_manifest x opts w srv ns")
        case (Inl e)
        then show ?thesis using assms(2,3,6) N None lv probe by (auto simp: http_load_def Let_def)
      next
        case (Inr m)
        then show ?thesis
          using assms(6) N None lv probe memo[OF Inr] cache_put_ok[OF assms(1,2) Inr]
          by (auto simp: http_load_def Let_def)
      qed
    qed
  qed
qed

lemma file_load_ok:
  assumes "still x w" and "shared_ok x opts w" and "file_ok x opts w f" and "LocalServerPath (fServer f) = Some dir"
    and "file_load x f dir ns w = (r, f', w')"
  shows "r = server_manifest x opts w (fServer f) ns \<and> file_ok x opts w f' \<and> shared_ok x opts w' \<and> same_net w w' \<and>
    fServer f' = fServer f \<and> fArch f' = fArch f"
proof -
  let ?key = "\<lparr>mkServer = fServer f, mkNamespace = ns, mkLuaVersion = lua_version (ioLuaVersion opts)\<rparr>"
  have lv: "fLuaVersion f = ioLuaVersion opts" using assms(3) by (simp add: file_ok_def)
  have memo: "file_ok x opts w (f\<lparr>fMemo := mput ns m (fMemo f)\<rparr>)"
    if "server_manifest x opts w (fServer f) ns = Inr m" for m
    using assms(3) that by (auto simp: file_ok_def go_simps)
  have rd: "file_read (ext.truncate x) (disk w) (fServer f) (lua_version (ioLuaVersion opts)) dir ns =
      server_manifest x opts w (fServer f) ns"
    using assms(4) by (simp add: server_manifest_def)
  show ?thesis
  proof (cases "map_of (fMemo f) ns")
    case (Some m)
    then have "server_manifest x opts w (fServer f) ns = Inr m" using assms(3,4) by (simp add: file_ok_def)
    then show ?thesis using assms Some by (simp add: file_load_def)
  next
    case None
    note N = None
    show ?thesis
    proof (cases "cache_get (fCache f) ?key w")
      case (Some m)
      then have "server_manifest x opts w (fServer f) ns = Inr m"
        using assms(2) by (auto simp: cache_get_def shared_ok_def split: if_splits)
      then show ?thesis using assms(2,5) N Some lv memo by (auto simp: file_load_def Let_def)
    next
      case None
      show ?thesis
      proof (cases "server_manifest x opts w (fServer f) ns")
        case (Inl e)
        then show ?thesis using assms(2,3,5) N None lv rd by (auto simp: file_load_def Let_def)
      next
        case (Inr m)
        then show ?thesis
          using assms(5) N None lv rd memo[OF Inr] cache_put_ok[OF assms(1,2) Inr]
          by (auto simp: file_load_def Let_def)
      qed
    qed
  qed
qed

section \<open>The answer of an index, without the caches\<close>

definition offers ::
  "'w ext_net \<Rightarrow> index_options \<Rightarrow> 'w net \<Rightarrow> string \<Rightarrow> string \<Rightarrow> string \<Rightarrow> (string, string list) gomap" where
  "offers x opts w name ns srv = (case server_manifest x opts w srv ns of
     Inl e \<Rightarrow> [] | Inr mf \<Rightarrow> mget (rmRepository mf) name [])"

definition merge_servers ::
  "'w ext_net \<Rightarrow> index_options \<Rightarrow> 'w net \<Rightarrow> string \<Rightarrow> string \<Rightarrow> string \<Rightarrow> string list \<Rightarrow>
   (string, merged_item list) gomap \<Rightarrow> (string, merged_item list) gomap" where
  "merge_servers x opts w want name ns srvs merged =
     foldl (\<lambda>m srv. foldl (merge_version (ext.truncate x) srv want) m (offers x opts w name ns srv)) merged srvs"

fun load_error :: "'w ext_net \<Rightarrow> index_options \<Rightarrow> 'w net \<Rightarrow> string \<Rightarrow> string list \<Rightarrow> remote_error option" where
  "load_error x opts w ns [] = None"
| "load_error x opts w ns (srv # srvs) = (case server_manifest x opts w srv ns of
     Inl e \<Rightarrow> Some (LoadServer srv e) | Inr mf \<Rightarrow> load_error x opts w ns srvs)"

definition rows_or_error :: "versioned_rock list \<times> remote_error option \<Rightarrow> remote_error option \<Rightarrow> remote_error + versioned_rock list" where
  "rows_or_error rows loadErr = (case (if loadErr = None then snd rows else loadErr) of
     Some e \<Rightarrow> (if fst rows = [] then Inl e else Inr (fst rows)) | None \<Rightarrow> Inr (fst rows))"

definition http_answer ::
  "'w ext_net \<Rightarrow> index_options \<Rightarrow> 'w net \<Rightarrow> string \<Rightarrow> string \<Rightarrow> string \<Rightarrow> string list \<Rightarrow> remote_error + versioned_rock list" where
  "http_answer x opts w want name ns srvs =
     (if srvs = [] then Inl NoServers
      else rows_or_error (mergedRocks name (merge_servers x opts w want name ns srvs []) makeRockURL)
             (load_error x opts w ns srvs))"

definition file_answer ::
  "'w ext_net \<Rightarrow> index_options \<Rightarrow> 'w net \<Rightarrow> string \<Rightarrow> string \<Rightarrow> string \<Rightarrow> string \<Rightarrow> remote_error + versioned_rock list" where
  "file_answer x opts w want name ns srv = (case ctx_err x (outside w) of
     Some e \<Rightarrow> Inl (ContextDone e)
   | None \<Rightarrow>
      (if srv = [] then Inl NoServerDirectory
       else case LocalServerPath srv of
         None \<Rightarrow> Inl (NotLocalDirectory srv)
       | Some dir \<Rightarrow> (case server_manifest x opts w srv ns of
           Inl e \<Rightarrow> Inl (LoadServer srv e)
         | Inr mf \<Rightarrow> rows_or_error (mergedRocks name
             (foldl (merge_version (ext.truncate x) srv want) [] (mget (rmRepository mf) name []))
             (\<lambda>_. localRockURL dir (filePrefixOf srv))) None)))"

text \<open>The answer of an ordered index from the answers of its members: the first that is not empty.\<close>

fun first_found :: "string \<Rightarrow> (remote_error + versioned_rock list) list \<Rightarrow> remote_error option \<Rightarrow> remote_error + versioned_rock list" where
  "first_found name [] lastErr = (case lastErr of Some e \<Rightarrow> Inl (AcrossServers name e) | None \<Rightarrow> Inr [])"
| "first_found name (Inl e # rs) lastErr = first_found name rs (Some e)"
| "first_found name (Inr found # rs) lastErr = (if found \<noteq> [] then Inr found else first_found name rs lastErr)"

fun answer :: "'w ext_net \<Rightarrow> index_options \<Rightarrow> 'w net \<Rightarrow> string \<Rightarrow> string \<Rightarrow> index \<Rightarrow> remote_error + versioned_rock list" where
  "answer x opts w name ns (HTTPRemoteIndex h) = http_answer x opts w (hArch h) name ns (hServers h)"
| "answer x opts w name ns (FileRemoteIndex f) = file_answer x opts w (fArch f) name ns (fServer f)"
| "answer x opts w name ns (OrderedIndex ixs) =
     (if ixs = [] then Inl NoServers else first_found name (map (answer x opts w name ns) ixs) None)"

text \<open>What an index is, apart from the manifests it has cached.\<close>

fun without_memo :: "index \<Rightarrow> index" where
  "without_memo (HTTPRemoteIndex h) = HTTPRemoteIndex (h\<lparr>hMemo := [], hCache := False\<rparr>)"
| "without_memo (FileRemoteIndex f) = FileRemoteIndex (f\<lparr>fMemo := [], fCache := False\<rparr>)"
| "without_memo (OrderedIndex ixs) = OrderedIndex (map without_memo ixs)"

lemma answer_without_memo: "answer x opts w name ns (without_memo ix) = answer x opts w name ns ix"
  by (induction ix) (simp_all add: comp_def cong: map_cong)

lemma answer_same:
  assumes "still x w" and "same_net w w'"
  shows "answer x opts w' name ns ix = answer x opts w name ns ix"
proof -
  note sm = server_manifest_same[OF assms]
  have o: "outside w' = outside w" using assms(2) by (simp add: same_net_def)
  have le: "load_error x opts w' ns srvs = load_error x opts w ns srvs" for srvs
    by (induction srvs) (simp_all add: sm split: sum.split)
  have "offers x opts w' name ns = offers x opts w name ns" by (simp add: fun_eq_iff offers_def sm)
  then have "merge_servers x opts w' want name ns srvs m = merge_servers x opts w want name ns srvs m" for want srvs m
    by (simp add: merge_servers_def)
  then have "http_answer x opts w' want name ns srvs = http_answer x opts w want name ns srvs" for want srvs
    by (simp add: http_answer_def le)
  moreover have "file_answer x opts w' want name ns srv = file_answer x opts w want name ns srv" for want srv
    unfolding file_answer_def sm o ..
  ultimately show ?thesis by (induction ix) (simp_all cong: map_cong)
qed

lemma http_servers_ok:
  assumes "still x w" and "http_servers x name ns srvs merged le h w = (merged', le', h', w')"
    and "shared_ok x opts w" and "http_ok x opts w h"
    and "\<And>s. s \<in> set srvs \<Longrightarrow> LocalServerPath s = None \<and> plain_server s"
  shows "merged' = merge_servers x opts w (hArch h) name ns srvs merged \<and>
    le' = (if le = None then load_error x opts w ns srvs else le) \<and>
    shared_ok x opts w' \<and> http_ok x opts w' h' \<and> same_net w w' \<and> h'\<lparr>hMemo := []\<rparr> = h\<lparr>hMemo := []\<rparr>"
  using assms
proof (induction srvs arbitrary: merged le h w)
  case Nil
  then show ?case by (simp add: merge_servers_def)
next
  case (Cons srv srvs)
  obtain r h1 w1 where l: "http_load x h srv ns w = (r, h1, w1)" by (cases "http_load x h srv ns w")
  have eq: "r = server_manifest x opts w srv ns" "http_ok x opts w h1" "shared_ok x opts w1" "same_net w w1" "hArch h1 = hArch h"
    using http_load_ok[OF Cons.prems(1,3,4) _ _ l] Cons.prems(5)[of srv] by simp_all
  have h1: "h1\<lparr>hMemo := []\<rparr> = h\<lparr>hMemo := []\<rparr>"
    using l by (auto simp: http_load_def Let_def split: option.splits sum.splits prod.splits)
  have st: "still x w1" using still_same[OF eq(4)] Cons.prems(1) by simp
  have ok: "http_ok x opts w1 h1" using http_ok_same[OF Cons.prems(1) eq(4)] eq(2) by simp
  have memoless: "merge_servers x opts w1 want name ns srvs m = merge_servers x opts w want name ns srvs m"
    "load_error x opts w1 ns srvs = load_error x opts w ns srvs" for want m
  proof -
    show "load_error x opts w1 ns srvs = load_error x opts w ns srvs"
      by (induction srvs) (simp_all add: server_manifest_same[OF Cons.prems(1) eq(4)] split: sum.split)
    show "merge_servers x opts w1 want name ns srvs m = merge_servers x opts w want name ns srvs m"
      unfolding merge_servers_def offers_def server_manifest_same[OF Cons.prems(1) eq(4)] ..
  qed
  note IH = Cons.IH[OF st _ eq(3) ok, unfolded memoless eq(5) h1]
  show ?case
  proof (cases r)
    case (Inl e)
    then have "offers x opts w name ns srv = []" using eq(1) by (simp add: offers_def)
    then show ?thesis
      using IH[of merged "if le = None then Some (LoadServer srv e) else le"] Cons.prems(2,5) l Inl eq(1,4) same_net_trans
      by (auto simp: merge_servers_def)
  next
    case (Inr mf)
    then have "offers x opts w name ns srv = mget (rmRepository mf) name []" using eq(1) by (simp add: offers_def)
    then show ?thesis
      using IH[of "foldl (merge_version (ext.truncate x) srv (hArch h)) merged (mget (rmRepository mf) name [])" le]
        Cons.prems(2,5) l Inr eq(1,4,5) same_net_trans
      by (auto simp: merge_servers_def mget_def split: option.splits)
  qed
qed

lemma HTTP_Query_ok:
  assumes "still x w" and "shared_ok x opts w" and "http_ok x opts w h" and "HTTP_Query x h name ns w = (r, h', w')"
  shows "r = http_answer x opts w (hArch h) name ns (hServers h) \<and> shared_ok x opts w' \<and> http_ok x opts w' h' \<and>
    same_net w w' \<and> h'\<lparr>hMemo := []\<rparr> = h\<lparr>hMemo := []\<rparr>"
proof (cases "hServers h = []")
  case False
  obtain merged le h1 w1 where s: "http_servers x name ns (hServers h) [] None h w = (merged, le, h1, w1)"
    by (cases "http_servers x name ns (hServers h) [] None h w")
  note ok = http_servers_ok[OF assms(1) s assms(2,3)]
  have "LocalServerPath s = None \<and> plain_server s" if "s \<in> set (hServers h)" for s
    using assms(3) that by (simp add: http_ok_def)
  note ok = ok[OF this]
  obtain out pe where m: "mergedRocks name merged makeRockURL = (out, pe)" by (cases "mergedRocks name merged makeRockURL")
  have "r = rows_or_error (out, pe) le \<and> h' = h1 \<and> w' = w1"
    using assms(4) False s m
    by (auto simp: HTTP_Query_def Let_def rows_or_error_def split: option.splits if_splits)
  then show ?thesis using ok m False by (simp add: http_answer_def)
qed (use assms in \<open>simp add: HTTP_Query_def http_answer_def\<close>)

lemma File_Query_ok:
  assumes "still x w" and "shared_ok x opts w" and "file_ok x opts w f" and "File_Query x f name ns w = (r, f', w')"
  shows "r = file_answer x opts w (fArch f) name ns (fServer f) \<and> shared_ok x opts w' \<and> file_ok x opts w' f' \<and>
    same_net w w' \<and> f'\<lparr>fMemo := []\<rparr> = f\<lparr>fMemo := []\<rparr>"
proof (cases "ctx_err x (outside w)")
  case None
  show ?thesis
  proof (cases "LocalServerPath (fServer f)")
    case (Some dir)
    obtain r1 f1 w1 where l: "file_load x f dir ns w = (r1, f1, w1)" by (cases "file_load x f dir ns w")
    note ok = file_load_ok[OF assms(1-3) Some l]
    have f1: "f1\<lparr>fMemo := []\<rparr> = f\<lparr>fMemo := []\<rparr>"
      using l by (auto simp: file_load_def Let_def split: option.splits sum.splits)
    have ok1: "file_ok x opts w1 f1" using file_ok_same[OF assms(1)] ok by metis
    have ne: "fServer f \<noteq> []" using Some by (auto simp: LocalServerPath_def)
    show ?thesis
      using assms(4) None Some l ok f1 ok1 ne
      by (auto simp: File_Query_def file_answer_def rows_or_error_def Let_def split: sum.splits prod.splits option.splits if_splits)
  qed (use assms None in \<open>auto simp: File_Query_def file_answer_def split: if_splits\<close>)
qed (use assms in \<open>simp add: File_Query_def file_answer_def\<close>)

lemma index_query_ok:
  "\<lbrakk>still x w; shared_ok x opts w; index_ok x opts w ix; index_query x name ns ix w = (r, ix', w')\<rbrakk> \<Longrightarrow>
   r = answer x opts w name ns ix \<and> shared_ok x opts w' \<and> index_ok x opts w' ix' \<and> same_net w w' \<and>
   without_memo ix' = without_memo ix"
  "\<lbrakk>still x w; shared_ok x opts w; \<forall>ix \<in> set asked \<union> set ixs. index_ok x opts w ix;
    ordered_query x name ns asked ixs lastErr w = (r, ixs', w')\<rbrakk> \<Longrightarrow>
   r = first_found name (map (answer x opts w name ns) ixs) lastErr \<and> shared_ok x opts w' \<and>
   (\<forall>ix \<in> set ixs'. index_ok x opts w' ix) \<and> same_net w w' \<and>
   map without_memo ixs' = map without_memo (asked @ ixs)"
proof (induction x name ns ix w and x name ns asked ixs lastErr w arbitrary: r ix' w' and r ixs' w'
    rule: index_query_ordered_query.induct)
  case (1 x name ns h w)
  obtain r1 h1 w1 where q: "HTTP_Query x h name ns w = (r1, h1, w1)" by (cases "HTTP_Query x h name ns w")
  have "h1\<lparr>hMemo := [], hCache := False\<rparr> = h\<lparr>hMemo := [], hCache := False\<rparr>"
    if "h1\<lparr>hMemo := []\<rparr> = h\<lparr>hMemo := []\<rparr>" using arg_cong[OF that, of "hCache_update (\<lambda>_. False)"] by simp
  then show ?case using HTTP_Query_ok[OF 1(1,2) _ q] 1 q by auto
next
  case (2 x name ns f w)
  obtain r1 f1 w1 where q: "File_Query x f name ns w = (r1, f1, w1)" by (cases "File_Query x f name ns w")
  have "f1\<lparr>fMemo := [], fCache := False\<rparr> = f\<lparr>fMemo := [], fCache := False\<rparr>"
    if "f1\<lparr>fMemo := []\<rparr> = f\<lparr>fMemo := []\<rparr>" using arg_cong[OF that, of "fCache_update (\<lambda>_. False)"] by simp
  then show ?case using File_Query_ok[OF 2(1,2) _ q] 2 q by auto
next
  case (3 x name ns ixs w)
  show ?case
  proof (cases "ixs = []")
    case False
    obtain r1 ixs1 w1 where q: "ordered_query x name ns [] ixs None w = (r1, ixs1, w1)"
      by (cases "ordered_query x name ns [] ixs None w")
    then show ?thesis using "3.IH"[OF False 3(2,3) _ q] 3 False by auto
  qed (use 3 in auto)
next
  case (4 x name ns asked lastErr w)
  then show ?case by (auto split: option.splits)
next
  case (5 x name ns asked ix ixs lastErr w)
  obtain r1 ix1 w1 where q: "index_query x name ns ix w = (r1, ix1, w1)" by (cases "index_query x name ns ix w")
  have ok: "r1 = answer x opts w name ns ix" "shared_ok x opts w1" "index_ok x opts w1 ix1" "same_net w w1"
    "without_memo ix1 = without_memo ix"
    using "5.IH"(1)[OF "5.prems"(1,2) _ q] "5.prems"(3) by simp_all
  have st: "still x w1" using still_same[OF ok(4)] "5.prems"(1) by simp
  have rest: "\<forall>i \<in> set (asked @ [ix1]) \<union> set ixs. index_ok x opts w1 i"
    using "5.prems"(3) ok(3) index_ok_same[OF "5.prems"(1) ok(4)] by auto
  note memoless = answer_same[OF "5.prems"(1) ok(4)]
  show ?case
  proof (cases r1)
    case (Inl e)
    have o: "ordered_query x name ns (asked @ [ix1]) ixs (Some e) w1 = (r, ixs', w')"
      using "5.prems"(4) q Inl by simp
    show ?thesis
      using "5.IH"(2)[OF q[symmetric] Inl refl st ok(2) rest o] Inl ok same_net_trans by (auto simp: memoless)
  next
    case (Inr found)
    show ?thesis
    proof (cases "found = []")
      case True
      have o: "ordered_query x name ns (asked @ [ix1]) ixs lastErr w1 = (r, ixs', w')"
        using "5.prems"(4) q Inr True by simp
      show ?thesis
        using "5.IH"(3)[OF q[symmetric] Inr refl _ st ok(2) rest o] Inr True ok same_net_trans by (auto simp: memoless)
    next
      case False
      then have "r = Inr found" "ixs' = asked @ ix1 # ixs" "w' = w1" using "5.prems"(4) q Inr by simp_all
      then show ?thesis using rest ok Inr False by (auto simp flip: ok(1))
    qed
  qed
qed

section \<open>A small network\<close>

definition demo_manifest :: string where
  "demo_manifest = ''repository={a={['' @ [CHR 0x22] @ ''1.0-1'' @ [CHR 0x22] @ '']={{arch='' @ [CHR 0x22] @ ''rockspec'' @ [CHR 0x22] @
     ''},{arch='' @ [CHR 0x22] @ ''all'' @ [CHR 0x22] @ ''}}}}''"

definition demo_ext :: "unit ext_net" where
  "demo_ext = \<lparr>zip_entries = (\<lambda>_. Inl ''zip''), json_object = (\<lambda>_. Inl ''json''), go_os = ''linux'', go_arch = ''amd64'',
     url_host = (\<lambda>u. Inr u),
     http_do = (\<lambda>i ua u w. (Inr (if u = ''http://s/manifest'' then (200, Inr demo_manifest) else (404, Inr [])), w)),
     ctx_err = (\<lambda>_. None)\<rparr>"

definition demo_net :: "unit net" where
  "demo_net = \<lparr>disk = \<lparr>nodes = [], ticks = 0, faults = (\<lambda>_. None)\<rparr>, manifests = [], outside = ()\<rparr>"

definition demo_opts :: index_options where
  "demo_opts = \<lparr>ioInsecureServers = [], ioUserAgent = [], ioLuaVersion = [], ioArch = [], ioCache = True\<rparr>"

lemma demo_still: "still demo_ext demo_net" "shared_ok demo_ext demo_opts demo_net"
  by (simp_all add: still_def shared_ok_def demo_net_def)

section \<open>A client that asks many times\<close>

fun run_queries ::
  "'w ext_net \<Rightarrow> index \<Rightarrow> (string \<times> string) list \<Rightarrow> 'w net \<Rightarrow>
   (remote_error + versioned_rock list) list \<times> index \<times> 'w net" where
  "run_queries x ix [] w = ([], ix, w)"
| "run_queries x ix ((name, ns) # qs) w =
     (let (r, ix1, w1) = index_query x name ns ix w; (rs, ix2, w2) = run_queries x ix1 qs w1 in (r # rs, ix2, w2))"

lemma run_queries_ok:
  assumes "still x w" and "shared_ok x opts w" and "index_ok x opts w ix" and "run_queries x ix qs w = (rs, ix', w')"
  shows "rs = map (\<lambda>(name, ns). answer x opts w name ns ix) qs \<and> shared_ok x opts w' \<and> index_ok x opts w' ix' \<and>
    same_net w w'"
  using assms
proof (induction qs arbitrary: ix w rs ix' w')
  case (Cons q qs)
  obtain name ns where qq: "q = (name, ns)" by (cases q)
  obtain r ix1 w1 where a: "index_query x name ns ix w = (r, ix1, w1)" by (cases "index_query x name ns ix w")
  obtain rs1 ix2 w2 where b: "run_queries x ix1 qs w1 = (rs1, ix2, w2)" by (cases "run_queries x ix1 qs w1")
  note ok = index_query_ok(1)[OF Cons.prems(1-3) a]
  then have sn: "same_net w w1" by blast
  have st: "still x w1" using still_same[OF sn] Cons.prems(1) by simp
  have "answer x opts w1 n s ix1 = answer x opts w n s ix" for n s
    using answer_same[OF Cons.prems(1) sn] answer_without_memo ok by metis
  then show ?case
    using Cons.IH[OF st _ _ b] ok Cons.prems(4) a b qq same_net_trans[OF sn] by auto
qed simp

lemma index_ok_NewIndexes:
  assumes "list_all plain_server servers"
  shows "index_ok x opts w (OrderedIndex (NewIndexes (opts\<lparr>ioCache := c\<rparr>) servers))"
proof -
  have "index_ok x opts w (NewIndex (opts\<lparr>ioCache := c\<rparr>) s)" if "s \<in> set servers" for s
  proof -
    have p: "plain_server s" using assms that by (simp add: list_all_iff)
    show ?thesis
      using p by (cases "LocalServerPath s") (simp_all add: NewIndex_def http_ok_def file_ok_def)
  qed
  then show ?thesis by (simp add: NewIndexes_def)
qed

lemma answer_NewIndexes:
  "answer x opts w name ns (OrderedIndex (NewIndexes (opts\<lparr>ioCache := c\<rparr>) servers)) =
   answer x opts w name ns (OrderedIndex (NewIndexes opts servers))"
proof -
  have "answer x opts w name ns (NewIndex (opts\<lparr>ioCache := c\<rparr>) s) = answer x opts w name ns (NewIndex opts s)" for s
    by (cases "LocalServerPath s") (simp_all add: NewIndex_def)
  then show ?thesis by (simp add: NewIndexes_def comp_def)
qed

text \<open>
  C19: While the servers hold what they hold, a client that asks its list of servers any number
  of times gets, with all its caches, the answers that freshly made indexes without a shared
  cache would give, whatever manifests an earlier run has left in the shared cache, provided
  those are what the servers hold; and what it leaves there is so again.
\<close>

theorem cached_queries:
  assumes "still x w" and "shared_ok x opts w" and "list_all plain_server servers"
    and "run_queries x (OrderedIndex (NewIndexes opts servers)) qs w = (rs, ix', w')"
  shows "rs = map (\<lambda>(name, ns). fst (index_query x name ns
      (OrderedIndex (NewIndexes (opts\<lparr>ioCache := False\<rparr>) servers)) w)) qs \<and>
    shared_ok x opts w' \<and> disk w' = disk w \<and> outside w' = outside w"
proof -
  have ok: "index_ok x opts w (OrderedIndex (NewIndexes opts servers))"
    using index_ok_NewIndexes[OF assms(3), of x opts w "ioCache opts"] by simp
  have "fst (index_query x name ns (OrderedIndex (NewIndexes (opts\<lparr>ioCache := False\<rparr>) servers)) w) =
      answer x opts w name ns (OrderedIndex (NewIndexes opts servers))" for name ns
    using index_query_ok(1)[OF assms(1,2) index_ok_NewIndexes[OF assms(3), where c = False]] answer_NewIndexes
    by (metis prod.collapse)
  then show ?thesis using run_queries_ok[OF assms(1,2) ok assms(4)] by (simp add: same_net_def)
qed

theorem cached_queries_witness:
  "map (map_sum id (map vrURL)) (fst (run_queries demo_ext (OrderedIndex (NewIndexes demo_opts [''/none'', ''http://s/'']))
      [(''a'', []), (''b'', [])] demo_net)) = [Inr [''http://s/a-1.0-1.all.rock''], Inl (AcrossServers ''b''
      (LoadServer ''/none'' (StatServer ''/none'')))] \<and>
   fst (run_queries demo_ext (OrderedIndex (NewIndexes demo_opts [''/none'', ''http://s/''])) [(''a'', []), (''b'', [])] demo_net) =
     map (\<lambda>(name, ns). fst (index_query demo_ext name ns
       (OrderedIndex (NewIndexes (demo_opts\<lparr>ioCache := False\<rparr>) [''/none'', ''http://s/''])) demo_net)) [(''a'', []), (''b'', [])]"
proof
  show "map (map_sum id (map vrURL)) (fst (run_queries demo_ext (OrderedIndex (NewIndexes demo_opts [''/none'', ''http://s/'']))
      [(''a'', []), (''b'', [])] demo_net)) = [Inr [''http://s/a-1.0-1.all.rock''], Inl (AcrossServers ''b''
      (LoadServer ''/none'' (StatServer ''/none'')))]"
    by code_simp
  have p: "list_all plain_server [''/none'', ''http://s/'']" by (simp add: plain_server_def)
  obtain rs ix' w' where q: "run_queries demo_ext (OrderedIndex (NewIndexes demo_opts [''/none'', ''http://s/'']))
      [(''a'', []), (''b'', [])] demo_net = (rs, ix', w')"
    by (rule prod_cases3)
  show "fst (run_queries demo_ext (OrderedIndex (NewIndexes demo_opts [''/none'', ''http://s/''])) [(''a'', []), (''b'', [])] demo_net) =
     map (\<lambda>(name, ns). fst (index_query demo_ext name ns
       (OrderedIndex (NewIndexes (demo_opts\<lparr>ioCache := False\<rparr>) [''/none'', ''http://s/''])) demo_net)) [(''a'', []), (''b'', [])]"
    unfolding q fst_conv using cached_queries[OF demo_still p q] by (rule conjunct1)
qed

text \<open>
  An ordered index answers with the rows of the first server that has some; a server that
  fails is passed over, and the last failure is the answer only when no server has a row. The
  answers of the servers are those they give on their own.
\<close>

theorem OrderedIndex_first_found:
  assumes "still x w" and "shared_ok x opts w" and "list_all plain_server servers" and "servers \<noteq> []"
  shows "fst (index_query x name ns (OrderedIndex (NewIndexes opts servers)) w) =
    first_found name (map (\<lambda>s. fst (index_query x name ns (NewIndex opts s) w)) servers) None"
proof -
  have ok: "index_ok x opts w (OrderedIndex (NewIndexes opts servers))"
    using index_ok_NewIndexes[OF assms(3), of x opts w "ioCache opts"] by simp
  then have each: "index_ok x opts w (NewIndex opts s)" if "s \<in> set servers" for s
    using that by (simp add: NewIndexes_def)
  have "fst (index_query x name ns (NewIndex opts s) w) = answer x opts w name ns (NewIndex opts s)"
    if "s \<in> set servers" for s
    using index_query_ok(1)[OF assms(1,2) each[OF that]] by (metis prod.collapse)
  moreover have "fst (index_query x name ns (OrderedIndex (NewIndexes opts servers)) w) =
      answer x opts w name ns (OrderedIndex (NewIndexes opts servers))"
    using index_query_ok(1)[OF assms(1,2) ok] by (metis prod.collapse)
  ultimately show ?thesis
    using assms(4) by (simp add: NewIndexes_def comp_def cong: map_cong)
qed

theorem OrderedIndex_first_found_witness:
  "fst (index_query demo_ext ''a'' [] (OrderedIndex (NewIndexes demo_opts [''/none'', ''http://s''])) demo_net) =
   first_found ''a'' (map (\<lambda>s. fst (index_query demo_ext ''a'' [] (NewIndex demo_opts s) demo_net)) [''/none'', ''http://s'']) None"
  by (rule OrderedIndex_first_found[OF demo_still]) (simp_all add: plain_server_def)

section \<open>The rows of an answer\<close>

definition items_for :: "ext \<Rightarrow> string \<Rightarrow> string \<Rightarrow> (string, string list) gomap \<Rightarrow> string \<Rightarrow> merged_item list" where
  "items_for x srv want versions ver =
     map (\<lambda>a. \<lparr>miServer = srv, miArch = a\<rparr>) (acceptedArches x (mget versions ver []) want)"

definition no_empty :: "(string, merged_item list) gomap \<Rightarrow> bool" where
  "no_empty m \<longleftrightarrow> distinct (map fst m) \<and> (\<forall>ver. map_of m ver \<noteq> Some [])"

lemma merge_arches:
  "mget (foldl (\<lambda>m a. mput ver (mget m ver [] @ [f a]) m) m as) v [] =
     mget m v [] @ (if v = ver then map f as else []) \<and>
   (no_empty m \<longrightarrow> no_empty (foldl (\<lambda>m a. mput ver (mget m ver [] @ [f a]) m) m as))"
proof (induction "as" arbitrary: m)
  case (Cons a "as")
  have "no_empty m \<Longrightarrow> no_empty (mput ver (mget m ver [] @ [f a]) m)"
    by (auto simp: no_empty_def go_simps distinct_mput)
  then show ?case using Cons[of "mput ver (mget m ver [] @ [f a]) m"] by (simp add: mget_def go_simps)
qed simp

lemma merge_versions:
  assumes "distinct (map fst versions)"
  shows "mget (foldl (merge_version x srv want) m versions) v [] = mget m v [] @ items_for x srv want versions v \<and>
    (no_empty m \<longrightarrow> no_empty (foldl (merge_version x srv want) m versions))"
  using assms
proof (induction versions arbitrary: m)
  case Nil
  then show ?case by (simp add: items_for_def acceptedArches_def mget_def)
next
  case (Cons va versions)
  obtain ver arches where va: "va = (ver, arches)" by (cases va)
  have m1: "merge_version x srv want m va =
      foldl (\<lambda>m a. mput ver (mget m ver [] @ [\<lparr>miServer = srv, miArch = a\<rparr>]) m) m (acceptedArches x arches want)"
    by (simp add: merge_version_def va)
  have nk: "map_of versions ver = None" using Cons.prems va by (auto simp: map_of_eq_None_iff)
  have "items_for x srv want versions ver = []" by (simp add: items_for_def mget_def nk acceptedArches_def)
  moreover have "items_for x srv want (va # versions) v =
      (if v = ver then map (\<lambda>a. \<lparr>miServer = srv, miArch = a\<rparr>) (acceptedArches x arches want) else items_for x srv want versions v)"
    by (simp add: items_for_def mget_def va)
  ultimately show ?case
    using Cons.IH[of "merge_version x srv want m va"] Cons.prems merge_arches[of ver "\<lambda>a. \<lparr>miServer = srv, miArch = a\<rparr>" m "acceptedArches x arches want" v]
    by (simp add: m1)
qed

lemma merge_servers_items:
  assumes "\<And>s. s \<in> set srvs \<Longrightarrow> distinct (map fst (offers x opts w name ns s))"
  shows "mget (merge_servers x opts w want name ns srvs m) v [] =
      mget m v [] @ concat (map (\<lambda>s. items_for (ext.truncate x) s want (offers x opts w name ns s) v) srvs) \<and>
    (no_empty m \<longrightarrow> no_empty (merge_servers x opts w want name ns srvs m))"
  using assms
proof (induction srvs arbitrary: m)
  case (Cons s srvs)
  then show ?case
    using merge_versions[of "offers x opts w name ns s" "ext.truncate x" s want m]
    by (simp add: merge_servers_def)
qed (simp add: merge_servers_def)

definition row_of ::
  "string \<Rightarrow> (string \<Rightarrow> merged_item list) \<Rightarrow> (string \<Rightarrow> string \<Rightarrow> string \<Rightarrow> string \<Rightarrow> string) \<Rightarrow> string \<Rightarrow> versioned_rock list" where
  "row_of name items makeURL ver = (case ParseVersion ver of
     Inl e \<Rightarrow> []
   | Inr v \<Rightarrow> (let win = items ver ! pickMergedItem (items ver) in
       [\<lparr>vrName = name, vrVersion = v, vrURL = makeURL (miServer win) name ver (miArch win), vrSpec = None\<rparr>]))"

lemma merged_loop_rows:
  "fst (merged_loop name merged makeURL vers out pe) = out @ concat (map (row_of name (\<lambda>v. mget merged v []) makeURL) vers)"
  by (induction name merged makeURL vers out pe rule: merged_loop.induct)
    (simp_all add: row_of_def Let_def split: sum.splits)

text \<open>
  The rows an HTTP index gives for a name: one for each version string, in order, that some
  server offers under an accepted architecture and that is a version, with the URL of the item
  picked among the offers of all the servers in the order of the servers.
\<close>

theorem HTTP_rows:
  assumes "still x w" and "shared_ok x opts w" and "http_ok x opts w h"
    and "list_all (\<lambda>s. distinct (map fst (offers x opts w name ns s))) (hServers h)"
    and "HTTP_Query x h name ns w = (Inr rows, h', w')"
    and "items = (\<lambda>ver. concat (map (\<lambda>s. items_for (ext.truncate x) s (hArch h) (offers x opts w name ns s) ver) (hServers h)))"
  shows "\<exists>vers. sorted vers \<and> distinct vers \<and> set vers = {ver. items ver \<noteq> []} \<and>
    rows = concat (map (row_of name items makeRockURL) vers)"
proof -
  let ?m = "merge_servers x opts w (hArch h) name ns (hServers h) []"
  have d: "distinct (map fst (offers x opts w name ns s))" if "s \<in> set (hServers h)" for s
    using assms(4) that by (simp add: list_all_iff)
  have "no_empty ([] :: (string, merged_item list) gomap)" by (simp add: no_empty_def)
  then have ne: "no_empty ?m" and it: "(\<lambda>v. mget ?m v []) = items"
    using merge_servers_items[OF d, where m = "[]"] by (simp_all add: assms(6) mget_def)
  have "items ver \<noteq> [] \<longleftrightarrow> ver \<in> fst ` set ?m" for ver
    using ne dom_map_of_iff[of ?m ver] by (auto simp: it[symmetric] mget_def no_empty_def split: option.splits)
  then have "set (sorted_keys ?m) = {ver. items ver \<noteq> []}" by auto
  moreover have "distinct (sorted_keys ?m)" using ne by (simp add: no_empty_def)
  moreover have "rows = concat (map (row_of name items makeRockURL) (sorted_keys ?m))"
    using HTTP_Query_ok[OF assms(1-3,5)] merged_loop_rows[of name ?m makeRockURL "sorted_keys ?m" "[]" None]
    by (auto simp: http_answer_def rows_or_error_def mergedRocks_def it split: if_splits option.splits)
  ultimately show ?thesis by (intro exI[of _ "sorted_keys ?m"]) simp
qed

definition demo_index :: http_index where
  "demo_index = (opts_index demo_opts)\<lparr>hServers := [''http://s'', ''http://s/'']\<rparr>"

theorem HTTP_rows_witness:
  "(case HTTP_Query demo_ext demo_index ''a'' [] demo_net of
      (Inr rows, _) \<Rightarrow> map vrURL rows = [''http://s/a-1.0-1.all.rock'']
    | _ \<Rightarrow> False) \<and>
   (case HTTP_Query demo_ext demo_index ''a'' [] demo_net of
      (Inr rows, _) \<Rightarrow> \<exists>vers. distinct vers \<and> rows = concat (map (row_of ''a''
        (\<lambda>ver. concat (map (\<lambda>s. items_for (ext.truncate demo_ext) s (hArch demo_index)
          (offers demo_ext demo_opts demo_net ''a'' [] s) ver) (hServers demo_index))) makeRockURL) vers)
    | _ \<Rightarrow> False)"
proof
  show 1: "case HTTP_Query demo_ext demo_index ''a'' [] demo_net of
      (Inr rows, _) \<Rightarrow> map vrURL rows = [''http://s/a-1.0-1.all.rock'']
    | _ \<Rightarrow> False"
    by code_simp
  obtain r h' w' where q: "HTTP_Query demo_ext demo_index ''a'' [] demo_net = (r, h', w')"
    by (cases "HTTP_Query demo_ext demo_index ''a'' [] demo_net")
  then obtain rows where r: "r = Inr rows" using 1 by (cases r) auto
  have h: "http_ok demo_ext demo_opts demo_net demo_index"
  proof -
    have "LocalServerPath ''http://s'' = None" "LocalServerPath ''http://s/'' = None" by code_simp+
    then show ?thesis by (simp add: http_ok_def demo_index_def opts_index_def plain_server_def)
  qed
  have d: "list_all (\<lambda>s. distinct (map fst (offers demo_ext demo_opts demo_net ''a'' [] s))) (hServers demo_index)"
    by code_simp
  show "case HTTP_Query demo_ext demo_index ''a'' [] demo_net of
      (Inr rows, _) \<Rightarrow> \<exists>vers. distinct vers \<and> rows = concat (map (row_of ''a''
        (\<lambda>ver. concat (map (\<lambda>s. items_for (ext.truncate demo_ext) s (hArch demo_index)
          (offers demo_ext demo_opts demo_net ''a'' [] s) ver) (hServers demo_index))) makeRockURL) vers)
    | _ \<Rightarrow> False"
    using HTTP_rows[OF demo_still h d q[unfolded r] refl] q r by auto
qed

end
