(* ===== verification/Fetch.thy ===== *)
theory Fetch
  imports Archive RemoteIndex
begin

text \<open>
  Fetching sources and artifacts: \<open>src/fetch/dispatch.go\<close>, \<open>file.go\<close>, \<open>http.go\<close>, \<open>git.go\<close> and
  \<open>download.go\<close>, over the world of \<open>RemoteIndex\<close> (disk and network). The URL parser, the HTTP
  client and the clone of go-git are fields of \<open>fetchers\<close>; a clone returns what the code reads of
  the repository, the author time of its head in the layout the code asks for and the hash.
\<close>

record go_url =
  uScheme :: string
  uHost :: string
  uPath :: string
  uUser :: "string option"

datatype git_ref = TagRef string | BranchRef string

record clone_options =
  coURL :: string
  coDepth1 :: bool
  coReference :: "git_ref option"
  coSSHUser :: "string option"

record git_head =
  ghWhen :: string
  ghHash :: string

record 'w fetchers = unpackers +
  url_parse :: "string \<Rightarrow> string + go_url"
  http_fetch :: "bool \<Rightarrow> string \<Rightarrow> string \<Rightarrow> 'w \<Rightarrow> (string + nat \<times> entry_data) \<times> 'w"
  git_clone :: "clone_options \<Rightarrow> string \<Rightarrow> 'w net \<Rightarrow> (string + git_head option) \<times> 'w net"
  ctx_done :: "'w \<Rightarrow> string option"

record fetch_options =
  foInsecureServers :: "string list"
  foUserAgent :: string
  foTag :: string
  foBranch :: string
  foFile :: string
  foMD5 :: string
  foVersion :: string
  foIdentifierOut :: bool

text \<open>The identifier that is stored through the pointer \<open>IdentifierOut\<close> is part of the result.\<close>

record fetch_result =
  frPath :: string
  frSourceRoot :: bool
  frIdentifier :: "string option"

type_synonym ('w, 'a) net_io = "'w net \<Rightarrow> (fetch_error + 'a) \<times> 'w net"

definition on_disk :: "(fs \<Rightarrow> ('e + 'a) \<times> fs) \<Rightarrow> 'w net \<Rightarrow> ('e + 'a) \<times> 'w net" where
  "on_disk m w = (let (r, s) = m (disk w) in (r, w\<lparr>disk := s\<rparr>))"

definition check_ctx :: "'w fetchers \<Rightarrow> ('w, unit) net_io" where
  "check_ctx x = bind_io (get (\<lambda>w. ctx_done x (outside w))) (\<lambda>e. case e of
     Some e \<Rightarrow> fail_io (FetchCtx e) | None \<Rightarrow> ret ())"

text \<open>\<open>os.Stat\<close> of a path as it was given.\<close>

definition stat_path :: "fs \<Rightarrow> string \<Rightarrow> node option" where
  "stat_path s p = (if p = [] then None else os_stat s (path_clean p))"

section \<open>Schemes\<close>

definition rewriteGitHubGitURL :: "string \<Rightarrow> string" where
  "rewriteGitHubGitURL rawURL =
     (if has_prefix rawURL ''git://github.com/'' \<or> has_prefix rawURL ''git://www.github.com/''
      then ''git+https://'' @ trim_prefix rawURL ''git://'' else rawURL)"

definition schemeOf :: "'w fetchers \<Rightarrow> string \<Rightarrow> fetch_error + string" where
  "schemeOf x rawURL =
     (if rawURL = [] then Inl EmptyURL
      else case index_sub rawURL ''://'' of
        Some (Suc i) \<Rightarrow> Inr (to_lower (take (Suc i) rawURL))
      | _ \<Rightarrow> (case url_parse x rawURL of
          Inl e \<Rightarrow> Inl (ParseURL rawURL e)
        | Inr u \<Rightarrow> (if uScheme u = [] then Inl (NoScheme rawURL) else Inr (to_lower (uScheme u)))))"

datatype backend = HttpBackend | GitBackend | FileBackend

definition backends :: "(string, backend) gomap" where
  "backends = [(''http'', HttpBackend), (''https'', HttpBackend), (''git'', GitBackend),
     (''git+file'', GitBackend), (''git+http'', GitBackend), (''git+https'', GitBackend),
     (''git+ssh'', GitBackend), (''file'', FileBackend)]"

definition backendFor :: "string \<Rightarrow> fetch_error + backend" where
  "backendFor scheme = (case map_of backends scheme of
     Some b \<Rightarrow> Inr b | None \<Rightarrow> Inl (UnsupportedScheme scheme))"

section \<open>Local files\<close>

definition node_mode :: "node \<Rightarrow> int" where
  "node_mode n = (case n of NFile c m \<Rightarrow> m | NDir \<Rightarrow> 0)"

definition copyDir :: "'w fetchers \<Rightarrow> string \<Rightarrow> string \<Rightarrow> ('w, unit) net_io" where
  "copyDir x src dst = bind_io (get (\<lambda>w. walk_paths (disk w) src)) (\<lambda>paths.
     each_io (\<lambda>p _. bind_io (check_ctx x) (\<lambda>_.
       case path_rel src p of
         None \<Rightarrow> fail_io NoRelative
       | Some rel \<Rightarrow>
          (let target = path_join [dst, rel] in
           bind_io (get (\<lambda>w. os_stat (disk w) p)) (\<lambda>st. case st of
             None \<Rightarrow> fail_io (StatSource p)
           | Some NDir \<Rightarrow> on_disk (act FetchMkdir (os_mkdir_all target))
           | Some (NFile c m) \<Rightarrow> on_disk (copyOneFile p target m))))) paths ())"

definition file_Fetch :: "'w fetchers \<Rightarrow> string \<Rightarrow> string \<Rightarrow> fetch_options \<Rightarrow> ('w, fetch_result) net_io" where
  "file_Fetch x rawURL destDir opts =
     bind_io (check_ctx x) (\<lambda>_.
     let src = trim_prefix rawURL ''file://'' in
     bind_io (get (\<lambda>w. stat_path (disk w) src)) (\<lambda>st. case st of
       None \<Rightarrow> fail_io (StatSource src)
     | Some n \<Rightarrow>
        bind_io (on_disk (act FetchMkdir (os_mkdir_all destDir))) (\<lambda>_.
        case n of
          NFile c m \<Rightarrow>
            (let base = (if foFile opts = [] then path_base src else foFile opts);
                 dst = path_join [destDir, base] in
             bind_io (on_disk (copyOneFile (path_clean src) dst m)) (\<lambda>_.
             bind_io (on_disk (checkMD5 (unpackers.truncate x) dst (foMD5 opts))) (\<lambda>_.
             bind_io (on_disk (unpackArchive (unpackers.truncate x) dst destDir)) (\<lambda>_.
             ret \<lparr>frPath = destDir, frSourceRoot = False, frIdentifier = None\<rparr>))))
        | NDir \<Rightarrow>
            bind_io (copyDir x (path_clean src) destDir) (\<lambda>_.
            ret \<lparr>frPath = destDir, frSourceRoot = True, frIdentifier = None\<rparr>))))"

section \<open>HTTP\<close>

definition part_name :: "string \<Rightarrow> string" where
  "part_name dst = path_join [path_dir dst, ''.'' @ path_base dst @ ''.part'']"

definition drop_part :: "string \<Rightarrow> fs \<Rightarrow> fs" where
  "drop_part tmp s = snd (os_remove tmp s)"

definition save_part :: "string \<Rightarrow> string \<Rightarrow> entry_data \<Rightarrow> unit fetch_io" where
  "save_part tmp dst data =
     bind_io (act CreateTarget (os_create tmp 438)) (\<lambda>_ s.
       case os_append tmp s (fst data) of
         (Some e, s1) \<Rightarrow> (Inl (CopyData e), drop_part tmp (snd (os_close s1)))
       | (None, s1) \<Rightarrow> (case snd data of
           Some e \<Rightarrow> (Inl (CopyData e), drop_part tmp (snd (os_close s1)))
         | None \<Rightarrow> (case os_close s1 of
             (Some e, s2) \<Rightarrow> (Inl (CloseTarget e), drop_part tmp s2)
           | (None, s2) \<Rightarrow> (case os_rename tmp dst s2 of
               (Some e, s3) \<Rightarrow> (Inl (RenamePart e), drop_part tmp s3)
             | (None, s3) \<Rightarrow> (Inr (), s3)))))"

definition httpDownload :: "'w fetchers \<Rightarrow> string \<Rightarrow> string \<Rightarrow> fetch_options \<Rightarrow> ('w, unit) net_io" where
  "httpDownload x rawURL dst opts w = (case url_parse x rawURL of
     Inl e \<Rightarrow> (Inl (ParseURL rawURL e), w)
   | Inr u \<Rightarrow>
      (let ua = (if foUserAgent opts = [] then ''go-luarocks/0.1'' else foUserAgent opts);
           (answer, o') = http_fetch x (transport_For (uHost u) (foInsecureServers opts)) ua rawURL (outside w);
           w' = w\<lparr>outside := o'\<rparr>
       in case answer of
            Inl e \<Rightarrow> (Inl (GetFailed rawURL e), w')
          | Inr (status, body) \<Rightarrow>
             (if 400 \<le> status then (Inl (BadStatus rawURL status), w')
              else on_disk (save_part (part_name dst) dst body) w')))"

definition http_file_name :: "fetch_options \<Rightarrow> go_url \<Rightarrow> string" where
  "http_file_name opts u =
     (let base = (if foFile opts = [] then path_base (uPath u) else foFile opts)
      in if base = [] \<or> base = ''/'' \<or> base = ''.'' then ''download'' else base)"

definition http_Fetch :: "'w fetchers \<Rightarrow> string \<Rightarrow> string \<Rightarrow> fetch_options \<Rightarrow> ('w, fetch_result) net_io" where
  "http_Fetch x rawURL destDir opts = (case url_parse x rawURL of
     Inl e \<Rightarrow> fail_io (ParseURL rawURL e)
   | Inr u \<Rightarrow>
      bind_io (on_disk (act FetchMkdir (os_mkdir_all destDir))) (\<lambda>_.
      let dst = path_join [destDir, http_file_name opts u]
      in bind_io (httpDownload x rawURL dst opts) (\<lambda>_.
         bind_io (on_disk (checkMD5 (unpackers.truncate x) dst (foMD5 opts))) (\<lambda>_.
         bind_io (on_disk (unpackArchive (unpackers.truncate x) dst destDir)) (\<lambda>_.
         ret \<lparr>frPath = destDir, frSourceRoot = False, frIdentifier = None\<rparr>)))))"

section \<open>Git\<close>

text \<open>\<open>^ssh://[^/]+:\D\<close> and \<open>^(scm|dev)-\d+$\<close>.\<close>

definition scpStyleRe :: "string \<Rightarrow> bool" where
  "scpStyleRe s \<longleftrightarrow> has_prefix s ''ssh://'' \<and>
     (let r = drop 6 s in list_ex (\<lambda>i. r ! i = CHR '':'' \<and> CHR ''/'' \<notin> set (take i r) \<and>
        i + 1 < length r \<and> \<not> is_digit (r ! (i + 1))) [1..<length r])"

definition scmDevRe :: "string \<Rightarrow> bool" where
  "scmDevRe s \<longleftrightarrow> (has_prefix s ''scm-'' \<or> has_prefix s ''dev-'') \<and>
     drop 4 s \<noteq> [] \<and> list_all is_digit (drop 4 s)"

definition gitIdentifier :: "git_head option \<Rightarrow> string option" where
  "gitIdentifier head = (case head of None \<Rightarrow> None | Some h \<Rightarrow> Some (ghWhen h @ take 7 (ghHash h)))"

definition stripSCPScheme :: "string \<Rightarrow> string" where
  "stripSCPScheme cloneURL = (if scpStyleRe cloneURL then trim_prefix cloneURL ''ssh://'' else cloneURL)"

definition refName :: "fetch_options \<Rightarrow> git_ref" where
  "refName opts = (if foTag opts \<noteq> [] then TagRef (foTag opts) else BranchRef (foBranch opts))"

definition sshUser :: "'w fetchers \<Rightarrow> string \<Rightarrow> string" where
  "sshUser x cloneURL = (case url_parse x cloneURL of
     Inr u \<Rightarrow> (case uUser u of Some n \<Rightarrow> (if n \<noteq> [] then n else ''git'') | None \<Rightarrow> ''git'')
   | Inl e \<Rightarrow> ''git'')"

definition stripGitPlus :: "string \<Rightarrow> string" where
  "stripGitPlus rawURL = (if has_prefix rawURL ''git+'' then drop 4 rawURL else rawURL)"

definition shallowScheme :: "string \<Rightarrow> bool" where
  "shallowScheme scheme \<longleftrightarrow> scheme = ''git'' \<or> scheme = ''git+file''"

definition refOpt :: "fetch_options \<Rightarrow> string" where
  "refOpt opts =
     (let v = (if foTag opts \<noteq> [] then foTag opts else foBranch opts) in if v = ''master'' then [] else v)"

definition repo_name_of_path :: "'w fetchers \<Rightarrow> string \<Rightarrow> string option" where
  "repo_name_of_path x rawURL = (case url_parse x rawURL of
     Inr u \<Rightarrow> (if uPath u = [] then None
       else let base = trim_suffix (path_base (uPath u)) ''.git'' in
            if base \<noteq> [] \<and> base \<noteq> ''/'' \<and> base \<noteq> ''.'' then Some base else None)
   | Inl e \<Rightarrow> None)"

definition repoNameFromURL :: "'w fetchers \<Rightarrow> string \<Rightarrow> string" where
  "repoNameFromURL x rawURL = (case repo_name_of_path x rawURL of
     Some base \<Rightarrow> base
   | None \<Rightarrow> (case last_index rawURL (CHR ''/'') of
       None \<Rightarrow> ''repo''
     | Some i \<Rightarrow> (if i + 1 < length rawURL
         then let base = trim_suffix (drop (i + 1) rawURL) ''.git'' in if base \<noteq> [] then base else ''repo''
         else ''repo'')))"

text \<open>\<open>os.Remove\<close> whose \<open>ErrNotExist\<close> is passed over.\<close>

definition remove_if_there :: "string \<Rightarrow> fs \<Rightarrow> string option \<times> fs" where
  "remove_if_there p s = (let (e, s') = os_remove p s in (if e = Some ''no such file'' then None else e, s'))"

definition git_Fetch :: "'w fetchers \<Rightarrow> string \<Rightarrow> string \<Rightarrow> fetch_options \<Rightarrow> ('w, fetch_result) net_io" where
  "git_Fetch x rawURL destDir opts = (case schemeOf x rawURL of
     Inl e \<Rightarrow> fail_io e
   | Inr scheme \<Rightarrow>
      bind_io (on_disk (act FetchMkdir (os_mkdir_all destDir))) (\<lambda>_.
      let cloneURL = (if scheme = ''git+ssh'' then stripSCPScheme (stripGitPlus rawURL) else stripGitPlus rawURL);
          repoDir = path_join [destDir, repoNameFromURL x cloneURL];
          co = \<lparr>coURL = cloneURL, coDepth1 = shallowScheme scheme,
                coReference = (if refOpt opts \<noteq> [] then Some (refName opts) else None),
                coSSHUser = (if scheme = ''git+ssh'' then Some (sshUser x cloneURL) else None)\<rparr>
      in bind_io (\<lambda>w. let (r, w') = git_clone x co repoDir w in
             (case r of Inl e \<Rightarrow> Inl (CloneFailed cloneURL e) | Inr h \<Rightarrow> Inr h, w')) (\<lambda>head.
         let ident = (if foIdentifierOut opts \<and> foTag opts = [] \<and> scmDevRe (foVersion opts)
                      then gitIdentifier head else None) in
         bind_io (on_disk (act StripGit (os_remove_all (path_join [repoDir, ''.git''])))) (\<lambda>_.
         bind_io (on_disk (act StripGit (remove_if_there (path_join [repoDir, ''.gitignore''])))) (\<lambda>_.
         ret \<lparr>frPath = repoDir, frSourceRoot = True, frIdentifier = ident\<rparr>)))))"

section \<open>The entry points\<close>

definition Sources :: "'w fetchers \<Rightarrow> string \<Rightarrow> string \<Rightarrow> fetch_options \<Rightarrow> ('w, fetch_result) net_io" where
  "Sources x rawURL0 destDir opts =
     (if rawURL0 = [] then fail_io EmptyURL
      else let rawURL = rewriteGitHubGitURL rawURL0 in
        if \<not> contains_sub rawURL ''://'' then file_Fetch x rawURL destDir opts
        else case schemeOf x rawURL of
          Inl e \<Rightarrow> fail_io e
        | Inr scheme \<Rightarrow> (case backendFor scheme of
            Inl e \<Rightarrow> fail_io e
          | Inr HttpBackend \<Rightarrow> http_Fetch x rawURL destDir opts
          | Inr GitBackend \<Rightarrow> git_Fetch x rawURL destDir opts
          | Inr FileBackend \<Rightarrow> file_Fetch x rawURL destDir opts))"

definition FetchWith :: "'w fetchers \<Rightarrow> string \<Rightarrow> string \<Rightarrow> fetch_options \<Rightarrow> ('w, string) net_io" where
  "FetchWith x rawURL destDir opts = bind_io (Sources x rawURL destDir opts) (\<lambda>res. ret (frPath res))"

definition no_options :: fetch_options where
  "no_options = \<lparr>foInsecureServers = [], foUserAgent = [], foTag = [], foBranch = [], foFile = [], foMD5 = [],
     foVersion = [], foIdentifierOut = False\<rparr>"

definition Fetch :: "'w fetchers \<Rightarrow> string \<Rightarrow> string \<Rightarrow> ('w, string) net_io" where
  "Fetch x rawURL destDir = FetchWith x rawURL destDir no_options"

definition copyFileInto :: "string \<Rightarrow> string \<Rightarrow> string fetch_io" where
  "copyFileInto src destDir =
     bind_io (get (\<lambda>s. stat_path s src)) (\<lambda>st. case st of
       None \<Rightarrow> fail_io (StatSource src)
     | Some NDir \<Rightarrow> fail_io (SourceIsDirectory src)
     | Some (NFile c m) \<Rightarrow>
        (let dst = path_join [destDir, path_base src] in
         bind_io (get (\<lambda>s. os_stat s dst)) (\<lambda>d.
         if d \<noteq> None \<and> path_clean src = dst then fail_io (SameFile dst)
         else bind_io (copyOneFile (path_clean src) dst m) (\<lambda>_. ret dst))))"

definition downloadFileInto :: "'w fetchers \<Rightarrow> string \<Rightarrow> string \<Rightarrow> fetch_options \<Rightarrow> ('w, string) net_io" where
  "downloadFileInto x rawURL destDir opts = (case url_parse x rawURL of
     Inl e \<Rightarrow> fail_io (ParseURL rawURL e)
   | Inr u \<Rightarrow>
      (let base = path_base (uPath u); dst = path_join [destDir, base] in
       if base = [] \<or> base = ''/'' \<or> base = ''.'' then fail_io (NamesNoFile rawURL)
       else bind_io (httpDownload x rawURL dst opts) (\<lambda>_. ret dst)))"

definition File :: "'w fetchers \<Rightarrow> string \<Rightarrow> string \<Rightarrow> fetch_options \<Rightarrow> ('w, string) net_io" where
  "File x rawURL destDir opts =
     (if rawURL = [] then fail_io EmptyURL
      else if destDir = [] then fail_io EmptyDestination
      else bind_io (check_ctx x) (\<lambda>_.
           bind_io (on_disk (act FetchMkdir (os_mkdir_all destDir))) (\<lambda>_.
           if \<not> contains_sub rawURL ''://'' then on_disk (copyFileInto rawURL destDir)
           else case schemeOf x rawURL of
             Inl e \<Rightarrow> fail_io e
           | Inr scheme \<Rightarrow>
              (if scheme = ''file'' then on_disk (copyFileInto (fst (snd (cut rawURL ''://''))) destDir)
               else if scheme = ''http'' \<or> scheme = ''https'' then downloadFileInto x rawURL destDir opts
               else fail_io (UnsupportedScheme scheme)))))"

section \<open>A download is there or is not\<close>

lemma path_base_mk:
  assumes "cs \<noteq> []" "comp c"
  shows "path_base (mk_path r (cs @ [c])) = c"
proof -
  have e: "mk_path r (cs @ [c]) = mk_path r cs @ CHR ''/'' # c" using assms(1) by (simp add: mk_path_append)
  have c: "c \<noteq> []" "CHR ''/'' \<notin> set c" using assms(2) by (simp_all add: comp_def)
  then have "trim_right_char (mk_path r cs @ CHR ''/'' # c) (CHR ''/'') = mk_path r cs @ CHR ''/'' # c"
    by (cases c rule: rev_cases) (auto simp: trim_right_char_def)
  then show ?thesis using c by (simp add: path_base_def e last_index_last Let_def)
qed

lemma part_name_mk:
  assumes "cs \<noteq> []" "list_all comp cs" "comp c"
  shows "part_name (mk_path r (cs @ [c])) = mk_path r (cs @ [''.'' @ c @ ''.part''])"
    and "part_name (mk_path r (cs @ [c])) \<noteq> mk_path r (cs @ [c])"
proof -
  have p: "comp (''.'' @ c @ ''.part'')" using assms(3) by (auto simp: comp_def)
  show e: "part_name (mk_path r (cs @ [c])) = mk_path r (cs @ [''.'' @ c @ ''.part''])"
    using path_join_comp[of cs "[''.'' @ c @ ''.part'']" r] assms p
    by (simp add: part_name_def path_dir_mk path_base_mk)
  have "length (''.'' @ c @ ''.part'') \<noteq> length c" by simp
  then have "''.'' @ c @ ''.part'' \<noteq> c" by metis
  then show "part_name (mk_path r (cs @ [c])) \<noteq> mk_path r (cs @ [c])"
    using mk_path_inj[of "cs @ [''.'' @ c @ ''.part'']" "cs @ [c]" r r] assms p unfolding e by auto
qed

lemma drop_part_files: "p \<noteq> tmp \<Longrightarrow> file_at (drop_part tmp s) p = file_at s p"
  using os_remove_files[of tmp s] by (cases "os_remove tmp s") (auto simp: drop_part_def)

lemma save_part_spec:
  assumes "save_part tmp dst data s = (r, s')" and "tmp \<noteq> dst"
  shows "p \<noteq> tmp \<Longrightarrow> p \<noteq> dst \<or> isl r \<Longrightarrow> file_at s' p = file_at s p"
    and "r = Inr u \<Longrightarrow> file_at s' dst = Some (fst data) \<and> snd data = None \<and> file_at s' tmp = None"
proof -
  obtain e1 s1 where c: "os_create tmp 438 s = (e1, s1)" by (cases "os_create tmp 438 s")
  obtain e2 s2 where a: "os_append tmp s1 (fst data) = (e2, s2)" by (cases "os_append tmp s1 (fst data)")
  obtain e3 s3 where cl: "os_close s2 = (e3, s3)" by (cases "os_close s2")
  obtain e4 s4 where rn: "os_rename tmp dst s3 = (e4, s4)" by (cases "os_rename tmp dst s3")
  note f1 = os_create_files[OF c] and f2 = os_append_files[OF a] and f3 = os_close_files[OF cl] and f4 = os_rename_files[OF rn]
  have r: "(r, s') = (case e1 of Some e \<Rightarrow> (Inl (CreateTarget e), s1) | None \<Rightarrow>
      (case e2 of Some e \<Rightarrow> (Inl (CopyData e), drop_part tmp s3) | None \<Rightarrow>
      (case snd data of Some e \<Rightarrow> (Inl (CopyData e), drop_part tmp s3) | None \<Rightarrow>
      (case e3 of Some e \<Rightarrow> (Inl (CloseTarget e), drop_part tmp s3) | None \<Rightarrow>
      (case e4 of Some e \<Rightarrow> (Inl (RenamePart e), drop_part tmp s4) | None \<Rightarrow> (Inr (), s4))))))"
    using assms(1) c a cl rn
    by (auto simp: save_part_def bind_io_def act_def split: option.splits)
  show "file_at s' p = file_at s p" if "p \<noteq> tmp" "p \<noteq> dst \<or> isl r"
    using r that f1[of p] f2[of p] f3[of p] f4[of p] drop_part_files[OF that(1)]
    by (auto split: option.splits if_splits)
  show "file_at s' dst = Some (fst data) \<and> snd data = None \<and> file_at s' tmp = None" if "r = Inr u"
  proof -
    have n: "e1 = None" "e2 = None" "snd data = None" "e3 = None" "e4 = None" "s' = s4"
      using r that by (auto split: option.splits)
    have "file_at s3 tmp = Some (fst data)"
      using os_append_None[of tmp s1 "fst data" s2] a f1[of tmp] f3[of tmp] n by simp
    then show ?thesis using f4[of dst] f4[of tmp] n assms(2) by simp
  qed
qed

text \<open>What the server answers to the request that a download makes.\<close>

definition served :: "'w fetchers \<Rightarrow> go_url \<Rightarrow> string \<Rightarrow> fetch_options \<Rightarrow> 'w net \<Rightarrow> string + nat \<times> entry_data" where
  "served x u rawURL opts w = fst (http_fetch x (transport_For (uHost u) (foInsecureServers opts))
     (if foUserAgent opts = [] then ''go-luarocks/0.1'' else foUserAgent opts) rawURL (outside w))"

lemma httpDownload_outcome:
  assumes "httpDownload x rawURL dst opts w = (r, w')"
    and "dst = mk_path b (cs @ [c])" and "cs \<noteq> []" "list_all comp cs" "comp c"
  shows "(\<forall>p. p \<noteq> part_name dst \<and> (p \<noteq> dst \<or> isl r) \<longrightarrow> file_at (disk w') p = file_at (disk w) p) \<and>
    (r = Inr () \<longrightarrow> file_at (disk w') (part_name dst) = None \<and>
      (\<exists>u status body. url_parse x rawURL = Inr u \<and> served x u rawURL opts w = Inr (status, body, None) \<and>
        status < 400 \<and> file_at (disk w') dst = Some body))"
proof -
  have ne: "part_name dst \<noteq> dst" using part_name_mk(2)[OF assms(3-5)] assms(2) by simp
  show ?thesis
  proof (cases "url_parse x rawURL")
    case (Inl e)
    then show ?thesis using assms(1) by (auto simp: httpDownload_def)
  next
    case (Inr u)
    let ?host = "transport_For (uHost u) (foInsecureServers opts)"
    let ?ua = "if foUserAgent opts = [] then ''go-luarocks/0.1'' else foUserAgent opts"
    obtain a o' where f: "http_fetch x ?host ?ua rawURL (outside w) = (a, o')"
      by (cases "http_fetch x ?host ?ua rawURL (outside w)")
    show ?thesis
    proof (cases "\<exists>status body. a = Inr (status, body) \<and> status < 400")
      case False
      then have "isl r \<and> disk w' = disk w"
        using assms(1) Inr f by (cases a) (auto simp: httpDownload_def Let_def split: prod.splits)
      then show ?thesis by auto
    next
      case True
      then obtain status body where ok: "a = Inr (status, body)" "status < 400" by blast
      obtain s' where sp: "save_part (part_name dst) dst body (disk w) = (r, s')" and w': "w' = w\<lparr>outside := o', disk := s'\<rparr>"
        using assms(1) Inr f ok by (auto simp: httpDownload_def on_disk_def Let_def split: prod.splits)
      note spec = save_part_spec[OF sp ne]
      have "\<exists>status body. served x u rawURL opts w = Inr (status, body, None) \<and>
          status < 400 \<and> file_at (disk w') dst = Some body" if "r = Inr ()"
        using spec(2)[OF that] f ok w' by (cases body) (auto simp: served_def)
      then show ?thesis using spec w' Inr by auto
    qed
  qed
qed

text \<open>
  C22: A download ends with the complete body under its name or leaves that name as it was: under
  every pattern of disk errors and whatever the network does, a failure changes no file but the
  part file beside the target, and a success changes no other and leaves no part file.
\<close>

theorem httpDownload_atomic:
  assumes "httpDownload x rawURL dst opts w = (r, w')"
    and "dst = mk_path b (cs @ [c])" and "cs \<noteq> []" "list_all comp cs" "comp c"
  shows "(\<forall>p. p \<noteq> part_name dst \<and> (p \<noteq> dst \<or> isl r) \<longrightarrow> file_at (disk w') p = file_at (disk w) p) \<and>
    (r = Inr () \<longrightarrow> file_at (disk w') (part_name dst) = None \<and>
      (\<exists>insecure ua status body. fst (http_fetch x insecure ua rawURL (outside w)) = Inr (status, body, None) \<and>
        status < 400 \<and> file_at (disk w') dst = Some body))"
  using httpDownload_outcome[OF assms] unfolding served_def by blast

text \<open>A network that serves one body, and a disk with one directory.\<close>

definition demo_fetchers :: "unit fetchers" where
  "demo_fetchers = unpackers.extend demo_unpackers
     \<lparr>url_parse = (\<lambda>u. Inr \<lparr>uScheme = ''http'', uHost = ''s'', uPath = ''/f.txt'', uUser = None\<rparr>),
      http_fetch = (\<lambda>i ua u w. (Inr (200, ''body'', None), w)),
      git_clone = (\<lambda>co dir w. (Inl ''git'', w)), ctx_done = (\<lambda>w. None)\<rparr>"

definition demo_world :: "unit net" where
  "demo_world = \<lparr>disk = demo_files, manifests = [], outside = ()\<rparr>"

lemma demo_dst: "''/d/f.txt'' = mk_path True ([''d''] @ [''f.txt''])" "list_all comp [''d'']" "comp ''f.txt''"
  by code_simp+

theorem httpDownload_atomic_witness:
  "(case httpDownload demo_fetchers ''http://s/f.txt'' ''/d/f.txt'' no_options demo_world of
      (r, w) \<Rightarrow> r = Inr () \<and> file_at (disk w) ''/d/f.txt'' = Some ''body'') \<and>
   file_at (disk (snd (httpDownload demo_fetchers ''http://s/f.txt'' ''/d/f.txt'' no_options demo_world))) ''/b'' = Some ''old''"
proof
  show "case httpDownload demo_fetchers ''http://s/f.txt'' ''/d/f.txt'' no_options demo_world of
      (r, w) \<Rightarrow> r = Inr () \<and> file_at (disk w) ''/d/f.txt'' = Some ''body''"
    by code_simp
  have "''/b'' \<noteq> part_name ''/d/f.txt''" "file_at (disk demo_world) ''/b'' = Some ''old''" by code_simp+
  then show "file_at (disk (snd (httpDownload demo_fetchers ''http://s/f.txt'' ''/d/f.txt'' no_options demo_world))) ''/b'' = Some ''old''"
    using httpDownload_atomic[OF prod.collapse[symmetric] demo_dst(1) _ demo_dst(2,3), of demo_fetchers "''http://s/f.txt''" no_options demo_world]
    by simp
qed

text \<open>
  C36: When the server answers with a complete body and the disk works, a download into an existing
  directory succeeds.
\<close>

theorem httpDownload_succeeds:
  assumes "url_parse x rawURL = Inr u"
    and "\<forall>insecure ua. fst (http_fetch x insecure ua rawURL (outside w)) = Inr (status, body, None)" and "status < 400"
    and "\<forall>n. faults (disk w) n = None"
    and "dst = mk_path b (cs @ [c])" and "cs \<noteq> []" "list_all comp cs" "comp c"
    and "is_dir (disk w) (mk_path b cs)" and "map_of (nodes (disk w)) dst \<noteq> Some NDir"
    and "map_of (nodes (disk w)) (part_name dst) \<noteq> Some NDir"
  shows "\<exists>w'. httpDownload x rawURL dst opts w = (Inr (), w') \<and> file_at (disk w') dst = Some body"
proof -
  let ?s = "disk w" and ?tmp = "part_name dst"
  have pc: "comp (''.'' @ c @ ''.part'')" using assms(8) by (auto simp: comp_def)
  have tmp: "?tmp = mk_path b (cs @ [''.'' @ c @ ''.part''])" and ne: "?tmp \<noteq> dst"
    using part_name_mk[OF assms(6-8)] assms(5) by simp_all
  have dir: "path_dir ?tmp = mk_path b cs" using path_dir_mk[OF assms(6,7) pc] tmp by simp
  define m where "m = (case map_of (nodes ?s) ?tmp of Some (NFile c m) \<Rightarrow> m | _ \<Rightarrow> 438)"
  let ?s1 = "?s\<lparr>ticks := ticks ?s + 1, nodes := mput ?tmp (NFile [] m) (nodes ?s)\<rparr>"
  have t: "tick s = (None, s\<lparr>ticks := ticks s + 1\<rparr>)" if "faults s = faults ?s" for s
    using that assms(4) by (simp add: tick_def)
  have c1: "os_create ?tmp 438 ?s = (None, ?s1)"
    using assms(9,11) dir by (simp add: os_create_def t is_dir_def m_def)
  let ?s2 = "?s1\<lparr>ticks := ticks ?s1 + 1, nodes := mput ?tmp (NFile body m) (nodes ?s1)\<rparr>"
  have c2: "os_append ?tmp ?s1 body = (None, ?s2)"
    by (simp add: os_append_def t map_of_mput)
  have c3: "os_close ?s2 = (None, ?s2\<lparr>ticks := ticks ?s2 + 1\<rparr>)" by (simp add: os_close_def t)
  obtain s4 where c4: "os_rename ?tmp dst (?s2\<lparr>ticks := ticks ?s2 + 1\<rparr>) = (None, s4)"
    using ne assms(10) by (simp add: os_rename_def t map_of_mput)
  have sp: "save_part ?tmp dst (body, None) ?s = (Inr (), s4)"
    unfolding save_part_def bind_io_def act_def c1 by (simp only: c2 c3 c4 prod.case option.case fst_conv snd_conv sum.case)
  obtain o' where "http_fetch x (transport_For (uHost u) (foInsecureServers opts))
      (if foUserAgent opts = [] then ''go-luarocks/0.1'' else foUserAgent opts) rawURL (outside w) = (Inr (status, body, None), o')"
    using assms(2) by (metis prod.collapse)
  then have "httpDownload x rawURL dst opts w = (Inr (), w\<lparr>outside := o', disk := s4\<rparr>)"
    using assms(1,3) sp by (simp add: httpDownload_def on_disk_def Let_def)
  then show ?thesis using save_part_spec(2)[OF sp ne] by simp
qed

theorem httpDownload_succeeds_witness:
  "\<exists>w'. httpDownload demo_fetchers ''http://s/f.txt'' ''/d/f.txt'' no_options demo_world = (Inr (), w') \<and>
     file_at (disk w') ''/d/f.txt'' = Some ''body''"
proof (rule httpDownload_succeeds[OF _ _ _ _ demo_dst(1) _ demo_dst(2,3)])
  show "url_parse demo_fetchers ''http://s/f.txt'' = Inr \<lparr>uScheme = ''http'', uHost = ''s'', uPath = ''/f.txt'', uUser = None\<rparr>"
    "\<forall>insecure ua. fst (http_fetch demo_fetchers insecure ua ''http://s/f.txt'' (outside demo_world)) = Inr (200, ''body'', None)"
    "\<forall>n. faults (disk demo_world) n = None"
    by (simp_all add: demo_fetchers_def unpackers.extend_def demo_world_def demo_files_def)
  show "is_dir (disk demo_world) (mk_path True [''d''])" by code_simp
  show "map_of (nodes (disk demo_world)) ''/d/f.txt'' \<noteq> Some NDir" by code_simp
  show "map_of (nodes (disk demo_world)) (part_name ''/d/f.txt'') \<noteq> Some NDir" by code_simp
qed simp_all

section \<open>Verified sources\<close>

lemma checkMD5_ok: "checkMD5 u p want s = (Inr y, s') \<Longrightarrow> want \<noteq> [] \<Longrightarrow>
    s' = s \<and> (\<exists>c. file_at s p = Some c \<and> has_prefix (md5_hex u c) (to_lower want))"
  by (auto simp: checkMD5_def io_eqs os_read_def file_at_def split: if_splits sum.splits option.splits node.splits)

lemma checkMD5_reads: "snd (checkMD5 u p want s) = s"
  by (auto simp: checkMD5_def bind_io_def get_def ret_def fail_io_def split: sum.split)

lemma on_disk_eq: "on_disk m w = (r, w') \<longleftrightarrow> (\<exists>s. m (disk w) = (r, s) \<and> w' = w\<lparr>disk := s\<rparr>)"
  by (auto simp: on_disk_def Let_def split: prod.splits)

text \<open>
  C23: Sources that come over HTTP with a checksum in the rockspec are unpacked only after it was
  verified. On every outcome, failures included, either the body the server sent to this very request has the checksum (up to
  the length and case the rockspec gives it in), or the fetch fails and has changed no file but the
  downloaded one and its part file.
\<close>

theorem http_Fetch_verified:
  assumes "http_Fetch x rawURL destDir opts w = (r, w')" and "foMD5 opts \<noteq> []"
    and "url_parse x rawURL = Inr u" and "destDir = mk_path b cs" and "cs \<noteq> []" "list_all comp cs"
    and "comp (http_file_name opts u)" and "dst = path_join [destDir, http_file_name opts u]"
  shows "(\<exists>status body. served x u rawURL opts w = Inr (status, body, None) \<and>
      has_prefix (md5_hex x body) (to_lower (foMD5 opts))) \<or>
    isl r \<and> (\<forall>p. p \<noteq> dst \<and> p \<noteq> part_name dst \<longrightarrow> file_at (disk w') p = file_at (disk w) p)"
proof -
  have dst: "dst = mk_path b (cs @ [http_file_name opts u])"
    using path_join_comp[of cs "[http_file_name opts u]" b] assms(4-8) by simp
  obtain r1 w1 where m: "on_disk (act FetchMkdir (os_mkdir_all destDir)) w = (r1, w1)"
    by (cases "on_disk (act FetchMkdir (os_mkdir_all destDir)) w")
  have f1: "file_at (disk w1) p = file_at (disk w) p" and o1: "outside w1 = outside w" for p
    using m by (auto simp: on_disk_eq dest: act_files[where P = "\<lambda>t. file_at t p = file_at (disk w) p"] os_mkdir_all_files)
  obtain r2 w2 where d: "httpDownload x rawURL dst opts w1 = (r2, w2)" by (cases "httpDownload x rawURL dst opts w1")
  note down = httpDownload_outcome[OF d dst assms(5-7)]
  obtain r3 w3 where c: "on_disk (checkMD5 (unpackers.truncate x) dst (foMD5 opts)) w2 = (r3, w3)"
    by (cases "on_disk (checkMD5 (unpackers.truncate x) dst (foMD5 opts)) w2")
  have run: "(r, w') = (case r1 of Inl e \<Rightarrow> (Inl e, w1) | Inr _ \<Rightarrow> (case r2 of Inl e \<Rightarrow> (Inl e, w2) | Inr _ \<Rightarrow>
      (case r3 of Inl e \<Rightarrow> (Inl e, w3) | Inr _ \<Rightarrow> (r, w'))))"
    using assms(1,3,8) m d c by (auto simp: http_Fetch_def bind_io_def Let_def split: sum.splits)
  show ?thesis
  proof (cases "\<exists>u1 u2 u3. r1 = Inr u1 \<and> r2 = Inr u2 \<and> r3 = Inr u3")
    case True
    obtain status body where f: "served x u rawURL opts w1 = Inr (status, body, None)"
      "file_at (disk w2) dst = Some body"
      using down True assms(3) by auto
    obtain s3 where "checkMD5 (unpackers.truncate x) dst (foMD5 opts) (disk w2) = (Inr (), s3)"
      using c True by (auto simp: on_disk_eq)
    from checkMD5_ok[OF this assms(2)] f(2) have "has_prefix (md5_hex x body) (to_lower (foMD5 opts))"
      by (simp add: unpackers.truncate_def)
    then show ?thesis using f(1) o1 by (auto simp: served_def)
  next
    case False
    have "disk w3 = disk w2" using c checkMD5_reads[of "unpackers.truncate x" dst "foMD5 opts" "disk w2"] by (auto simp: on_disk_eq)
    then have "isl r \<and> (w' = w1 \<or> disk w' = disk w2)" using False run by (auto split: sum.splits)
    then show ?thesis using f1 down by auto
  qed
qed

theorem http_Fetch_verified_witness:
  "(\<exists>u status body. served demo_fetchers u ''http://s/f.txt'' (no_options\<lparr>foMD5 := ''BOD''\<rparr>) demo_world = Inr (status, body, None) \<and>
      has_prefix (md5_hex demo_fetchers body) (to_lower ''BOD'')) \<and>
   fst (http_Fetch demo_fetchers ''http://s/f.txt'' ''/d'' (no_options\<lparr>foMD5 := ''x''\<rparr>) demo_world) = Inl (MD5Mismatch ''f.txt'')"
proof
  let ?o = "no_options\<lparr>foMD5 := ''BOD''\<rparr>"
  obtain r w' where r: "http_Fetch demo_fetchers ''http://s/f.txt'' ''/d'' ?o demo_world = (r, w')"
    by (cases "http_Fetch demo_fetchers ''http://s/f.txt'' ''/d'' ?o demo_world")
  have "\<not> isl (fst (http_Fetch demo_fetchers ''http://s/f.txt'' ''/d'' ?o demo_world))" by code_simp
  then have ok: "\<not> isl r" using r by simp
  have u: "url_parse demo_fetchers ''http://s/f.txt'' = Inr \<lparr>uScheme = ''http'', uHost = ''s'', uPath = ''/f.txt'', uUser = None\<rparr>"
    by code_simp
  have d: "''/d'' = mk_path True [''d'']" and c: "comp (http_file_name ?o \<lparr>uScheme = ''http'', uHost = ''s'', uPath = ''/f.txt'', uUser = None\<rparr>)"
    by code_simp+
  show "\<exists>u status body. served demo_fetchers u ''http://s/f.txt'' ?o demo_world = Inr (status, body, None) \<and>
      has_prefix (md5_hex demo_fetchers body) (to_lower ''BOD'')"
    using http_Fetch_verified[OF r _ u d _ demo_dst(2) c refl] ok by fastforce
  show "fst (http_Fetch demo_fetchers ''http://s/f.txt'' ''/d'' (no_options\<lparr>foMD5 := ''x''\<rparr>) demo_world) = Inl (MD5Mismatch ''f.txt'')"
    by code_simp
qed

text \<open>
  The name a rockspec gives its source file is joined to the directory without the test that
  archive entries get: a \<open>source.file\<close> that climbs out overwrites a file outside.
\<close>

theorem source_file_escapes:
  "(case http_Fetch demo_fetchers ''http://s/f.txt'' ''/d'' (no_options\<lparr>foFile := ''../b''\<rparr>) demo_world of
      (r, w) \<Rightarrow> \<not> isl r \<and> file_at (disk demo_world) ''/b'' = Some ''old'' \<and> file_at (disk w) ''/b'' = Some ''body'')"
  by code_simp

end
