(* ===== verification/Build.thy ===== *)
theory Build
  imports Fetch TreePaths
begin

text \<open>
  Building a rock: \<open>src/build\<close> and the configuration of \<open>src/config.go\<close>. The host the builder runs
  on is a record: the environment, the operating system name and the processes it starts. A
  process may do anything to the world; it returns nothing, or an error and what it wrote to its
  standard error. Everything the package does to the disk itself is over the file system with
  faults.
\<close>

record tarantool_config =
  ttExecutable :: string
  ttPrefix :: string
  ttIncludeDir :: string
  ttVersion :: string

record config =
  cfgTree :: string
  cfgWorkingDir :: string
  cfgTarantool :: tarantool_config
  cfgServers :: "string list"
  cfgInsecureServers :: "string list"

record 'w host =
  getenv :: "string \<Rightarrow> string"
  environ :: "string list"
  goos :: string
  run_process :: "string \<Rightarrow> string list \<Rightarrow> string \<Rightarrow> string list \<Rightarrow> 'w net \<Rightarrow> (string \<times> string) option \<times> 'w net"

datatype build_error =
    UnsupportedType string
  | MissingHeaders string
  | EmptyEntry string
  | RunFailed string "string list" string string
  | BuildMkdir string
  | BuildOpen string
  | BuildCreate string
  | BuildFile fetch_error
  | BuildChmod string
  | BuildWalk string
  | BuildRel string
  | InModule string build_error
  | InInstall string string build_error
  | InCopyDirectory string build_error

type_synonym ('w, 'a) build_io = "'w net \<Rightarrow> (build_error + 'a) \<times> 'w net"

section \<open>The toolchain\<close>

text \<open>\<open>strings.Fields\<close>, with the word read so far.\<close>

function go_fields :: "string \<Rightarrow> string \<Rightarrow> string list" where
  "go_fields w s = (case s of
     [] \<Rightarrow> (if w = [] then [] else [w])
   | c # r \<Rightarrow>
      (if space_len s = 0 then go_fields (w @ [c]) r
       else (if w = [] then [] else [w]) @ go_fields [] (drop (space_len s) s)))"
  by pat_completeness auto
termination
  by (relation "measure (\<lambda>(w, s). length s)") auto

declare go_fields.simps [simp del]

record flags =
  fCC :: string
  fCFLAGS :: "string list"
  fLDFLAGS :: "string list"
  fLIBFLAG :: "string list"
  fLuaIncDir :: string
  fLuaLibDir :: string
  fLuaBinDir :: string
  fExt :: string
  fGccRpath :: bool

definition LuaBinDir :: "config \<Rightarrow> string" where
  "LuaBinDir cfg =
     (let exe = ttExecutable (cfgTarantool cfg); dir = path_dir exe; pre = ttPrefix (cfgTarantool cfg) in
      if exe \<noteq> [] \<and> dir \<noteq> ''.'' then dir
      else if pre \<noteq> [] then path_join [pre, ''bin''] else [])"

definition deriveFlagsFor :: "(string \<Rightarrow> string) \<Rightarrow> config \<Rightarrow> string \<Rightarrow> flags" where
  "deriveFlagsFor env cfg os =
     (let tt = cfgTarantool cfg;
          cflags0 = go_fields [] (if env ''CFLAGS'' = [] then ''-O2'' else env ''CFLAGS'');
          cflags1 = (if ''-fPIC'' \<in> set cflags0 then cflags0 else cflags0 @ [''-fPIC'']);
          cflags2 = (if ttIncludeDir tt \<noteq> [] then cflags1 @ [''-I'' @ ttIncludeDir tt] else cflags1)
      in \<lparr>fCC = (if env ''CC'' = [] then ''cc'' else env ''CC''),
          fCFLAGS = cflags2,
          fLDFLAGS = go_fields [] (env ''LDFLAGS''),
          fLIBFLAG = (if os = ''darwin'' then [''-bundle'', ''-undefined'', ''dynamic_lookup'', ''-all_load'']
                      else [''-shared'']),
          fLuaIncDir = ttIncludeDir tt,
          fLuaLibDir = (if ttPrefix tt \<noteq> [] then path_join [ttPrefix tt, ''lib''] else []),
          fLuaBinDir = LuaBinDir cfg,
          fExt = ''.so'',
          fGccRpath = (os \<noteq> ''darwin'')\<rparr>)"

definition DeriveFlags :: "'w host \<Rightarrow> config \<Rightarrow> flags" where
  "DeriveFlags h cfg = deriveFlagsFor (getenv h) cfg (goos h)"

section \<open>Variables\<close>

definition var_char :: "char \<Rightarrow> bool" where
  "var_char c \<longleftrightarrow> is_alnum c \<or> c = CHR ''_''"

text \<open>A reference \<open>$(NAME)\<close> at the start of a string: the name and the rest.\<close>

definition varRefRe :: "string \<Rightarrow> (string \<times> string) option" where
  "varRefRe s =
     (let name = takeWhile var_char (drop 2 s); r = dropWhile var_char (drop 2 s) in
      if has_prefix s ''$('' \<and> name \<noteq> [] \<and> is_alpha (hd name) \<and> r \<noteq> [] \<and> hd r = CHR '')''
      then Some (name, tl r) else None)"

lemma varRefRe_length: "varRefRe s = Some (n, r) \<Longrightarrow> length r < length s"
proof -
  assume a: "varRefRe s = Some (n, r)"
  then have r: "r = tl (dropWhile var_char (drop 2 s))" and p: "has_prefix s ''$(''"
    by (auto simp: varRefRe_def Let_def split: if_splits)
  have "length r \<le> length (dropWhile var_char (drop 2 s))" by (simp add: r)
  also have "\<dots> \<le> length (drop 2 s)" by (rule length_dropWhile_le)
  also have "\<dots> < length s" using p by (auto simp: has_prefix_iff)
  finally show ?thesis .
qed

function substituteVars :: "string \<Rightarrow> (string, string) gomap \<Rightarrow> string" where
  "substituteVars s vars = (case s of
     [] \<Rightarrow> []
   | c # r \<Rightarrow> (case varRefRe s of
       Some (name, r') \<Rightarrow> mget vars name [] @ substituteVars r' vars
     | None \<Rightarrow> c # substituteVars r vars))"
  by pat_completeness auto
termination
  by (relation "measure (\<lambda>(s, vars). length s)") (auto dest: varRefRe_length)

declare substituteVars.simps [simp del]

definition substituteVarsSlice :: "string list \<Rightarrow> (string, string) gomap \<Rightarrow> string list" where
  "substituteVarsSlice xs vars = map (\<lambda>s. substituteVars s vars) xs"

definition buildVars :: "'w host \<Rightarrow> rockspec \<Rightarrow> config \<Rightarrow> (string, string) gomap" where
  "buildVars h spec cfg =
     (let f = DeriveFlags h cfg; tt = cfgTarantool cfg;
          vars = [(''LUA_INCDIR'', ttIncludeDir tt), (''LUA_LIBDIR'', fLuaLibDir f), (''LUA_BINDIR'', fLuaBinDir f),
            (''LUA'', ttExecutable tt), (''CC'', fCC f), (''CFLAGS'', join (fCFLAGS f) '' ''),
            (''LIBFLAG'', join (fLIBFLAG f) '' ''), (''PREFIX'', ttPrefix tt), (''MAKE'', ''make''), (''CMAKE'', ''cmake'')];
          dir = InstallDir (cfgTree cfg) (rPackage spec) (rVersion spec)
      in if rPackage spec = [] then vars
         else maps_copy vars [(''PREFIX'', dir), (''LUADIR'', path_join [dir, ''lua'']),
           (''LIBDIR'', path_join [dir, ''lib'']), (''CONFDIR'', path_join [dir, ''conf'']),
           (''BINDIR'', path_join [dir, ''bin'']), (''DOCDIR'', path_join [dir, ''doc''])])"

section \<open>Processes\<close>

definition splitEnv :: "string \<Rightarrow> string \<times> string \<times> bool" where
  "splitEnv e = (let (before, after, ok) = cut e ''='' in if ok then (before, after, True) else ([], [], False))"

text \<open>The index of the last entry of a key, as the loop over the inherited environment leaves it.\<close>

definition env_index :: "string list \<Rightarrow> (string, nat) gomap" where
  "env_index base = foldl (\<lambda>idx (i, e). let (k, v, ok) = splitEnv e in if ok then mput k i idx else idx)
     [] (enumerate 0 base)"

definition mergeEnv :: "string list \<Rightarrow> (string, string) gomap \<Rightarrow> string list" where
  "mergeEnv base over =
     (if over = [] then base
      else let idx = env_index base in
        foldl (\<lambda>out k. let entry = k @ ''='' @ mget over k [] in
            case map_of idx k of Some i \<Rightarrow> out[i := entry] | None \<Rightarrow> out @ [entry])
          base (sorted_keys over))"

definition buildEnv :: "'w host \<Rightarrow> config \<Rightarrow> (string, string) gomap" where
  "buildEnv h cfg =
     (let tt = cfgTarantool cfg; f = DeriveFlags h cfg in
      filter (\<lambda>(k, v). v \<noteq> []) [(''TARANTOOL_DIR'', ttPrefix tt), (''LUA'', ttExecutable tt),
        (''LUA_INCDIR'', ttIncludeDir tt), (''LUA_LIBDIR'', fLuaLibDir f), (''LUA_BINDIR'', fLuaBinDir f)])"

definition stderr_tail :: "string \<Rightarrow> string" where
  "stderr_tail s = (let t = trim_space s in if 4096 < length t then drop (length t - 4096) t else t)"

definition runCmd :: "'w host \<Rightarrow> string \<Rightarrow> string list \<Rightarrow> string \<Rightarrow> (string, string) gomap \<Rightarrow> ('w, unit) build_io" where
  "runCmd h name args cwd extraEnv w =
     (let (r, w') = run_process h name args cwd (mergeEnv (environ h) extraEnv) w in
      case r of None \<Rightarrow> (Inr (), w') | Some (e, stderr) \<Rightarrow> (Inl (RunFailed name args e (stderr_tail stderr)), w'))"

section \<open>Make, CMake and commands\<close>

definition passEnabled :: "bool option \<Rightarrow> bool" where
  "passEnabled p = (case p of None \<Rightarrow> True | Some b \<Rightarrow> b)"

definition mergeVars :: "(string, string) gomap \<Rightarrow> (string, string) gomap \<Rightarrow> (string, string) gomap" where
  "mergeVars pass over = maps_copy (maps_copy [] pass) over"

definition overlay :: "(string, string) gomap \<Rightarrow> (string, string) gomap \<Rightarrow> (string, string) gomap" where
  "overlay base vars = foldl (\<lambda>out k. mput k (mget vars k []) out) (maps_copy [] base) (sorted_keys vars)"

definition substitute_values :: "(string, string) gomap \<Rightarrow> (string, string) gomap \<Rightarrow> (string, string) gomap" where
  "substitute_values vars subst = map (\<lambda>(k, v). (k, substituteVars v subst)) vars"

definition prepareMakeVars :: "'w host \<Rightarrow> (string, string) gomap \<Rightarrow> (string, string) gomap \<Rightarrow> config \<Rightarrow>
    (string, string) gomap" where
  "prepareMakeVars h vars subst cfg =
     (let out = substitute_values vars subst in
      if map_of out ''CC'' = None then mput ''CC'' (fCC (DeriveFlags h cfg)) out else out)"

definition kvArgs :: "(string, string) gomap \<Rightarrow> string list" where
  "kvArgs vars = map (\<lambda>k. k @ ''='' @ mget vars k []) (sorted_keys vars)"

definition makeSubst :: "'w host \<Rightarrow> rockspec \<Rightarrow> string \<Rightarrow> config \<Rightarrow> (string, string) gomap" where
  "makeSubst h spec destDir cfg = maps_copy (buildVars h spec cfg)
     [(''PREFIX'', destDir), (''LUADIR'', path_join [destDir, ''lua'']), (''LIBDIR'', path_join [destDir, ''lib'']),
      (''CONFDIR'', path_join [destDir, ''conf'']), (''BINDIR'', path_join [destDir, ''bin'']),
      (''DOCDIR'', path_join [destDir, ''doc''])]"

definition runMake :: "'w host \<Rightarrow> rockspec \<Rightarrow> string \<Rightarrow> string \<Rightarrow> config \<Rightarrow> ('w, unit) build_io" where
  "runMake h spec srcDir destDir cfg =
     (let env = buildEnv h cfg; b = bFields (rBuild spec); vars = makeSubst h spec destDir cfg;
          bv = prepareMakeVars h (mergeVars (bBuildVariables b) (bVariables b)) vars cfg;
          iv = prepareMakeVars h (mergeVars (bInstallVariables b) (bVariables b)) vars cfg;
          makefileArgs = (if bMakefile b \<noteq> [] then [''-f'', bMakefile b] else []);
          target = (if bBuildTarget b \<noteq> [] then [bBuildTarget b] else []);
          installTarget = (if bInstallTarget b = [] then ''install'' else bInstallTarget b)
      in bind_io (if passEnabled (bBuildPass b) then runCmd h ''make'' (makefileArgs @ target @ kvArgs bv) srcDir env
                  else ret ()) (\<lambda>_.
         if \<not> passEnabled (bInstallPass b) then ret ()
         else runCmd h ''make'' (makefileArgs @ [installTarget] @ kvArgs iv) srcDir env))"

definition rockspecFormatAtLeast3 :: "string \<Rightarrow> bool" where
  "rockspecFormatAtLeast3 format =
     (case ParseVersion (if format = [] then ''1.0'' else format) of
        Inl e \<Rightarrow> False
      | Inr fv \<Rightarrow> (case ParseVersion ''3.0'' of Inl e \<Rightarrow> False | Inr c \<Rightarrow> 0 \<le> Compare fv c))"

definition cmakeEnvVars :: "string list" where
  "cmakeEnvVars = [''CMAKE_MODULE_PATH'', ''CMAKE_LIBRARY_PATH'', ''CMAKE_INCLUDE_PATH'']"

definition cmakeCache :: "'w host \<Rightarrow> (string, string) gomap \<Rightarrow> (string, string) gomap" where
  "cmakeCache h dvars = foldl (\<lambda>m name. if map_of m name \<noteq> None then m
     else if getenv h name \<noteq> [] then mput name (getenv h name) m else m) dvars cmakeEnvVars"

definition runCMake :: "'w host \<Rightarrow> rockspec \<Rightarrow> string \<Rightarrow> string \<Rightarrow> config \<Rightarrow> ('w, unit) build_io" where
  "runCMake h spec srcDir destDir cfg =
     (let env = buildEnv h cfg; b = bFields (rBuild spec);
          dvars = cmakeCache h (substitute_values (bVariables b) (buildVars h spec cfg));
          configure = ''.'' # map (\<lambda>k. ''-D'' @ k @ ''='' @ mget dvars k []) (sorted_keys dvars);
          honorPasses = rockspecFormatAtLeast3 (rRockspecFormat spec)
      in bind_io (runCmd h ''cmake'' configure srcDir env) (\<lambda>_.
         bind_io (if \<not> honorPasses \<or> passEnabled (bBuildPass b)
                  then runCmd h ''cmake'' [''--build'', ''.''] srcDir env else ret ()) (\<lambda>_.
         if honorPasses \<and> \<not> passEnabled (bInstallPass b) then ret ()
         else runCmd h ''cmake'' [''--install'', ''.'', ''--prefix'', destDir] srcDir env)))"

definition runCommand :: "'w host \<Rightarrow> rockspec \<Rightarrow> string \<Rightarrow> config \<Rightarrow> ('w, unit) build_io" where
  "runCommand h spec srcDir cfg =
     (let cc = fCC (DeriveFlags h cfg); b = bFields (rBuild spec); vars = buildVars h spec cfg;
          env = (if cc \<noteq> [] then overlay (buildEnv h cfg) [(''CC'', cc)] else buildEnv h cfg);
          sh = (\<lambda>cmd. if cmd \<noteq> [] then runCmd h ''sh'' [''-c'', substituteVars cmd vars] srcDir env else ret ())
      in bind_io (sh (bBuildCommand b)) (\<lambda>_. sh (bInstallCommand b)))"

section \<open>The builtin backend\<close>

definition autodetectSkiplist :: "string list" where
  "autodetectSkiplist = [''spec'', ''.luarocks'', ''lua_modules'', ''test.lua'', ''tests.lua'']"

text \<open>\<open>int\s+luaopen_([a-zA-Z0-9_]+)\<close>: the name after the first match.\<close>

definition luaopen_at :: "string \<Rightarrow> string option" where
  "luaopen_at s =
     (let r = drop 3 s; t = dropWhile re_space r; name = takeWhile var_char (drop 8 t) in
      if has_prefix s ''int'' \<and> r \<noteq> [] \<and> re_space (hd r) \<and> has_prefix t ''luaopen_'' \<and> name \<noteq> []
      then Some name else None)"

fun luaopenRe :: "string \<Rightarrow> string option" where
  "luaopenRe [] = None"
| "luaopenRe (c # s) = (case luaopen_at (c # s) of Some n \<Rightarrow> Some n | None \<Rightarrow> luaopenRe s)"

definition moduleNameFromPath :: "string \<Rightarrow> string" where
  "moduleNameFromPath rel =
     (let name = (case last_index rel (CHR ''.'') of Some i \<Rightarrow> take i rel | None \<Rightarrow> rel)
      in trim_char (replace_char name (CHR ''/'') ''.'') (CHR ''.''))"

definition cmodName :: "fs \<Rightarrow> string \<Rightarrow> string" where
  "cmodName s path = (case os_read s path of
     Inl e \<Rightarrow> [] | Inr data \<Rightarrow> (case luaopenRe data of Some n \<Rightarrow> n | None \<Rightarrow> []))"

definition isDir :: "fs \<Rightarrow> string \<Rightarrow> bool" where
  "isDir s path \<longleftrightarrow> os_stat s path = Some NDir"

text \<open>Where the scan starts, and the prefix of the paths it finds.\<close>

definition scan_root :: "fs \<Rightarrow> string \<Rightarrow> string \<times> string" where
  "scan_root s srcDir = (case filter (\<lambda>p. isDir s (path_join [srcDir, p])) [''src'', ''lua'', ''lib''] of
     [] \<Rightarrow> ([], srcDir) | p # ps \<Rightarrow> (p @ ''/'', path_join [srcDir, p]))"

text \<open>What the scan makes of one file.\<close>

definition detect_module :: "fs \<Rightarrow> string \<Rightarrow> string \<Rightarrow> (string, module_entry) gomap \<Rightarrow> string \<Rightarrow>
    (string, module_entry) gomap" where
  "detect_module s prefix0 scanRoot modules p = (case path_rel scanRoot p of
     None \<Rightarrow> modules
   | Some rel \<Rightarrow>
      (if fst (cut rel ''/'') \<in> set autodetectSkiplist then modules
       else if has_suffix rel ''.lua'' then
         mput (moduleNameFromPath rel) (zero_module\<lparr>mPath := prefix0 @ rel\<rparr>) modules
       else if has_suffix rel ''.c'' then
         (let name = (if cmodName s p = [] then moduleNameFromPath (trim_suffix rel ''.c'' @ ''.lua'') else cmodName s p)
          in mput name (zero_module\<lparr>mSources := [prefix0 @ rel]\<rparr>) modules)
       else modules))"

text \<open>The scripts of the first of the two directories that exists.\<close>

definition detect_bin :: "fs \<Rightarrow> string \<Rightarrow> (string, string) gomap" where
  "detect_bin s srcDir = (case filter (\<lambda>cand. isDir s (path_join [srcDir, cand])) [''src/bin'', ''bin''] of
     [] \<Rightarrow> []
   | cand # cs \<Rightarrow>
      (let binDir = path_join [srcDir, cand] in case os_read_dir s binDir of
         None \<Rightarrow> []
       | Some names \<Rightarrow> foldl (\<lambda>m n. if isDir s (path_join [binDir, n]) then m
             else mput n (cand @ ''/'' @ n) m) [] names))"

definition autodetectModules :: "fs \<Rightarrow> rockspec \<Rightarrow> string \<Rightarrow> rockspec" where
  "autodetectModules s spec srcDir =
     (let (prefix0, scanRoot) = scan_root s srcDir;
          files = filter (\<lambda>p. \<not> isDir s p) (walk_paths s (path_clean scanRoot));
          modules = foldl (detect_module s prefix0 scanRoot) [] files;
          bin = detect_bin s srcDir;
          dirs = filter (\<lambda>d. isDir s (path_join [srcDir, d])) [''doc'', ''docs'', ''samples'', ''tests''];
          b = bFields (rBuild spec);
          b1 = (if modules \<noteq> [] then b\<lparr>bModules := modules\<rparr> else b);
          b2 = (if bin \<noteq> [] then b1\<lparr>bInstall := (bInstall b1)\<lparr>iBin := bin\<rparr>\<rparr> else b1);
          b3 = b2\<lparr>bCopyDirectories := bCopyDirectories b2 @ dirs\<rparr>
      in spec\<lparr>rBuild := Build b3 (bPlatforms (rBuild spec))\<rparr>)"

definition needsCC :: "module_entry \<Rightarrow> bool" where
  "needsCC m \<longleftrightarrow> mPath m \<noteq> [] \<and> \<not> has_suffix (mPath m) ''.lua'' \<or> mSources m \<noteq> []"

definition moduleSlashPath :: "string \<Rightarrow> string" where
  "moduleSlashPath name = replace_char name (CHR ''.'') ''/''"

definition moduleDirPath :: "string \<Rightarrow> string" where
  "moduleDirPath name = (case last_index name (CHR ''.'') of
     Some i \<Rightarrow> replace_char (take i name) (CHR ''.'') ''/'' | None \<Rightarrow> [])"

definition moduleLastSegment_builtin :: "string \<Rightarrow> string" where
  "moduleLastSegment_builtin name = (case last_index name (CHR ''.'') of
     Some i \<Rightarrow> drop (i + 1) name | None \<Rightarrow> name)"

text \<open>The permission bits of a source; a directory, whose copy fails, has none in the model.\<close>

definition copy_mode :: "node \<Rightarrow> int" where
  "copy_mode n = (let m = node_mode n mod 512 in if m = 0 then 420 else m)"

definition copyFile_builtin :: "string \<Rightarrow> string \<Rightarrow> fs \<Rightarrow> (build_error + unit) \<times> fs" where
  "copyFile_builtin src dst =
     bind_io (act BuildMkdir (os_mkdir_all (path_dir dst))) (\<lambda>_.
     bind_io (get (\<lambda>s. os_stat s src)) (\<lambda>st. case st of
       None \<Rightarrow> fail_io (BuildOpen src)
     | Some n \<Rightarrow>
        bind_io (act BuildCreate (os_create dst (copy_mode n))) (\<lambda>_.
        bind_io (get (\<lambda>s. data_of (os_read s src))) (\<lambda>data. map_err BuildFile (fill_file dst data)))))"

text \<open>\<open>filepath.Walk\<close>: the paths it visits, or the error of a root that is not there.\<close>

definition walk_visits :: "string \<Rightarrow> fs \<Rightarrow> string list option" where
  "walk_visits src s = (case os_stat s src of
     None \<Rightarrow> None
   | Some n \<Rightarrow> Some ((if src = ''.'' \<or> src = ''/'' then [src] else []) @ walk_paths s src))"

definition copyDir_builtin :: "string \<Rightarrow> string \<Rightarrow> fs \<Rightarrow> (build_error + unit) \<times> fs" where
  "copyDir_builtin src dst = bind_io (get (walk_visits src)) (\<lambda>visits. case visits of
     None \<Rightarrow> fail_io (BuildWalk src)
   | Some paths \<Rightarrow> each_io (\<lambda>p _. case path_rel src p of
         None \<Rightarrow> fail_io (BuildRel p)
       | Some rel \<Rightarrow>
          (let target = path_join [dst, rel] in
           bind_io (get (\<lambda>s. os_stat s p)) (\<lambda>st. case st of
             None \<Rightarrow> fail_io (BuildWalk p)
           | Some NDir \<Rightarrow> act BuildMkdir (os_mkdir_all target)
           | Some (NFile c m) \<Rightarrow> copyFile_builtin p target))) paths ())"

text \<open>The file a Lua module is installed as.\<close>

definition lua_module_dst :: "string \<Rightarrow> string \<Rightarrow> string \<Rightarrow> string" where
  "lua_module_dst destDir name path =
     (if path_base path = ''init.lua'' \<and> \<not> has_suffix name ''.init''
      then path_join [destDir, ''lua'', moduleSlashPath name, ''init.lua'']
      else path_join [destDir, ''lua'', moduleSlashPath name @ ''.lua''])"

definition installLuaModule :: "string \<Rightarrow> string \<Rightarrow> string \<Rightarrow> string \<Rightarrow> fs \<Rightarrow> (build_error + unit) \<times> fs" where
  "installLuaModule srcDir destDir name path =
     copyFile_builtin (path_join [srcDir, path]) (lua_module_dst destDir name path)"

definition c_module_dst :: "string \<Rightarrow> string \<Rightarrow> flags \<Rightarrow> string" where
  "c_module_dst destDir name f = path_join [destDir, ''lib'', moduleSlashPath name @ fExt f]"

definition cc_args :: "string \<Rightarrow> string \<Rightarrow> module_entry \<Rightarrow> flags \<Rightarrow> (string, string) gomap \<Rightarrow> string list" where
  "cc_args srcDir out m f vars =
     fCFLAGS f
     @ map (\<lambda>d. ''-D'' @ d) (substituteVarsSlice (mDefines m) vars)
     @ map (\<lambda>i. ''-I'' @ i) (substituteVarsSlice (mIncdirs m) vars)
     @ fLIBFLAG f @ [''-o'', out]
     @ map (\<lambda>s. path_join [srcDir, s]) (mSources m)
     @ concat (map (\<lambda>l. (''-L'' @ l) # (if fGccRpath f then [''-Wl,-rpath,'' @ l] else []))
         (substituteVarsSlice (mLibdirs m) vars))
     @ map (\<lambda>l. ''-l'' @ l) (substituteVarsSlice (mLibraries m) vars)
     @ fLDFLAGS f"

definition compileModule :: "'w host \<Rightarrow> string \<Rightarrow> string \<Rightarrow> string \<Rightarrow> module_entry \<Rightarrow> flags \<Rightarrow> config \<Rightarrow>
    (string, string) gomap \<Rightarrow> ('w, unit) build_io" where
  "compileModule h srcDir destDir name m f cfg vars =
     (let out = c_module_dst destDir name f in
      bind_io (on_disk (act BuildMkdir (os_mkdir_all (path_dir out)))) (\<lambda>_.
      runCmd h (fCC f) (cc_args srcDir out m f vars) srcDir (buildEnv h cfg)))"

record install_group =
  igName :: string
  igEntries :: "(string, string) gomap"
  igSubdir :: string
  igModule :: bool
  igExe :: bool

definition install_groups :: "build_install \<Rightarrow> install_group list" where
  "install_groups bi =
     [\<lparr>igName = ''install.lua'', igEntries = iLua bi, igSubdir = ''lua'', igModule = True, igExe = False\<rparr>,
      \<lparr>igName = ''install.lib'', igEntries = iLib bi, igSubdir = ''lib'', igModule = True, igExe = True\<rparr>,
      \<lparr>igName = ''install.bin'', igEntries = iBin bi, igSubdir = ''bin'', igModule = False, igExe = True\<rparr>,
      \<lparr>igName = ''install.conf'', igEntries = iConf bi, igSubdir = ''conf'', igModule = False, igExe = False\<rparr>]"

definition install_dst :: "string \<Rightarrow> install_group \<Rightarrow> string \<Rightarrow> string" where
  "install_dst destDir g k =
     (let base = path_base (mget (igEntries g) k []);
          filename = (if has_suffix base ''.lua'' then moduleLastSegment_builtin k @ ''.lua'' else base);
          rel = (if igModule g then path_join [moduleDirPath k, filename] else k)
      in path_join [destDir, igSubdir g, rel])"

definition exePerm :: int where
  "exePerm = 488"

definition installBuildInstall :: "string \<Rightarrow> string \<Rightarrow> build_install \<Rightarrow> fs \<Rightarrow> (build_error + unit) \<times> fs" where
  "installBuildInstall srcDir destDir bi =
     each_io (\<lambda>g _. each_io (\<lambda>k _. map_err (InInstall (igName g) k)
         (bind_io (copyFile_builtin (path_join [srcDir, mget (igEntries g) k []]) (install_dst destDir g k)) (\<lambda>_.
          if igExe g then act BuildChmod (os_chmod (install_dst destDir g k) exePerm) else ret ())))
       (sorted_keys (igEntries g)) ()) (install_groups bi) ()"

definition build_module :: "'w host \<Rightarrow> string \<Rightarrow> string \<Rightarrow> config \<Rightarrow> (string, string) gomap \<Rightarrow> string \<Rightarrow> module_entry \<Rightarrow>
    ('w, unit) build_io" where
  "build_module h srcDir destDir cfg vars n m =
     (if mPath m \<noteq> [] \<and> has_suffix (mPath m) ''.lua'' then
        map_err (InModule n) (on_disk (installLuaModule srcDir destDir n (mPath m)))
      else if mPath m \<noteq> [] then
        map_err (InModule n) (compileModule h srcDir destDir n (zero_module\<lparr>mSources := [mPath m]\<rparr>)
          (DeriveFlags h cfg) cfg vars)
      else if mSources m \<noteq> [] then
        map_err (InModule n) (compileModule h srcDir destDir n m (DeriveFlags h cfg) cfg vars)
      else fail_io (EmptyEntry n))"

text \<open>The modules the backend builds: those of the rockspec, or the ones it finds.\<close>

definition detected :: "fs \<Rightarrow> rockspec \<Rightarrow> string \<Rightarrow> rockspec" where
  "detected s spec srcDir =
     (if bModules (bFields (rBuild spec)) = [] \<and> rockspecFormatAtLeast3 (rRockspecFormat spec)
      then autodetectModules s spec srcDir else spec)"

definition runBuiltin :: "'w host \<Rightarrow> rockspec \<Rightarrow> string \<Rightarrow> string \<Rightarrow> config \<Rightarrow> ('w, rockspec) build_io" where
  "runBuiltin h spec0 srcDir destDir cfg =
     bind_io (get (\<lambda>w. detected (disk w) spec0 srcDir)) (\<lambda>spec.
     let b = bFields (rBuild spec); names = sorted_keys (bModules b); vars = buildVars h spec cfg;
         entry = (\<lambda>n. mget (bModules b) n zero_module)
     in case filter (\<lambda>n. needsCC (entry n) \<and> ttIncludeDir (cfgTarantool cfg) = []) names of
          n # ns \<Rightarrow> fail_io (MissingHeaders n)
        | [] \<Rightarrow>
           bind_io (each_io (\<lambda>n _. build_module h srcDir destDir cfg vars n (entry n)) names ()) (\<lambda>_.
           bind_io (on_disk (installBuildInstall srcDir destDir (bInstall b))) (\<lambda>_.
           bind_io (each_io (\<lambda>d _. map_err (InCopyDirectory d)
               (on_disk (copyDir_builtin (path_join [srcDir, d]) (path_join [destDir, d])))) (bCopyDirectories b) ()) (\<lambda>_.
           ret spec))))"

text \<open>The builtin backend may fill in the build table of the rockspec, so the rockspec is returned.\<close>

definition RunBackend :: "'w host \<Rightarrow> rockspec \<Rightarrow> string \<Rightarrow> string \<Rightarrow> config \<Rightarrow> ('w, rockspec) build_io" where
  "RunBackend h spec srcDir destDir cfg =
     (let t = bType (bFields (rBuild spec)) in
      if t = [] \<or> t = ''builtin'' then runBuiltin h spec srcDir destDir cfg
      else if t = ''cmake'' then bind_io (runCMake h spec srcDir destDir cfg) (\<lambda>_. ret spec)
      else if t = ''make'' then bind_io (runMake h spec srcDir destDir cfg) (\<lambda>_. ret spec)
      else if t = ''command'' then bind_io (runCommand h spec srcDir cfg) (\<lambda>_. ret spec)
      else if t = ''none'' then ret spec
      else fail_io (UnsupportedType t))"

section \<open>Substitution\<close>

text \<open>A text as its author means it: literal pieces and references to variables.\<close>

datatype piece = Lit string | Ref string

fun render :: "piece list \<Rightarrow> string" where
  "render [] = []"
| "render (Lit s # ps) = s @ render ps"
| "render (Ref n # ps) = ''$('' @ n @ '')'' @ render ps"

fun expand :: "(string, string) gomap \<Rightarrow> piece list \<Rightarrow> string" where
  "expand vars [] = []"
| "expand vars (Lit s # ps) = s @ expand vars ps"
| "expand vars (Ref n # ps) = mget vars n [] @ expand vars ps"

fun good_piece :: "piece \<Rightarrow> bool" where
  "good_piece (Lit s) \<longleftrightarrow> CHR ''$'' \<notin> set s"
| "good_piece (Ref n) \<longleftrightarrow> n \<noteq> [] \<and> is_alpha (hd n) \<and> list_all var_char n"

lemma varRefRe_other: "c \<noteq> CHR ''$'' \<Longrightarrow> varRefRe (c # s) = None"
  by (auto simp: varRefRe_def has_prefix_iff)

lemma var_char_paren: "\<not> var_char (CHR '')'')"
  by (simp add: var_char_def char_class_defs)

lemma takeWhile_name:
  assumes "list_all P n" "\<not> P x"
  shows "takeWhile P (n @ x # s) = n" "dropWhile P (n @ x # s) = x # s"
  using assms by (induction n) auto

lemma varRefRe_ref:
  assumes "good_piece (Ref n)"
  shows "varRefRe (''$('' @ n @ '')'' @ s) = Some (n, s)"
proof -
  have "list_all var_char n" using assms by simp
  from takeWhile_name[OF this var_char_paren] show ?thesis
    using assms by (simp add: varRefRe_def has_prefix_def)
qed

lemma substituteVars_Nil [simp]: "substituteVars [] vars = []"
  by (simp add: substituteVars.simps)

lemma substituteVars_lit:
  "CHR ''$'' \<notin> set s \<Longrightarrow> substituteVars (s @ t) vars = s @ substituteVars t vars"
proof (induction s)
  case (Cons c s)
  then have "c \<noteq> CHR ''$''" "CHR ''$'' \<notin> set s" by auto
  then show ?case using Cons.IH varRefRe_other[of c "s @ t"] by (simp add: substituteVars.simps[of "c # s @ t"])
qed simp

text \<open>
  Expansion works on the pieces of a text: every reference is replaced by its value, an
  undefined one by nothing, what a value contains is not expanded again, and all other text
  stays as it is.
\<close>

theorem substituteVars_pieces:
  assumes "list_all good_piece ps"
  shows "substituteVars (render ps) vars = expand vars ps"
  using assms
proof (induction ps)
  case (Cons p ps)
  then have IH: "substituteVars (render ps) vars = expand vars ps" and p: "good_piece p" by simp_all
  show ?case
  proof (cases p)
    case (Lit s)
    then show ?thesis using IH p by (simp add: substituteVars_lit)
  next
    case (Ref n)
    have v: "varRefRe (''$('' @ n @ '')'' @ render ps) = Some (n, render ps)"
      using varRefRe_ref p Ref by blast
    have "substituteVars (''$('' @ n @ '')'' @ render ps) vars = mget vars n [] @ substituteVars (render ps) vars"
      using v by (subst substituteVars.simps) simp
    then show ?thesis using IH Ref by simp
  qed
qed simp

theorem substituteVars_pieces_witness:
  "list_all good_piece [Ref ''CC'', Lit '' -o x '', Ref ''NONE''] \<and>
   substituteVars (render [Ref ''CC'', Lit '' -o x '', Ref ''NONE'']) [(''CC'', ''$(LUA)'')] = ''$(LUA) -o x ''"
  using substituteVars_pieces[of "[Ref ''CC'', Lit '' -o x '', Ref ''NONE'']" "[(''CC'', ''$(LUA)'')]"]
  by (simp add: var_char_def char_class_defs mget_def)

section \<open>The environment of a process\<close>

text \<open>What a process sees of its environment: the last entry of a key.\<close>

definition env_key :: "string \<Rightarrow> string \<Rightarrow> bool" where
  "env_key k e \<longleftrightarrow> fst (splitEnv e) = k \<and> snd (snd (splitEnv e))"

definition env_lookup :: "string list \<Rightarrow> string \<Rightarrow> string option" where
  "env_lookup env k = (let es = filter (env_key k) env in
     if es = [] then None else Some (fst (snd (splitEnv (last es)))))"

text \<open>Position \<open>i\<close> holds the last entry of the key \<open>k\<close>.\<close>

definition last_entry :: "string list \<Rightarrow> string \<Rightarrow> nat \<Rightarrow> bool" where
  "last_entry env k i \<longleftrightarrow> i < length env \<and> env_key k (env ! i) \<and> filter (env_key k) (drop (Suc i) env) = []"

lemma index_sub_key: "CHR ''='' \<notin> set k \<Longrightarrow> index_sub (k @ ''='' @ v) ''='' = Some (length k)"
  by (induction k) (auto simp: has_prefix_def)

lemma splitEnv_entry: "CHR ''='' \<notin> set k \<Longrightarrow> splitEnv (k @ ''='' @ v) = (k, v, True)"
  using index_sub_key[of k v] by (simp add: splitEnv_def cut_def)

lemma env_key_entry: "CHR ''='' \<notin> set k \<Longrightarrow> env_key j (k @ ''='' @ v) \<longleftrightarrow> j = k"
  using splitEnv_entry[of k v] by (auto simp: env_key_def)

lemma env_key_unique: "env_key k e \<Longrightarrow> env_key j e \<Longrightarrow> j = k"
  by (simp add: env_key_def)

lemma filter_update_other: "\<not> P (xs ! i) \<Longrightarrow> \<not> P x \<Longrightarrow> i < length xs \<Longrightarrow> filter P (xs[i := x]) = filter P xs"
  by (subst (2) id_take_nth_drop[of i xs]) (simp_all add: upd_conv_take_nth_drop)

lemma env_lookup_update:
  assumes "last_entry env k i" "CHR ''='' \<notin> set k"
  shows "env_lookup (env[i := k @ ''='' @ v]) j = (if j = k then Some v else env_lookup env j)"
    and "last_entry env j n \<Longrightarrow> j \<noteq> k \<Longrightarrow> last_entry (env[i := k @ ''='' @ v]) j n"
proof -
  let ?e = "k @ ''='' @ v"
  have i: "i < length env" "env_key k (env ! i)" "filter (env_key k) (drop (Suc i) env) = []"
    using assms(1) by (simp_all add: last_entry_def)
  have "filter (env_key k) (env[i := ?e]) = filter (env_key k) (take i env) @ [?e]"
    using i env_key_entry[OF assms(2)] by (simp add: upd_conv_take_nth_drop)
  moreover have "filter (env_key j) (env[i := ?e]) = filter (env_key j) env" if "j \<noteq> k"
    using that i env_key_entry[OF assms(2)] env_key_unique by (intro filter_update_other) auto
  ultimately show "env_lookup (env[i := ?e]) j = (if j = k then Some v else env_lookup env j)"
    using splitEnv_entry[OF assms(2)] by (auto simp: env_lookup_def)
  show "last_entry (env[i := ?e]) j n" if "last_entry env j n" "j \<noteq> k"
  proof -
    have n: "n < length env" "env_key j (env ! n)" "filter (env_key j) (drop (Suc n) env) = []"
      using that(1) by (simp_all add: last_entry_def)
    have "n \<noteq> i" using n(2) i(2) that(2) env_key_unique by blast
    moreover have "filter (env_key j) (drop (Suc n) (env[i := ?e])) = []"
    proof (cases "Suc n \<le> i")
      case True
      have "env_key j (env ! i) = False" using i(2) that(2) env_key_unique by blast
      then have "filter (env_key j) ((drop (Suc n) env)[i - Suc n := ?e]) = filter (env_key j) (drop (Suc n) env)"
        using that(2) env_key_entry[OF assms(2)] True i(1) by (intro filter_update_other) auto
      then show ?thesis using True n(3) by (simp add: drop_update_swap)
    next
      case False
      then show ?thesis using n(3) by simp
    qed
    ultimately show ?thesis using n by (simp add: last_entry_def)
  qed
qed

lemma env_lookup_append:
  assumes "CHR ''='' \<notin> set k"
  shows "env_lookup (env @ [k @ ''='' @ v]) j = (if j = k then Some v else env_lookup env j)"
    and "last_entry env j n \<Longrightarrow> j \<noteq> k \<Longrightarrow> last_entry (env @ [k @ ''='' @ v]) j n"
  using env_key_entry[OF assms] splitEnv_entry[OF assms]
  by (auto simp: env_lookup_def last_entry_def nth_append)

lemma env_index_snoc: "env_index (base @ [e]) = (if snd (snd (splitEnv e))
    then mput (fst (splitEnv e)) (length base) (env_index base) else env_index base)"
  by (simp add: env_index_def enumerate_append_eq split_beta)

lemma env_index_last:
  "map_of (env_index base) k = Some i \<Longrightarrow> last_entry base k i"
  "map_of (env_index base) k = None \<Longrightarrow> filter (env_key k) base = []"
proof (induction base rule: rev_induct)
  case Nil
  { case 1 then show ?case by (simp add: env_index_def) }
  { case 2 then show ?case by simp }
next
  case (snoc e base)
  { case 1 then show ?case using snoc(1)
      by (auto simp: env_index_snoc map_of_mput last_entry_def env_key_def nth_append split: if_splits) }
  { case 2 then show ?case using snoc(2)
      by (auto simp: env_index_snoc map_of_mput env_key_def split: if_splits) }
qed

text \<open>
  A process finds every variable of the overlay at its value, and every other variable as it
  was inherited, also when the inherited environment has a key twice.
\<close>

theorem mergeEnv_lookup:
  assumes "distinct (map fst over)" and "\<forall>k \<in> fst ` set over. CHR ''='' \<notin> set k"
  shows "env_lookup (mergeEnv base over) k =
    (case map_of over k of Some v \<Rightarrow> Some v | None \<Rightarrow> env_lookup base k)"
proof (cases "over = []")
  case False
  let ?idx = "env_index base"
  let ?step = "\<lambda>out k. let entry = k @ ''='' @ mget over k [] in
            case map_of ?idx k of Some i \<Rightarrow> out[i := entry] | None \<Rightarrow> out @ [entry]"
  have fold: "env_lookup (foldl ?step out ks) k = (if k \<in> set ks then Some (mget over k []) else env_lookup out k)"
    if "distinct ks" "set ks \<subseteq> fst ` set over"
      and "\<And>j i. j \<in> set ks \<Longrightarrow> map_of ?idx j = Some i \<Longrightarrow> last_entry out j i" for ks out
    using that
  proof (induction ks arbitrary: out)
    case (Cons j ks)
    have no: "CHR ''='' \<notin> set j" using Cons.prems(2) assms(2) by auto
    show ?case
    proof (cases "map_of ?idx j")
      case None
      let ?out = "out @ [j @ ''='' @ mget over j []]"
      have "\<And>a i. a \<in> set ks \<Longrightarrow> map_of ?idx a = Some i \<Longrightarrow> last_entry ?out a i"
        using Cons.prems(1,3) env_lookup_append(2)[OF no] by fastforce
      then show ?thesis
        using None Cons.IH[of ?out] Cons.prems(1,2) env_lookup_append(1)[OF no] by auto
    next
      case (Some i)
      let ?out = "out[i := j @ ''='' @ mget over j []]"
      have l: "last_entry out j i" using Cons.prems(3)[of j i] Some by simp
      have "\<And>a n. a \<in> set ks \<Longrightarrow> map_of ?idx a = Some n \<Longrightarrow> last_entry ?out a n"
        using Cons.prems(1,3) env_lookup_update(2)[OF l no] by fastforce
      then show ?thesis
        using Some Cons.IH[of ?out] Cons.prems(1,2) env_lookup_update(1)[OF l no] by auto
    qed
  qed simp
  have "env_lookup (mergeEnv base over) k = (if k \<in> fst ` set over then Some (mget over k []) else env_lookup base k)"
    using fold[of "sorted_keys over" base] assms(1) env_index_last(1) False by (auto simp: mergeEnv_def Let_def)
  then show ?thesis using dom_map_of_iff[of over k] by (cases "map_of over k") (simp_all add: mget_def)
qed (simp add: mergeEnv_def)

theorem mergeEnv_lookup_witness:
  "env_lookup (mergeEnv [''CC=a'', ''X=1'', ''CC=b''] [(''CC'', ''gcc''), (''LUA'', ''t'')]) ''CC'' = Some ''gcc''"
  using mergeEnv_lookup[of "[(''CC'', ''gcc''), (''LUA'', ''t'')]" "[''CC=a'', ''X=1'', ''CC=b'']" "''CC''"] by simp

section \<open>The variables of make\<close>

lemma map_of_substitute_values:
  "map_of (substitute_values vars subst) k = map_option (\<lambda>v. substituteVars v subst) (map_of vars k)"
  by (induction vars) (auto simp: substitute_values_def)

lemma map_of_mergeVars:
  "distinct (map fst pass) \<Longrightarrow> distinct (map fst over) \<Longrightarrow> map_of (mergeVars pass over) k =
    (case map_of over k of Some v \<Rightarrow> Some v | None \<Rightarrow> map_of pass k)"
  by (auto simp: mergeVars_def map_of_maps_copy map_add_def split: option.split)

text \<open>
  A make run is given the variables of the rockspec, \<open>build.variables\<close> before those of the
  pass, with their references expanded, and always a C compiler.
\<close>

theorem make_variables:
  assumes "distinct (map fst pass)" "distinct (map fst over)"
  shows "map_of (prepareMakeVars h (mergeVars pass over) subst cfg) k =
    (case map_of over k of Some v \<Rightarrow> Some (substituteVars v subst)
     | None \<Rightarrow> (case map_of pass k of Some v \<Rightarrow> Some (substituteVars v subst)
       | None \<Rightarrow> if k = ''CC'' then Some (fCC (DeriveFlags h cfg)) else None))"
  using map_of_mergeVars[OF assms]
  by (auto simp: prepareMakeVars_def Let_def map_of_substitute_values map_of_mput split: option.split)

section \<open>What a build writes\<close>

text \<open>A relative path that does not climb.\<close>

definition steady :: "string \<Rightarrow> bool" where
  "steady p \<longleftrightarrow> ''..'' \<notin> set (split_char p (CHR ''/''))"

definition real_comps :: "string \<Rightarrow> string list" where
  "real_comps p = filter (\<lambda>c. c \<noteq> [] \<and> c \<noteq> ''.'') (split_char p (CHR ''/''))"

lemma split_char_ne: "split_char s c \<noteq> []"
  by (induction s) (auto split: list.splits)

lemma split_char_app: "split_char (s @ c # t) c = split_char s c @ split_char t c"
proof (induction s)
  case (Cons x s)
  then show ?case using split_char_ne[of s c] by (cases "split_char s c") auto
qed simp

lemma split_join_any: "xs \<noteq> [] \<Longrightarrow> split_char (join xs ''/'') (CHR ''/'') = concat (map (\<lambda>x. split_char x (CHR ''/'')) xs)"
proof (induction xs)
  case (Cons x xs)
  then show ?case by (cases xs) (simp_all add: split_char_app)
qed simp

lemma clean_fold_steady: "''..'' \<notin> set xs \<Longrightarrow>
    foldl (clean_step r) out xs = out @ filter (\<lambda>c. c \<noteq> [] \<and> c \<noteq> ''.'') xs"
  by (induction xs arbitrary: out) auto

lemma split_char_noslash: "x \<in> set (split_char s c) \<Longrightarrow> c \<notin> set x"
  by (induction s arbitrary: x) (auto split: if_splits list.splits)

lemma real_comps_comp: "steady p \<Longrightarrow> list_all comp (real_comps p)"
  using split_char_noslash by (auto simp: steady_def real_comps_def list_all_iff comp_def)

lemma real_comps_clean: "list_all comp cs \<Longrightarrow> cs \<noteq> [] \<Longrightarrow> real_comps (join cs ''/'') = cs"
proof -
  assume a: "list_all comp cs" "cs \<noteq> []"
  then have "\<forall>x \<in> set cs. CHR ''/'' \<notin> set x" by (auto simp: list_all_iff comp_def)
  moreover have "filter (\<lambda>c. c \<noteq> [] \<and> c \<noteq> ''.'') cs = cs"
    using a(1) by (intro filter_True) (auto simp: list_all_iff comp_def)
  ultimately show ?thesis using split_join[OF a(2)] by (simp add: real_comps_def)
qed

lemma path_join_steady:
  assumes "cs \<noteq> []" "list_all comp cs" "\<forall>e \<in> set es. steady e"
  shows "path_join (mk_path r cs # es) = mk_path r (cs @ concat (map real_comps es))"
proof -
  let ?es = "filter (\<lambda>e. e \<noteq> []) es"
  have no: "\<forall>x \<in> set cs. CHR ''/'' \<notin> set x" using assms(2) by (auto simp: list_all_iff comp_def)
  have ne: "mk_path r cs \<noteq> []" by (rule mk_path_nonempty[OF assms(1,2)])
  have sp: "split_char (join (mk_path r cs # ?es) ''/'') (CHR ''/'')
      = (if r then [[]] else []) @ cs @ concat (map (\<lambda>x. split_char x (CHR ''/'')) ?es)"
    using split_join_any[of "mk_path r cs # ?es"] split_join[OF assms(1) no] by (simp add: mk_path_def)
  have fin: "filter (\<lambda>c. c \<noteq> [] \<and> c \<noteq> ''.'') (concat (map (\<lambda>x. split_char x (CHR ''/'')) ?es)) = concat (map real_comps es)"
    by (induction es) (simp_all add: real_comps_def)
  have keep: "filter (\<lambda>c. c \<noteq> [] \<and> c \<noteq> ''.'') cs = cs"
    using assms(2) by (intro filter_True) (auto simp: list_all_iff comp_def)
  have up: "''..'' \<notin> set ((if r then [[]] else []) @ cs @ concat (map (\<lambda>x. split_char x (CHR ''/'')) ?es))"
    using assms(2,3) by (auto simp: steady_def list_all_iff comp_def)
  have hd: "hd (join (mk_path r cs # ?es) ''/'') = CHR ''/'' \<longleftrightarrow> r"
    using ne hd_join_slash[OF assms(1,2)] join_nonempty[OF assms(1,2)] by (cases ?es) (auto simp: mk_path_def)
  have all: "foldl (clean_step r) [] (split_char (join (mk_path r cs # ?es) ''/'') (CHR ''/''))
      = cs @ concat (map real_comps es)"
    unfolding sp using clean_fold_steady[OF up, of r "[]"] fin keep by simp
  have "join (cs @ concat (map real_comps es)) ''/'' \<noteq> []"
    using assms real_comps_comp by (intro join_nonempty) (auto simp: list_all_iff)
  moreover have "join (mk_path r cs # ?es) ''/'' \<noteq> []" using ne by (cases ?es) auto
  moreover have "path_join (mk_path r cs # es) = path_clean (join (mk_path r cs # ?es) ''/'')"
    using ne by (simp add: path_join_def)
  ultimately show ?thesis
    using all hd unfolding path_clean_def Let_def by (cases r) (simp_all add: mk_path_def[of _ "cs @ concat (map real_comps es)"])
qed

lemma steady_join: "list_all comp cs \<Longrightarrow> cs \<noteq> [] \<Longrightarrow> steady (join cs ''/'')"
proof -
  assume a: "list_all comp cs" "cs \<noteq> []"
  then have "\<forall>x \<in> set cs. CHR ''/'' \<notin> set x" by (auto simp: list_all_iff comp_def)
  then show ?thesis using a split_join[OF a(2)] by (auto simp: steady_def list_all_iff comp_def)
qed

text \<open>A path in a directory: the directory itself or below it.\<close>

definition in_dir :: "bool \<Rightarrow> string list \<Rightarrow> string \<Rightarrow> bool" where
  "in_dir r cs p \<longleftrightarrow> (\<exists>ds. p = mk_path r (cs @ ds))"

lemma in_dir_join:
  "cs \<noteq> [] \<Longrightarrow> list_all comp cs \<Longrightarrow> \<forall>e \<in> set es. steady e \<Longrightarrow> in_dir r cs (path_join (mk_path r cs # es))"
  using path_join_steady by (auto simp: in_dir_def)

lemma split_char_ext:
  "sep \<notin> set e \<Longrightarrow> split_char (x @ e) sep = butlast (split_char x sep) @ [last (split_char x sep) @ e]"
proof (induction x)
  case Nil
  then show ?case by (simp add: split_char_no_sep)
next
  case (Cons a x)
  obtain q qs where q: "split_char x sep = q # qs" using split_char_ne[of x sep] by (cases "split_char x sep") auto
  then show ?case using Cons by (cases qs) auto
qed

lemma replace_dot: "CHR ''.'' \<notin> set (replace_char s (CHR ''.'') ''/'')"
  by (auto simp: replace_char_def)

lemma split_char_chars: "c \<in> set (split_char s sep) \<Longrightarrow> set c \<subseteq> set s"
  by (induction s arbitrary: c) (fastforce split: if_splits list.splits)+

lemma steady_no_dot:
  assumes "CHR ''.'' \<notin> set x" "CHR ''/'' \<notin> set e" "\<exists>c \<in> set e. c \<noteq> CHR ''.''"
  shows "steady (x @ e)"
proof -
  have "c \<noteq> ''..''" if "c \<in> set (split_char x (CHR ''/''))" for c
    using split_char_chars[OF that] assms(1) by auto
  moreover have "last (split_char x (CHR ''/'')) @ e \<noteq> ''..''"
  proof
    assume "last (split_char x (CHR ''/'')) @ e = ''..''"
    then have "set e \<subseteq> set ''..''" by (metis Un_upper2 set_append)
    then show False using assms(3) by auto
  qed
  ultimately show ?thesis
    unfolding steady_def split_char_ext[OF assms(2)] by (auto dest: in_set_butlastD)
qed

lemma steady_slash: "steady (moduleSlashPath name @ ''.lua'')" "steady (moduleSlashPath name @ ''.so'')"
  "steady (moduleSlashPath name)" "steady ''lua''" "steady ''lib''" "steady ''bin''" "steady ''conf''" "steady ''init.lua''"
proof -
  show "steady (moduleSlashPath name @ ''.lua'')"
    by (rule steady_no_dot) (simp_all add: moduleSlashPath_def replace_dot)
  show "steady (moduleSlashPath name @ ''.so'')"
    by (rule steady_no_dot) (simp_all add: moduleSlashPath_def replace_dot)
  show "steady (moduleSlashPath name)"
    using split_char_chars[of "''..''" "moduleSlashPath name" "CHR ''/''"] replace_dot[of name]
    by (auto simp: steady_def moduleSlashPath_def)
qed (simp_all add: steady_def)

lemma steady_path_clean: "steady p \<Longrightarrow> steady (path_clean p)"
proof -
  assume st: "steady p"
  have out: "foldl (clean_step r) [] (split_char p (CHR ''/'')) = real_comps p" for r
    using st clean_fold_steady by (simp add: steady_def real_comps_def)
  show ?thesis
  proof (cases "real_comps p = []")
    case True
    then show ?thesis by (simp add: path_clean_def out Let_def steady_def)
  next
    case False
    then have j: "steady (join (real_comps p) ''/'')" using real_comps_comp[OF st] steady_join by blast
    then have "steady (CHR ''/'' # join (real_comps p) ''/'')" by (simp add: steady_def)
    then show ?thesis using j by (simp add: path_clean_def out Let_def steady_def)
  qed
qed

lemma steady_path_join: "\<forall>e \<in> set es. steady e \<Longrightarrow> steady (path_join es)"
proof -
  assume st: "\<forall>e \<in> set es. steady e"
  let ?es = "filter (\<lambda>e. e \<noteq> []) es"
  show ?thesis
  proof (cases "?es = []")
    case True
    then show ?thesis by (simp add: path_join_def steady_def)
  next
    case False
    then have "path_join es = path_clean (join ?es ''/'')" by (simp add: path_join_def split: list.splits)
    moreover have "steady (join ?es ''/'')"
      using st split_join_any[OF False] by (auto simp: steady_def)
    ultimately show ?thesis using steady_path_clean by simp
  qed
qed

text \<open>Everything the builtin backend writes for the modules is in its destination directory.\<close>

lemma module_dst_in_dir:
  assumes "cs \<noteq> []" "list_all comp cs"
  shows "in_dir r cs (lua_module_dst (mk_path r cs) name path)"
    and "fExt f = ''.so'' \<Longrightarrow> in_dir r cs (c_module_dst (mk_path r cs) name f)"
  using in_dir_join[OF assms] steady_slash by (auto simp: lua_module_dst_def c_module_dst_def)

definition steady_install :: "build_install \<Rightarrow> bool" where
  "steady_install bi \<longleftrightarrow> list_all steady (map fst (iBin bi @ iConf bi)) \<and>
     list_all (\<lambda>v. steady (path_base v)) (map snd (iLua bi @ iLib bi))"

lemma mget_value: "k \<in> fst ` set m \<Longrightarrow> mget m k d \<in> snd ` set m"
proof -
  assume "k \<in> fst ` set m"
  then obtain v where v: "map_of m k = Some v" using dom_map_of_iff[of m k] by (cases "map_of m k") auto
  then have "v \<in> snd ` set m" by (metis map_of_SomeD image_eqI snd_conv)
  then show ?thesis using v by (simp add: mget_def)
qed

lemma steady_last_segment: "steady (moduleLastSegment_builtin k @ ''.lua'')"
proof -
  have "CHR ''.'' \<notin> set (moduleLastSegment_builtin k)"
  proof (cases "last_index k (CHR ''.'')")
    case None
    then have "CHR ''.'' \<notin> set k" using last_index_None by metis
    then show ?thesis using None by (simp add: moduleLastSegment_builtin_def)
  next
    case (Some i)
    have "CHR ''.'' \<notin> set (drop (Suc i) k)"
      using Some
    proof (induction k arbitrary: i)
      case (Cons a k)
      then show ?case by (auto simp: last_index_None split: option.splits if_splits)
    qed simp
    then show ?thesis using Some by (simp add: moduleLastSegment_builtin_def)
  qed
  then show ?thesis by (rule steady_no_dot) simp_all
qed

lemma steady_module_dir: "steady (moduleDirPath k)"
proof -
  have "CHR ''.'' \<notin> set (moduleDirPath k)"
    using replace_dot by (auto simp: moduleDirPath_def split: option.splits)
  then have "''..'' \<notin> set (split_char (moduleDirPath k) (CHR ''/''))"
    using split_char_chars[of "''..''" "moduleDirPath k" "CHR ''/''"] by auto
  then show ?thesis by (simp add: steady_def)
qed

lemma install_dst_in_dir:
  assumes "cs \<noteq> []" "list_all comp cs" "steady_install bi" "g \<in> set (install_groups bi)" "k \<in> fst ` set (igEntries g)"
  shows "in_dir r cs (install_dst (mk_path r cs) g k)"
proof -
  let ?v = "path_base (mget (igEntries g) k [])"
  let ?f = "if has_suffix ?v ''.lua'' then moduleLastSegment_builtin k @ ''.lua'' else ?v"
  have m: "mget (igEntries g) k [] \<in> snd ` set (igEntries g)" by (rule mget_value[OF assms(5)])
  have keys: "\<forall>k \<in> fst ` set (iBin bi). steady k" "\<forall>k \<in> fst ` set (iConf bi). steady k"
    and vals: "\<forall>v \<in> snd ` set (iLua bi). steady (path_base v)" "\<forall>v \<in> snd ` set (iLib bi). steady (path_base v)"
    using assms(3) by (simp_all add: steady_install_def list_all_iff)
  have mod: "steady (if igModule g then path_join [moduleDirPath k, ?f] else k)"
  proof (cases "igModule g")
    case True
    then have "igEntries g = iLua bi \<or> igEntries g = iLib bi" using assms(4) by (auto simp: install_groups_def)
    then have "steady ?v" using vals m by metis
    then have "\<forall>e \<in> set [moduleDirPath k, ?f]. steady e"
      using steady_module_dir[of k] steady_last_segment[of k] by simp
    then show ?thesis using True steady_path_join by presburger
  next
    case False
    then have "igEntries g = iBin bi \<or> igEntries g = iConf bi" using assms(4) by (auto simp: install_groups_def)
    then have "steady k" using keys assms(5) by (elim disjE) auto
    then show ?thesis using False by simp
  qed
  have "steady (igSubdir g)" using assms(4) steady_slash(4-7) by (auto simp: install_groups_def)
  then have st: "\<forall>e \<in> set [igSubdir g, if igModule g then path_join [moduleDirPath k, ?f] else k]. steady e"
    using mod by (metis list.set_cases set_ConsD empty_iff empty_set)
  show ?thesis using in_dir_join[OF assms(1,2) st] unfolding install_dst_def Let_def .
qed

section \<open>Frames of the builtin backend\<close>

lemma keeps_on_disk [frame]: "keeps id F m \<Longrightarrow> keeps disk F (on_disk m)"
  by (auto simp: keeps_def on_disk_def split: prod.splits)

lemma keeps_list [frame]:
  "keeps d F m \<Longrightarrow> (\<And>x ys. keeps d F (n x ys)) \<Longrightarrow> keeps d F (case xs of [] \<Rightarrow> m | x # ys \<Rightarrow> n x ys)"
  by (cases xs) auto

text \<open>What a build's processes are expected to leave alone.\<close>

definition process_keeps :: "'w host \<Rightarrow> (string \<Rightarrow> bool) \<Rightarrow> bool" where
  "process_keeps h F \<longleftrightarrow> (\<forall>name args cwd env w p. F p \<longrightarrow>
     file_at (disk (snd (run_process h name args cwd env w))) p = file_at (disk w) p)"

lemma keeps_runCmd: "process_keeps h F \<Longrightarrow> keeps disk F (runCmd h name args cwd env)"
proof (rule keepsI)
  fix w r w' p
  assume k: "process_keeps h F" and e: "runCmd h name args cwd env w = (r, w')" and p: "F p"
  have "w' = snd (run_process h name args cwd (mergeEnv (environ h) env) w)"
    using e by (auto simp: runCmd_def split: prod.splits option.splits)
  then show "file_at (disk w') p = file_at (disk w) p" using k p by (simp add: process_keeps_def)
qed

lemma keeps_copyFile_builtin: "\<not> F dst \<Longrightarrow> keeps id F (copyFile_builtin src dst)"
  unfolding copyFile_builtin_def by (intro frame) auto

lemma keeps_build_module:
  assumes "cs \<noteq> []" "list_all comp cs" "process_keeps h (\<lambda>p. \<not> in_dir r cs p)"
  shows "keeps disk (\<lambda>p. \<not> in_dir r cs p) (build_module h srcDir (mk_path r cs) cfg vars n m)"
proof -
  have c: "keeps disk (\<lambda>p. \<not> in_dir r cs p) (compileModule h srcDir (mk_path r cs) n m' f cfg vars)" for m' f
    unfolding compileModule_def Let_def by (intro frame keeps_runCmd[OF assms(3)])
  have l: "keeps id (\<lambda>p. \<not> in_dir r cs p) (installLuaModule srcDir (mk_path r cs) n path)" for path
    unfolding installLuaModule_def using module_dst_in_dir(1)[OF assms(1,2)] by (intro keeps_copyFile_builtin) simp
  show ?thesis unfolding build_module_def by (intro frame c l)
qed

lemma keeps_installBuildInstall:
  assumes "cs \<noteq> []" "list_all comp cs" "steady_install bi"
  shows "keeps id (\<lambda>p. \<not> in_dir r cs p) (installBuildInstall srcDir (mk_path r cs) bi)"
  unfolding installBuildInstall_def
  using install_dst_in_dir[OF assms] by (intro frame keeps_copyFile_builtin) (auto simp: install_groups_def)

lemma runBuiltin_eq: "runBuiltin h spec0 srcDir destDir cfg w =
  (let spec = detected (disk w) spec0 srcDir; b = bFields (rBuild spec); names = sorted_keys (bModules b);
       vars = buildVars h spec cfg; entry = (\<lambda>n. mget (bModules b) n zero_module)
   in (case filter (\<lambda>n. needsCC (entry n) \<and> ttIncludeDir (cfgTarantool cfg) = []) names of
          n # ns \<Rightarrow> fail_io (MissingHeaders n)
        | [] \<Rightarrow>
           bind_io (each_io (\<lambda>n _. build_module h srcDir destDir cfg vars n (entry n)) names ()) (\<lambda>_.
           bind_io (on_disk (installBuildInstall srcDir destDir (bInstall b))) (\<lambda>_.
           bind_io (each_io (\<lambda>d _. map_err (InCopyDirectory d)
               (on_disk (copyDir_builtin (path_join [srcDir, d]) (path_join [destDir, d])))) (bCopyDirectories b) ()) (\<lambda>_.
           ret spec)))) w)"
  by (simp add: runBuiltin_def bind_io_def[of "get _"] get_def Let_def)

text \<open>
  C24: The builtin backend changes no file outside its destination directory, whatever its modules
  are called and on every path through it, when the processes it starts keep to that directory,
  the names under \<open>build.install\<close> do not climb and there is no directory to copy.
\<close>

theorem builtin_confined:
  assumes "runBuiltin h spec0 srcDir (mk_path r cs) cfg w = (res, w')"
    and "cs \<noteq> []" "list_all comp cs"
    and "process_keeps h (\<lambda>p. \<not> in_dir r cs p)"
    and "b = bFields (rBuild (detected (disk w) spec0 srcDir))"
    and "steady_install (bInstall b)" "bCopyDirectories b = []"
    and "\<not> in_dir r cs p"
  shows "file_at (disk w') p = file_at (disk w) p"
proof -
  let ?F = "\<lambda>p. \<not> in_dir r cs p"
  let ?spec = "detected (disk w) spec0 srcDir"
  let ?entry = "\<lambda>n. mget (bModules b) n zero_module"
  let ?prog = "case filter (\<lambda>n. needsCC (?entry n) \<and> ttIncludeDir (cfgTarantool cfg) = []) (sorted_keys (bModules b)) of
      n # ns \<Rightarrow> fail_io (MissingHeaders n)
    | [] \<Rightarrow>
       bind_io (each_io (\<lambda>n _. build_module h srcDir (mk_path r cs) cfg (buildVars h ?spec cfg) n (?entry n))
         (sorted_keys (bModules b)) ()) (\<lambda>_.
       bind_io (on_disk (installBuildInstall srcDir (mk_path r cs) (bInstall b))) (\<lambda>_.
       bind_io (each_io (\<lambda>d _. map_err (InCopyDirectory d)
           (on_disk (copyDir_builtin (path_join [srcDir, d]) (path_join [mk_path r cs, d])))) (bCopyDirectories b) ()) (\<lambda>_.
       ret ?spec)))"
  have "keeps disk ?F ?prog"
    by (intro frame keeps_build_module[OF assms(2-4)] keeps_installBuildInstall[OF assms(2,3,6)]) (simp add: assms(7))
  moreover have "?prog w = (res, w')"
    using assms(1) unfolding runBuiltin_eq Let_def assms(5) .
  ultimately show ?thesis using keepsD[of disk ?F ?prog w res w' p] assms(8) by simp
qed

text \<open>
  A rock with a C module stops before anything is written and before any process is started
  when no headers are configured.
\<close>

theorem missing_headers:
  assumes "bType (bFields (rBuild spec)) \<in> {[], ''builtin''}"
    and "b = bFields (rBuild (detected (disk w) spec srcDir))"
    and "n \<in> fst ` set (bModules b)" "needsCC (mget (bModules b) n zero_module)"
    and "ttIncludeDir (cfgTarantool cfg) = []"
  shows "\<exists>n'. RunBackend h spec srcDir destDir cfg w = (Inl (MissingHeaders n'), w) \<and>
    n' \<in> fst ` set (bModules b) \<and> needsCC (mget (bModules b) n' zero_module)"
proof -
  let ?P = "\<lambda>n. needsCC (mget (bModules b) n zero_module) \<and> ttIncludeDir (cfgTarantool cfg) = []"
  let ?ns = "filter ?P (sorted_keys (bModules b))"
  have "n \<in> set ?ns" using assms(3-5) by simp
  then obtain n' ns where ns: "?ns = n' # ns" by (cases ?ns) auto
  then have "n' \<in> set ?ns" by simp
  then have "n' \<in> fst ` set (bModules b) \<and> needsCC (mget (bModules b) n' zero_module)" by simp
  moreover have "RunBackend h spec srcDir destDir cfg w = (Inl (MissingHeaders n'), w)"
    using assms(1) ns unfolding assms(2) by (auto simp: RunBackend_def runBuiltin_eq Let_def fail_io_def)
  ultimately show ?thesis by blast
qed

section \<open>A found module goes where it was\<close>

lemma names_agree: "moduleNameFromPath = pathToModule" "moduleSlashPath = slashed"
  by (auto simp: moduleNameFromPath_def pathToModule_def moduleSlashPath_def slashed_def)

text \<open>
  A Lua file the scan finds is installed under the \<open>lua\<close> directory at the path it has below
  the directory the scan started in, an \<open>init.lua\<close> in a package included.
\<close>

theorem autodetected_in_place:
  assumes "good_segs segs" "segs \<noteq> [''init'']" and "cs \<noteq> []" "list_all comp cs"
    and "prefix0 \<in> {[], ''src/'', ''lua/'', ''lib/''}" and "rel = join segs ''/'' @ ''.lua''"
  shows "lua_module_dst (mk_path r cs) (moduleNameFromPath rel) (prefix0 @ rel)
      = mk_path r (cs @ [''lua''] @ butlast segs @ [last segs @ ''.lua''])"
proof -
  let ?file = "last segs @ ''.lua''" and ?name = "join segs ''.''"
  have ne: "segs \<noteq> []" and sc: "list_all comp segs" using assms(1) good_segs_comp by (auto simp: good_segs_def)
  have lc: "list_all comp (butlast segs @ [?file])" using comp_ext[OF assms(1), of "''.lua''"] by simp
  then have fc: "comp ?file" by simp
  have name: "moduleNameFromPath rel = ?name"
    using pathToModule_join[OF assms(1), of "''lua''"] by (simp add: names_agree assms(6))
  have rel: "rel = join (butlast segs @ [?file]) ''/''" using join_snoc_ext[OF ne, of "''/''" "''.lua''"] assms(6) by simp
  have base: "path_base (prefix0 @ rel) = ?file"
  proof (cases "prefix0 = [] \<and> butlast segs = []")
    case True
    then have r: "prefix0 @ rel = ?file" by (simp add: rel)
    have "CHR ''/'' \<notin> set ?file" "?file \<noteq> []" using fc by (simp_all add: comp_def)
    moreover have "trim_right_char ?file (CHR ''/'') = ?file" by (simp add: trim_right_char_def)
    ultimately show ?thesis
      using last_index_None[of ?file "CHR ''/''"] by (simp add: path_base_def r Let_def)
  next
    case False
    define pre where "pre = (if prefix0 = [] then [] else [butlast prefix0]) @ butlast segs"
    have "prefix0 @ rel = mk_path False (pre @ [?file])"
      using assms(5) by (auto simp: mk_path_def pre_def rel join_Cons)
    moreover have "pre \<noteq> []" using False by (simp add: pre_def)
    ultimately show ?thesis using path_base_mk[OF _ fc] by simp
  qed
  have down: "path_join [mk_path r cs, ''lua'', moduleSlashPath ?name @ ''.lua''] = mk_path r (cs @ [''lua''] @ butlast segs @ [?file])"
  proof -
    have sl: "moduleSlashPath ?name @ ''.lua'' = join (butlast segs @ [?file]) ''/''"
      using slashed_join[OF assms(1)] join_snoc_ext[OF ne, of "''/''" "''.lua''"] by (simp add: names_agree)
    have "\<forall>d \<in> set [[''lua''], butlast segs @ [?file]]. d \<noteq> [] \<and> list_all comp d" using lc by (simp add: comp_def)
    from path_join_mk[OF assms(3,4) this, of r] show ?thesis by (simp add: sl)
  qed
  have "has_suffix ?name ''.init''" if i: "?file = ''init.lua''"
  proof -
    have "last segs @ ''.lua'' = ''init'' @ ''.lua''" using i by simp
    then have l: "last segs = ''init''" by (rule append_same_eq[THEN iffD1])
    have b: "butlast segs \<noteq> []"
    proof
      assume "butlast segs = []"
      then have "segs = [last segs]" using append_butlast_last_id[OF ne] by simp
      then show False using l assms(2) by simp
    qed
    have "?name = join (butlast segs) ''.'' @ ''.'' @ ''init''"
      using join_append[OF b, of "[''init'']" "''.''"] l append_butlast_last_id[OF ne] by simp
    then show ?thesis by (auto simp: has_suffix_iff)
  qed
  then show ?thesis using down base by (auto simp: lua_module_dst_def name)
qed

theorem autodetected_in_place_witness:
  "good_segs [''a'', ''init''] \<and> lua_module_dst (mk_path True [''d'']) (moduleNameFromPath ''a/init.lua'') ''src/a/init.lua''
    = ''/d/lua/a/init.lua''"
  using autodetected_in_place[of "[''a'', ''init'']" "[''d'']" "''src/''" "''a/init.lua''" True]
  by (simp add: good_segs_def comp_def mk_path_def)

section \<open>A small build\<close>

definition quiet_host :: "'w host" where
  "quiet_host = \<lparr>getenv = (\<lambda>_. []), environ = [], goos = ''linux'', run_process = (\<lambda>name args cwd env w. (None, w))\<rparr>"

definition demo_config :: config where
  "demo_config = \<lparr>cfgTree = ''/t'', cfgWorkingDir = ''/w'',
     cfgTarantool = \<lparr>ttExecutable = ''tarantool'', ttPrefix = [], ttIncludeDir = [], ttVersion = []\<rparr>,
     cfgServers = [], cfgInsecureServers = []\<rparr>"

definition demo_spec :: rockspec where
  "demo_spec = zero_rockspec\<lparr>rPackage := ''m'', rVersion := ''1-1'',
     rBuild := Build (zero_build_tbl\<lparr>bModules := [(''m'', zero_module\<lparr>mPath := ''m.lua''\<rparr>)]\<rparr>) []\<rparr>"

definition c_spec :: rockspec where
  "c_spec = zero_rockspec\<lparr>rPackage := ''m'', rVersion := ''1-1'',
     rBuild := Build (zero_build_tbl\<lparr>bModules := [(''m'', zero_module\<lparr>mSources := [''m.c'']\<rparr>)]\<rparr>) []\<rparr>"

definition demo_disk :: fs where
  "demo_disk = \<lparr>nodes = [(''/s'', NDir), (''/s/m.lua'', NFile ''return 1'' 420), (''/d'', NDir)], ticks = 0, faults = (\<lambda>_. None)\<rparr>"

theorem missing_headers_witness:
  "\<exists>n. RunBackend quiet_host c_spec ''/s'' ''/d'' demo_config \<lparr>disk = demo_disk, manifests = [], outside = ()\<rparr>
    = (Inl (MissingHeaders n), \<lparr>disk = demo_disk, manifests = [], outside = ()\<rparr>)"
  using missing_headers[of c_spec "bFields (rBuild c_spec)" "\<lparr>disk = demo_disk, manifests = [], outside = ()\<rparr>" "''/s''" "''m''"
      demo_config quiet_host "''/d''"]
  by (auto simp: c_spec_def zero_rockspec_def zero_build_tbl_def detected_def needsCC_def mget_def zero_module_def demo_config_def)

theorem builtin_confined_witness:
  "file_at (disk (snd (runBuiltin quiet_host demo_spec ''/s'' ''/d'' demo_config
     \<lparr>disk = demo_disk, manifests = [], outside = ()\<rparr>))) ''/s/m.lua'' = Some ''return 1''"
proof -
  let ?w = "\<lparr>disk = demo_disk, manifests = [], outside = ()\<rparr>"
  have d: "mk_path True [''d''] = ''/d''" by (simp add: mk_path_def)
  obtain res w' where r: "runBuiltin quiet_host demo_spec ''/s'' (mk_path True [''d'']) demo_config ?w = (res, w')"
    by (cases "runBuiltin quiet_host demo_spec ''/s'' (mk_path True [''d'']) demo_config ?w")
  have "\<not> in_dir True [''d''] ''/s/m.lua''"
  proof
    assume "in_dir True [''d''] ''/s/m.lua''"
    then obtain ds where "''/s/m.lua'' = mk_path True (''d'' # ds)" by (auto simp: in_dir_def)
    then show False by (cases ds) (simp_all add: mk_path_def)
  qed
  then have "file_at (disk w') ''/s/m.lua'' = file_at (disk ?w) ''/s/m.lua''"
    using builtin_confined[OF r, of "bFields (rBuild demo_spec)" "''/s/m.lua''"]
    by (simp add: comp_def process_keeps_def quiet_host_def demo_spec_def zero_rockspec_def zero_build_tbl_def detected_def
        steady_install_def zero_install_def)
  then show ?thesis using r by (simp add: d demo_disk_def file_at_def)
qed

theorem make_variables_witness:
  "map_of (prepareMakeVars quiet_host (mergeVars [(''A'', ''1''), (''B'', ''x'')] [(''A'', ''$(LUA)'')]) [(''LUA'', ''t'')] demo_config) ''A''
    = Some (substituteVars ''$(LUA)'' [(''LUA'', ''t'')])"
  using make_variables[of "[(''A'', ''1''), (''B'', ''x'')]" "[(''A'', ''$(LUA)'')]" quiet_host "[(''LUA'', ''t'')]" demo_config "''A''"]
  by simp

text \<open>A name under \<open>build.install.bin\<close> may climb out of the destination directory.\<close>

lemma install_name_climbs:
  "install_dst ''/t/d'' (install_groups (zero_install\<lparr>iBin := [(''../../../x'', ''run'')]\<rparr>) ! 2) ''../../../x'' = ''/x''"
  by code_simp

end
