(* ===== verification/TreeDeploy.thy ===== *)
theory TreeDeploy
  imports TreePaths ManifStore FsMonad
begin

text \<open>
  Deploying a built rock into the tree and removing it again: \<open>resolveSpot\<close> of
  \<open>src/tree/conflicts.go\<close> and the stages of \<open>src/tree/deploy.go\<close>, as functions of the file
  system. Two things the code gets from elsewhere are parameters: \<open>md5\<close>, the digest of a file
  content as hexadecimal text, and \<open>isLua\<close>, whether a file parses as Lua source (gopher-lua).
\<close>

type_synonym 'a io = "fs \<Rightarrow> (tree_error + 'a) \<times> fs"

definition dirPerm :: int where "dirPerm = 488"
definition filePerm :: int where "filePerm = 420"
definition execPerm :: int where "execPerm = 493"

section \<open>Conflicts\<close>

definition currentProvider :: "tree \<Rightarrow> string \<Rightarrow> (string \<times> string) option" where
  "currentProvider t item = (case tProvider t of
     None \<Rightarrow> None
   | Some provider \<Rightarrow> (case provider item of
       Some nv \<Rightarrow> Some nv
     | None \<Rightarrow> (if has_suffix item ''.init'' then provider (trim_suffix item ''.init'') else None)))"

text \<open>Whether the new file takes the plain path.\<close>

definition new_wins :: "(string \<times> string) option \<Rightarrow> string \<Rightarrow> string \<Rightarrow> bool" where
  "new_wins cur newName newVer = (case cur of
     None \<Rightarrow> True
   | Some (curName, curVer) \<Rightarrow>
       newName < curName \<or> newName = curName \<and> (newVer = curVer \<or> versionGreater newVer curVer))"

definition resolveSpot :: "tree \<Rightarrow> string \<Rightarrow> string \<Rightarrow> string \<Rightarrow> string \<Rightarrow> string \<Rightarrow> string io" where
  "resolveSpot t deployDir plainTarget item newName newVer s =
     (let cur = currentProvider t item in
      if \<not> new_wins cur newName newVer then (Inr (MungedPath deployDir plainTarget newName newVer), s)
      else if os_stat s plainTarget = None then (Inr plainTarget, s)
      else (case cur of
        Some (curName, curVer) \<Rightarrow>
          (if curName \<noteq> newName \<or> curVer \<noteq> newVer then
             (let demoted = MungedPath deployDir plainTarget curName curVer in
              bind_io (act TreeMkdir (os_mkdir_all (path_dir demoted)))
                (\<lambda>_. bind_io (act TreeRename (os_rename plainTarget demoted)) (\<lambda>_. ret plainTarget)) s)
           else (Inr plainTarget, s))
      | None \<Rightarrow> bind_io (act TreeRename (os_rename plainTarget (plainTarget @ ''~''))) (\<lambda>_. ret plainTarget) s))"

section \<open>Copying files\<close>

text \<open>
  The destination is truncated before the source is read, and a directory can be opened but not
  read.
\<close>

definition copyFile :: "(string \<Rightarrow> string) \<Rightarrow> string \<Rightarrow> string \<Rightarrow> int \<Rightarrow> string io" where
  "copyFile md5 src dst mode =
     bind_io (act TreeMkdir (os_mkdir_all (path_dir dst))) (\<lambda>_ s.
       if os_stat s src = None then (Inl (TreeOpen src), s)
       else bind_io (act TreeCreate (os_create dst mode)) (\<lambda>_ s.
         (case os_read s src of
            Inl e \<Rightarrow> (let (_, s') = os_close s in (Inl (TreeCopy e), s'))
          | Inr c \<Rightarrow> (case os_append dst s c of
              (Some e, s1) \<Rightarrow> (let (_, s2) = os_close s1 in (Inl (TreeCopy e), s2))
            | (None, s1) \<Rightarrow> bind_io (act TreeClose os_close) (\<lambda>_. ret (md5 c)) s1))) s)"

definition rel_io :: "string \<Rightarrow> string \<Rightarrow> string io" where
  "rel_io base targ s = (case path_rel base targ of None \<Rightarrow> (Inl NoRelativePath, s) | Some r \<Rightarrow> (Inr r, s))"

definition mode_of :: "fs \<Rightarrow> string \<Rightarrow> int" where
  "mode_of s p = (case map_of (nodes s) p of Some (NFile c m) \<Rightarrow> m | _ \<Rightarrow> 0)"

definition copyTree :: "(string \<Rightarrow> string) \<Rightarrow> string \<Rightarrow> string \<Rightarrow> rock_manifest \<Rightarrow> string \<Rightarrow> rock_manifest io" where
  "copyTree md5 src dst rm topName s =
     (case os_stat s src of
        None \<Rightarrow> (Inl (TreeStat src), s)
      | Some (NFile c m) \<Rightarrow> (Inl (NotADirectory src), s)
      | Some NDir \<Rightarrow> each_io (\<lambda>p rm. bind_io (rel_io src p) (\<lambda>rel s.
          (let target = path_join [dst, rel] in
           if os_stat s p = Some NDir then
             bind_io (act TreeMkdir (os_mkdir_all target)) (\<lambda>_. ret rm) s
           else bind_io (copyFile md5 p target (mode_of s p)) (\<lambda>digest.
             ret (if topName = ''doc'' then rm\<lparr>rmDoc := mput rel digest (rmDoc rm)\<rparr> else rm)) s)))
          (walk_paths s src) rm s)"

section \<open>The stages of a deployment\<close>

definition record_file :: "kind \<Rightarrow> string \<Rightarrow> string \<Rightarrow> rock_manifest \<Rightarrow> rock_manifest" where
  "record_file k rel digest rm = (case k of
     KindLua \<Rightarrow> rm\<lparr>rmLua := mput rel digest (rmLua rm)\<rparr> | KindLib \<Rightarrow> rm\<lparr>rmLib := mput rel digest (rmLib rm)\<rparr>)"

definition kind_mode :: "kind \<Rightarrow> int" where
  "kind_mode k = (case k of KindLua \<Rightarrow> filePerm | KindLib \<Rightarrow> execPerm)"

definition deployRockspec :: "(string \<Rightarrow> string) \<Rightarrow> tree \<Rightarrow> rockspec \<Rightarrow> rock_manifest \<Rightarrow> rock_manifest io" where
  "deployRockspec md5 t spec rm =
     (if length (rRawSource spec) = 0 then ret rm
      else let rockspecName = rPackage spec @ ''-'' @ rVersion spec @ ''.rockspec'';
               dst = path_join [InstallDir (tTree t) (rPackage spec) (rVersion spec), rockspecName]
           in bind_io (act TreeMkdir (os_mkdir_all (path_dir dst))) (\<lambda>_.
              bind_io (act TreeWrite (os_write_file dst (rRawSource spec) filePerm)) (\<lambda>_.
              ret (rm\<lparr>rmRockspecFile := rockspecName, rmRockspec := md5 (rRawSource spec)\<rparr>))))"

text \<open>
  What the module stages and the scan of installed files share: find the spot for a file in a
  deploy directory, copy it there and record it under its path in that directory.
\<close>

definition deploy_file :: "(string \<Rightarrow> string) \<Rightarrow> tree \<Rightarrow> rockspec \<Rightarrow> kind \<Rightarrow> string \<Rightarrow> string \<Rightarrow>
    rock_manifest \<Rightarrow> rock_manifest io" where
  "deploy_file md5 t spec k src dst rm =
     (let deployDir = deployDirForKind (tTree t) k in
      bind_io (rel_io deployDir dst) (\<lambda>plainRel.
      bind_io (resolveSpot t deployDir dst (pathToModule plainRel) (rPackage spec) (rVersion spec)) (\<lambda>finalPath.
      bind_io (copyFile md5 src finalPath (kind_mode k)) (\<lambda>digest.
      bind_io (rel_io deployDir finalPath) (\<lambda>rel. ret (record_file k rel digest rm))))))"

definition deployModules :: "(string \<Rightarrow> string) \<Rightarrow> tree \<Rightarrow> rockspec \<Rightarrow> string \<Rightarrow> string \<Rightarrow> rock_manifest \<Rightarrow> rock_manifest io" where
  "deployModules md5 t spec srcDir buildDir rm =
     each_io (\<lambda>(modName, m) rm. case resolveModule srcDir buildDir modName m (tTree t) of
         Inl e \<Rightarrow> fail_io e
       | Inr (src, dst, k) \<Rightarrow> deploy_file md5 t spec k src dst rm)
       (bModules (bFields (rBuild spec))) rm"

definition deployInstallModulePaths :: "(string \<Rightarrow> string) \<Rightarrow> tree \<Rightarrow> rockspec \<Rightarrow> string \<Rightarrow> rock_manifest \<Rightarrow> rock_manifest io" where
  "deployInstallModulePaths md5 t spec srcDir rm =
     (let inst = bInstall (bFields (rBuild spec)) in
      each_io (\<lambda>(entries, k) rm. each_io (\<lambda>(key, srcRel) rm.
          deploy_file md5 t spec k (path_join [srcDir, srcRel])
            (installDest (deployDirForKind (tTree t) k) key srcRel True) rm) entries rm)
        [(iLua inst, KindLua), (iLib inst, KindLib)] rm)"

definition deployInstallConf :: "(string \<Rightarrow> string) \<Rightarrow> tree \<Rightarrow> rockspec \<Rightarrow> string \<Rightarrow> rock_manifest \<Rightarrow> rock_manifest io" where
  "deployInstallConf md5 t spec srcDir rm =
     (let confDir = ConfDir (tTree t) (rPackage spec) (rVersion spec) in
      each_io (\<lambda>(key, srcRel) rm.
        (let dst = path_join [confDir, path_clean key] in
         bind_io (copyFile md5 (path_join [srcDir, srcRel]) dst filePerm) (\<lambda>digest.
         bind_io (rel_io confDir dst) (\<lambda>rel. ret (rm\<lparr>rmConf := mput rel digest (rmConf rm)\<rparr>)))))
       (iConf (bInstall (bFields (rBuild spec)))) rm)"

definition deployInstallBin :: "(string \<Rightarrow> string) \<Rightarrow> (fs \<Rightarrow> string \<Rightarrow> bool) \<Rightarrow> tree \<Rightarrow> rockspec \<Rightarrow> string \<Rightarrow>
    rock_manifest \<Rightarrow> rock_manifest io" where
  "deployInstallBin md5 isLua t spec srcDir rm =
     (let installDir = InstallDir (tTree t) (rPackage spec) (rVersion spec); binDir = BinDir (tTree t) in
      each_io (\<lambda>(key, srcRel) rm s.
        (let src = path_join [srcDir, srcRel]; rel = path_clean key; plain = path_join [binDir, rel];
             spot = resolveSpot t binDir plain rel (rPackage spec) (rVersion spec)
         in case tBinWrap t of
              None \<Rightarrow> bind_io spot (\<lambda>dst. bind_io (copyFile md5 src dst execPerm) (\<lambda>digest.
                bind_io (rel_io binDir dst) (\<lambda>r. ret (rm\<lparr>rmBin := mput r digest (rmBin rm)\<rparr>)))) s
            | Some bw \<Rightarrow>
                (if \<not> isLua s src then bind_io spot (\<lambda>dst. bind_io (copyFile md5 src dst execPerm) (\<lambda>digest.
                   bind_io (rel_io binDir dst) (\<lambda>r. ret (rm\<lparr>rmBin := mput r digest (rmBin rm)\<rparr>)))) s
                 else (let realScript = path_join [installDir, ''bin'', rel] in
                   bind_io (copyFile md5 src realScript execPerm) (\<lambda>digest.
                   bind_io spot (\<lambda>wrapperDst.
                   bind_io (act TreeMkdir (os_mkdir_all (path_dir wrapperDst))) (\<lambda>_.
                   bind_io (act TreeWrite (os_write_file wrapperDst
                     (binWrapperScript (tTree t) bw realScript (rPackage spec) (rVersion spec)) execPerm)) (\<lambda>_.
                   ret (rm\<lparr>rmBin := mput rel digest (rmBin rm)\<rparr>))))) s))))
       (iBin (bInstall (bFields (rBuild spec)))) rm)"

definition deployCopyDirectories :: "(string \<Rightarrow> string) \<Rightarrow> tree \<Rightarrow> rockspec \<Rightarrow> string \<Rightarrow> rock_manifest \<Rightarrow> rock_manifest io" where
  "deployCopyDirectories md5 t spec srcDir rm =
     each_io (\<lambda>dir rm. copyTree md5 (path_join [srcDir, dir])
         (path_join [InstallDir (tTree t) (rPackage spec) (rVersion spec), dir]) rm dir)
       (bCopyDirectories (bFields (rBuild spec))) rm"

text \<open>
  The subtrees a build backend filled. A moved file is removed where it was, and the directories
  that emptied are pruned. Pruning recurses as deep as the tree is, which the number of nodes
  bounds.
\<close>

fun pruneEmptyDirs :: "nat \<Rightarrow> string \<Rightarrow> fs \<Rightarrow> fs" where
  "pruneEmptyDirs 0 dir s = s"
| "pruneEmptyDirs (Suc n) dir s = (case os_read_dir s dir of
     None \<Rightarrow> s
   | Some names \<Rightarrow>
      (let s = foldl (\<lambda>s e. let p = path_join [dir, e] in if is_dir s p then pruneEmptyDirs n p s else s) s names
       in if os_read_dir s dir = Some [] then snd (os_remove dir s) else s))"

definition deployInstalledSubtree :: "(string \<Rightarrow> string) \<Rightarrow> tree \<Rightarrow> string \<Rightarrow> kind \<Rightarrow> bool \<Rightarrow> rockspec \<Rightarrow>
    rock_manifest \<Rightarrow> rock_manifest io" where
  "deployInstalledSubtree md5 t srcDir k move spec rm s =
     (if os_stat s srcDir \<noteq> Some NDir then (Inr rm, s)
      else let deployDir = deployDirForKind (tTree t) k in
        bind_io (each_io (\<lambda>p rm s.
          if os_stat s p = Some NDir then (Inr rm, s)
          else bind_io (rel_io srcDir p) (\<lambda>rel.
            bind_io (resolveSpot t deployDir (path_join [deployDir, rel]) (pathToModule rel) (rPackage spec) (rVersion spec)) (\<lambda>dst.
            bind_io (copyFile md5 p dst (kind_mode k)) (\<lambda>digest.
            bind_io (rel_io deployDir dst) (\<lambda>r.
            (let rm' = record_file k r digest rm in
             if move then bind_io (act TreeRemove (os_remove p)) (\<lambda>_. ret rm') else ret rm'))))) s)
          (walk_paths s srcDir) rm)
        (\<lambda>rm s. (Inr rm, if move then pruneEmptyDirs (length (nodes s)) srcDir s else s)) s)"

definition deployInstalledSubtrees :: "(string \<Rightarrow> string) \<Rightarrow> tree \<Rightarrow> rockspec \<Rightarrow> string \<Rightarrow> rock_manifest \<Rightarrow> rock_manifest io" where
  "deployInstalledSubtrees md5 t spec buildDir rm =
     (let inst = InstallDir (tTree t) (rPackage spec) (rVersion spec);
          roots = (if buildDir = [] then [] else [(buildDir, False)]) @
                  (if inst = [] \<or> (buildDir \<noteq> [] \<and> path_clean inst = path_clean buildDir) then [] else [(inst, True)])
      in each_io (\<lambda>(dir, move) rm. each_io (\<lambda>(k, sub) rm.
            deployInstalledSubtree md5 t (path_join [dir, sub]) k move spec rm)
          [(KindLua, ''lua''), (KindLib, ''lib'')] rm) roots rm)"

definition empty_rock_manifest :: rock_manifest where
  "empty_rock_manifest = \<lparr>rmRockspecFile = [], rmRockspec = [], rmLua = [], rmLib = [], rmBin = [], rmConf = [], rmDoc = []\<rparr>"

definition Deploy :: "(string \<Rightarrow> string) \<Rightarrow> (fs \<Rightarrow> string \<Rightarrow> bool) \<Rightarrow> tree \<Rightarrow> rockspec option \<Rightarrow> string \<Rightarrow> string \<Rightarrow> rock_manifest io" where
  "Deploy md5 isLua t sp srcDir buildDir0 = (case sp of
     None \<Rightarrow> fail_io NilRockspec
   | Some spec \<Rightarrow>
      (if rPackage spec = [] \<or> rVersion spec = [] then fail_io NoPackageVersion
       else let buildDir = (if buildDir0 = [] then srcDir else buildDir0) in
         bind_io (deployRockspec md5 t spec empty_rock_manifest) (\<lambda>rm.
         bind_io (deployModules md5 t spec srcDir buildDir rm) (\<lambda>rm.
         bind_io (deployInstallModulePaths md5 t spec srcDir rm) (\<lambda>rm.
         bind_io (deployInstallConf md5 t spec srcDir rm) (\<lambda>rm.
         bind_io (deployInstallBin md5 isLua t spec srcDir rm) (\<lambda>rm.
         bind_io (deployCopyDirectories md5 t spec srcDir rm) (\<lambda>rm.
         deployInstalledSubtrees md5 t spec buildDir rm))))))))"

section \<open>Removing a version\<close>

definition remove_files :: "string \<Rightarrow> (string, string) gomap \<Rightarrow> fs \<Rightarrow> fs" where
  "remove_files dir files s = foldl (\<lambda>s (rel, _). snd (os_remove (path_join [dir, rel]) s)) s files"

definition DeleteVersion :: "(lval \<Rightarrow> string) \<Rightarrow> string \<Rightarrow> string \<Rightarrow> string \<Rightarrow> fs \<Rightarrow> tree_error option \<times> fs" where
  "DeleteVersion sprintv t name ver s =
     (let installDir = InstallDir t name ver;
          s1 = (case ReadRock sprintv s (path_join [installDir, ''rock_manifest'']) of
                  Inl _ \<Rightarrow> s
                | Inr rm \<Rightarrow> remove_files (BinDir t) (rmBin rm)
                    (remove_files (DeployLibDir t) (rmLib rm) (remove_files (DeployLuaDir t) (rmLua rm) s)))
      in case os_remove_all installDir s1 of
           (Some e, s2) \<Rightarrow> (Some (TreeRemove e), s2)
         | (None, s2) \<Rightarrow>
             (let nameDir = path_join [RocksDir t, name] in
              (None, if os_read_dir s2 nameDir = Some [] then snd (os_remove nameDir s2) else s2)))"

section \<open>Who gets the plain path\<close>

lemma versionGreater_asym: "versionGreater a b \<Longrightarrow> \<not> versionGreater b a"
proof -
  assume "versionGreater a b"
  then obtain av bv where p: "ParseVersion a = Inr av" "ParseVersion b = Inr bv" and c: "Compare av bv > 0"
    by (auto simp: versionGreater_def split: sum.splits)
  have "Compare bv av < 0" using c Compare_flip[of bv av] by simp
  then show "\<not> versionGreater b a" using p by (simp add: versionGreater_def)
qed

text \<open>
  Which of two providers of a file holds the plain path does not depend on the order they are
  installed in: never both of two different providers win against each other, and exactly one
  does when their names differ or their versions compare as different.
\<close>

theorem spot_priority:
  assumes "(n1, v1) \<noteq> (n2, v2)"
  shows "\<not> (new_wins (Some (n2, v2)) n1 v1 \<and> new_wins (Some (n1, v1)) n2 v2) \<and>
    (n1 \<noteq> n2 \<or> versionGreater v1 v2 \<or> versionGreater v2 v1 \<longrightarrow>
       new_wins (Some (n2, v2)) n1 v1 \<or> new_wins (Some (n1, v1)) n2 v2)"
  using assms versionGreater_asym by (auto simp: new_wins_def)

theorem spot_priority_witness: "new_wins (Some (''a'', ''1-1'')) ''a'' ''2-1'' \<and> \<not> new_wins (Some (''a'', ''2-1'')) ''a'' ''1-1''"
proof -
  have "new_wins (Some (''a'', ''1-1'')) ''a'' ''2-1''" by code_simp
  then show ?thesis using spot_priority[of "''a''" "''1-1''" "''a''" "''2-1''"] by simp
qed

section \<open>What the steps do to the files\<close>

lemma os_stat_file: "file_at s p = Some c \<Longrightarrow> p \<noteq> ''/'' \<Longrightarrow> p \<noteq> ''.'' \<Longrightarrow> os_stat s p \<noteq> None"
  by (auto simp: file_at_def os_stat_def is_dir_def split: option.splits)

lemma rename_file:
  assumes "os_rename src dst s = (e, s')" and "file_at s src = Some c"
  shows "file_at s' (if e = None then dst else src) = Some c"
    and "q \<noteq> src \<Longrightarrow> q \<noteq> dst \<Longrightarrow> file_at s' q = file_at s q"
  using os_rename_files[OF assms(1)] assms(2) by auto

text \<open>
  C16: Making room for a file never loses the one that is there: whatever happens, an error halfway
  included, the content of the plain path is still at the plain path, at the versioned path of
  the rock it belongs to, or in the backup file, and no other file changes.
\<close>

theorem resolveSpot_keeps:
  assumes "resolveSpot t deployDir plain item n v s = (r, s')" and "file_at s plain = Some c"
  shows "(\<exists>q. file_at s' q = Some c \<and> (q = plain \<or> q = plain @ ''~'' \<or>
      (\<exists>cn cv. currentProvider t item = Some (cn, cv) \<and> q = MungedPath deployDir plain cn cv))) \<and>
    (\<forall>q. q \<noteq> plain \<longrightarrow> q \<noteq> plain @ ''~'' \<longrightarrow>
       (\<forall>cn cv. currentProvider t item = Some (cn, cv) \<longrightarrow> q \<noteq> MungedPath deployDir plain cn cv) \<longrightarrow>
       file_at s' q = file_at s q)"
proof (cases "s' = s")
  case True
  then show ?thesis using assms(2) by auto
next
  case False
  show ?thesis
  proof (cases "currentProvider t item")
    case None
    have "bind_io (act TreeRename (os_rename plain (plain @ ''~''))) (\<lambda>_. ret plain) s = (r, s')"
      using assms(1) False None by (auto simp: resolveSpot_def Let_def new_wins_def split: if_splits)
    then obtain e where rn: "os_rename plain (plain @ ''~'') s = (e, s')"
      by (auto simp: bind_io_eq act_ok act_error ret_def)
    have "\<exists>q. file_at s' q = Some c \<and> (q = plain \<or> q = plain @ ''~'')"
      using rename_file(1)[OF rn assms(2)] by (cases e) auto
    then show ?thesis using rename_file(2)[OF rn assms(2)] None by auto
  next
    case (Some cur)
    obtain cn cv where cur: "cur = (cn, cv)" by (cases cur)
    let ?d = "MungedPath deployDir plain cn cv"
    have "bind_io (act TreeMkdir (os_mkdir_all (path_dir ?d)))
        (\<lambda>_. bind_io (act TreeRename (os_rename plain ?d)) (\<lambda>_. ret plain)) s = (r, s')"
      using assms(1) False Some cur by (auto simp: resolveSpot_def Let_def split: if_splits)
    then obtain e1 s1 where m: "os_mkdir_all (path_dir ?d) s = (e1, s1)"
      and rest: "s' = s1 \<or> (\<exists>e. os_rename plain ?d s1 = (e, s'))"
      by (auto simp: bind_io_eq act_ok act_error ret_def)
    have f: "file_at s1 q = file_at s q" for q using os_mkdir_all_files[OF m] .
    from rest show ?thesis
    proof
      assume "s' = s1"
      then show ?thesis using f assms(2) by auto
    next
      assume "\<exists>e. os_rename plain ?d s1 = (e, s')"
      then obtain e where rn: "os_rename plain ?d s1 = (e, s')" ..
      have c1: "file_at s1 plain = Some c" using f assms(2) by simp
      have "\<exists>q. file_at s' q = Some c \<and> (q = plain \<or> q = ?d)"
        using rename_file(1)[OF rn c1] by (cases e) auto
      then show ?thesis using rename_file(2)[OF rn c1] f Some cur by auto
    qed
  qed
qed

definition two_files :: fs where
  "two_files = \<lparr>nodes = [(''/t/share/tarantool'', NDir), (''/t/share/tarantool/m.lua'', NFile ''old'' 420)],
     ticks = 0, faults = (\<lambda>_. None)\<rparr>"

definition owned_tree :: "(string \<times> string) option \<Rightarrow> tree" where
  "owned_tree cur = \<lparr>tTree = ''/t'', tBinWrap = None, tProvider = Some (\<lambda>_. cur)\<rparr>"

theorem resolveSpot_keeps_witness:
  "(case resolveSpot (owned_tree (Some (''a'', ''1-1''))) ''/t/share/tarantool'' ''/t/share/tarantool/m.lua'' ''m'' ''a'' ''2-1'' two_files
    of (r, s') \<Rightarrow> r = Inr ''/t/share/tarantool/m.lua'' \<and> (\<exists>q. file_at s' q = Some ''old''))"
proof -
  obtain r s' where r: "resolveSpot (owned_tree (Some (''a'', ''1-1''))) ''/t/share/tarantool'' ''/t/share/tarantool/m.lua'' ''m'' ''a'' ''2-1'' two_files = (r, s')"
    by fastforce
  have "fst (resolveSpot (owned_tree (Some (''a'', ''1-1''))) ''/t/share/tarantool'' ''/t/share/tarantool/m.lua'' ''m'' ''a'' ''2-1'' two_files)
      = Inr ''/t/share/tarantool/m.lua''" by code_simp
  moreover have "file_at two_files ''/t/share/tarantool/m.lua'' = Some ''old''" by code_simp
  ultimately show ?thesis using r resolveSpot_keeps[OF r] by auto
qed

section \<open>Copies\<close>

lemma os_read_file_at: "os_read s p = Inr c \<longleftrightarrow> file_at s p = Some c"
  by (auto simp: os_read_def file_at_def split: option.splits node.splits)








section \<open>Removal\<close>

lemma remove_files_frame:
  "(\<And>rel. rel \<in> fst ` set files \<Longrightarrow> p \<noteq> path_join [dir, rel]) \<Longrightarrow> file_at (remove_files dir files s) p = file_at s p"
proof (induction files arbitrary: s)
  case (Cons f files)
  obtain rel h where f: "f = (rel, h)" by (cases f)
  obtain e s1 where rm: "os_remove (path_join [dir, rel]) s = (e, s1)" by (cases "os_remove (path_join [dir, rel]) s")
  have "file_at s1 p = file_at s p" using os_remove_files[OF rm, of p] Cons.prems f by auto
  then show ?case using Cons.IH[of s1] Cons.prems f rm by (simp add: remove_files_def)
qed (simp add: remove_files_def)

text \<open>The files a rock manifest lists, at their deployed paths.\<close>

definition deployed_paths :: "string \<Rightarrow> rock_manifest \<Rightarrow> string set" where
  "deployed_paths t rm = (\<lambda>rel. path_join [DeployLuaDir t, rel]) ` fst ` set (rmLua rm) \<union>
     (\<lambda>rel. path_join [DeployLibDir t, rel]) ` fst ` set (rmLib rm) \<union>
     (\<lambda>rel. path_join [BinDir t, rel]) ` fst ` set (rmBin rm)"

lemma remove_dir_files:
  "os_read_dir s d = Some [] \<Longrightarrow> file_at (snd (os_remove d s)) p = file_at s p"
proof -
  assume "os_read_dir s d = Some []"
  then have d: "is_dir s d" by (auto simp: os_read_dir_def split: if_splits)
  obtain e s1 where rm: "os_remove d s = (e, s1)" by (cases "os_remove d s")
  have "file_at s d = None \<or> e \<noteq> None"
  proof (cases "map_of (nodes s) d = Some NDir")
    case True
    then show ?thesis by (simp add: file_at_def)
  next
    case False
    then have "d = ''/'' \<or> d = ''.''" using d by (simp add: is_dir_def)
    then show ?thesis using rm by (auto simp: os_remove_def split: prod.splits option.splits)
  qed
  then show ?thesis using os_remove_files[OF rm, of p] rm by auto
qed

text \<open>
  C15: Removing a version touches only what is its own: a file outside its install directory that
  its rock manifest does not list keeps its content, under every pattern of disk errors; and
  after a removal that reports success nothing of the install directory is left.
\<close>

theorem DeleteVersion_frame:
  assumes "DeleteVersion sprintv t name ver s = (e, s')"
    and "p \<noteq> InstallDir t name ver" and "\<not> below (InstallDir t name ver) p"
    and "\<forall>rm. ReadRock sprintv s (path_join [InstallDir t name ver, ''rock_manifest'']) = Inr rm \<longrightarrow> p \<notin> deployed_paths t rm"
  shows "file_at s' p = file_at s p \<and>
    (e = None \<longrightarrow> below (InstallDir t name ver) q \<longrightarrow> file_at s' q = None)"
proof -
  let ?inst = "InstallDir t name ver"
  define s1 where "s1 = (case ReadRock sprintv s (path_join [?inst, ''rock_manifest'']) of
      Inl _ \<Rightarrow> s
    | Inr rm \<Rightarrow> remove_files (BinDir t) (rmBin rm)
        (remove_files (DeployLibDir t) (rmLib rm) (remove_files (DeployLuaDir t) (rmLua rm) s)))"
  have f1: "file_at s1 p = file_at s p"
  proof (cases "ReadRock sprintv s (path_join [?inst, ''rock_manifest''])")
    case (Inr rm)
    then have "p \<notin> deployed_paths t rm" using assms(4) by simp
    then have n: "rel \<in> fst ` set (rmLua rm) \<Longrightarrow> p \<noteq> path_join [DeployLuaDir t, rel]"
      "rel \<in> fst ` set (rmLib rm) \<Longrightarrow> p \<noteq> path_join [DeployLibDir t, rel]"
      "rel \<in> fst ` set (rmBin rm) \<Longrightarrow> p \<noteq> path_join [BinDir t, rel]" for rel
      unfolding deployed_paths_def by blast+
    show ?thesis
      using Inr remove_files_frame[of "rmLua rm" p "DeployLuaDir t" s, OF n(1)]
        remove_files_frame[of "rmLib rm" p "DeployLibDir t", OF n(2)] remove_files_frame[of "rmBin rm" p "BinDir t", OF n(3)]
      by (simp add: s1_def)
  qed (simp add: s1_def)
  obtain e2 s2 where ra: "os_remove_all ?inst s1 = (e2, s2)" by (cases "os_remove_all ?inst s1")
  have f2: "file_at s2 p = file_at s1 p" using os_remove_all_files(1)[OF ra assms(2,3)] .
  show ?thesis
  proof (cases e2)
    case None
    let ?nd = "path_join [RocksDir t, name]"
    have "s' = (if os_read_dir s2 ?nd = Some [] then snd (os_remove ?nd s2) else s2)" "e = None"
      using assms(1) ra None by (simp_all add: DeleteVersion_def s1_def[symmetric] Let_def)
    then have "file_at s' x = file_at s2 x" for x using remove_dir_files by simp
    then show ?thesis using f1 f2 os_remove_all_files(2)[OF ra None, of q] by auto
  next
    case (Some x)
    then have "s' = s2" "e \<noteq> None"
      using assms(1) ra by (auto simp: DeleteVersion_def s1_def[symmetric] Let_def)
    then show ?thesis using f1 f2 by auto
  qed
qed

definition installed_fs :: fs where
  "installed_fs = \<lparr>nodes =
     [(''/t/bin'', NDir), (''/t/bin/cmd'', NFile ''x'' 493), (''/t/share/tarantool/rocks/a/1-1'', NDir),
      (''/t/share/tarantool/rocks/a/1-1/rock_manifest'', NFile ''rock_manifest = {bin = {cmd = [[d]]}}'' 420),
      (''/t/other'', NFile ''kept'' 420)], ticks = 0, faults = (\<lambda>_. None)\<rparr>"

theorem DeleteVersion_frame_witness:
  "(case DeleteVersion (\<lambda>_. []) ''/t'' ''a'' ''1-1'' installed_fs of
     (e, s') \<Rightarrow> e = None \<and> file_at s' ''/t/other'' = Some ''kept'' \<and>
       file_at s' ''/t/share/tarantool/rocks/a/1-1/rock_manifest'' = None)"
proof -
  let ?i = "InstallDir ''/t'' ''a'' ''1-1''"
  obtain e s' where r: "DeleteVersion (\<lambda>_. []) ''/t'' ''a'' ''1-1'' installed_fs = (e, s')" by fastforce
  have "fst (DeleteVersion (\<lambda>_. []) ''/t'' ''a'' ''1-1'' installed_fs) = None" by code_simp
  moreover have "''/t/other'' \<noteq> ?i" "\<not> below ?i ''/t/other''" "below ?i ''/t/share/tarantool/rocks/a/1-1/rock_manifest''"
    by code_simp+
  moreover have "\<forall>rm. ReadRock (\<lambda>_. []) installed_fs (path_join [?i, ''rock_manifest'']) = Inr rm \<longrightarrow>
      ''/t/other'' \<notin> deployed_paths ''/t'' rm"
  proof -
    have "(case ReadRock (\<lambda>_. []) installed_fs (path_join [?i, ''rock_manifest'']) of
        Inl _ \<Rightarrow> True
      | Inr rm \<Rightarrow> \<not> list_ex (\<lambda>q. q = ''/t/other'') (map (\<lambda>x. path_join [DeployLuaDir ''/t'', fst x]) (rmLua rm) @
          map (\<lambda>x. path_join [DeployLibDir ''/t'', fst x]) (rmLib rm) @ map (\<lambda>x. path_join [BinDir ''/t'', fst x]) (rmBin rm)))"
      by code_simp
    then show ?thesis by (auto simp: deployed_paths_def list_ex_iff split: sum.splits)
  qed
  moreover have "file_at installed_fs ''/t/other'' = Some ''kept''" by code_simp
  ultimately show ?thesis
    using r DeleteVersion_frame[OF r, of "''/t/other''" "''/t/share/tarantool/rocks/a/1-1/rock_manifest''"] by simp
qed

section \<open>A first installation leaves a backup behind\<close>

text \<open>
  A pure Lua rock as the builtin backend leaves it before the deployment: the source, and the
  staged copy in the \<open>build\<close> directory of the rock.
\<close>

definition staged_fs :: fs where
  "staged_fs = \<lparr>nodes =
     [(''/s'', NDir), (''/s/m.lua'', NFile ''return 1'' 420),
      (''/b'', NDir), (''/b/lua'', NDir), (''/b/lua/m.lua'', NFile ''return 1'' 420)],
     ticks = 0, faults = (\<lambda>_. None)\<rparr>"

definition pure_lua_rock :: rockspec where
  "pure_lua_rock = zero_rockspec\<lparr>rPackage := ''a'', rVersion := ''1-1'',
     rBuild := Build (zero_build_tbl\<lparr>bType := ''builtin'', bModules := [(''m'', zero_module\<lparr>mPath := ''m.lua''\<rparr>)]\<rparr>) []\<rparr>"

text \<open>
  The first installation of a pure Lua rock into an empty tree leaves a backup file next to the
  module: the last stage finds the staged copy, takes the file that an earlier stage of the
  same deployment put on the plain path for an untracked one, and renames it; the backup is not
  in the rock manifest, so nothing removes it.
\<close>

theorem first_install_backup:
  "(case Deploy (\<lambda>_. ''d'') (\<lambda>_ _. True) \<lparr>tTree = ''/t'', tBinWrap = None, tProvider = Some (\<lambda>_. None)\<rparr>
      (Some pure_lua_rock) ''/s'' ''/b'' staged_fs of
     (Inr rm, s') \<Rightarrow> rmLua rm = [(''m.lua'', ''d'')] \<and>
       file_at s' ''/t/share/tarantool/m.lua'' = Some ''return 1'' \<and>
       file_at s' ''/t/share/tarantool/m.lua~'' = Some ''return 1''
   | _ \<Rightarrow> False)"
  by code_simp

end
