(* ===== verification/RemoteSearch.thy ===== *)
theory RemoteSearch
  imports RemoteIndex
begin

text \<open>
  Listing what the rock servers hold: \<open>src/remote/search.go\<close>. A set of strings
  (\<open>map[string]bool\<close>) is the list of its members.
\<close>

record search_query =
  qName :: string
  qNamespace :: string
  qSubstring :: bool
  qConstraints :: "constraint list"
  qArch :: "string list"
  qProvided :: "(string, string) gomap"

record match_row =
  maName :: string
  maVersion :: string
  maArch :: string
  maServer :: string
  maNamespace :: string
  maURL :: string

definition ProvidedRepo :: string where
  "ProvidedRepo = ''provided by VM or rocks_provided''"

definition loadServerManifest ::
  "'w ext_net \<Rightarrow> string \<Rightarrow> string \<Rightarrow> index_options \<Rightarrow> 'w net \<Rightarrow>
   (remote_error + remote_manifest \<times> string \<times> bool) \<times> 'w net" where
  "loadServerManifest x server ns opts w = (case LocalServerPath server of
     Some dir \<Rightarrow>
       (case file_load x \<lparr>fServer = server, fLuaVersion = ioLuaVersion opts, fArch = ioArch opts,
            fCache = ioCache opts, fMemo = []\<rparr> dir ns w of
          (Inl e, _, w') \<Rightarrow> (Inl e, w')
        | (Inr mf, _, w') \<Rightarrow> (Inr (mf, dir, True), w'))
   | None \<Rightarrow>
       (case http_load x \<lparr>hServers = [server], hInsecureServers = ioInsecureServers opts,
            hUserAgent = ioUserAgent opts, hLuaVersion = ioLuaVersion opts, hArch = ioArch opts,
            hCache = ioCache opts, hMemo = []\<rparr> server ns w of
          (Inl e, _, w') \<Rightarrow> (Inl e, w')
        | (Inr mf, _, w') \<Rightarrow> (Inr (mf, [], False), w')))"

definition artifactURL :: "string \<Rightarrow> string \<Rightarrow> bool \<Rightarrow> string \<Rightarrow> string \<Rightarrow> string \<Rightarrow> string" where
  "artifactURL server dir isLocal name version arch =
     (if isLocal then localRockURL dir (filePrefixOf server) name version arch
      else makeRockURL server name version arch)"

definition matchName :: "search_query \<Rightarrow> string \<Rightarrow> bool" where
  "matchName q name = (if qSubstring q then contains_sub name (qName q) else name = qName q)"

definition exactVersion :: "constraint list \<Rightarrow> string" where
  "exactVersion cs = (case find (\<lambda>c. cOp c = ''=='') cs of Some c \<Rightarrow> vRaw (cVersion c) | None \<Rightarrow> [])"

definition hasExactMatch :: "match_row list \<Rightarrow> string \<Rightarrow> string \<Rightarrow> bool" where
  "hasExactMatch found name version =
     (if name = [] then False else list_ex (\<lambda>m. maName m = name \<and> maVersion m = version) found)"

definition acceptedArchSet :: "ext \<Rightarrow> string list \<Rightarrow> string \<Rightarrow> string list" where
  "acceptedArchSet x want hostOverride =
     (if want \<noteq> [] then want
      else [''src'', ''all'', ''rockspec'', ''installed'', if hostOverride = [] then hostArch x else hostOverride])"

definition version_matches :: "search_query \<Rightarrow> string \<Rightarrow> bool" where
  "version_matches q version = (case ParseVersion version of Inl e \<Rightarrow> False | Inr v \<Rightarrow> Match v (qConstraints q))"

definition match_version ::
  "(string \<Rightarrow> string \<Rightarrow> string) \<Rightarrow> string \<Rightarrow> search_query \<Rightarrow> string list \<Rightarrow> string \<Rightarrow> (string, string list) gomap \<Rightarrow>
   string \<Rightarrow> match_row list" where
  "match_version url normalized q accepted name versions version =
     (if \<not> version_matches q version then []
      else map (\<lambda>arch. \<lparr>maName = name, maVersion = version, maArch = arch, maServer = normalized,
               maNamespace = qNamespace q, maURL = url version arch\<rparr>)
             (filter (\<lambda>arch. arch \<in> set accepted) (mget versions version [])))"

definition match_rock ::
  "remote_manifest \<Rightarrow> (string \<Rightarrow> string \<Rightarrow> string \<Rightarrow> string) \<Rightarrow> string \<Rightarrow> search_query \<Rightarrow> string list \<Rightarrow> string \<Rightarrow> match_row list" where
  "match_rock mf url normalized q accepted name =
     (if \<not> matchName q name then []
      else let versions = mget (rmRepository mf) name []
           in concat (map (match_version (url name) normalized q accepted name versions) (sorted_keys versions)))"

definition matchManifest ::
  "remote_manifest \<Rightarrow> string \<Rightarrow> string \<Rightarrow> bool \<Rightarrow> search_query \<Rightarrow> string list \<Rightarrow> match_row list" where
  "matchManifest mf server dir isLocal q accepted =
     concat (map (match_rock mf (artifactURL server dir isLocal) (NormalizeServer server) q accepted)
       (sorted_keys (rmRepository mf)))"

definition provided_match :: "search_query \<Rightarrow> string \<Rightarrow> match_row list" where
  "provided_match q name =
     (let version = mget (qProvided q) name [] in
      if \<not> matchName q name \<or> \<not> version_matches q version then []
      else [\<lparr>maName = name, maVersion = version, maArch = ''installed'', maServer = ProvidedRepo,
             maNamespace = [], maURL = []\<rparr>])"

definition matchProvided :: "search_query \<Rightarrow> string list \<Rightarrow> match_row list" where
  "matchProvided q accepted =
     (if qProvided q = [] \<or> ''installed'' \<notin> set accepted \<or> qNamespace q \<noteq> [] then []
      else concat (map (provided_match q) (sorted_keys (qProvided q))))"

definition match_less :: "match_row \<Rightarrow> match_row \<Rightarrow> bool" where
  "match_less a b =
     (if maName a \<noteq> maName b then maName a < maName b
      else if maVersion a = maVersion b then False
      else case (ParseVersion (maVersion a), ParseVersion (maVersion b)) of
        (Inr av, Inr bv) \<Rightarrow> Compare av bv > 0
      | _ \<Rightarrow> False)"

definition sortMatches :: "match_row list \<Rightarrow> match_row list" where
  "sortMatches matches = slice_stable match_less matches"

fun search_loop ::
  "'w ext_net \<Rightarrow> index_options \<Rightarrow> search_query \<Rightarrow> string list \<Rightarrow> string list \<Rightarrow> match_row list \<Rightarrow> remote_error option \<Rightarrow>
   'w net \<Rightarrow> match_row list \<times> remote_error option \<times> 'w net" where
  "search_loop x opts q accepted [] found loadErr w = (found, loadErr, w)"
| "search_loop x opts q accepted (server # servers) found loadErr w =
     (case loadServerManifest x server (qNamespace q) opts w of
        (Inl e, w') \<Rightarrow>
          search_loop x opts q accepted servers found (if loadErr = None then Some (LoadServer server e) else loadErr) w'
      | (Inr (mf, dir, isLocal), w') \<Rightarrow>
          (let found' = found @ matchManifest mf server dir isLocal q accepted;
               exact = exactVersion (qConstraints q)
           in if exact \<noteq> [] \<and> hasExactMatch found' (qName q) exact then (found', loadErr, w')
              else search_loop x opts q accepted servers found' loadErr w'))"

definition Search ::
  "'w ext_net \<Rightarrow> string list \<Rightarrow> index_options \<Rightarrow> search_query \<Rightarrow> 'w net \<Rightarrow>
   (remote_error + match_row list) \<times> 'w net" where
  "Search x servers opts q w =
     (let accepted = acceptedArchSet (ext.truncate x) (qArch q) (ioArch opts);
          (found0, loadErr, w') = search_loop x opts q accepted servers [] None w;
          found = found0 @ matchProvided q accepted
      in case loadErr of
           Some e \<Rightarrow> (if found = [] then (Inl e, w') else (Inr (sortMatches found), w'))
         | None \<Rightarrow> (Inr (sortMatches found), w'))"

section \<open>The order of the listing\<close>

text \<open>
  Rows whose versions all carry a revision, or all carry none, are compared by a strict weak
  order.
\<close>

definition uniform_row :: "bool \<Rightarrow> match_row \<Rightarrow> bool" where
  "uniform_row h m \<longleftrightarrow> (case ParseVersion (maVersion m) of Inl e \<Rightarrow> False | Inr v \<Rightarrow> uniform_revision h v)"

definition row_version :: "match_row \<Rightarrow> version" where
  "row_version m = (case ParseVersion (maVersion m) of Inl e \<Rightarrow> zero_version | Inr v \<Rightarrow> v)"

lemma match_less_uniform:
  assumes "uniform_row h a" and "uniform_row h b"
  shows "match_less a b \<longleftrightarrow> maName a < maName b \<or> maName a = maName b \<and> newer (row_version a) (row_version b)"
  using assms
  by (auto simp: match_less_def uniform_row_def row_version_def newer_def split: sum.splits)

lemma uniform_row_version: "uniform_row h a \<Longrightarrow> uniform_revision h (row_version a)"
  by (auto simp: uniform_row_def row_version_def split: sum.splits)

interpretation rows: strict_weak_order match_less "{m. uniform_row h m}" for h
proof unfold_locales
  fix a b
  assume "a \<in> {m. uniform_row h m}" "b \<in> {m. uniform_row h m}" "match_less a b"
  then show "\<not> match_less b a"
    using vers.lt_asym[of "row_version a" h "row_version b"] uniform_row_version
    by (auto simp: match_less_uniform)
next
  fix a b c
  assume "a \<in> {m. uniform_row h m}" "b \<in> {m. uniform_row h m}" "c \<in> {m. uniform_row h m}" "match_less a c"
  then show "match_less a b \<or> match_less b c"
    using vers.lt_negtrans[of "row_version a" h "row_version b" "row_version c"] uniform_row_version
    by (auto simp: match_less_uniform)
qed

section \<open>What is listed\<close>

text \<open>
  A row is offered when a server's manifest lists its architecture under its name and version, the
  query accepts all three, and the row bears the server's name and the place of the artifact; or
  when the VM provides the rock.
\<close>

definition local_dir :: "string \<Rightarrow> string" where
  "local_dir srv = (case LocalServerPath srv of Some dir \<Rightarrow> dir | None \<Rightarrow> [])"

definition server_row :: "'w ext_net \<Rightarrow> index_options \<Rightarrow> 'w net \<Rightarrow> search_query \<Rightarrow> string \<Rightarrow> match_row \<Rightarrow> bool" where
  "server_row x opts w q srv m \<longleftrightarrow>
     (\<exists>mf versions arches. server_manifest x opts w srv (qNamespace q) = Inr mf \<and>
        map_of (rmRepository mf) (maName m) = Some versions \<and> map_of versions (maVersion m) = Some arches \<and>
        maArch m \<in> set arches) \<and>
     maArch m \<in> set (acceptedArchSet (ext.truncate x) (qArch q) (ioArch opts)) \<and>
     matchName q (maName m) \<and> version_matches q (maVersion m) \<and>
     maServer m = NormalizeServer srv \<and> maNamespace m = qNamespace q \<and>
     maURL m = artifactURL srv (local_dir srv) (LocalServerPath srv \<noteq> None) (maName m) (maVersion m) (maArch m)"

definition provided_row :: "index_options \<Rightarrow> ext \<Rightarrow> search_query \<Rightarrow> match_row \<Rightarrow> bool" where
  "provided_row opts x q m \<longleftrightarrow>
     map_of (qProvided q) (maName m) = Some (maVersion m) \<and> qNamespace q = [] \<and>
     ''installed'' \<in> set (acceptedArchSet x (qArch q) (ioArch opts)) \<and>
     matchName q (maName m) \<and> version_matches q (maVersion m) \<and>
     maArch m = ''installed'' \<and> maServer m = ProvidedRepo \<and> maNamespace m = [] \<and> maURL m = []"

lemma in_keys_mget: "k \<in> fst ` set m \<Longrightarrow> map_of m k = Some (mget m k d)"
  using dom_map_of_iff[of m k] by (auto simp: mget_def split: option.splits)

lemma map_of_in_keys: "map_of m k = Some v \<Longrightarrow> k \<in> fst ` set m \<and> mget m k d = v"
  by (force simp: mget_def dest: map_of_SomeD)

lemma in_concat_map: "m \<in> set (concat (map f xs)) \<longleftrightarrow> (\<exists>x \<in> set xs. m \<in> set (f x))"
  by auto

lemma bex_key: "(\<exists>x \<in> A. k = x \<and> P x) \<longleftrightarrow> k \<in> A \<and> P k"
  by blast

lemma in_match_version:
  "m \<in> set (match_version url nm q accepted name versions version) \<longleftrightarrow>
     maVersion m = version \<and>
     version_matches q version \<and> maArch m \<in> set (mget versions version []) \<and> maArch m \<in> set accepted \<and>
     maName m = name \<and> maServer m = nm \<and> maNamespace m = qNamespace q \<and>
     maURL m = url version (maArch m)"
  by (cases m) (auto simp: match_version_def)

lemma in_match_rock:
  "m \<in> set (match_rock mf url nm q accepted name) \<longleftrightarrow>
     maName m = name \<and> matchName q name \<and>
     (\<exists>arches. map_of (mget (rmRepository mf) name []) (maVersion m) = Some arches \<and> maArch m \<in> set arches) \<and>
     version_matches q (maVersion m) \<and> maArch m \<in> set accepted \<and>
     maServer m = nm \<and> maNamespace m = qNamespace q \<and> maURL m = url name (maVersion m) (maArch m)"
proof (cases "matchName q name")
  case True
  let ?vs = "mget (rmRepository mf) name []"
  have "(maVersion m \<in> fst ` set ?vs \<and> maArch m \<in> set (mget ?vs (maVersion m) [])) \<longleftrightarrow>
      (\<exists>arches. map_of ?vs (maVersion m) = Some arches \<and> maArch m \<in> set arches)"
    using in_keys_mget[of "maVersion m" ?vs "[]"] map_of_in_keys[of ?vs "maVersion m" _ "[]"] by auto
  moreover have "m \<in> set (match_rock mf url nm q accepted name) \<longleftrightarrow>
      (\<exists>version \<in> fst ` set ?vs. m \<in> set (match_version (url name) nm q accepted name ?vs version))"
    using True by (simp only: match_rock_def Let_def not_True_eq_False if_False in_concat_map set_sorted_keys)
  ultimately show ?thesis using True unfolding in_match_version bex_key by blast
qed (simp add: match_rock_def)

lemma in_matchManifest:
  "m \<in> set (matchManifest mf srv dir isLocal q accepted) \<longleftrightarrow>
     (\<exists>versions arches. map_of (rmRepository mf) (maName m) = Some versions \<and>
        map_of versions (maVersion m) = Some arches \<and> maArch m \<in> set arches) \<and>
     maArch m \<in> set accepted \<and> matchName q (maName m) \<and> version_matches q (maVersion m) \<and>
     maServer m = NormalizeServer srv \<and> maNamespace m = qNamespace q \<and>
     maURL m = artifactURL srv dir isLocal (maName m) (maVersion m) (maArch m)"
proof -
  have "(maName m \<in> fst ` set (rmRepository mf) \<and> P (mget (rmRepository mf) (maName m) [])) \<longleftrightarrow>
      (\<exists>versions. map_of (rmRepository mf) (maName m) = Some versions \<and> P versions)" for P
    using in_keys_mget[of "maName m" "rmRepository mf" "[]"] map_of_in_keys[of "rmRepository mf" "maName m" _ "[]"] by auto
  note names = this[of "\<lambda>versions. \<exists>arches. map_of versions (maVersion m) = Some arches \<and> maArch m \<in> set arches"]
  have "m \<in> set (matchManifest mf srv dir isLocal q accepted) \<longleftrightarrow> (\<exists>name \<in> fst ` set (rmRepository mf).
      m \<in> set (match_rock mf (artifactURL srv dir isLocal) (NormalizeServer srv) q accepted name))"
    by (simp only: matchManifest_def in_concat_map set_sorted_keys)
  then show ?thesis using names unfolding in_match_rock bex_key by blast
qed

lemma in_provided_match:
  "m \<in> set (provided_match q name) \<longleftrightarrow>
     maName m = name \<and> matchName q name \<and> version_matches q (mget (qProvided q) name []) \<and>
     maVersion m = mget (qProvided q) name [] \<and> maArch m = ''installed'' \<and> maServer m = ProvidedRepo \<and>
     maNamespace m = [] \<and> maURL m = []"
  by (cases m) (auto simp: provided_match_def Let_def)

lemma in_matchProvided:
  "m \<in> set (matchProvided q (acceptedArchSet x (qArch q) (ioArch opts))) \<longleftrightarrow> provided_row opts x q m"
proof -
  have k: "(maName m \<in> fst ` set (qProvided q) \<and> maVersion m = mget (qProvided q) (maName m) []) \<longleftrightarrow>
      map_of (qProvided q) (maName m) = Some (maVersion m)"
    using in_keys_mget[of "maName m" "qProvided q" "[]"] map_of_in_keys[of "qProvided q" "maName m" "maVersion m" "[]"] by metis
  have "m \<in> set (matchProvided q (acceptedArchSet x (qArch q) (ioArch opts))) \<longleftrightarrow>
      ''installed'' \<in> set (acceptedArchSet x (qArch q) (ioArch opts)) \<and> qNamespace q = [] \<and>
      (\<exists>name \<in> fst ` set (qProvided q). m \<in> set (provided_match q name))"
    unfolding matchProvided_def by (auto simp: in_concat_map simp del: set_concat split: if_splits)
  then show ?thesis using k unfolding in_provided_match bex_key provided_row_def by metis
qed

lemma loadServerManifest_ok:
  assumes "still x w" and "shared_ok x opts w" and "plain_server srv" and "loadServerManifest x srv ns opts w = (r, w')"
  shows "r = map_sum id (\<lambda>mf. (mf, local_dir srv, LocalServerPath srv \<noteq> None)) (server_manifest x opts w srv ns) \<and>
    shared_ok x opts w' \<and> same_net w w'"
proof (cases "LocalServerPath srv")
  case None
  let ?h = "\<lparr>hServers = [srv], hInsecureServers = ioInsecureServers opts,
            hUserAgent = ioUserAgent opts, hLuaVersion = ioLuaVersion opts, hArch = ioArch opts,
            hCache = ioCache opts, hMemo = []\<rparr>"
  obtain r1 h1 w1 where l: "http_load x ?h srv ns w = (r1, h1, w1)" by (rule prod_cases3)
  have "http_ok x opts w ?h" using None assms(3) by (simp add: http_ok_def)
  note ok = http_load_ok[OF assms(1,2) this None assms(3) l]
  show ?thesis
    using assms(4) None l ok by (cases "server_manifest x opts w srv ns") (auto simp: loadServerManifest_def local_dir_def)
next
  case (Some dir)
  let ?f = "\<lparr>fServer = srv, fLuaVersion = ioLuaVersion opts, fArch = ioArch opts, fCache = ioCache opts, fMemo = []\<rparr>"
  obtain r1 f1 w1 where l: "file_load x ?f dir ns w = (r1, f1, w1)" by (rule prod_cases3)
  have "file_ok x opts w ?f" by (simp add: file_ok_def)
  note ok = file_load_ok[OF assms(1,2) this _ l, unfolded file_index.select_convs, OF Some]
  show ?thesis
    using assms(4) Some l ok by (cases "server_manifest x opts w srv ns") (auto simp: loadServerManifest_def local_dir_def)
qed

lemma search_loop_ok:
  assumes "still x w" and "shared_ok x opts w" and "list_all plain_server servers"
    and "accepted = acceptedArchSet (ext.truncate x) (qArch q) (ioArch opts)"
    and "search_loop x opts q accepted servers found le w = (found', le', w')"
  shows "(\<forall>m \<in> set found'. m \<in> set found \<or> (\<exists>srv \<in> set servers. server_row x opts w q srv m)) \<and>
    (exactVersion (qConstraints q) = [] \<or> found' = [] \<longrightarrow>
      (\<forall>m. m \<in> set found \<or> (\<exists>srv \<in> set servers. server_row x opts w q srv m) \<longrightarrow> m \<in> set found')) \<and>
    (le' \<noteq> None \<longrightarrow> le \<noteq> None \<or> (\<exists>srv \<in> set servers. \<exists>e. server_manifest x opts w srv (qNamespace q) = Inl e))"
  using assms
proof (induction servers arbitrary: found le w)
  case (Cons srv servers)
  obtain r w1 where l: "loadServerManifest x srv (qNamespace q) opts w = (r, w1)"
    by (cases "loadServerManifest x srv (qNamespace q) opts w")
  have "plain_server srv" and ps: "list_all plain_server servers" using Cons.prems(3) by simp_all
  note ok = loadServerManifest_ok[OF Cons.prems(1,2) this(1) l]
  have sn: "same_net w w1" using ok by blast
  have st: "still x w1" using still_same[OF sn] Cons.prems(1) by simp
  note sm = server_manifest_same[OF Cons.prems(1) sn]
  have row: "server_row x opts w1 q s m = server_row x opts w q s m" for s m
    unfolding server_row_def sm ..
  note IH = Cons.IH[OF st _ ps Cons.prems(4), unfolded row sm]
  show ?case
  proof (cases "server_manifest x opts w srv (qNamespace q)")
    case (Inl e)
    have no: "\<not> server_row x opts w q srv m" for m by (simp add: server_row_def Inl)
    have "search_loop x opts q accepted servers found (if le = None then Some (LoadServer srv e) else le) w1 = (found', le', w')"
      using Cons.prems(5) l ok Inl by simp
    from IH[OF _ this] ok show ?thesis using no Inl by auto
  next
    case (Inr mf)
    let ?new = "matchManifest mf srv (local_dir srv) (LocalServerPath srv \<noteq> None) q accepted"
    have new: "m \<in> set ?new \<longleftrightarrow> server_row x opts w q srv m" for m
      unfolding in_matchManifest server_row_def by (simp add: Inr Cons.prems(4))
    show ?thesis
    proof (cases "exactVersion (qConstraints q) \<noteq> [] \<and> hasExactMatch (found @ ?new) (qName q) (exactVersion (qConstraints q))")
      case True
      then have "found @ ?new \<noteq> []" by (auto simp: hasExactMatch_def split: if_splits)
      moreover have "found' = found @ ?new" "le' = le" using Cons.prems(5) l ok Inr True by (simp_all add: Let_def)
      ultimately show ?thesis using new True by auto
    next
      case False
      have "search_loop x opts q accepted servers (found @ ?new) le w1 = (found', le', w')"
        using Cons.prems(5) l ok Inr False by (auto simp: Let_def)
      from IH[OF _ this] ok show ?thesis using new by auto
    qed
  qed
qed simp

text \<open>
  C33: Every row of a search is offered by one of the servers or provided by the VM, and a search
  without an exact version returns every such row.
\<close>

theorem Search_rows:
  assumes "still x w" and "shared_ok x opts w" and "list_all plain_server servers"
    and "Search x servers opts q w = (Inr rows, w')"
  shows "(\<forall>m \<in> set rows. (\<exists>srv \<in> set servers. server_row x opts w q srv m) \<or> provided_row opts (ext.truncate x) q m) \<and>
    (exactVersion (qConstraints q) = [] \<longrightarrow>
      (\<forall>m. (\<exists>srv \<in> set servers. server_row x opts w q srv m) \<or> provided_row opts (ext.truncate x) q m \<longrightarrow> m \<in> set rows))"
proof -
  let ?acc = "acceptedArchSet (ext.truncate x) (qArch q) (ioArch opts)"
  obtain found le w1 where l: "search_loop x opts q ?acc servers [] None w = (found, le, w1)" by (rule prod_cases3)
  note ok = search_loop_ok[OF assms(1-3) refl l]
  have rows: "set rows = set (found @ matchProvided q ?acc)"
    using assms(4) l by (auto simp: Search_def Let_def sortMatches_def split: option.splits if_splits)
  have "m \<in> set rows \<longleftrightarrow> m \<in> set found \<or> provided_row opts (ext.truncate x) q m" for m
    by (simp add: rows in_matchProvided)
  then show ?thesis using ok by auto
qed

text \<open>
  A search fails only when no server offers a row and none is provided, and some server
  could not be read: one dead server does not hide what another one has.
\<close>

theorem Search_error:
  assumes "still x w" and "shared_ok x opts w" and "list_all plain_server servers"
    and "Search x servers opts q w = (Inl e, w')"
  shows "(\<nexists>m. (\<exists>srv \<in> set servers. server_row x opts w q srv m) \<or> provided_row opts (ext.truncate x) q m) \<and>
    (\<exists>srv \<in> set servers. \<exists>e. server_manifest x opts w srv (qNamespace q) = Inl e)"
proof -
  let ?acc = "acceptedArchSet (ext.truncate x) (qArch q) (ioArch opts)"
  obtain found le w1 where l: "search_loop x opts q ?acc servers [] None w = (found, le, w1)" by (rule prod_cases3)
  note ok = search_loop_ok[OF assms(1-3) refl l]
  have "found = []" "matchProvided q ?acc = []" "le \<noteq> None"
    using assms(4) l by (auto simp: Search_def Let_def split: option.splits if_splits)
  then show ?thesis using ok in_matchProvided[of _ q "ext.truncate x" opts] by auto
qed

text \<open>
  When the versions that a search lists all carry a revision, the rows stand by name
  ascending and, within a name, by version descending.
\<close>

theorem Search_sorted:
  assumes "Search x servers opts q w = (Inr rows, w')" and "list_all (uniform_row h) rows"
  shows "sorted_wrt (\<lambda>a b. maName a < maName b \<or> maName a = maName b \<and> Compare (row_version a) (row_version b) \<ge> 0) rows"
proof -
  obtain found where rows: "rows = slice_stable match_less found"
    using assms(1) by (auto simp: Search_def Let_def sortMatches_def split: option.splits if_splits prod.splits)
  have u: "set rows \<subseteq> {m. uniform_row h m}" using assms(2) by (auto simp: list_all_iff)
  then have "set found \<subseteq> {m. uniform_row h m}" by (simp add: rows)
  then have "sorted_wrt (\<lambda>a b. \<not> match_less b a) rows" unfolding rows by (rule rows.slice_stable_sorted)
  then show ?thesis
  proof (rule sorted_wrt_mono_rel[rotated])
    fix a b
    assume "a \<in> set rows" "b \<in> set rows" "\<not> match_less b a"
    moreover from this have "uniform_row h a" "uniform_row h b" using u by auto
    ultimately show "maName a < maName b \<or> maName a = maName b \<and> Compare (row_version a) (row_version b) \<ge> 0"
      using Compare_flip[of "row_version a" "row_version b"] by (auto simp: match_less_uniform newer_def)
  qed
qed

section \<open>Searches of a small network\<close>

definition demo_query :: "string \<Rightarrow> search_query" where
  "demo_query n = \<lparr>qName = n, qNamespace = [], qSubstring = True, qConstraints = [], qArch = [],
     qProvided = [(''lua'', ''5.1-1'')]\<rparr>"

definition demo_rows :: "match_row list" where
  "demo_rows = [\<lparr>maName = ''a'', maVersion = ''1.0-1'', maArch = ''rockspec'', maServer = ''http://s'', maNamespace = [],
      maURL = ''http://s/a-1.0-1.rockspec''\<rparr>,
     \<lparr>maName = ''a'', maVersion = ''1.0-1'', maArch = ''all'', maServer = ''http://s'', maNamespace = [],
      maURL = ''http://s/a-1.0-1.all.rock''\<rparr>,
     \<lparr>maName = ''lua'', maVersion = ''5.1-1'', maArch = ''installed'', maServer = ProvidedRepo, maNamespace = [], maURL = []\<rparr>]"

lemma demo_search: "fst (Search demo_ext [''/none'', ''http://s/''] demo_opts (demo_query ''a'') demo_net) = Inr demo_rows"
  by code_simp

lemma demo_servers: "list_all plain_server [''/none'', ''http://s/'']"
  by (simp add: plain_server_def)

theorem Search_rows_witness:
  "(\<exists>srv \<in> set [''/none'', ''http://s/'']. server_row demo_ext demo_opts demo_net (demo_query ''a'') srv (hd demo_rows)) \<or>
   provided_row demo_opts (ext.truncate demo_ext) (demo_query ''a'') (hd demo_rows)"
proof -
  obtain w' where q: "Search demo_ext [''/none'', ''http://s/''] demo_opts (demo_query ''a'') demo_net = (Inr demo_rows, w')"
    using demo_search by (metis prod.collapse)
  have "hd demo_rows \<in> set demo_rows" by (simp add: demo_rows_def)
  with Search_rows[OF demo_still demo_servers q] show ?thesis by blast
qed

theorem Search_error_witness:
  "\<nexists>m. (\<exists>srv \<in> set [''/none'', ''http://s/'']. server_row demo_ext demo_opts demo_net (demo_query ''zz'') srv m) \<or>
      provided_row demo_opts (ext.truncate demo_ext) (demo_query ''zz'') m"
proof -
  have "isl (fst (Search demo_ext [''/none'', ''http://s/''] demo_opts (demo_query ''zz'') demo_net))" by code_simp
  then obtain e w' where q: "Search demo_ext [''/none'', ''http://s/''] demo_opts (demo_query ''zz'') demo_net = (Inl e, w')"
    by (metis prod.collapse sum.collapse(1))
  show ?thesis using Search_error[OF demo_still demo_servers q] by blast
qed

theorem Search_sorted_witness:
  "sorted_wrt (\<lambda>a b. maName a < maName b \<or> maName a = maName b \<and> Compare (row_version a) (row_version b) \<ge> 0) demo_rows"
proof -
  obtain w' where q: "Search demo_ext [''/none'', ''http://s/''] demo_opts (demo_query ''a'') demo_net = (Inr demo_rows, w')"
    using demo_search by (metis prod.collapse)
  have "list_all (uniform_row True) demo_rows" by code_simp
  from Search_sorted[OF q this] show ?thesis .
qed

end
