(* ===== verification/RockEval.thy ===== *)
theory RockEval
  imports Rockspec FileSystem
begin

text \<open>
  Loading a rockspec: \<open>src/rockspec/eval.go\<close>. The Lua interpreter is not part of the repository:
  running a chunk is a parameter that turns an interpreter state and a program into an error or
  a new state. A Lua table is what the harvest can see of it: the length the interpreter
  reports and the entries in the order \<open>ForEach\<close> visits them, with distinct keys.
\<close>

datatype lua =
    LuaNil
  | LuaBool bool
  | LuaNum rat
  | LuaStr string
  | LuaTable nat "(lua \<times> lua) list"
  | LuaOther string

datatype eval_error =
    ReadSpec string
  | RunSpec string
  | UnknownVariable string
  | WantsString string lua
  | WantsTable string lua
  | BadDependency string
  | BadBuildType string

record lua_state =
  lGlobals :: "(lua \<times> lua) list"
  lReads :: "string list"

text \<open>An error ends a loop over entries.\<close>

fun try_each :: "('a \<Rightarrow> 'b \<Rightarrow> 'e + 'b) \<Rightarrow> 'a list \<Rightarrow> 'b \<Rightarrow> 'e + 'b" where
  "try_each f [] acc = Inr acc"
| "try_each f (x # xs) acc = (case f x acc of Inl e \<Rightarrow> Inl e | Inr acc' \<Rightarrow> try_each f xs acc')"

lemma try_each_cong [fundef_cong]:
  "xs = ys \<Longrightarrow> acc = acc' \<Longrightarrow> (\<And>x a. x \<in> set ys \<Longrightarrow> f x a = g x a) \<Longrightarrow> try_each f xs acc = try_each g ys acc'"
  by (induction xs arbitrary: ys acc acc') (auto split: sum.split)

lemma try_each_inv:
  assumes "try_each f xs acc = Inr res" and "P acc"
    and "\<And>x a b. x \<in> set xs \<Longrightarrow> P a \<Longrightarrow> f x a = Inr b \<Longrightarrow> P b"
  shows "P res"
  using assms
proof (induction xs arbitrary: acc)
  case (Cons x xs)
  obtain b where "f x acc = Inr b" "try_each f xs b = Inr res"
    using Cons.prems(1) by (auto split: sum.splits)
  then show ?case using Cons.IH[of b] Cons.prems(2,3) by (meson list.set_intros)
qed simp

section \<open>Reading Lua values\<close>

definition raw_get :: "(lua \<times> lua) list \<Rightarrow> string \<Rightarrow> lua" where
  "raw_get tbl k = (case map_of tbl (LuaStr k) of Some v \<Rightarrow> v | None \<Rightarrow> LuaNil)"

definition optString :: "lua \<Rightarrow> string" where
  "optString v = (case v of LuaStr s \<Rightarrow> s | _ \<Rightarrow> [])"

definition optBool :: "lua \<Rightarrow> bool option" where
  "optBool v = (case v of LuaBool b \<Rightarrow> Some b | _ \<Rightarrow> None)"

definition stringArray :: "lua \<Rightarrow> string list" where
  "stringArray v = (case v of
     LuaTable n tbl \<Rightarrow> List.map_filter
       (\<lambda>i. case map_of tbl (LuaNum (of_nat i)) of Some (LuaStr s) \<Rightarrow> Some s | _ \<Rightarrow> None) [1..<n + 1]
   | _ \<Rightarrow> [])"

definition harvestStringArray :: "lua \<Rightarrow> string list" where
  "harvestStringArray tbl = stringArray tbl"

definition stringMap :: "lua \<Rightarrow> (string, string) gomap" where
  "stringMap v = (case v of
     LuaTable n tbl \<Rightarrow> foldl (\<lambda>out (k, vv). case (k, vv) of
         (LuaStr ks, LuaStr vs) \<Rightarrow> mput ks vs out
       | _ \<Rightarrow> out) [] tbl
   | _ \<Rightarrow> [])"

definition globalNames :: "lua_state \<Rightarrow> string list" where
  "globalNames l = List.map_filter (\<lambda>(k, _). case k of LuaStr s \<Rightarrow> Some s | _ \<Rightarrow> None) (lGlobals l)"

definition stringGlobal :: "lua_state \<Rightarrow> string \<Rightarrow> eval_error + string" where
  "stringGlobal l name = (case raw_get (lGlobals l) name of
     LuaNil \<Rightarrow> Inr [] | LuaStr s \<Rightarrow> Inr s | v \<Rightarrow> Inl (WantsString name v))"

definition tableGlobal :: "lua_state \<Rightarrow> string \<Rightarrow> eval_error + (nat \<times> (lua \<times> lua) list) option" where
  "tableGlobal l name = (case raw_get (lGlobals l) name of
     LuaNil \<Rightarrow> Inr None | LuaTable n tbl \<Rightarrow> Inr (Some (n, tbl)) | v \<Rightarrow> Inl (WantsTable name v))"

section \<open>Undeclared variables\<close>

definition rockspecFields :: "string list" where
  "rockspecFields =
     [''rockspec_format'', ''package'', ''version'', ''description'', ''dependencies'', ''build_dependencies'',
      ''test_dependencies'', ''external_dependencies'', ''supported_platforms'', ''source'', ''build'',
      ''hooks'', ''test'', ''deploy'']"

definition first_unknown :: "string list \<Rightarrow> eval_error option" where
  "first_unknown unknown = (if unknown \<noteq> [] then Some (UnknownVariable (hd (sort unknown))) else None)"

definition checkUndeclaredGlobals :: "lua_state \<Rightarrow> string list \<Rightarrow> eval_error option" where
  "checkUndeclaredGlobals l builtins =
     first_unknown (filter (\<lambda>name. name \<notin> set builtins \<and> name \<notin> set rockspecFields) (globalNames l))"

definition checkUndeclaredReads :: "string list \<Rightarrow> eval_error option" where
  "checkUndeclaredReads reads = first_unknown (filter (\<lambda>name. name \<notin> set rockspecFields) reads)"

text \<open>The sandbox: the globals of a fresh interpreter with string keys are cleared.\<close>

definition newSandboxedState :: "(lua \<times> lua) list \<Rightarrow> lua_state" where
  "newSandboxedState std =
     \<lparr>lGlobals = filter (\<lambda>(k, _). case k of LuaStr _ \<Rightarrow> False | _ \<Rightarrow> True) std, lReads = []\<rparr>"

section \<open>The harvest\<close>

definition harvestDeploy :: "(lua \<times> lua) list \<Rightarrow> deploy_tbl" where
  "harvestDeploy tbl = \<lparr>wrapBinScripts_opt = optBool (raw_get tbl ''wrap_bin_scripts'')\<rparr>"

definition harvestDescription :: "(lua \<times> lua) list \<Rightarrow> description" where
  "harvestDescription tbl =
     \<lparr>deSummary = optString (raw_get tbl ''summary''), deDetailed = optString (raw_get tbl ''detailed''),
      deLicense = optString (raw_get tbl ''license''), deHomepage = optString (raw_get tbl ''homepage''),
      deIssuesURL = optString (raw_get tbl ''issues_url''), deMaintainer = optString (raw_get tbl ''maintainer''),
      deLabels = stringArray (raw_get tbl ''labels'')\<rparr>"

definition source_fields :: "(lua \<times> lua) list \<Rightarrow> source_tbl" where
  "source_fields tbl =
     \<lparr>sURL = optString (raw_get tbl ''url''), sTag = optString (raw_get tbl ''tag''),
      sBranch = optString (raw_get tbl ''branch''), sMD5 = optString (raw_get tbl ''md5''),
      sFile = optString (raw_get tbl ''file''), sDir = optString (raw_get tbl ''dir''),
      sModule = optString (raw_get tbl ''module''), sIdentifier = []\<rparr>"

abbreviation tbl_size :: "(lua \<times> lua) list \<Rightarrow> nat" where
  "tbl_size \<equiv> size_list (size_prod size size)"

lemma size_entry: "(k, LuaTable n sub) \<in> set tbl \<Longrightarrow> tbl_size sub < tbl_size tbl"
  by (induction tbl) auto

lemma size_raw_get: "raw_get tbl k = LuaTable n sub \<Longrightarrow> tbl_size sub < tbl_size tbl"
  using size_entry[of "LuaStr k" n sub tbl]
  by (auto simp: raw_get_def dest: map_of_SomeD split: option.splits)

function harvestSource :: "(lua \<times> lua) list \<Rightarrow> source" where
  "harvestSource tbl = Source (source_fields tbl) (case raw_get tbl ''platforms'' of
     LuaTable n plats \<Rightarrow> foldl (\<lambda>out (k, v). case (k, v) of
         (LuaStr name, LuaTable m sub) \<Rightarrow> mput name (harvestSource sub) out
       | _ \<Rightarrow> out) [] plats
   | _ \<Rightarrow> [])"
  by pat_completeness auto
termination
  by (relation "measure tbl_size") (auto dest!: size_entry size_raw_get)

declare harvestSource.simps [simp del]

definition harvestDeps :: "string \<Rightarrow> (lua \<times> lua) list \<Rightarrow> eval_error + dep list" where
  "harvestDeps field tbl = try_each (\<lambda>(k, v) ds. case k of
     LuaNum _ \<Rightarrow> (case v of
       LuaStr s \<Rightarrow> (case parseDepString s of None \<Rightarrow> Inl (BadDependency s) | Some d \<Rightarrow> Inr (ds @ [d]))
     | _ \<Rightarrow> Inl (WantsString field v))
   | _ \<Rightarrow> Inr ds) tbl []"

definition harvestDepPlatforms :: "string \<Rightarrow> (lua \<times> lua) list \<Rightarrow> eval_error + (string, dep list) gomap" where
  "harvestDepPlatforms field tbl = (case raw_get tbl ''platforms'' of
     LuaTable n plats \<Rightarrow> try_each (\<lambda>(k, v) out. case (k, v) of
         (LuaStr name, LuaTable m sub) \<Rightarrow>
           (case harvestDeps field sub of Inl e \<Rightarrow> Inl e | Inr ds \<Rightarrow> Inr (mput name ds out))
       | _ \<Rightarrow> Inr out) plats []
   | _ \<Rightarrow> Inr [])"

definition harvestExternalDeps :: "(lua \<times> lua) list \<Rightarrow> (string, external_dep) gomap" where
  "harvestExternalDeps tbl = foldl (\<lambda>out (k, v). case (k, v) of
       (LuaStr name, LuaTable m sub) \<Rightarrow>
         (if name = ''platforms'' then out
          else mput name \<lparr>xHeader = optString (raw_get sub ''header''), xLibrary = optString (raw_get sub ''library'')\<rparr> out)
     | _ \<Rightarrow> out) [] tbl"

definition harvestExternalDepPlatforms :: "(lua \<times> lua) list \<Rightarrow> (string, (string, external_dep) gomap) gomap" where
  "harvestExternalDepPlatforms tbl = (case raw_get tbl ''platforms'' of
     LuaTable n plats \<Rightarrow> foldl (\<lambda>out (k, v). case (k, v) of
         (LuaStr name, LuaTable m sub) \<Rightarrow> mput name (harvestExternalDeps sub) out
       | _ \<Rightarrow> out) [] plats
   | _ \<Rightarrow> [])"

definition module_of_table :: "lua \<Rightarrow> (lua \<times> lua) list \<Rightarrow> module_entry" where
  "module_of_table vv tbl =
     (let arr = stringArray vv; s = stringArray (raw_get tbl ''sources'');
          srcs = (if length arr > 0 \<and> raw_get tbl ''sources'' = LuaNil then arr else [])
      in \<lparr>mPath = [], mSources = (if length s > 0 then s else srcs),
          mIncdirs = stringArray (raw_get tbl ''incdirs''), mLibdirs = stringArray (raw_get tbl ''libdirs''),
          mLibraries = stringArray (raw_get tbl ''libraries''), mDefines = stringArray (raw_get tbl ''defines'')\<rparr>)"

definition harvestModules :: "(lua \<times> lua) list \<Rightarrow> (string, module_entry) gomap" where
  "harvestModules tbl = foldl (\<lambda>out (k, v). case k of
     LuaStr name \<Rightarrow> (case v of
       LuaStr path \<Rightarrow> mput name (zero_module\<lparr>mPath := path\<rparr>) out
     | LuaTable n sub \<Rightarrow> mput name (module_of_table v sub) out
     | _ \<Rightarrow> out)
   | _ \<Rightarrow> out) [] tbl"

definition harvestBuildInstall :: "(lua \<times> lua) list \<Rightarrow> build_install" where
  "harvestBuildInstall tbl =
     \<lparr>iLua = stringMap (raw_get tbl ''lua''), iLib = stringMap (raw_get tbl ''lib''),
      iBin = stringMap (raw_get tbl ''bin''), iConf = stringMap (raw_get tbl ''conf'')\<rparr>"

definition build_fields :: "(lua \<times> lua) list \<Rightarrow> build_tbl" where
  "build_fields tbl =
     \<lparr>bType = optString (raw_get tbl ''type''),
      bModules = (case raw_get tbl ''modules'' of LuaTable n mods \<Rightarrow> harvestModules mods | _ \<Rightarrow> []),
      bInstall = (case raw_get tbl ''install'' of LuaTable n inst \<Rightarrow> harvestBuildInstall inst | _ \<Rightarrow> zero_install),
      bCopyDirectories = stringArray (raw_get tbl ''copy_directories''),
      bVariables = stringMap (raw_get tbl ''variables''),
      bMakefile = optString (raw_get tbl ''makefile''),
      bBuildTarget = optString (raw_get tbl ''build_target''),
      bBuildVariables = stringMap (raw_get tbl ''build_variables''),
      bInstallTarget = optString (raw_get tbl ''install_target''),
      bInstallVariables = stringMap (raw_get tbl ''install_variables''),
      bBuildPass = optBool (raw_get tbl ''build_pass''),
      bInstallPass = optBool (raw_get tbl ''install_pass''),
      bBuildCommand = optString (raw_get tbl ''build_command''),
      bInstallCommand = optString (raw_get tbl ''install_command'')\<rparr>"

text \<open>\<open>harvestBuild\<close> with \<open>harvestPlatforms\<close>, which calls it for every overlay.\<close>

function harvestBuild :: "(lua \<times> lua) list \<Rightarrow> eval_error + build" where
  "harvestBuild tbl =
     (let b = build_fields tbl in
      if bType b \<notin> set allowedBuildTypes then Inl (BadBuildType (bType b))
      else
        (case raw_get tbl ''platforms'' of
           LuaTable n platsTbl \<Rightarrow>
             (case try_each (\<lambda>(k, v) plats. case (k, v) of
                  (LuaStr name, LuaTable m sub) \<Rightarrow>
                    (case harvestBuild sub of Inl e \<Rightarrow> Inl e | Inr pb \<Rightarrow> Inr (mput name pb plats))
                | _ \<Rightarrow> Inr plats) platsTbl [] of
                Inl e \<Rightarrow> Inl e
              | Inr plats \<Rightarrow> Inr (Build b plats))
         | _ \<Rightarrow> Inr (Build b [])))"
  by pat_completeness auto
termination
  by (relation "measure tbl_size") (auto dest!: size_entry size_raw_get)

declare harvestBuild.simps [simp del]

text \<open>One of the three dependency fields: the list and its overlays.\<close>

definition harvest_dep_field :: "lua_state \<Rightarrow> string \<Rightarrow> eval_error + dep list \<times> (string, dep list) gomap" where
  "harvest_dep_field l name = (case tableGlobal l name of
     Inl e \<Rightarrow> Inl e
   | Inr None \<Rightarrow> Inr ([], [])
   | Inr (Some (n, tbl)) \<Rightarrow> (case harvestDeps name tbl of
       Inl e \<Rightarrow> Inl e
     | Inr ds \<Rightarrow> (case harvestDepPlatforms name tbl of Inl e \<Rightarrow> Inl e | Inr plats \<Rightarrow> Inr (ds, plats))))"

text \<open>A later step of the harvest that reads a table, or leaves the rockspec as it is.\<close>

definition with_table :: "lua_state \<Rightarrow> string \<Rightarrow> (nat \<Rightarrow> (lua \<times> lua) list \<Rightarrow> rockspec \<Rightarrow> eval_error + rockspec) \<Rightarrow>
    rockspec \<Rightarrow> eval_error + rockspec" where
  "with_table l name f spec = (case tableGlobal l name of
     Inl e \<Rightarrow> Inl e | Inr None \<Rightarrow> Inr spec | Inr (Some (n, tbl)) \<Rightarrow> f n tbl spec)"

definition and_then :: "'e + 'a \<Rightarrow> ('a \<Rightarrow> 'e + 'b) \<Rightarrow> 'e + 'b" where
  "and_then r f = (case r of Inl e \<Rightarrow> Inl e | Inr x \<Rightarrow> f x)"

lemma and_then_simps [simp]: "and_then (Inl e) f = Inl e" "and_then (Inr x) f = f x"
  by (simp_all add: and_then_def)

lemma and_then_Inr: "and_then r f = Inr y \<longleftrightarrow> (\<exists>x. r = Inr x \<and> f x = Inr y)"
  by (cases r) simp_all

definition harvest :: "lua_state \<Rightarrow> rockspec \<Rightarrow> eval_error + rockspec" where
  "harvest l spec0 =
     and_then (stringGlobal l ''package'') (\<lambda>pkg.
     and_then (stringGlobal l ''rockspec_format'') (\<lambda>format.
     and_then (stringGlobal l ''version'') (\<lambda>ver.
     and_then (with_table l ''description'' (\<lambda>n tbl s. Inr (s\<lparr>rDescription := harvestDescription tbl\<rparr>))
       (spec0\<lparr>rPackage := to_lower pkg, rRockspecFormat := format, rVersion := ver\<rparr>)) (\<lambda>s.
     and_then (with_table l ''source'' (\<lambda>n tbl s. Inr (s\<lparr>rSource := harvestSource tbl\<rparr>)) s) (\<lambda>s.
     and_then (harvest_dep_field l ''dependencies'') (\<lambda>(ds, dplats).
     and_then (harvest_dep_field l ''build_dependencies'') (\<lambda>(bs, bplats).
     and_then (harvest_dep_field l ''test_dependencies'') (\<lambda>(ts, tplats).
     and_then (with_table l ''external_dependencies'' (\<lambda>n tbl s. Inr (s\<lparr>rExternalDependencies := harvestExternalDeps tbl,
         rExternalDependenciesPlatforms := harvestExternalDepPlatforms tbl\<rparr>))
       (s\<lparr>rDependencies := ds, rDependenciesPlatforms := dplats, rBuildDependencies := bs,
          rBuildDependenciesPlatforms := bplats, rTestDependencies := ts, rTestDependenciesPlatforms := tplats\<rparr>)) (\<lambda>s.
     and_then (with_table l ''supported_platforms''
       (\<lambda>n tbl s. Inr (s\<lparr>rSupportedPlatforms := harvestStringArray (LuaTable n tbl)\<rparr>)) s) (\<lambda>s.
     and_then (with_table l ''build'' (\<lambda>n tbl s. and_then (harvestBuild tbl)
         (\<lambda>b. Inr (s\<lparr>rBuild := b, rHasBuild := True\<rparr>))) s) (\<lambda>s.
     with_table l ''deploy'' (\<lambda>n tbl s. Inr (s\<lparr>rDeploy := harvestDeploy tbl\<rparr>)) s)))))))))))"

text \<open>
  \<open>run\<close> executes a program in an interpreter state and \<open>std\<close> are the globals of a fresh one.
\<close>

definition Eval :: "(lua_state \<Rightarrow> string \<Rightarrow> string + lua_state) \<Rightarrow> (lua \<times> lua) list \<Rightarrow> fs \<Rightarrow> string \<Rightarrow>
    eval_error + rockspec" where
  "Eval run std s path = (case os_read s path of
     Inl e \<Rightarrow> Inl (ReadSpec e)
   | Inr src \<Rightarrow>
      (let l0 = newSandboxedState std; builtins = globalNames l0 in
       case run l0 src of
         Inl e \<Rightarrow> Inl (RunSpec e)
       | Inr l \<Rightarrow> (case checkUndeclaredReads (lReads l) of
           Some e \<Rightarrow> Inl e
         | None \<Rightarrow> (case checkUndeclaredGlobals l builtins of
             Some e \<Rightarrow> Inl e
           | None \<Rightarrow> harvest l (zero_rockspec\<lparr>rRawSource := src\<rparr>)))))"

section \<open>What a harvested rockspec satisfies\<close>

text \<open>A build table and all its overlays, however deep, have a supported build type.\<close>

fun supported_build :: "build \<Rightarrow> bool" where
  "supported_build (Build b plats) \<longleftrightarrow> bType b \<in> set allowedBuildTypes \<and> (\<forall>x \<in> set plats. supported_build (snd x))"

lemma supported_build_mput:
  "\<forall>x \<in> set plats. supported_build (snd x) \<Longrightarrow> supported_build b \<Longrightarrow>
   \<forall>x \<in> set (mput name b plats). supported_build (snd x)"
  by (induction plats) auto

lemma harvestBuild_supported: "harvestBuild tbl = Inr b \<Longrightarrow> supported_build b"
proof (induction tbl arbitrary: b rule: harvestBuild.induct)
  case (1 tbl)
  note sup = "1.prems"[unfolded harvestBuild.simps[of tbl] Let_def]
  show ?case
  proof (cases "raw_get tbl ''platforms''")
    case (LuaTable n plats)
    let ?step = "\<lambda>(k, v) acc. case (k, v) of (LuaStr name, LuaTable m sub) \<Rightarrow>
        (case harvestBuild sub of Inl e \<Rightarrow> Inl e | Inr pb \<Rightarrow> Inr (mput name pb acc)) | _ \<Rightarrow> Inr acc"
    obtain res where res: "try_each ?step plats [] = Inr res" "b = Build (build_fields tbl) res"
      and ty: "bType (build_fields tbl) \<in> set allowedBuildTypes"
      using sup LuaTable by (auto split: if_splits sum.splits)
    have "\<forall>x \<in> set res. supported_build (snd x)"
    proof (rule try_each_inv[OF res(1)])
      fix kv acc acc'
      assume kv: "kv \<in> set plats" and acc: "\<forall>x \<in> set acc. supported_build (snd x)"
        and st: "?step kv acc = Inr acc'"
      obtain k v where kv': "kv = (k, v)" by (cases kv)
      show "\<forall>x \<in> set acc'. supported_build (snd x)"
      proof (cases "\<exists>name m sub. k = LuaStr name \<and> v = LuaTable m sub")
        case True
        then obtain name m sub where e: "k = LuaStr name" "v = LuaTable m sub" by auto
        then obtain pb where pb: "harvestBuild sub = Inr pb" "acc' = mput name pb acc"
          using st kv' by (auto split: sum.splits)
        have "supported_build pb" using 1(1) ty LuaTable kv kv' e pb(1) by simp
        then show ?thesis using supported_build_mput[OF acc] pb(2) by simp
      next
        case False
        then have "acc' = acc" using st kv' by (auto split: lua.splits)
        then show ?thesis using acc by simp
      qed
    qed simp
    then show ?thesis using res(2) ty by simp
  qed (use sup in \<open>auto split: if_splits\<close>)
qed

lemma lower_char_idem: "lower_char (lower_char c) = lower_char c"
  by (simp add: lower_char_def is_upper_def)

lemma to_lower_idem: "to_lower (to_lower s) = to_lower s"
  by (simp add: to_lower_def lower_char_idem)

text \<open>A property of every result that is not an error, and how the steps of the harvest carry it.\<close>

definition all_ok :: "('a \<Rightarrow> bool) \<Rightarrow> 'e + 'a \<Rightarrow> bool" where
  "all_ok P r \<longleftrightarrow> (case r of Inl e \<Rightarrow> True | Inr x \<Rightarrow> P x)"

lemma all_ok_simps [simp]: "all_ok P (Inl e)" "all_ok P (Inr x) = P x"
  by (simp_all add: all_ok_def)

lemma all_ok_then: "all_ok Q r \<Longrightarrow> (\<And>x. Q x \<Longrightarrow> all_ok P (f x)) \<Longrightarrow> all_ok P (and_then r f)"
  by (cases r) simp_all

lemma all_ok_any: "(\<And>x. all_ok P (f x)) \<Longrightarrow> all_ok P (and_then r f)"
  by (cases r) simp_all

lemma all_ok_table: "P s \<Longrightarrow> (\<And>n tbl. all_ok P (f n tbl s)) \<Longrightarrow> all_ok P (with_table l name f s)"
  by (simp add: with_table_def split: sum.split option.split prod.split)

definition good_spec :: "string \<Rightarrow> rockspec \<Rightarrow> bool" where
  "good_spec src s \<longleftrightarrow> supported_build (rBuild s) \<and> to_lower (rPackage s) = rPackage s \<and> rRawSource s = src"

lemma harvest_good:
  assumes "supported_build (rBuild spec0)"
  shows "all_ok (good_spec (rRawSource spec0)) (harvest l spec0)"
proof -
  let ?P = "good_spec (rRawSource spec0)"
  have start: "?P (spec0\<lparr>rPackage := to_lower pkg, rRockspecFormat := format, rVersion := ver\<rparr>)" for pkg format ver
    using assms by (simp add: good_spec_def to_lower_idem)
  have build: "all_ok ?P (with_table l ''build'' (\<lambda>n tbl s. and_then (harvestBuild tbl)
      (\<lambda>b. Inr (s\<lparr>rBuild := b, rHasBuild := True\<rparr>))) s)" if "?P s" for s
  proof (rule all_ok_table[where P = ?P])
    show "?P s" by (rule that)
    fix n tbl
    have "all_ok supported_build (harvestBuild tbl)"
      using harvestBuild_supported by (cases "harvestBuild tbl") auto
    then show "all_ok ?P (and_then (harvestBuild tbl) (\<lambda>b. Inr (s\<lparr>rBuild := b, rHasBuild := True\<rparr>)))"
      by (rule all_ok_then) (use that in \<open>simp add: good_spec_def\<close>)
  qed
  have plain: "all_ok ?P (with_table l name (\<lambda>n tbl s. Inr (g n tbl s)) s)"
    if "?P s" "\<And>n tbl. ?P (g n tbl s)" for name g s
    using that by (intro all_ok_table) simp_all
  have deps: "all_ok ?P (and_then (harvest_dep_field l a) (\<lambda>(ds, dplats). f ds dplats))"
    if "\<And>ds dplats. all_ok ?P (f ds dplats)" for a f
    using that by (intro all_ok_any) (simp split: prod.split)
  show ?thesis
    unfolding harvest_def
    by (rule all_ok_any, rule all_ok_any, rule all_ok_any,
        (rule start all_ok_then[OF plain] deps all_ok_then[OF build] plain | assumption
          | (simp add: good_spec_def assms to_lower_idem; fail))+)
qed

section \<open>The whole load\<close>

lemma first_unknown_None: "first_unknown xs = None \<longleftrightarrow> xs = []"
  by (simp add: first_unknown_def)

lemma no_builtins: "globalNames (newSandboxedState std) = []"
  by (auto simp: globalNames_def newSandboxedState_def List.map_filter_def filter_empty_conv split: lua.splits)

lemma Eval_Inr:
  assumes "Eval run std s path = Inr spec"
  obtains l where "os_read s path = Inr (rRawSource spec)" "run (newSandboxedState std) (rRawSource spec) = Inr l"
    "checkUndeclaredReads (lReads l) = None" "checkUndeclaredGlobals l [] = None" "good_spec (rRawSource spec) spec"
proof -
  obtain src l where src: "os_read s path = Inr src" and l: "run (newSandboxedState std) src = Inr l"
    and reads: "checkUndeclaredReads (lReads l) = None" and globs: "checkUndeclaredGlobals l [] = None"
    and h: "harvest l (zero_rockspec\<lparr>rRawSource := src\<rparr>) = Inr spec"
    using assms by (auto simp: Eval_def Let_def no_builtins split: sum.splits option.splits)
  have "supported_build (rBuild (zero_rockspec\<lparr>rRawSource := src\<rparr>))"
    by (simp add: zero_rockspec_def zero_build_tbl_def allowedBuildTypes_def)
  then have g: "good_spec src spec" using harvest_good[of "zero_rockspec\<lparr>rRawSource := src\<rparr>" l] h by simp
  then have "rRawSource spec = src" by (simp add: good_spec_def)
  then show thesis using that src l reads globs g by simp
qed

text \<open>
  C30: A rockspec that loads is what the file says and nothing the schema does not know: the text is
  the file's, the name is in lower case, every build table in it, overlays of overlays
  included, has a supported type, and the program neither read nor assigned a variable outside
  the rockspec fields.
\<close>

theorem Eval_accepts:
  assumes "Eval run std s path = Inr spec"
  shows "supported_build (rBuild spec) \<and> to_lower (rPackage spec) = rPackage spec \<and>
    os_read s path = Inr (rRawSource spec) \<and>
    (\<exists>l. run (newSandboxedState std) (rRawSource spec) = Inr l \<and> set (lReads l) \<subseteq> set rockspecFields \<and>
       set (globalNames l) \<subseteq> set rockspecFields)"
  using assms
  by (elim Eval_Inr)
    (auto simp: good_spec_def checkUndeclaredReads_def checkUndeclaredGlobals_def first_unknown_None filter_empty_conv)

text \<open>A file, and an interpreter that runs it to two globals.\<close>

definition spec_files :: fs where
  "spec_files = \<lparr>nodes = [(''a.rockspec'', NFile ''package'' 420)], ticks = 0, faults = (\<lambda>_. None)\<rparr>"

definition small_vm :: "lua_state \<Rightarrow> string \<Rightarrow> string + lua_state" where
  "small_vm l src = Inr (l\<lparr>lGlobals := (LuaStr src, LuaStr ''Foo'') #
     (LuaStr ''build'', LuaTable 0 [(LuaStr ''type'', LuaStr ''none'')]) # lGlobals l\<rparr>)"

theorem Eval_accepts_witness:
  "(case Eval small_vm [(LuaStr ''os'', LuaOther ''table'')] spec_files ''a.rockspec'' of
      Inr spec \<Rightarrow> rPackage spec = ''foo'' \<and> bType (bFields (rBuild spec)) = ''none'' \<and> supported_build (rBuild spec)
    | Inl _ \<Rightarrow> False)"
proof -
  have ev: "(case Eval small_vm [(LuaStr ''os'', LuaOther ''table'')] spec_files ''a.rockspec'' of
      Inr spec \<Rightarrow> rPackage spec = ''foo'' \<and> bType (bFields (rBuild spec)) = ''none'' | Inl _ \<Rightarrow> False)"
    by code_simp
  then obtain spec where spec: "Eval small_vm [(LuaStr ''os'', LuaOther ''table'')] spec_files ''a.rockspec'' = Inr spec"
    by (auto split: sum.splits)
  show ?thesis using ev Eval_accepts[OF spec] spec by simp
qed

lemma overwrite_type:
  "bType (bFields (rBuild (merge_platform sp n))) = (case map_of (bPlatforms (rBuild sp)) n of
     None \<Rightarrow> bType (bFields (rBuild sp))
   | Some ov \<Rightarrow> overwrite (bType (bFields (rBuild sp))) (bType (bFields ov)))"
proof -
  have "bType (bFields (rBuild (merge_platform sp n)))
      = bType (bFields (rBuild (apply_overlay (map_of (bPlatforms (rBuild sp)) n)
             (\<lambda>ov s. s\<lparr>rBuild := mergeBuild (rBuild s) ov\<rparr>) sp)))"
    by (simp add: merge_platform_def Let_def apply_overlay_keeps[where g = "\<lambda>s. bType (bFields (rBuild s))"])
  then show ?thesis by (simp add: apply_overlay_def mergeBuild_def Let_def split: option.split)
qed

lemma supported_fields: "supported_build b \<Longrightarrow> bType (bFields b) \<in> set allowedBuildTypes"
  by (cases b) simp

lemma merge_platform_supported:
  assumes "supported_build (rBuild sp)"
  shows "supported_build (rBuild (merge_platform sp n))"
proof -
  have pl: "\<forall>x \<in> set (bPlatforms (rBuild sp)). supported_build (snd x)"
    using assms by (cases "rBuild sp") simp
  have "bType (bFields (rBuild (merge_platform sp n))) \<in> set allowedBuildTypes"
    using supported_fields[OF assms] pl supported_fields
    by (auto simp: overwrite_type overwrite_def dest!: map_of_SomeD split: option.split)
  then show ?thesis using pl merge_platforms_kept(1)[of sp n]
    by (cases "rBuild (merge_platform sp n)") simp
qed

text \<open>
  The check of the build type in \<open>Validate\<close> never fires on a rockspec that was loaded and had
  platform overlays folded in, whatever the platforms: the load already rejects an unsupported
  type, in the base and in every overlay.
\<close>

theorem loaded_build_type_supported:
  assumes "Eval run std s path = Inr spec"
  shows "Validate (MergePlatforms (Some spec) ps) \<noteq> Some (UnsupportedBuildType t)"
proof -
  have "supported_build (rBuild (foldl merge_platform sp ps))" if "supported_build (rBuild sp)" for sp
    using that by (induction ps arbitrary: sp) (auto intro: merge_platform_supported)
  moreover have "supported_build (rBuild spec)"
    using assms by (elim Eval_Inr) (simp add: good_spec_def)
  ultimately show ?thesis
    using supported_fields by (auto simp: MergePlatforms_def Validate_def Let_def clear_platforms_def unsupportedFieldErr_def
        split: if_splits)
qed

theorem loaded_build_type_supported_witness:
  "(case Eval small_vm [] spec_files ''a.rockspec'' of
      Inr spec \<Rightarrow> Validate (MergePlatforms (Some spec) [''unix'']) \<noteq> Some (UnsupportedBuildType ''none'')
    | Inl _ \<Rightarrow> False)"
proof -
  have "(case Eval small_vm [] spec_files ''a.rockspec'' of Inr spec \<Rightarrow> True | Inl _ \<Rightarrow> False)" by code_simp
  then obtain spec where spec: "Eval small_vm [] spec_files ''a.rockspec'' = Inr spec" by (auto split: sum.splits)
  show ?thesis unfolding spec sum.case by (rule loaded_build_type_supported[OF spec])
qed

end
