(* ===== verification/Client.thy ===== *)
theory Client
  imports TreeManifest Build TreeDeploy RemoteSearch RockEval
begin

text \<open>
  The tree side of the client: \<open>src/client/client.go\<close> (the facade's reads and the helpers of the
  tree manifest) and the parts of \<open>src/client/native.go\<close> that deploy a rock, record it and remove
  it. \<open>engine\<close> holds the configuration and everything outside the repository that the native
  engine uses: the network, the fetchers, the build host, the Lua interpreter and the digests. The
  manifest of the tree is read before and written after the files change; how it changes is
  \<open>record_rock\<close> and \<open>forget_version\<close>.
\<close>

datatype client_error =
    TreeFailed tree_error
  | StoreFailed store_error
  | ReadManifest store_error
  | NotInstalled string
  | EvalFailed string eval_error
  | ValidateFailed string validate_error
  | ReadDir string
  | ManyRockspecs string string string
  | NoRockspec string
  | PlatformExcluded string string
  | PlatformMissing string
  | DeployFailed tree_error
  | BuildFailed build_error
  | MkdirFailedAt string
  | FetchingFailed string fetch_error
  | TempFailed string
  | BadVersion string constraint_error
  | QueryError string remote_error
  | NoMatch string string
  | ResolveFailed resolve_error
  | Within string client_error
  | EmptyName
  | ZipFailed string
  | BadOptions
  | NoServers
  | NoWorkingDir
  | NotFound string string string
  | DownloadsFailed "client_error list"
  | NotImplemented

record 'w engine =
  eCfg :: config
  eNet :: "'w ext_net"
  eFetchers :: "'w fetchers"
  eHost :: "'w host"
  eRun :: "lua_state \<Rightarrow> string \<Rightarrow> string + lua_state"
  eStd :: "(lua \<times> lua) list"
  eMd5 :: "string \<Rightarrow> string"
  eIsLua :: "fs \<Rightarrow> string \<Rightarrow> bool"
  eSprintv :: "lval \<Rightarrow> string"
  eZip :: "(string \<times> string) list \<Rightarrow> string"
  eTemp :: "string \<Rightarrow> string \<Rightarrow> 'w net \<Rightarrow> string"
  eShow :: "client_error \<Rightarrow> string"
  eProbe :: "string \<Rightarrow> 'w net \<Rightarrow> (string + string) \<times> 'w net"

type_synonym ('w, 'a) client_io = "'w net \<Rightarrow> (client_error + 'a) \<times> 'w net"

text \<open>A manifest that is not there yet reads as an empty one.\<close>

definition readTreeManifest :: "fs \<Rightarrow> string \<Rightarrow> client_error + manifest" where
  "readTreeManifest s dir = (case ReadTree s dir of
     Inr m \<Rightarrow> Inr m
   | Inl e \<Rightarrow> (if e = ReadFailed ''no such file'' then Inr empty_manifest else Inl (ReadManifest e)))"

section \<open>Rockspecs\<close>

definition evalAndPrepare :: "'w engine \<Rightarrow> fs \<Rightarrow> string \<Rightarrow> client_error + rockspec" where
  "evalAndPrepare e s specPath = (case Eval (eRun e) (eStd e) s specPath of
     Inl er \<Rightarrow> Inl (EvalFailed specPath er)
   | Inr spec0 \<Rightarrow>
      (let spec = the (MergePlatforms (Some spec0) (runtimePlatformsFor (goos (eHost e)))) in
       case Validate (Some spec) of
         Some er \<Rightarrow> Inl (ValidateFailed specPath er)
       | None \<Rightarrow> Inr spec))"

fun scan_rockspecs :: "fs \<Rightarrow> string \<Rightarrow> string \<Rightarrow> string list \<Rightarrow> client_error + string" where
  "scan_rockspecs s dir found [] = (if found = [] then Inl (NoRockspec dir) else Inr found)"
| "scan_rockspecs s dir found (n # ns) =
     (let p = path_join [dir, n] in
      if isDir s p \<or> \<not> has_suffix n ''.rockspec'' then scan_rockspecs s dir found ns
      else if found \<noteq> [] then Inl (ManyRockspecs dir found p)
      else scan_rockspecs s dir p ns)"

definition findRockspecIn :: "fs \<Rightarrow> string \<Rightarrow> client_error + string" where
  "findRockspecIn s dir = (case os_read_dir s dir of
     None \<Rightarrow> Inl (ReadDir dir) | Some names \<Rightarrow> scan_rockspecs s dir [] names)"

text \<open>The list of supported platforms: the error that a negative entry gives, or what was seen.\<close>

fun scan_platforms :: "string \<Rightarrow> string list \<Rightarrow> bool \<Rightarrow> string list \<Rightarrow> client_error + bool \<times> bool" where
  "scan_platforms pkg plats allNegative [] = Inr (False, allNegative)"
| "scan_platforms pkg plats allNegative (entry # es) =
     (if has_prefix entry ''!'' then
        (if drop 1 entry \<in> set plats then Inl (PlatformExcluded pkg (drop 1 entry))
         else scan_platforms pkg plats allNegative es)
      else if entry \<in> set plats then Inr (True, False)
      else scan_platforms pkg plats False es)"

definition checkSupportedPlatforms :: "rockspec \<Rightarrow> string list \<Rightarrow> client_error option" where
  "checkSupportedPlatforms spec plats =
     (if rSupportedPlatforms spec = [] then None
      else case scan_platforms (rPackage spec) plats True (rSupportedPlatforms spec) of
        Inl e \<Rightarrow> Some e
      | Inr (supported, allNegative) \<Rightarrow>
          (if \<not> supported \<and> \<not> allNegative then Some (PlatformMissing (rPackage spec)) else None))"

definition wrapBinScripts :: "rockspec \<Rightarrow> bool" where
  "wrapBinScripts spec = (case wrapBinScripts_opt (rDeploy spec) of Some b \<Rightarrow> b | None \<Rightarrow> True)"

definition sysconfDir :: "'w engine \<Rightarrow> string" where
  "sysconfDir e = (let v = getenv (eHost e) ''LUAROCKS_SYSCONFDIR'' in if v \<noteq> [] then v else ''/etc/luarocks'')"

section \<open>Deploying and recording\<close>

text \<open>Actions on the disk and on the store of manifests, as actions of the client.\<close>

definition on_tree :: "(fs \<Rightarrow> (tree_error + 'a) \<times> fs) \<Rightarrow> ('w, 'a) client_io" where
  "on_tree m = on_disk (map_err TreeFailed m)"

definition on_store :: "(fs \<Rightarrow> store_error option \<times> fs) \<Rightarrow> ('w, unit) client_io" where
  "on_store f = on_disk (\<lambda>s. let (r, s') = f s in (case r of Some e \<Rightarrow> Inl (StoreFailed e) | None \<Rightarrow> Inr (), s'))"

definition lift_client :: "client_error option \<Rightarrow> ('w, unit) client_io" where
  "lift_client r = (case r of Some e \<Rightarrow> fail_io e | None \<Rightarrow> ret ())"

definition rocks_dir :: "'w engine \<Rightarrow> string" where
  "rocks_dir e = RocksDir (cfgTree (eCfg e))"

definition open_tree :: "'w engine \<Rightarrow> ('w, TreePaths.tree) client_io" where
  "open_tree e = on_tree (Open (cfgTree (eCfg e)))"

definition tree_for :: "'w engine \<Rightarrow> rockspec \<Rightarrow> manifest \<Rightarrow> TreePaths.tree \<Rightarrow> TreePaths.tree" where
  "tree_for e spec m t = t\<lparr>tProvider := Some (manifestProvider m),
     tBinWrap := (if wrapBinScripts spec
       then Some \<lparr>bwInterpreter = path_join [ttPrefix (cfgTarantool (eCfg e)), ''bin'', ''tarantool''],
                  bwSysconfdir = sysconfDir e\<rparr> else tBinWrap t)\<rparr>"

text \<open>
  The deployment is a parameter, as in the code. It returns the rockspec as well, since a build
  may fill in its build table.
\<close>

definition prepare_deploy :: "'w engine \<Rightarrow> rockspec \<Rightarrow> (TreePaths.tree \<Rightarrow> ('w, rock_manifest \<times> rockspec) client_io) \<Rightarrow>
    ('w, manifest \<times> rock_manifest \<times> rockspec) client_io" where
  "prepare_deploy e spec deploy =
     bind_io (lift_client (checkSupportedPlatforms spec (runtimePlatformsFor (goos (eHost e))))) (\<lambda>_.
     bind_io (open_tree e) (\<lambda>t.
     bind_io (get (\<lambda>w. readTreeManifest (disk w) (rocks_dir e))) (\<lambda>rd.
     bind_io (lift_err rd) (\<lambda>m.
     bind_io (deploy (tree_for e spec m t)) (\<lambda>deployed. ret (m, deployed))))))"

definition rock_manifest_file :: "'w engine \<Rightarrow> rockspec \<Rightarrow> string" where
  "rock_manifest_file e spec = path_join [InstallDir (cfgTree (eCfg e)) (rPackage spec) (rVersion spec), ''rock_manifest'']"

definition record_deployed :: "'w engine \<Rightarrow> rockspec \<Rightarrow> manifest \<times> rock_manifest \<times> rockspec \<Rightarrow> ('w, unit) client_io" where
  "record_deployed e spec = (\<lambda>(m, rm, spec').
     bind_io (on_store (WriteRock (rock_manifest_file e spec) (Some rm))) (\<lambda>_.
     on_store (WriteTree (rocks_dir e) (Some (record_rock spec' rm m)))))"

definition deployRock :: "'w engine \<Rightarrow> rockspec \<Rightarrow> (TreePaths.tree \<Rightarrow> ('w, rock_manifest \<times> rockspec) client_io) \<Rightarrow>
    ('w, unit) client_io" where
  "deployRock e spec deploy = bind_io (prepare_deploy e spec deploy) (record_deployed e spec)"

text \<open>The deployment of a rock that is built from its sources, and of one that is built already.\<close>

definition source_deploy :: "'w engine \<Rightarrow> rockspec \<Rightarrow> string \<Rightarrow> TreePaths.tree \<Rightarrow> ('w, rock_manifest \<times> rockspec) client_io" where
  "source_deploy e spec srcDir t =
     (let destDir = path_join [InstallDir (tTree t) (rPackage spec) (rVersion spec), ''build''] in
     bind_io (on_disk (act MkdirFailedAt (os_mkdir_all destDir))) (\<lambda>_.
     bind_io (map_err BuildFailed (RunBackend (eHost e) spec srcDir destDir (eCfg e))) (\<lambda>spec'.
     bind_io (on_disk (map_err DeployFailed (Deploy (eMd5 e) (eIsLua e) t (Some spec') srcDir destDir))) (\<lambda>rm.
     ret (rm, spec')))))"

definition deployFromSource :: "'w engine \<Rightarrow> rockspec \<Rightarrow> string \<Rightarrow> ('w, unit) client_io" where
  "deployFromSource e spec srcDir = deployRock e spec (source_deploy e spec srcDir)"

definition binary_deploy :: "'w engine \<Rightarrow> rockspec \<Rightarrow> string \<Rightarrow> TreePaths.tree \<Rightarrow> ('w, rock_manifest \<times> rockspec) client_io" where
  "binary_deploy e deploySpec rockDir t =
     bind_io (on_disk (map_err DeployFailed (Deploy (eMd5 e) (eIsLua e) t (Some deploySpec) rockDir rockDir))) (\<lambda>rm.
     ret (rm, deploySpec))"

text \<open>The rockspec a binary rock is deployed with.\<close>

definition bin_entries :: "fs \<Rightarrow> string \<Rightarrow> (string, string) gomap option" where
  "bin_entries s rockDir = (let dir = path_join [rockDir, ''bin''] in
     map_option (\<lambda>names. map (\<lambda>n. (n, path_join [''bin'', n])) (filter (\<lambda>n. \<not> isDir s (path_join [dir, n])) names))
       (os_read_dir s dir))"

definition binarySpec :: "fs \<Rightarrow> rockspec \<Rightarrow> string \<Rightarrow> client_error + rockspec" where
  "binarySpec s spec rockDir = (case os_read_dir s rockDir of
     None \<Rightarrow> Inl (ReadDir rockDir)
   | Some names \<Rightarrow>
      (let dirs = filter (\<lambda>n. isDir s (path_join [rockDir, n])) names;
           copied = filter (\<lambda>n. n \<notin> {''lua'', ''lib'', ''bin''}) dirs;
           with_bins = (\<lambda>bins. spec\<lparr>rBuild := Build (zero_build_tbl\<lparr>bInstall := zero_install\<lparr>iBin := bins\<rparr>,
             bCopyDirectories := copied\<rparr>) []\<rparr>)
       in if ''bin'' \<in> set dirs then (case bin_entries s rockDir of
            None \<Rightarrow> Inl (ReadDir (path_join [rockDir, ''bin''])) | Some bins \<Rightarrow> Inr (with_bins bins))
          else Inr (with_bins [])))"

definition deployBinary :: "'w engine \<Rightarrow> rockspec \<Rightarrow> string \<Rightarrow> ('w, unit) client_io" where
  "deployBinary e spec rockDir =
     bind_io (get (\<lambda>w. binarySpec (disk w) spec rockDir)) (\<lambda>r.
     bind_io (lift_err r) (\<lambda>deploySpec. deployRock e deploySpec (binary_deploy e deploySpec rockDir)))"

section \<open>Removing\<close>

definition remove_version :: "'w engine \<Rightarrow> string \<Rightarrow> string \<Rightarrow> manifest \<Rightarrow> ('w, manifest) client_io" where
  "remove_version e name v m =
     bind_io (on_disk (\<lambda>s. let (r, s') = DeleteVersion (eSprintv e) (cfgTree (eCfg e)) name v s in
       (case r of Some er \<Rightarrow> Inl (TreeFailed er) | None \<Rightarrow> Inr (), s'))) (\<lambda>_.
     ret (forget_version name v m))"

definition Remove :: "'w engine \<Rightarrow> string \<Rightarrow> string \<Rightarrow> ('w, unit) client_io" where
  "Remove e name version =
     bind_io (open_tree e) (\<lambda>t.
     bind_io (get (\<lambda>w. readTreeManifest (disk w) (rocks_dir e))) (\<lambda>rd.
     bind_io (lift_err rd) (\<lambda>m.
     let versions = mget (mfRepository m) name [] in
     if versions = [] \<or> version \<noteq> [] \<and> map_of versions version = None then fail_io (NotInstalled name)
     else bind_io (each_io (remove_version e name) (if version \<noteq> [] then [version] else map fst versions) m) (\<lambda>m'.
          on_store (WriteTree (rocks_dir e) (Some (drop_if_gone name m')))))))"

section \<open>Reading\<close>

record installed_rock =
  inName :: string
  inVersion :: string

record show_info =
  siPackage :: string
  siVersion :: string
  siModules :: "string list"
  siSummary :: string
  siLicense :: string
  siHomepage :: string
  siDependencies :: "dep list"

definition ReadTreeManifest :: "'w engine \<Rightarrow> ('w, manifest) client_io" where
  "ReadTreeManifest e = bind_io (open_tree e) (\<lambda>t.
     bind_io (get (\<lambda>w. ReadTree (disk w) (rocks_dir e))) (\<lambda>r. case r of
       Inl er \<Rightarrow> fail_io (StoreFailed er) | Inr m \<Rightarrow> ret m))"

definition rocks_of :: "manifest \<Rightarrow> installed_rock list" where
  "rocks_of m = concat (map (\<lambda>(name, versions). map (\<lambda>(ver, entry). \<lparr>inName = name, inVersion = ver\<rparr>) versions) (mfRepository m))"

definition List_rocks :: "'w engine \<Rightarrow> ('w, installed_rock list) client_io" where
  "List_rocks e = bind_io (open_tree e) (\<lambda>t.
     bind_io (get (\<lambda>w. ReadTree (disk w) (rocks_dir e))) (\<lambda>r. case r of
       Inl er \<Rightarrow> (if er = ReadFailed ''no such file'' then ret [] else fail_io (StoreFailed er))
     | Inr m \<Rightarrow> ret (rocks_of m)))"

definition show_rock :: "'w engine \<Rightarrow> fs \<Rightarrow> string \<Rightarrow> string \<Rightarrow> show_info" where
  "show_rock e s name ver =
     (let dir = InstallDir (cfgTree (eCfg e)) name ver;
          mods = (case ReadRock (eSprintv e) s (path_join [dir, ''rock_manifest'']) of
            Inl er \<Rightarrow> [] | Inr rm \<Rightarrow> map fst (rmLua rm) @ map fst (rmLib rm));
          base = \<lparr>siPackage = name, siVersion = ver, siModules = mods, siSummary = [], siLicense = [],
            siHomepage = [], siDependencies = []\<rparr>
      in case Eval (eRun e) (eStd e) s (path_join [dir, name @ ''-'' @ ver @ ''.rockspec'']) of
           Inl er \<Rightarrow> base
         | Inr spec \<Rightarrow> base\<lparr>siSummary := deSummary (rDescription spec), siLicense := deLicense (rDescription spec),
             siHomepage := deHomepage (rDescription spec), siDependencies := rDependencies spec\<rparr>)"

definition Show :: "'w engine \<Rightarrow> string \<Rightarrow> ('w, show_info) client_io" where
  "Show e name = bind_io (ReadTreeManifest e) (\<lambda>m. case map_of (mfRepository m) name of
     None \<Rightarrow> fail_io (NotInstalled name)
   | Some versions \<Rightarrow> get (\<lambda>w. show_rock e (disk w) name (lowest_key versions)))"

definition Which_module :: "'w engine \<Rightarrow> string \<Rightarrow> ('w, string option) client_io" where
  "Which_module e m = bind_io (open_tree e) (\<lambda>t. get (\<lambda>w. Which (disk w) (tTree t) m))"

section \<open>Supported platforms\<close>

text \<open>An entry names a platform of the system, or with an exclamation mark one that it must not have.\<close>

definition wanted :: "string list \<Rightarrow> string \<Rightarrow> bool" where
  "wanted plats entry \<longleftrightarrow> \<not> has_prefix entry ''!'' \<and> entry \<in> set plats"

definition excluded :: "string list \<Rightarrow> string \<Rightarrow> bool" where
  "excluded plats entry \<longleftrightarrow> has_prefix entry ''!'' \<and> drop 1 entry \<in> set plats"

definition supported_platforms :: "string list \<Rightarrow> string list \<Rightarrow> bool" where
  "supported_platforms plats entries \<longleftrightarrow>
     (let before = takeWhile (\<lambda>x. \<not> wanted plats x) entries in
      list_all (\<lambda>x. \<not> excluded plats x) before \<and>
      (length before < length entries \<or> list_all (\<lambda>x. has_prefix x ''!'') entries))"

lemma scan_platforms_spec:
  "(case scan_platforms pkg plats neg es of Inl er \<Rightarrow> False | Inr (supported, neg') \<Rightarrow> supported \<or> neg') \<longleftrightarrow>
    (let before = takeWhile (\<lambda>x. \<not> wanted plats x) es in
     list_all (\<lambda>x. \<not> excluded plats x) before \<and>
     (length before < length es \<or> neg \<and> list_all (\<lambda>x. has_prefix x ''!'') es))"
proof (induction pkg plats neg es rule: scan_platforms.induct)
  case (2 pkg plats neg entry es)
  then show ?case by (auto simp: wanted_def excluded_def Let_def)
qed simp

text \<open>What the comment of \<open>checkSupportedPlatforms\<close> asks for, and the lists the code accepts beside these.\<close>

definition documented_platforms :: "string list \<Rightarrow> string list \<Rightarrow> bool" where
  "documented_platforms plats entries \<longleftrightarrow> \<not> list_ex (excluded plats) entries \<and>
     (list_ex (wanted plats) entries \<or> list_all (\<lambda>x. has_prefix x ''!'') entries)"

definition late_exclusion :: "string list \<Rightarrow> string list \<Rightarrow> bool" where
  "late_exclusion plats entries \<longleftrightarrow> (\<exists>before x after. entries = before @ x # after \<and> wanted plats x \<and>
     \<not> list_ex (excluded plats) before \<and> list_ex (excluded plats) after)"

lemma supported_cases: "supported_platforms plats es \<longleftrightarrow> documented_platforms plats es \<or> late_exclusion plats es"
proof -
  let ?pre = "takeWhile (\<lambda>x. \<not> wanted plats x) es" and ?post = "dropWhile (\<lambda>x. \<not> wanted plats x) es"
  have split: "?pre @ ?post = es" by simp
  show ?thesis
  proof (cases ?post)
    case Nil
    then have pre: "?pre = es" using split by (metis append_Nil2)
    then have none: "\<forall>x \<in> set es. \<not> wanted plats x" by (metis set_takeWhileD)
    then have "\<not> late_exclusion plats es" by (auto simp: late_exclusion_def)
    then show ?thesis using none unfolding supported_platforms_def documented_platforms_def Let_def pre
      by (auto simp: list_ex_iff list_all_iff)
  next
    case (Cons x after)
    then have w: "wanted plats x" by (metis hd_dropWhile list.discI list.sel(1))
    have es: "es = ?pre @ x # after" using split Cons by simp
    have pre: "\<forall>y \<in> set ?pre. \<not> wanted plats y" by (auto dest: set_takeWhileD)
    have nx: "\<not> excluded plats x" using w by (simp add: wanted_def excluded_def)
    have sup: "supported_platforms plats es \<longleftrightarrow> \<not> list_ex (excluded plats) ?pre"
    proof -
      have "length ?pre < length es" using es by (metis length_append length_Cons less_add_Suc1 add_Suc_right)
      then show ?thesis by (auto simp: supported_platforms_def Let_def list_ex_iff list_all_iff)
    qed
    have doc: "documented_platforms plats es \<longleftrightarrow> \<not> list_ex (excluded plats) ?pre \<and> \<not> list_ex (excluded plats) after"
      using w nx by (subst (1) es) (auto simp: documented_platforms_def)
    have late: "\<not> list_ex (excluded plats) ?pre" if "late_exclusion plats es"
    proof -
      obtain b y a where l: "es = b @ y # a" "wanted plats y" "\<not> list_ex (excluded plats) b"
        using \<open>late_exclusion plats es\<close> by (auto simp: late_exclusion_def)
      have "?pre = takeWhile (\<lambda>x. \<not> wanted plats x) b" unfolding l(1) using l(2) by (induction b) simp_all
      then show ?thesis using l(3) by (auto simp: list_ex_iff dest: set_takeWhileD)
    qed
    have "late_exclusion plats es" if "\<not> list_ex (excluded plats) ?pre" "list_ex (excluded plats) after"
      using es w that unfolding late_exclusion_def by blast
    then show ?thesis using sup doc late by blast
  qed
qed

text \<open>
  C37: A rock is accepted on the platforms of the system exactly in two cases: when no entry excludes
  one of them and either one is wanted or all entries are exclusions, as the comment of the function says;
  or when an entry that matches an exclusion comes after a wanted one and none before it, where the
  comment would have the rock refused.
\<close>

theorem platforms_accepted:
  "checkSupportedPlatforms spec plats = None \<longleftrightarrow>
     documented_platforms plats (rSupportedPlatforms spec) \<or> late_exclusion plats (rSupportedPlatforms spec)"
  using scan_platforms_spec[of "rPackage spec" plats True "rSupportedPlatforms spec"]
    supported_cases[of plats "rSupportedPlatforms spec"]
  by (auto simp: checkSupportedPlatforms_def supported_platforms_def Let_def split: sum.splits)

text \<open>The second case: a rock for Unix but not for Linux is accepted on Linux.\<close>

lemma late_exclusion_accepted:
  "checkSupportedPlatforms (zero_rockspec\<lparr>rSupportedPlatforms := [''unix'', ''!linux'']\<rparr>) [''unix'', ''linux''] = None"
  by code_simp

section \<open>A version that was moved aside\<close>

text \<open>
  Deploying a newer version moves the older file to its versioned name, but the rock manifest of the
  older version still lists the plain name. Deleting the older version then deletes the file of the
  newer one and leaves its own behind.
\<close>

definition upgraded_disk :: fs where
  "upgraded_disk = \<lparr>nodes = [(''/t/share/tarantool/rocks/a/1-1/rock_manifest'',
       NFile (''rock_manifest={lua={['' @ [CHR 0x22] @ ''m.lua'' @ [CHR 0x22] @ '']='' @ [CHR 0x22] @ ''d'' @ [CHR 0x22] @ ''}}'') 420),
     (''/t/share/tarantool/m.lua'', NFile ''new'' 420), (''/t/share/tarantool/a_1_1-m.lua'', NFile ''old'' 420)],
     ticks = 0, faults = (\<lambda>n. None)\<rparr>"

lemma remove_older_breaks_newer:
  "(let s = snd (DeleteVersion (\<lambda>v. []) ''/t'' ''a'' ''1-1'' upgraded_disk)
    in (file_at s ''/t/share/tarantool/m.lua'', file_at s ''/t/share/tarantool/a_1_1-m.lua'')) = (None, Some ''old'')"
  by code_simp

end
