(* ===== verification/Install.thy ===== *)
theory Install
  imports Client Resolver
begin

text \<open>
  The operations of the native engine that install: \<open>Install\<close>, \<open>Build\<close>, \<open>Make\<close>, \<open>Pack\<close> and \<open>Unpack\<close>
  of \<open>src/client/native.go\<close>. A session is what lives as long as the engine or as one call of
  \<open>Install\<close>: the world, the index with its caches, the probed LuaJIT version and the artifacts
  unpacked so far. The resolver sees the session through the contract \<open>remote_index\<close>.
\<close>

record 'w session =
  ssNet :: "'w net"
  ssIndex :: index
  ssLuajit :: "string option"
  ssDirs :: "(string, string) gomap"

type_synonym ('w, 'a) session_io = "'w session \<Rightarrow> (client_error + 'a) \<times> 'w session"

datatype deps_policy = DepsAll | DepsNone | DepsOnlyNew

record install_opts =
  iopVersion :: string
  iopServers :: "string list"
  iopDeps :: deps_policy

definition on_net :: "('w, 'a) client_io \<Rightarrow> ('w, 'a) session_io" where
  "on_net m s = (let (r, w) = m (ssNet s) in (r, s\<lparr>ssNet := w\<rparr>))"

section \<open>Artifacts\<close>

text \<open>\<open>os.MkdirTemp\<close>: the operating system chooses a path that is not taken.\<close>

definition MkdirTemp :: "'w engine \<Rightarrow> string \<Rightarrow> string \<Rightarrow> ('w, string) client_io" where
  "MkdirTemp e dir pattern = bind_io (get (eTemp e dir pattern)) (\<lambda>p.
     bind_io (on_disk (act TempFailed (os_mkdir p))) (\<lambda>_. ret p))"

text \<open>\<open>defer os.RemoveAll(tmp)\<close>, whose error is ignored.\<close>

definition removing :: "string \<Rightarrow> ('w, 'a) session_io \<Rightarrow> ('w, 'a) session_io" where
  "removing tmp m = finally_io m (\<lambda>s. s\<lparr>ssNet := (ssNet s)\<lparr>disk := snd (os_remove_all tmp (disk (ssNet s)))\<rparr>\<rparr>)"

definition server_options :: "'w engine \<Rightarrow> fetch_options" where
  "server_options e = no_options\<lparr>foInsecureServers := cfgInsecureServers (eCfg e)\<rparr>"

definition fetchArtifact :: "'w engine \<Rightarrow> string \<Rightarrow> string \<Rightarrow> ('w, string) session_io" where
  "fetchArtifact e tmpRoot url = bind_io (get (\<lambda>s. map_of (ssDirs s) url)) (\<lambda>known. case known of
     Some dir \<Rightarrow> ret dir
   | None \<Rightarrow>
       bind_io (on_net (MkdirTemp e tmpRoot ''artifact-*'')) (\<lambda>tmp.
       bind_io (on_net (map_err (FetchingFailed url) (FetchWith (eFetchers e) url tmp (server_options e)))) (\<lambda>dir s.
       (Inr dir, s\<lparr>ssDirs := mput url dir (ssDirs s)\<rparr>))))"

definition fetchAndEval :: "'w engine \<Rightarrow> string \<Rightarrow> string \<Rightarrow> ('w, rockspec) session_io" where
  "fetchAndEval e tmpRoot url = bind_io (fetchArtifact e tmpRoot url) (\<lambda>dir.
     bind_io (get (\<lambda>s. findRockspecIn (disk (ssNet s)) dir)) (\<lambda>found.
     bind_io (lift_err found) (\<lambda>specPath.
     bind_io (get (\<lambda>s. evalAndPrepare e (disk (ssNet s)) specPath)) lift_err)))"

datatype artifact_kind = RockspecArtifact | SourceRockArtifact | BinaryRockArtifact

definition kindOf :: "string \<Rightarrow> artifact_kind" where
  "kindOf url = (let lower = to_lower url in
     if has_suffix lower ''.src.rock'' then SourceRockArtifact
     else if has_suffix lower ''.rock'' then BinaryRockArtifact
     else RockspecArtifact)"

section \<open>The root of a source tree\<close>

text \<open>\<open>strings.ReplaceAll\<close> with an empty replacement.\<close>

function remove_sub :: "string \<Rightarrow> string \<Rightarrow> string" where
  "remove_sub sub [] = []"
| "remove_sub sub (c # s) =
     (if sub \<noteq> [] \<and> has_prefix (c # s) sub then remove_sub sub (drop (length sub) (c # s)) else c # remove_sub sub s)"
  by pat_completeness auto
termination by (relation "measure (\<lambda>(sub, s). length s)") auto

definition archive_exts :: "string list" where
  "archive_exts = [''zip'', ''git'', ''tgz'', ''tar'', ''gz'', ''bz2'']"

definition deduceBaseDir :: "string \<Rightarrow> string" where
  "deduceBaseDir url = (let base = path_base url in
     remove_sub ''.tar'' (case last_index base (CHR ''.'') of
       Some i \<Rightarrow> (if drop (i + 1) base \<in> set archive_exts then take i base else base)
     | None \<Rightarrow> base))"

definition source_of :: "rockspec \<Rightarrow> source_tbl" where
  "source_of spec = sFields (rSource spec)"

definition findSourceBaseDir :: "fs \<Rightarrow> string \<Rightarrow> rockspec \<Rightarrow> client_error + string" where
  "findSourceBaseDir s dir spec =
     (let src = source_of spec;
          named = (if sDir src \<noteq> [] then path_join [dir, sDir src] else []);
          from_name = (if sFile src \<noteq> [] then sFile src else sURL src);
          inferred = (if from_name \<noteq> [] then deduceBaseDir from_name else [])
      in if sDir src \<noteq> [] \<and> os_stat s named = Some NDir then Inr named
         else if inferred \<noteq> [] \<and> os_stat s (path_join [dir, inferred]) = Some NDir then Inr (path_join [dir, inferred])
         else (case os_read_dir s dir of
           None \<Rightarrow> Inl (ReadDir dir)
         | Some names \<Rightarrow> (case names of
             [n] \<Rightarrow> (if isDir s (path_join [dir, n]) then Inr (path_join [dir, n]) else Inr dir)
           | _ \<Rightarrow> Inr dir)))"

definition is_regular :: "fs \<Rightarrow> string \<Rightarrow> bool" where
  "is_regular s p \<longleftrightarrow> (case os_stat s p of Some (NFile c m) \<Rightarrow> True | _ \<Rightarrow> False)"

definition bundledSource :: "'w engine \<Rightarrow> rockspec \<Rightarrow> string \<Rightarrow> ('w, string) client_io" where
  "bundledSource e spec dir =
     (let src = source_of spec;
          file = (if sFile src = [] \<and> sURL src \<noteq> [] then path_base (sURL src) else sFile src);
          archive = path_join [dir, file]
      in bind_io (get (\<lambda>w. file \<noteq> [] \<and> is_regular (disk w) archive)) (\<lambda>bundled.
         if bundled then
           bind_io (map_err (FetchingFailed file) (Sources (eFetchers e) (''file://'' @ archive) (path_join [dir, ''sources''])
             (no_options\<lparr>foFile := file, foMD5 := sMD5 src\<rparr>))) (\<lambda>res.
           bind_io (get (\<lambda>w. findSourceBaseDir (disk w) (frPath res) spec)) lift_err)
         else bind_io (get (\<lambda>w. findSourceBaseDir (disk w) dir spec)) lift_err))"

text \<open>The identifier the git fetcher reports is stored in the rockspec.\<close>

definition store_identifier :: "string option \<Rightarrow> rockspec \<Rightarrow> rockspec" where
  "store_identifier ident spec = (case ident of
     None \<Rightarrow> spec
   | Some i \<Rightarrow> spec\<lparr>rSource := Source ((source_of spec)\<lparr>sIdentifier := i\<rparr>) (sPlatforms (rSource spec))\<rparr>)"

definition fetchSource :: "'w engine \<Rightarrow> rockspec \<Rightarrow> string \<Rightarrow> ('w, string \<times> rockspec) client_io" where
  "fetchSource e spec tmp = (let src = source_of spec in
     bind_io (map_err (FetchingFailed (sURL src)) (Sources (eFetchers e) (sURL src) tmp
       (no_options\<lparr>foInsecureServers := cfgInsecureServers (eCfg e), foTag := sTag src, foBranch := sBranch src,
          foFile := sFile src, foMD5 := sMD5 src, foVersion := rVersion spec, foIdentifierOut := True\<rparr>))) (\<lambda>res.
     let spec' = store_identifier (frIdentifier res) spec in
     if frSourceRoot res then ret (frPath res, spec')
     else bind_io (get (\<lambda>w. findSourceBaseDir (disk w) (frPath res) spec')) (\<lambda>r.
          bind_io (lift_err r) (\<lambda>dir. ret (dir, spec')))))"

section \<open>Installing one artifact\<close>

definition installFromSource :: "'w engine \<Rightarrow> rockspec \<Rightarrow> ('w, unit) session_io" where
  "installFromSource e spec =
     bind_io (on_net (MkdirTemp e (cfgWorkingDir (eCfg e)) ''rocks-src-*'')) (\<lambda>tmp. removing tmp (on_net (
       bind_io (fetchSource e spec tmp) (\<lambda>(srcDir, spec'). deployFromSource e spec' srcDir))))"

definition installArtifact :: "'w engine \<Rightarrow> string \<Rightarrow> string \<Rightarrow> rockspec \<Rightarrow> ('w, unit) session_io" where
  "installArtifact e tmpRoot url spec = (case kindOf url of
     BinaryRockArtifact \<Rightarrow> bind_io (fetchArtifact e tmpRoot url) (\<lambda>dir. on_net (deployBinary e spec dir))
   | SourceRockArtifact \<Rightarrow> bind_io (fetchArtifact e tmpRoot url) (\<lambda>dir.
       on_net (bind_io (bundledSource e spec dir) (deployFromSource e spec)))
   | RockspecArtifact \<Rightarrow> installFromSource e spec)"

definition installStep :: "'w engine \<Rightarrow> string \<Rightarrow> install_step \<Rightarrow> unit \<Rightarrow> ('w, unit) session_io" where
  "installStep e tmpRoot st acc = (case isRockspec st of
     Some spec \<Rightarrow> installArtifact e tmpRoot (isURL st) spec
   | None \<Rightarrow> bind_io (fetchAndEval e tmpRoot (isURL st)) (installArtifact e tmpRoot (isURL st)))"

section \<open>The plan\<close>

definition session_index :: "'w engine \<Rightarrow> 'w session remote_index" where
  "session_index e s name namespace =
     (let (r, ix, w) = index_query (eNet e) name namespace (ssIndex s) (ssNet s)
      in (case r of Inl er \<Rightarrow> Inl (eShow e (QueryError name er)) | Inr rocks \<Rightarrow> Inr rocks,
          s\<lparr>ssIndex := ix, ssNet := w\<rparr>))"

interpretation session: remote_index "session_index e" for e
  by unfold_locales (auto simp: session_index_def Let_def split: prod.splits sum.splits dest: index_query_named)

definition session_ctx :: "'w engine \<Rightarrow> 'w session ctx" where
  "session_ctx e s = (ctx_err (eNet e) (outside (ssNet s)), s)"

definition spec_fetcher :: "'w engine \<Rightarrow> string \<Rightarrow> 'w session spec_fetcher" where
  "spec_fetcher e tmpRoot s rock = (let (r, s') = fetchAndEval e tmpRoot (vrURL rock) s
     in (case r of Inl er \<Rightarrow> Inl (eShow e er) | Inr spec \<Rightarrow> Inr (Some spec), s'))"

definition installed_versions :: "manifest \<Rightarrow> installed_lookup" where
  "installed_versions m name =
     List.map_filter (\<lambda>ver. case ParseVersion ver of Inl er \<Rightarrow> None | Inr v \<Rightarrow> Some v)
       (map fst (mget (mfRepository m) name []))"

definition installedLookup :: "'w engine \<Rightarrow> ('w, installed_lookup) client_io" where
  "installedLookup e = bind_io (open_tree e) (\<lambda>t.
     bind_io (get (\<lambda>w. readTreeManifest (disk w) (rocks_dir e))) (\<lambda>rd.
     bind_io (lift_err rd) (\<lambda>m. ret (installed_versions m))))"

definition provided_option :: "'w engine \<Rightarrow> 'w session option_fn list" where
  "provided_option e = (let v = ttVersion (cfgTarantool (eCfg e)) in
     if v = [] then []
     else case ParseVersion (v @ ''-1'') of
       Inl er \<Rightarrow> [] | Inr ver \<Rightarrow> [WithProvided [(''tarantool'', ver)]])"

definition resolvePlan :: "nat \<Rightarrow> 'w engine \<Rightarrow> string \<Rightarrow> rockspec \<Rightarrow> ('w, install_step list) session_io" where
  "resolvePlan k e tmpRoot rootSpec s =
     (let (look, s1) = on_net (installedLookup e) s;
          opts = [WithSpecFetcher (spec_fetcher e tmpRoot)] @ provided_option e @
            (case look of Inl er \<Rightarrow> [] | Inr lookup \<Rightarrow> [WithInstalled lookup])
      in map_err ResolveFailed (Resolve k (session_ctx e) (Some rootSpec) (session_index e) opts) s1)"

section \<open>The operations\<close>

definition index_options_of :: "'w engine \<Rightarrow> index_options" where
  "index_options_of e = \<lparr>ioInsecureServers = cfgInsecureServers (eCfg e), ioUserAgent = [], ioLuaVersion = [],
     ioArch = [], ioCache = True\<rparr>"

definition serverIndex :: "'w engine \<Rightarrow> string list \<Rightarrow> index" where
  "serverIndex e servers = OrderedIndex (NewIndexes (index_options_of e) servers)"

text \<open>A call with servers of its own asks an index of its own; the index of the engine stays.\<close>

definition with_servers :: "'w engine \<Rightarrow> string list \<Rightarrow> ('w, 'a) session_io \<Rightarrow> ('w, 'a) session_io" where
  "with_servers e servers m s =
     (if servers = [] then m s
      else let (r, s') = m (s\<lparr>ssIndex := serverIndex e servers\<rparr>) in (r, s'\<lparr>ssIndex := ssIndex s\<rparr>))"

text \<open>The target \<open>owner/rock\<close> selects the namespace of the owner.\<close>

definition split_target :: "string \<Rightarrow> string \<times> string" where
  "split_target name = (let (before, after, found) = cut name ''/'' in if found then (after, before) else (name, []))"

definition query_index :: "'w engine \<Rightarrow> string \<Rightarrow> string \<Rightarrow> ('w, versioned_rock list) session_io" where
  "query_index e name namespace s =
     (let (r, ix, w) = index_query (eNet e) name namespace (ssIndex s) (ssNet s)
      in (case r of Inl er \<Rightarrow> Inl (QueryError name er) | Inr rocks \<Rightarrow> Inr rocks, s\<lparr>ssIndex := ix, ssNet := w\<rparr>))"

text \<open>Everything between the choice of the rock and the clean-up of the artifacts.\<close>

definition install_chosen :: "nat \<Rightarrow> 'w engine \<Rightarrow> deps_policy \<Rightarrow> string \<Rightarrow> string \<Rightarrow> ('w, unit) session_io" where
  "install_chosen k e policy url tmpRoot =
     bind_io (fetchAndEval e tmpRoot url) (\<lambda>rootSpec.
     bind_io (if policy \<noteq> DepsNone then resolvePlan k e tmpRoot rootSpec else ret []) (\<lambda>plan.
     bind_io (each_io (\<lambda>st u. map_err (Within (isName st)) (installStep e tmpRoot st u)) plan ()) (\<lambda>_.
     installArtifact e tmpRoot url rootSpec)))"

definition Install :: "nat \<Rightarrow> 'w engine \<Rightarrow> string \<Rightarrow> install_opts \<Rightarrow> ('w, unit) session_io" where
  "Install k e name opts =
     (if name = [] then fail_io EmptyName
      else with_servers e (iopServers opts) (case ParseConstraints (iopVersion opts) of
        Inl er \<Rightarrow> fail_io (BadVersion (iopVersion opts) er)
      | Inr cs \<Rightarrow>
         (let (queryName, namespace) = split_target name in
          bind_io (query_index e queryName namespace) (\<lambda>candidates. case client_pickNewest candidates cs of
            None \<Rightarrow> fail_io (NoMatch name (iopVersion opts))
          | Some rock \<Rightarrow>
             bind_io (on_net (MkdirTemp e (cfgWorkingDir (eCfg e)) ''rocks-fetch-*'')) (\<lambda>tmpRoot s.
             (let (r, s') = removing tmpRoot (install_chosen k e (iopDeps opts) (vrURL rock) tmpRoot) (s\<lparr>ssDirs := []\<rparr>)
              in (r, s'\<lparr>ssDirs := []\<rparr>)))))))"

definition BuildRock :: "'w engine \<Rightarrow> string \<Rightarrow> bool \<Rightarrow> ('w, unit) session_io" where
  "BuildRock e specPath keep =
     bind_io (get (\<lambda>s. evalAndPrepare e (disk (ssNet s)) specPath)) (\<lambda>r.
     bind_io (lift_err r) (\<lambda>spec.
     bind_io (on_net (MkdirTemp e (cfgWorkingDir (eCfg e)) ''rocks-build-*'')) (\<lambda>tmp.
     (if keep then id else removing tmp) (on_net (
       bind_io (fetchSource e spec tmp) (\<lambda>(srcDir, spec'). deployFromSource e spec' srcDir))))))"

definition local_rockspec :: "fs \<Rightarrow> string \<Rightarrow> client_error + string" where
  "local_rockspec s dir = (case os_read_dir s dir of
     None \<Rightarrow> Inl (ReadDir dir)
   | Some names \<Rightarrow>
      (let found = map (\<lambda>n. path_join [dir, n])
         (filter (\<lambda>n. \<not> isDir s (path_join [dir, n]) \<and> has_suffix n ''.rockspec'') names)
       in case found of [] \<Rightarrow> Inl (NoRockspec dir) | [p] \<Rightarrow> Inr p | p # q # _ \<Rightarrow> Inl (ManyRockspecs dir p q)))"

definition Make :: "'w engine \<Rightarrow> string \<Rightarrow> ('w, unit) client_io" where
  "Make e rockspecPath =
     (let wd = cfgWorkingDir (eCfg e) in
      bind_io (get (\<lambda>w. if rockspecPath = [] then local_rockspec (disk w) wd else Inr rockspecPath)) (\<lambda>r.
      bind_io (lift_err r) (\<lambda>specPath.
      bind_io (get (\<lambda>w. evalAndPrepare e (disk w) specPath)) (\<lambda>sp.
      bind_io (lift_err sp) (\<lambda>spec. deployFromSource e spec wd)))))"

subsection \<open>Archives\<close>

text \<open>
  \<open>eZip\<close> is the zip of a list of entries. The archive is created before anything is read, and what
  the writer has got is written out when it is closed, after an error as well.
\<close>

definition write_zip :: "'w engine \<Rightarrow> string \<Rightarrow> (string \<times> string) list \<Rightarrow> client_error option \<Rightarrow>
    fs \<Rightarrow> (client_error + unit) \<times> fs" where
  "write_zip e outPath entries failure s = (case os_append outPath s (eZip e entries) of
     (Some er, s1) \<Rightarrow> (Inl (ZipFailed er), snd (os_close s1))
   | (None, s1) \<Rightarrow> (case failure of Some er \<Rightarrow> Inl er | None \<Rightarrow> Inr (), snd (os_close s1)))"

fun zip_walk :: "fs \<Rightarrow> string \<Rightarrow> string list \<Rightarrow> (string \<times> string) list \<Rightarrow> (string \<times> string) list \<times> client_error option" where
  "zip_walk s srcDir [] out = (out, None)"
| "zip_walk s srcDir (p # ps) out =
     (if is_dir s p then zip_walk s srcDir ps out
      else case path_rel srcDir p of
        None \<Rightarrow> (out, Some (ZipFailed p))
      | Some rel \<Rightarrow> (case os_read s p of
          Inl er \<Rightarrow> (out @ [(rel, [])], Some (ZipFailed er))
        | Inr c \<Rightarrow> zip_walk s srcDir ps (out @ [(rel, c)])))"

definition zipDir :: "'w engine \<Rightarrow> string \<Rightarrow> string \<Rightarrow> fs \<Rightarrow> (client_error + unit) \<times> fs" where
  "zipDir e outPath srcDir = bind_io (act ZipFailed (os_create outPath 438)) (\<lambda>_ s.
     (let (entries, failure) = (if os_stat s srcDir = None then ([], Some (ZipFailed srcDir))
            else zip_walk s srcDir (walk_paths s srcDir) [])
      in write_zip e outPath entries failure s))"

definition zipSingleFile :: "'w engine \<Rightarrow> string \<Rightarrow> string \<Rightarrow> string \<Rightarrow> fs \<Rightarrow> (client_error + unit) \<times> fs" where
  "zipSingleFile e outPath srcPath entryName s =
     (if os_stat s srcPath = None then (Inl (ZipFailed srcPath), s)
      else bind_io (act ZipFailed (os_create outPath 438)) (\<lambda>_ s1.
        (case os_read s1 srcPath of
           Inl er \<Rightarrow> write_zip e outPath [(entryName, [])] (Some (ZipFailed er)) s1
         | Inr c \<Rightarrow> write_zip e outPath [(entryName, c)] None s1)) s)"

definition Pack :: "'w engine \<Rightarrow> string \<Rightarrow> bool \<Rightarrow> ('w, string) client_io" where
  "Pack e target srcOnly =
     bind_io (open_tree e) (\<lambda>t.
     bind_io (get (\<lambda>w. ReadTree (disk w) (rocks_dir e))) (\<lambda>r. case r of
       Inl er \<Rightarrow> fail_io (StoreFailed er)
     | Inr m \<Rightarrow> (case map_of (mfRepository m) target of
         None \<Rightarrow> fail_io (NotInstalled target)
       | Some versions \<Rightarrow>
          (let picked = lowest_key versions;
               base = target @ ''-'' @ picked;
               dir = InstallDir (cfgTree (eCfg e)) target picked;
               outPath = path_join [cfgWorkingDir (eCfg e), base @ (if srcOnly then ''.src.rock'' else ''.rock'')]
           in bind_io (on_disk (if srcOnly
                then zipSingleFile e outPath (path_join [dir, base @ ''.rockspec'']) (base @ ''.rockspec'')
                else zipDir e outPath dir)) (\<lambda>_. ret outPath)))))"

definition Unpack :: "'w engine \<Rightarrow> string \<Rightarrow> string \<Rightarrow> ('w, unit) client_io" where
  "Unpack e archive destDir =
     bind_io (on_disk (act MkdirFailedAt (os_mkdir_all destDir))) (\<lambda>_.
     on_disk (map_err (FetchingFailed archive) (unzip (unpackers.truncate (eFetchers e)) archive destDir)))"

end
