(* ===== verification/SearchDownload.thy ===== *)
theory SearchDownload
  imports Install
begin

text \<open>
  Searching the servers and downloading from them: \<open>src/client/native_search.go\<close> and
  \<open>native_download.go\<close>, on top of \<open>Search\<close> of \<open>RemoteSearch\<close> and \<open>File\<close> of \<open>Fetch\<close>, with
  \<open>dirFiles\<close> of \<open>src/client/lua.go\<close>. Asking the interpreter for its version (\<open>eProbe\<close>) happens once
  in a session. The download of the best artifact uses the same rule as the index of an installation.
\<close>

record search_opts =
  soVersion :: string
  soSource :: bool
  soBinary :: bool
  soAll :: bool
  soServers :: "string list"

record search_result =
  srName :: string
  srVersion :: string
  srArch :: string
  srServer :: string
  srNamespace :: string

record download_opts =
  doVersion :: string
  doAll :: bool
  doSource :: bool
  doRockspec :: bool
  doArch :: string
  doServers :: "string list"

section \<open>What the interpreter provides\<close>

definition luaDialect :: string where
  "luaDialect = ''5.1''"

definition probe_version :: "string \<Rightarrow> string" where
  "probe_version out = (let v = trim_space out in if \<not> has_prefix v ''LuaJIT '' \<or> length v \<le> 7 then [] else drop 7 v)"

definition probe_path :: "'w engine \<Rightarrow> string" where
  "probe_path e = (let prefix = ttPrefix (cfgTarantool (eCfg e)) in
     path_join [if prefix \<noteq> [] then path_join [prefix, ''bin''] else ''/usr/bin'', ''tarantool''])"

definition luajitVersion :: "'w engine \<Rightarrow> ('w, string) session_io" where
  "luajitVersion e s = (case ssLuajit s of
     Some v \<Rightarrow> (Inr v, s)
   | None \<Rightarrow>
      (let (r, w) = eProbe e (probe_path e) (ssNet s);
           v = (case r of Inl er \<Rightarrow> [] | Inr out \<Rightarrow> probe_version out)
       in (Inr v, s\<lparr>ssNet := w, ssLuajit := Some v\<rparr>)))"

definition rocksProvided :: "'w engine \<Rightarrow> ('w, (string, string) gomap) session_io" where
  "rocksProvided e = bind_io (luajitVersion e) (\<lambda>ljv.
     let provided1 = [(''lua'', luaDialect @ ''-1'')];
         provided2 = (if ljv \<noteq> [] then mput ''luajit'' (ljv @ ''-1'') (mput ''luabitop'' (ljv @ ''-1'') provided1) else provided1);
         (before, after, ok) = cut (ttVersion (cfgTarantool (eCfg e))) ''-''
     in ret (if ok \<and> before \<noteq> [] then mput ''tarantool'' (before @ ''-1'') provided2 else provided2))"

section \<open>Search\<close>

definition searchServers :: "string list \<Rightarrow> string list \<Rightarrow> string list" where
  "searchServers overrides configured = overrides @ configured"

definition namespacedNameRE :: "string \<Rightarrow> (string \<times> string) option" where
  "namespacedNameRE arg = (case split_char arg (CHR ''/'') of
     [a, b] \<Rightarrow> (if a \<noteq> [] \<and> b \<noteq> [] then Some (a, b) else None) | _ \<Rightarrow> None)"

definition splitNamespacedName :: "string \<Rightarrow> string \<times> string" where
  "splitNamespacedName arg =
     (if has_suffix arg ''.rockspec'' \<or> has_suffix arg ''.rock'' then (arg, [])
      else case namespacedNameRE arg of
        Some (ns, n) \<Rightarrow> (to_lower n, to_lower ns)
      | None \<Rightarrow> (to_lower arg, []))"

definition to_result :: "match_row \<Rightarrow> search_result" where
  "to_result m = \<lparr>srName = maName m, srVersion = maVersion m, srArch = maArch m, srServer = maServer m, srNamespace = maNamespace m\<rparr>"

definition splitSourceAndBinaryResults :: "string \<Rightarrow> match_row list \<Rightarrow> search_opts \<Rightarrow> search_result list" where
  "splitSourceAndBinaryResults host matches opts =
     (let is_bin = (\<lambda>m. maArch m = ''all'' \<or> maArch m = host);
          sources = map to_result (filter (\<lambda>m. \<not> is_bin m) matches);
          binaries = map to_result (filter is_bin matches)
      in (if \<not> soBinary opts then sources else []) @ (if \<not> soSource opts then binaries else []))"

definition on_search :: "'w engine \<Rightarrow> string list \<Rightarrow> search_query \<Rightarrow> string \<Rightarrow> ('w, match_row list) session_io" where
  "on_search e servers q what = on_net (map_err (QueryError what) (RemoteSearch.Search (eNet e) servers (index_options_of e) q))"

definition Search_rocks :: "'w engine \<Rightarrow> string \<Rightarrow> search_opts \<Rightarrow> ('w, search_result list) session_io" where
  "Search_rocks e pattern opts =
     (if \<not> soAll opts \<and> pattern = [] then fail_io EmptyName
      else let ver = (if soAll opts then [] else soVersion opts);
               (name, namespace) = splitNamespacedName (if soAll opts then [] else pattern)
           in case ParseConstraints ver of
                Inl er \<Rightarrow> fail_io (BadVersion ver er)
              | Inr cs \<Rightarrow>
                 (let servers = searchServers (soServers opts) (cfgServers (eCfg e)) in
                  if servers = [] then fail_io NoServers
                  else bind_io (rocksProvided e) (\<lambda>prov.
                    bind_io (on_search e servers \<lparr>qName = name, qNamespace = namespace, qSubstring = True,
                      qConstraints = cs, qArch = [], qProvided = prov\<rparr> name) (\<lambda>matches.
                    ret (splitSourceAndBinaryResults (hostArch (ext.truncate (eNet e))) matches opts)))))"

section \<open>Download\<close>

definition downloadArch :: "download_opts \<Rightarrow> client_error + string list" where
  "downloadArch opts =
     (if 1 < length (filter id [doSource opts, doRockspec opts, doArch opts \<noteq> []]) then Inl BadOptions
      else if doSource opts then Inr [''src'']
      else if doRockspec opts then Inr [''rockspec'']
      else if doArch opts \<noteq> [] then Inr [doArch opts]
      else Inr [])"

text \<open>The highest version, the first of those that compare equal; then one of its artifacts.\<close>

definition latest_step :: "string \<times> version \<Rightarrow> match_row \<Rightarrow> string \<times> version" where
  "latest_step = (\<lambda>(best, bestParsed) m. case ParseVersion (maVersion m) of
     Inl er \<Rightarrow> (best, bestParsed)
   | Inr v \<Rightarrow> (if best = [] \<or> Compare v bestParsed > 0 then (maVersion m, v) else (best, bestParsed)))"

definition latest_version :: "match_row list \<Rightarrow> string" where
  "latest_version matches = fst (foldl latest_step ([], zero_version) matches)"

definition pick_artifact :: "string \<Rightarrow> match_row option \<Rightarrow> match_row \<Rightarrow> match_row option" where
  "pick_artifact best pick m =
     (if maVersion m \<noteq> best then pick
      else case pick of
        None \<Rightarrow> Some m
      | Some p \<Rightarrow> (if maArch m = ''src'' \<and> maArch p = ''rockspec'' \<or> maArch m \<noteq> ''src'' \<and> maArch m \<noteq> ''rockspec''
          then Some m else Some p))"

definition pickLatestVersion :: "match_row list \<Rightarrow> match_row option" where
  "pickLatestVersion matches =
     (let best = latest_version matches in if best = [] then None else foldl (pick_artifact best) None matches)"

definition downloadNotFound :: "search_query \<Rightarrow> download_opts \<Rightarrow> string \<Rightarrow> client_error" where
  "downloadNotFound q opts reason =
     NotFound (if qNamespace q \<noteq> [] then qNamespace q @ ''/'' @ qName q else qName q) (doVersion opts) reason"

definition downloadOne :: "'w engine \<Rightarrow> string list \<Rightarrow> search_query \<Rightarrow> download_opts \<Rightarrow> ('w, string) session_io" where
  "downloadOne e servers q opts = bind_io (rocksProvided e) (\<lambda>prov.
     case map_of prov (qName q) of
       Some ver \<Rightarrow> fail_io (downloadNotFound q opts (''provided '' @ ver))
     | None \<Rightarrow> bind_io (on_search e servers q (qName q)) (\<lambda>matches.
         if matches = [] then fail_io (downloadNotFound q opts ''no results'')
         else if \<not> list_all (\<lambda>m. maName m = maName (hd matches)) matches then fail_io (downloadNotFound q opts ''several rocks'')
         else case pickLatestVersion matches of
           None \<Rightarrow> fail_io (downloadNotFound q opts ''no results'')
         | Some pick \<Rightarrow> on_net (map_err (FetchingFailed (maURL pick))
             (File (eFetchers e) (maURL pick) (cfgWorkingDir (eCfg e)) (server_options e)))))"

definition dirFiles :: "fs \<Rightarrow> string \<Rightarrow> string list" where
  "dirFiles s dir = (if dir = [] then [] else case os_read_dir s dir of
     None \<Rightarrow> [] | Some names \<Rightarrow> filter (\<lambda>n. is_regular s (path_join [dir, n])) names)"

definition download_step :: "'w engine \<Rightarrow> match_row \<Rightarrow> bool \<times> client_error list \<Rightarrow> ('w, bool \<times> client_error list) client_io" where
  "download_step e m = (\<lambda>(found, failures) w.
     if maArch m = ''installed'' then (Inr (found, failures), w)
     else let (r, w') = File (eFetchers e) (maURL m) (cfgWorkingDir (eCfg e)) (server_options e) w
          in (Inr (True, case r of Inl er \<Rightarrow> failures @ [FetchingFailed (maURL m) er] | Inr p \<Rightarrow> failures), w'))"

definition downloadAll :: "'w engine \<Rightarrow> string list \<Rightarrow> search_query \<Rightarrow> download_opts \<Rightarrow> ('w, string) session_io" where
  "downloadAll e servers q opts = (let wd = cfgWorkingDir (eCfg e) in
     bind_io (on_search e servers q (qName q)) (\<lambda>matches.
     bind_io (get (\<lambda>s. dirFiles (disk (ssNet s)) wd)) (\<lambda>before.
     bind_io (on_net (each_io (download_step e) matches (False, []))) (\<lambda>(found, failures).
     if \<not> found then fail_io (downloadNotFound q opts ''no results'')
     else if failures \<noteq> [] then fail_io (DownloadsFailed failures)
     else get (\<lambda>s. case filter (\<lambda>f. f \<notin> set before) (dirFiles (disk (ssNet s)) wd) of
       [f] \<Rightarrow> path_join [wd, f] | _ \<Rightarrow> wd)))))"

definition Download :: "'w engine \<Rightarrow> string \<Rightarrow> download_opts \<Rightarrow> ('w, string) session_io" where
  "Download e name opts = (case downloadArch opts of
     Inl er \<Rightarrow> fail_io er
   | Inr arch \<Rightarrow>
      (if name = [] \<and> \<not> doAll opts then fail_io EmptyName
       else if cfgWorkingDir (eCfg e) = [] then fail_io NoWorkingDir
       else let (rockName, namespace) = splitNamespacedName name in
         case ParseConstraints (doVersion opts) of
           Inl er \<Rightarrow> fail_io (BadVersion (doVersion opts) er)
         | Inr cs \<Rightarrow>
            (let servers = searchServers (doServers opts) (cfgServers (eCfg e));
                 q = \<lparr>qName = rockName, qNamespace = namespace, qSubstring = doAll opts \<and> rockName = [],
                   qConstraints = cs, qArch = arch, qProvided = []\<rparr>
             in if servers = [] then fail_io NoServers
                else if doAll opts then downloadAll e servers q opts
                else downloadOne e servers q opts)))"

text \<open>The operations the native engine does not implement.\<close>

definition not_implemented :: "('w, 'a) session_io" where
  "not_implemented = fail_io NotImplemented"

section \<open>The artifact that is downloaded\<close>

lemma pick_other: "foldl (pick_artifact best) pick matches =
    foldl (pick_artifact best) pick (filter (\<lambda>m. maVersion m = best) matches)"
  by (induction matches arbitrary: pick) (simp_all add: pick_artifact_def)

definition as_item :: "match_row \<Rightarrow> merged_item" where
  "as_item m = \<lparr>miServer = maServer m, miArch = maArch m\<rparr>"

lemma pick_artifact_step:
  assumes "p < length rows" and "k < length rows" and "maVersion (rows ! k) = best"
  shows "pick_artifact best (Some (rows ! p)) (rows ! k) = Some (rows ! pick_step (map as_item rows) p k) \<and>
    pick_step (map as_item rows) p k < length rows"
  using assms by (simp add: pick_artifact_def pick_step_def as_item_def)

lemma pick_artifact_index:
  assumes "\<forall>m \<in> set rows. maVersion m = best" and "rows \<noteq> []" and "k \<le> length rows" "0 < k"
  shows "foldl (pick_artifact best) None (take k rows) = Some (rows ! foldl (pick_step (map as_item rows)) 0 [0..<k]) \<and>
    foldl (pick_step (map as_item rows)) 0 [0..<k] < length rows"
  using assms(3,4)
proof (induction k)
  case (Suc k)
  have v: "maVersion (rows ! k) = best" using assms(1) Suc.prems(1) by simp
  show ?case
  proof (cases k)
    case 0
    then show ?thesis using assms(1,2) Suc.prems by (cases rows) (auto simp: pick_artifact_def pick_step_def as_item_def)
  next
    case (Suc j)
    let ?p = "foldl (pick_step (map as_item rows)) 0 [0..<k]"
    have ih: "foldl (pick_artifact best) None (take k rows) = Some (rows ! ?p)" "?p < length rows"
      using Suc.IH Suc Suc.prems by simp_all
    have t: "take (Suc k) rows = take k rows @ [rows ! k]" using Suc.prems(1) by (simp add: take_Suc_conv_app_nth)
    have "foldl (pick_artifact best) None (take (Suc k) rows) = pick_artifact best (Some (rows ! ?p)) (rows ! k)"
      using ih(1) by (simp add: t)
    then show ?thesis using pick_artifact_step[OF ih(2) _ v] Suc.prems(1) by simp
  qed
qed simp

lemma latest_step_inv:
  assumes "fst acc \<noteq> [] \<longrightarrow> fst acc \<in> V"
  shows "fst (foldl latest_step acc matches) \<noteq> [] \<longrightarrow> fst (foldl latest_step acc matches) \<in> V \<union> maVersion ` set matches"
  using assms
proof (induction matches arbitrary: acc V)
  case (Cons m ms)
  have "fst (latest_step acc m) \<noteq> [] \<longrightarrow> fst (latest_step acc m) \<in> V \<union> {maVersion m}"
    using Cons.prems by (auto simp: latest_step_def split: prod.splits sum.splits)
  from Cons.IH[OF this] show ?case by (auto simp: Un_assoc)
qed simp

text \<open>
  C38: The two copies of the choice of an artifact agree: \<open>pickLatestVersion\<close> of the download takes, among
  the rows it is given that have the highest version, the one whose index \<open>pickMergedItem\<close> of the
  index gives on these same rows. Which rows the two are given is a different matter: a download is given
  those of all servers, an installation those of the first index that has the rock.
\<close>

theorem download_picks_like_index:
  "pickLatestVersion matches =
     (let best = latest_version matches; rows = filter (\<lambda>m. maVersion m = best) matches in
      if best = [] then None else Some (rows ! pickMergedItem (map as_item rows)))"
proof (cases "latest_version matches = []")
  case False
  let ?rows = "filter (\<lambda>m. maVersion m = latest_version matches) matches"
  have "latest_version matches \<in> maVersion ` set matches"
    using latest_step_inv[of "([], zero_version)" "{}" matches] False by (simp add: latest_version_def)
  then have ne: "?rows \<noteq> []" by (auto simp: filter_empty_conv)
  have "pickLatestVersion matches = foldl (pick_artifact (latest_version matches)) None (take (length ?rows) ?rows)"
    using False by (simp add: pickLatestVersion_def Let_def pick_other[of _ _ matches])
  also have "\<dots> = Some (?rows ! pickMergedItem (map as_item ?rows))"
    using pick_artifact_index[of ?rows "latest_version matches" "length ?rows"] ne
    by (simp add: pickMergedItem_def)
  finally show ?thesis using False by (simp add: Let_def)
qed (simp add: pickLatestVersion_def)

section \<open>The version that is downloaded\<close>

definition newest_so_far :: "match_row list \<Rightarrow> string \<times> version \<Rightarrow> bool" where
  "newest_so_far ms acc \<longleftrightarrow> (if ms = [] then fst acc = []
     else \<exists>m \<in> set ms. fst acc = maVersion m \<and> snd acc = row_version m \<and> (\<forall>m' \<in> set ms. \<not> newer (row_version m') (snd acc)))"

lemma uniform_row_parses:
  assumes "uniform_row h m"
  shows "ParseVersion (maVersion m) = Inr (row_version m)" and "maVersion m \<noteq> []"
proof -
  show p: "ParseVersion (maVersion m) = Inr (row_version m)"
    using assms by (auto simp: uniform_row_def row_version_def split: sum.splits)
  have "(case ParseVersion [] of Inl er \<Rightarrow> True | Inr v \<Rightarrow> False)" by code_simp
  then show "maVersion m \<noteq> []" using p by (auto split: sum.splits)
qed

lemma newest_step:
  assumes "newest_so_far ms acc" and "\<forall>m \<in> set (ms @ [x]). uniform_row h m"
  shows "newest_so_far (ms @ [x]) (latest_step acc x)"
proof -
  obtain best bp where acc: "acc = (best, bp)" by (cases acc)
  have x: "ParseVersion (maVersion x) = Inr (row_version x)" "maVersion x \<noteq> []" "uniform_revision h (row_version x)"
    using assms(2) uniform_row_parses uniform_row_version by auto
  have irr: "\<not> newer (row_version x) (row_version x)" using vers.lt_irrefl[of "row_version x" h] x(3) by simp
  show ?thesis
  proof (cases "ms = []")
    case True
    then show ?thesis using assms(1) x irr by (auto simp: newest_so_far_def acc latest_step_def)
  next
    case False
    then obtain m where m: "m \<in> set ms" "best = maVersion m" "bp = row_version m" "\<forall>m' \<in> set ms. \<not> newer (row_version m') bp"
      using assms(1) by (auto simp: newest_so_far_def acc)
    have um: "uniform_revision h (row_version m')" if "m' \<in> set ms" for m' using assms(2) that uniform_row_version by auto
    have "best \<noteq> []" using m(1,2) assms(2) uniform_row_parses(2) by auto
    show ?thesis
    proof (cases "newer (row_version x) bp")
      case True
      have "\<not> newer (row_version m') (row_version x)" if "m' \<in> set ms" for m'
        using True m(3,4) that um[OF that] um[OF m(1)] x(3)
          vers.lt_trans[of "row_version m'" h "row_version x" bp] by auto
      then have "newest_so_far (ms @ [x]) (maVersion x, row_version x)" using irr by (auto simp: newest_so_far_def)
      then show ?thesis using True x(1) \<open>best \<noteq> []\<close> by (simp add: acc latest_step_def newer_def)
    next
      case F: False
      then have "newest_so_far (ms @ [x]) (best, bp)" using m by (auto simp: newest_so_far_def)
      then show ?thesis using F x(1) \<open>best \<noteq> []\<close> by (simp add: acc latest_step_def newer_def)
    qed
  qed
qed

lemma newest_all:
  assumes "\<forall>m \<in> set matches. uniform_row h m"
  shows "newest_so_far matches (foldl latest_step ([], zero_version) matches)"
  using assms
proof (induction matches rule: rev_induct)
  case (snoc x ms)
  then have "newest_so_far ms (foldl latest_step ([], zero_version) ms)" by simp
  from newest_step[OF this snoc.prems] show ?case by simp
qed (simp add: newest_so_far_def)

lemma pick_artifact_found:
  "foldl (pick_artifact best) pick ms = Some m \<Longrightarrow> pick = Some m \<or> m \<in> set ms \<and> maVersion m = best"
  by (induction ms arbitrary: pick) (fastforce simp: pick_artifact_def split: if_splits option.splits)+

text \<open>
  C39: A download takes the newest version: of rows whose versions uniformly carry a revision, the one
  that is picked has a version that no other row's is newer than, and something is picked
  whenever there is a row.
\<close>

theorem download_newest:
  assumes "\<forall>m \<in> set matches. uniform_row h m" and "matches \<noteq> []"
  shows "\<exists>m \<in> set matches. pickLatestVersion matches = Some m \<and> (\<forall>m' \<in> set matches. \<not> newer (row_version m') (row_version m))"
proof -
  obtain m0 where m0: "m0 \<in> set matches" "latest_version matches = maVersion m0" "\<forall>m' \<in> set matches. \<not> newer (row_version m') (row_version m0)"
    using newest_all[OF assms(1)] assms(2) by (auto simp: newest_so_far_def latest_version_def)
  let ?rows = "filter (\<lambda>m. maVersion m = maVersion m0) matches"
  have best: "maVersion m0 \<noteq> []" using m0(1) assms(1) uniform_row_parses(2) by blast
  have ne: "?rows \<noteq> []" using m0(1) by (auto simp: filter_empty_conv)
  obtain m where m: "foldl (pick_artifact (maVersion m0)) None (take (length ?rows) ?rows) = Some m"
    using pick_artifact_index[of ?rows "maVersion m0" "length ?rows"] ne by auto
  then have pick: "pickLatestVersion matches = Some m"
    using best m0(2) by (simp add: pickLatestVersion_def pick_other[of _ _ matches])
  have "m \<in> set matches \<and> maVersion m = maVersion m0" using pick_artifact_found[OF m] by auto
  then show ?thesis using pick m0(3) by (auto simp: row_version_def)
qed

theorem download_newest_witness:
  "let row = (\<lambda>v a. \<lparr>maName = ''a'', maVersion = v, maArch = a, maServer = [], maNamespace = [], maURL = v @ a\<rparr>);
       matches = [row ''1.9-1'' ''all'', row ''1.10-1'' ''rockspec'', row ''1.10-1'' ''src'']
   in \<exists>m \<in> set matches. pickLatestVersion matches = Some m \<and> (\<forall>m' \<in> set matches. \<not> newer (row_version m') (row_version m))"
  unfolding Let_def by (rule download_newest[where h = True]) (code_simp, simp)

end
