(* ===== verification/LuaBackend.thy ===== *)
theory LuaBackend
  imports SearchDownload "HOL-Library.Word"
begin

text \<open>
  The Lua backend: \<open>src/client/lua.go\<close>. Every operation becomes a command line for the LuaRocks
  sources that run in an embedded interpreter. The interpreter is a parameter (\<open>lgRun\<close>): it takes
  the one-line program and gives what was written to the two outputs and the error the program
  raised, if any. What the code does around it is modelled: the command line and its quoting, the
  exit code, the answers that are read back from the output, the replaced functions of the
  interpreter, and the pool of interpreters.
\<close>

record 'w lua_engine =
  lgCfg :: config
  lgRun :: "string \<Rightarrow> 'w net \<Rightarrow> (string + string \<times> string \<times> string option) \<times> 'w net"

datatype lua_error =
    BootFailed string
  | ExitCode "string list" "64 word" string
  | LuaRaised string
  | NoPathLine string string

type_synonym ('w, 'a) lua_io = "'w net \<Rightarrow> (lua_error + 'a) \<times> 'w net"

record build_opts =
  boKeep :: bool

record remove_opts =
  roVersion :: string
  roForce :: bool
  roForceFast :: bool
  roDeps :: deps_policy

record purge_opts =
  puOldVersions :: bool
  puForce :: bool
  puForceFast :: bool

record new_version_opts =
  nvNewVersion :: string
  nvNewURL :: string
  nvDir :: string
  nvTag :: string

record write_rockspec_opts =
  wrName :: string
  wrVersion :: string
  wrOutput :: string
  wrLicense :: string
  wrSummary :: string
  wrDetailed :: string
  wrHomepage :: string
  wrLuaVersions :: string
  wrRockspecFormat :: string
  wrTag :: string
  wrLib :: string

record doc_opts =
  dcVersion :: string
  dcHome :: bool
  dcList :: bool

record test_opts =
  tsPrepare :: bool
  tsTestType :: string
  tsArgs :: "string list"

record config_opts =
  coKey :: string
  coValue :: string
  coUnset :: bool
  coScope :: string
  coJSON :: bool

record upload_opts =
  upSrcRock :: string
  upSkipPack :: bool
  upAPIKey :: string
  upTempKey :: string
  upForce :: bool
  upSign :: bool

record init_opts =
  itName :: string
  itVersion :: string
  itReset :: bool

record admin_opts =
  adServer :: string
  adForce :: bool

section \<open>The interpreter's surroundings\<close>

text \<open>The variables that shadow the environment of the process.\<close>

definition env_override :: "config \<Rightarrow> (string, string) gomap" where
  "env_override cfg =
     (let tt = cfgTarantool cfg;
          e1 = (if ttPrefix tt \<noteq> [] then [(''LUAROCKS_PREFIX'', ttPrefix tt)] else []);
          e2 = (if LuaBinDir cfg \<noteq> [] then mput ''LUA_BINDIR'' (LuaBinDir cfg) e1 else e1);
          e3 = (if ttIncludeDir tt \<noteq> [] then
              mput ''TARANTOOL_DIR'' (path_dir (ttIncludeDir tt)) (mput ''LUA_INCDIR'' (ttIncludeDir tt) e2) else e2)
      in if ttVersion tt \<noteq> [] then mput ''TT_CLI_TARANTOOL_VERSION'' (ttVersion tt) e3 else e3)"

definition lua_getenv :: "config \<Rightarrow> (string \<Rightarrow> string option) \<Rightarrow> string \<Rightarrow> string option" where
  "lua_getenv cfg environment key = (case map_of (env_override cfg) key of Some v \<Rightarrow> Some v | None \<Rightarrow> environment key)"

definition shellSingleQuote :: "string \<Rightarrow> string" where
  "shellSingleQuote s = SQ # replace_char s SQ [SQ, CHR 0x5C, SQ, SQ] @ [SQ]"

definition glr_pwd_command :: "config \<Rightarrow> string" where
  "glr_pwd_command cfg = ''echo '' @ shellSingleQuote (cfgWorkingDir cfg)"

definition glr_servers :: "config \<Rightarrow> string list option" where
  "glr_servers cfg = (if cfgServers cfg = [] then None else Some (cfgServers cfg))"

definition normalizeOpenMode :: "string \<Rightarrow> string" where
  "normalizeOpenMode m = (if m = ''r+b'' then ''rb+'' else if m = ''w+b'' then ''wb+'' else if m = ''a+b'' then ''ab+'' else m)"

definition open_args :: "lua list \<Rightarrow> lua list" where
  "open_args args = (if 2 \<le> length args then
     (case args ! 1 of LuaStr m \<Rightarrow> args[1 := LuaStr (normalizeOpenMode m)] | _ \<Rightarrow> args) else args)"

definition osExitSentinel :: string where
  "osExitSentinel = ''go-luarocks os.exit: ''"

text \<open>The replacement of \<open>os.exit\<close> raises an error with this message, after the position.\<close>

definition os_exit_message :: "int \<Rightarrow> string" where
  "os_exit_message code = osExitSentinel @ format_int code"

definition print_line :: "string list \<Rightarrow> string" where
  "print_line parts = join parts [TAB] @ [LF]"

definition luaPreloadMap :: "(string, string) gomap" where
  "luaPreloadMap = [
     (''extra.wrapper'', ''extra/wrapper.lua''),
     (''luarocks.core.hardcoded'', ''extra/hardcoded.lua''),
     (''luarocks.core.util'', ''src/src/luarocks/core/util.lua''),
     (''luarocks.core.persist'', ''src/src/luarocks/core/persist.lua''),
     (''luarocks.core.sysdetect'', ''src/src/luarocks/core/sysdetect.lua''),
     (''luarocks.core.cfg'', ''src/src/luarocks/core/cfg.lua''),
     (''luarocks.core.dir'', ''src/src/luarocks/core/dir.lua''),
     (''luarocks.core.path'', ''src/src/luarocks/core/path.lua''),
     (''luarocks.core.manif'', ''src/src/luarocks/core/manif.lua''),
     (''luarocks.core.vers'', ''src/src/luarocks/core/vers.lua''),
     (''luarocks.util'', ''src/src/luarocks/util.lua''),
     (''luarocks.loader'', ''src/src/luarocks/loader.lua''),
     (''luarocks.dir'', ''src/src/luarocks/dir.lua''),
     (''luarocks.path'', ''src/src/luarocks/path.lua''),
     (''luarocks.fs'', ''src/src/luarocks/fs.lua''),
     (''luarocks.persist'', ''src/src/luarocks/persist.lua''),
     (''luarocks.fun'', ''src/src/luarocks/fun.lua''),
     (''luarocks.tools.patch'', ''src/src/luarocks/tools/patch.lua''),
     (''luarocks.tools.zip'', ''src/src/luarocks/tools/zip.lua''),
     (''luarocks.tools.tar'', ''src/src/luarocks/tools/tar.lua''),
     (''luarocks.fs.unix'', ''src/src/luarocks/fs/unix.lua''),
     (''luarocks.fs.unix.tools'', ''src/src/luarocks/fs/unix/tools.lua''),
     (''luarocks.fs.lua'', ''extra/fs_lua.lua''),
     (''extra.upstream.luarocks.fs.lua'', ''src/src/luarocks/fs/lua.lua''),
     (''luarocks.fs.tools'', ''src/src/luarocks/fs/tools.lua''),
     (''luarocks.queries'', ''src/src/luarocks/queries.lua''),
     (''luarocks.type_check'', ''src/src/luarocks/type_check.lua''),
     (''luarocks.type.rockspec'', ''src/src/luarocks/type/rockspec.lua''),
     (''luarocks.rockspecs'', ''src/src/luarocks/rockspecs.lua''),
     (''luarocks.signing'', ''src/src/luarocks/signing.lua''),
     (''luarocks.fetch'', ''src/src/luarocks/fetch.lua''),
     (''luarocks.type.manifest'', ''src/src/luarocks/type/manifest.lua''),
     (''luarocks.manif'', ''src/src/luarocks/manif.lua''),
     (''luarocks.build.builtin'', ''src/src/luarocks/build/builtin.lua''),
     (''luarocks.deps'', ''src/src/luarocks/deps.lua''),
     (''luarocks.deplocks'', ''src/src/luarocks/deplocks.lua''),
     (''luarocks.cmd'', ''src/src/luarocks/cmd.lua''),
     (''luarocks.argparse'', ''src/src/luarocks/argparse.lua''),
     (''luarocks.test.busted'', ''src/src/luarocks/test/busted.lua''),
     (''luarocks.test.command'', ''src/src/luarocks/test/command.lua''),
     (''luarocks.results'', ''src/src/luarocks/results.lua''),
     (''luarocks.search'', ''src/src/luarocks/search.lua''),
     (''luarocks.repos'', ''src/src/luarocks/repos.lua''),
     (''luarocks.cmd.show'', ''src/src/luarocks/cmd/show.lua''),
     (''luarocks.cmd.path'', ''extra/cmd_path.lua''),
     (''extra.upstream.luarocks.cmd.path'', ''src/src/luarocks/cmd/path.lua''),
     (''luarocks.cmd.write_rockspec'', ''src/src/luarocks/cmd/write_rockspec.lua''),
     (''luarocks.manif.writer'', ''src/src/luarocks/manif/writer.lua''),
     (''luarocks.remove'', ''src/src/luarocks/remove.lua''),
     (''luarocks.pack'', ''src/src/luarocks/pack.lua''),
     (''luarocks.build'', ''src/src/luarocks/build.lua''),
     (''luarocks.cmd.make'', ''src/src/luarocks/cmd/make.lua''),
     (''luarocks.cmd.build'', ''src/src/luarocks/cmd/build.lua''),
     (''luarocks.cmd.install'', ''src/src/luarocks/cmd/install.lua''),
     (''luarocks.cmd.list'', ''src/src/luarocks/cmd/list.lua''),
     (''luarocks.download'', ''src/src/luarocks/download.lua''),
     (''luarocks.cmd.download'', ''src/src/luarocks/cmd/download.lua''),
     (''luarocks.cmd.search'', ''src/src/luarocks/cmd/search.lua''),
     (''luarocks.cmd.pack'', ''src/src/luarocks/cmd/pack.lua''),
     (''luarocks.cmd.new_version'', ''src/src/luarocks/cmd/new_version.lua''),
     (''luarocks.cmd.purge'', ''src/src/luarocks/cmd/purge.lua''),
     (''luarocks.cmd.init'', ''src/src/luarocks/cmd/init.lua''),
     (''luarocks.cmd.lint'', ''src/src/luarocks/cmd/lint.lua''),
     (''luarocks.test'', ''src/src/luarocks/test.lua''),
     (''luarocks.cmd.test'', ''src/src/luarocks/cmd/test.lua''),
     (''luarocks.cmd.which'', ''src/src/luarocks/cmd/which.lua''),
     (''luarocks.cmd.remove'', ''src/src/luarocks/cmd/remove.lua''),
     (''luarocks.upload.multipart'', ''src/src/luarocks/upload/multipart.lua''),
     (''luarocks.upload.api'', ''src/src/luarocks/upload/api.lua''),
     (''luarocks.cmd.upload'', ''src/src/luarocks/cmd/upload.lua''),
     (''luarocks.cmd.doc'', ''src/src/luarocks/cmd/doc.lua''),
     (''luarocks.cmd.unpack'', ''src/src/luarocks/cmd/unpack.lua''),
     (''luarocks.cmd.config'', ''src/src/luarocks/cmd/config.lua''),
     (''luarocks.require'', ''src/src/luarocks/require.lua''),
     (''luarocks.build.cmake'', ''src/src/luarocks/build/cmake.lua''),
     (''luarocks.build.make'', ''src/src/luarocks/build/make.lua''),
     (''luarocks.build.command'', ''src/src/luarocks/build/command.lua''),
     (''luarocks.fetch.cvs'', ''src/src/luarocks/fetch/cvs.lua''),
     (''luarocks.fetch.svn'', ''src/src/luarocks/fetch/svn.lua''),
     (''luarocks.fetch.sscm'', ''src/src/luarocks/fetch/sscm.lua''),
     (''luarocks.fetch.git'', ''src/src/luarocks/fetch/git.lua''),
     (''luarocks.fetch.git_file'', ''src/src/luarocks/fetch/git_file.lua''),
     (''luarocks.fetch.git_http'', ''src/src/luarocks/fetch/git_http.lua''),
     (''luarocks.fetch.git_https'', ''src/src/luarocks/fetch/git_https.lua''),
     (''luarocks.fetch.git_ssh'', ''src/src/luarocks/fetch/git_ssh.lua''),
     (''luarocks.fetch.hg'', ''src/src/luarocks/fetch/hg.lua''),
     (''luarocks.fetch.hg_http'', ''src/src/luarocks/fetch/hg_http.lua''),
     (''luarocks.fetch.hg_https'', ''src/src/luarocks/fetch/hg_https.lua''),
     (''luarocks.fetch.hg_ssh'', ''src/src/luarocks/fetch/hg_ssh.lua''),
     (''luarocks.admin.cache'', ''src/src/luarocks/admin/cache.lua''),
     (''luarocks.admin.cmd.refresh_cache'', ''src/src/luarocks/admin/cmd/refresh_cache.lua''),
     (''luarocks.admin.index'', ''src/src/luarocks/admin/index.lua''),
     (''luarocks.admin.cmd.add'', ''src/src/luarocks/admin/cmd/add.lua''),
     (''luarocks.admin.cmd.remove'', ''src/src/luarocks/admin/cmd/remove.lua''),
     (''luarocks.admin.cmd.make_manifest'', ''src/src/luarocks/admin/cmd/make_manifest.lua'')]"

definition luaRocksPlatforms :: "string list" where
  "luaRocksPlatforms = [''unix'', ''bsd'', ''solaris'', ''netbsd'', ''openbsd'', ''freebsd'', ''dragonfly'', ''linux'',
     ''macosx'', ''cygwin'', ''msys'', ''haiku'', ''windows'', ''win32'', ''mingw'', ''mingw32'', ''msys2_mingw_w64'']"

definition luaAbsentModules :: "string list" where
  "luaAbsentModules = [''lfs'', ''posix'', ''md5'', ''digest'', ''bz2'', ''zlib'', ''socket.http'', ''socket.ftp'', ''ltn12'',
     ''ssl.https'', ''cjson'', ''dkjson'', ''json'', ''mimetypes''] @
     concat (map (\<lambda>p. [''luarocks.fs.'' @ p, ''luarocks.fs.'' @ p @ ''.tools''])
       (filter (\<lambda>p. p \<noteq> ''unix'') luaRocksPlatforms))"

section \<open>Commands\<close>

definition quoteLua :: "string \<Rightarrow> string" where
  "quoteLua s = SQ # replace_char s SQ [CHR 0x5C, SQ] @ [SQ]"

definition dispatch_prefix :: string where
  "dispatch_prefix = ''t=require('' @ [SQ] @ ''extra.wrapper'' @ [SQ] @ '').exec(''"

definition dispatchString :: "string \<Rightarrow> string list \<Rightarrow> string" where
  "dispatchString progname argv = dispatch_prefix @ join (map quoteLua (progname # argv)) '', '' @ '')''"

definition parseOsExit :: "string \<Rightarrow> 64 word option" where
  "parseOsExit msg = (let (before, after, ok) = cut msg osExitSentinel; ds = takeWhile is_digit after in
     if \<not> ok \<or> ds = [] then None
     else Some (foldl (\<lambda>code c. code * 10 + of_int (digit_val c)) 0 ds))"

definition failureMessage :: "string \<Rightarrow> string" where
  "failureMessage stderr_text =
     (let t = trim_space stderr_text in
      if t = [] then []
      else let rows = split_char t LF;
               after = takeWhile (\<lambda>l. \<not> has_prefix l ''Error:'') (rev rows);
               from = (if length after = length rows then length rows - 1 else length rows - 1 - length after)
           in '': '' @ join (drop from rows) '' '')"

definition callViaState :: "'w lua_engine \<Rightarrow> string list \<Rightarrow> ('w, string) lua_io" where
  "callViaState e argv w = (case lgRun e (dispatchString ''go-luarocks'' argv) w of
     (Inl er, w') \<Rightarrow> (Inl (BootFailed er), w')
   | (Inr (out, stderr_text, raised), w') \<Rightarrow>
      (case raised of
         None \<Rightarrow> (Inr out, w')
       | Some msg \<Rightarrow> (case parseOsExit msg of
           Some code \<Rightarrow> (if code = 0 then Inr out else Inl (ExitCode argv code (failureMessage stderr_text)), w')
         | None \<Rightarrow> (Inl (LuaRaised msg), w'))))"

definition callRaw :: "'w lua_engine \<Rightarrow> string \<Rightarrow> string list \<Rightarrow> ('w, unit) lua_io" where
  "callRaw e progname argv w = (case lgRun e (dispatchString progname argv) w of
     (Inl er, w') \<Rightarrow> (Inl (BootFailed er), w')
   | (Inr (out, stderr_text, raised), w') \<Rightarrow>
      (case raised of
         None \<Rightarrow> (Inr (), w')
       | Some msg \<Rightarrow> (case parseOsExit msg of
           Some code \<Rightarrow> (if code = 0 then Inr () else Inl (ExitCode argv code []), w')
         | None \<Rightarrow> (Inl (LuaRaised msg), w'))))"

definition run_cmd :: "'w lua_engine \<Rightarrow> string list \<Rightarrow> ('w, unit) lua_io" where
  "run_cmd e argv = bind_io (callViaState e argv) (\<lambda>out. ret ())"

section \<open>Answers\<close>

definition re_space :: "char \<Rightarrow> bool" where
  "re_space c \<longleftrightarrow> c \<in> {CHR '' '', TAB, LF, CHR 0x0C, CR}"

text \<open>The places where a line of the text starts, as suffixes of it.\<close>

fun line_starts :: "string \<Rightarrow> string list" where
  "line_starts [] = []"
| "line_starts (c # s) = (if c = LF then s # line_starts s else line_starts s)"

definition first_line :: "string \<Rightarrow> string" where
  "first_line s = takeWhile (\<lambda>c. c \<noteq> LF) s"

text \<open>
  \<open>\s*(.+?)\s*$\<close>: the rest of the line without the space around it. When only space is left, the
  group takes its last character that is not a line break.
\<close>

definition packed_group :: "string \<Rightarrow> string option" where
  "packed_group s =
     (let r = dropWhile re_space s in
      if r \<noteq> [] then Some (rev (dropWhile re_space (rev (first_line r))))
      else case filter (\<lambda>c. c \<noteq> LF) s of [] \<Rightarrow> None | cs \<Rightarrow> Some [last cs])"

definition packedPathRE :: "string \<Rightarrow> string option" where
  "packedPathRE s = (if has_prefix s ''Packed:'' then packed_group (drop 7 s) else None)"

definition first_some :: "('a \<Rightarrow> 'b option) \<Rightarrow> 'a list \<Rightarrow> 'b option" where
  "first_some f xs = (case List.map_filter f xs of [] \<Rightarrow> None | y # ys \<Rightarrow> Some y)"

definition parsePackPath :: "string \<Rightarrow> string option" where
  "parsePackPath out = first_some packedPathRE (out # line_starts out)"

text \<open>\<open>(.+?)(?: -- .*)?\s*$\<close>: up to the hint, or to the space at the end of the line.\<close>

definition wrote_group :: "string \<Rightarrow> string option" where
  "wrote_group line = map_option (\<lambda>n. take n line)
     (find (\<lambda>n. has_prefix (drop n line) '' -- '' \<or> list_all re_space (drop n line)) [1..<length line + 1])"

definition wrotePathRE :: "string \<Rightarrow> string option" where
  "wrotePathRE s =
     (if \<not> has_prefix s ''Wrote '' then None
      else let r = drop 6 s in
        case (if has_prefix r ''template at '' then wrote_group (first_line (drop 12 r)) else None) of
          Some p \<Rightarrow> Some p | None \<Rightarrow> wrote_group (first_line r))"

definition parseWrotePath :: "string \<Rightarrow> string option" where
  "parseWrotePath out = first_some wrotePathRE (out # line_starts out)"

definition search_row :: "string \<Rightarrow> search_result option" where
  "search_row line =
     (if trim_space line = [] then None
      else let fields = split_char line TAB in
        if length fields < 4 then None
        else Some \<lparr>srName = fields ! 0, srVersion = fields ! 1, srArch = fields ! 2, srServer = fields ! 3,
          srNamespace = (if 4 < length fields then fields ! 4 else [])\<rparr>)"

definition parseSearchResults :: "string \<Rightarrow> search_result list" where
  "parseSearchResults out = List.map_filter search_row (split_char out LF)"

section \<open>The operations\<close>

definition flag :: "bool \<Rightarrow> string \<Rightarrow> string list" where
  "flag b name = (if b then [name] else [])"

definition given :: "string \<Rightarrow> string list" where
  "given v = (if v \<noteq> [] then [v] else [])"

definition optarg :: "string \<Rightarrow> string \<Rightarrow> string list" where
  "optarg name v = (if v \<noteq> [] then [name, v] else [])"

definition globalArgs :: "'w lua_engine \<Rightarrow> string list \<Rightarrow> string list" where
  "globalArgs e servers = [''--tree'', cfgTree (lgCfg e)] @ concat (map (\<lambda>s. [''--server'', s]) servers)"

definition depsModeArg :: "deps_policy \<Rightarrow> string" where
  "depsModeArg p = (case p of DepsAll \<Rightarrow> ''all'' | DepsNone \<Rightarrow> ''none'' | DepsOnlyNew \<Rightarrow> ''order'')"

definition lua_Install :: "'w lua_engine \<Rightarrow> string \<Rightarrow> install_opts \<Rightarrow> ('w, unit) lua_io" where
  "lua_Install e name opts = run_cmd e (globalArgs e (iopServers opts) @ [''install'', name] @ given (iopVersion opts) @
     [''--deps-mode'', depsModeArg (iopDeps opts)])"

definition lua_Build :: "'w lua_engine \<Rightarrow> string \<Rightarrow> build_opts \<Rightarrow> ('w, unit) lua_io" where
  "lua_Build e specPath opts = run_cmd e (globalArgs e [] @ [''build'', specPath] @ flag (boKeep opts) ''--keep'')"

definition lua_Make :: "'w lua_engine \<Rightarrow> string \<Rightarrow> ('w, unit) lua_io" where
  "lua_Make e rockspecPath = run_cmd e (globalArgs e [] @ [''make''] @ given rockspecPath)"

text \<open>A command whose answer is the path it reports.\<close>

definition path_cmd :: "'w lua_engine \<Rightarrow> string list \<Rightarrow> (string \<Rightarrow> string option) \<Rightarrow> string \<Rightarrow> ('w, string) lua_io" where
  "path_cmd e argv parse what = bind_io (callViaState e argv) (\<lambda>out. case parse out of
     None \<Rightarrow> fail_io (NoPathLine what out) | Some p \<Rightarrow> ret p)"

definition lua_Pack :: "'w lua_engine \<Rightarrow> string \<Rightarrow> ('w, string) lua_io" where
  "lua_Pack e target = path_cmd e (globalArgs e [] @ [''pack'', target]) parsePackPath target"

definition lua_Unpack :: "'w lua_engine \<Rightarrow> string \<Rightarrow> ('w, unit) lua_io" where
  "lua_Unpack e archive = run_cmd e (globalArgs e [] @ [''unpack'', archive])"

definition lua_Remove :: "'w lua_engine \<Rightarrow> string \<Rightarrow> remove_opts \<Rightarrow> ('w, unit) lua_io" where
  "lua_Remove e name opts = run_cmd e (globalArgs e [] @ [''remove'', name] @ given (roVersion opts) @
     flag (roForce opts) ''--force'' @ flag (roForceFast opts) ''--force-fast'' @ [''--deps-mode'', depsModeArg (roDeps opts)])"

definition lua_Purge :: "'w lua_engine \<Rightarrow> purge_opts \<Rightarrow> ('w, unit) lua_io" where
  "lua_Purge e opts = run_cmd e (globalArgs e [] @ [''purge''] @ flag (puOldVersions opts) ''--old-versions'' @
     flag (puForce opts) ''--force'' @ flag (puForceFast opts) ''--force-fast'')"

definition lua_Search :: "'w lua_engine \<Rightarrow> string \<Rightarrow> search_opts \<Rightarrow> ('w, search_result list) lua_io" where
  "lua_Search e pattern opts = bind_io (callViaState e (globalArgs e (soServers opts) @ [''search'', pattern] @
     given (soVersion opts) @ flag (soSource opts) ''--source'' @ flag (soBinary opts) ''--binary'' @
     flag (soAll opts) ''--all'' @ [''--porcelain''])) (\<lambda>out. ret (parseSearchResults out))"

definition lua_Download :: "'w lua_engine \<Rightarrow> string \<Rightarrow> download_opts \<Rightarrow> ('w, string) lua_io" where
  "lua_Download e name opts = (let wd = cfgWorkingDir (lgCfg e) in
     bind_io (get (\<lambda>w. dirFiles (disk w) wd)) (\<lambda>before.
     bind_io (callViaState e (globalArgs e (doServers opts) @ [''download'', name] @ given (doVersion opts) @
       flag (doAll opts) ''--all'' @ flag (doSource opts) ''--source'' @ flag (doRockspec opts) ''--rockspec'' @
       optarg ''--arch'' (doArch opts))) (\<lambda>out.
     get (\<lambda>w. case filter (\<lambda>f. f \<notin> set before) (dirFiles (disk w) wd) of [f] \<Rightarrow> path_join [wd, f] | _ \<Rightarrow> wd))))"

definition lua_Lint :: "'w lua_engine \<Rightarrow> string \<Rightarrow> ('w, unit) lua_io" where
  "lua_Lint e specPath = run_cmd e [''lint'', specPath]"

definition lua_NewVersion :: "'w lua_engine \<Rightarrow> string \<Rightarrow> new_version_opts \<Rightarrow> ('w, string) lua_io" where
  "lua_NewVersion e specPath opts = path_cmd e ([''new_version'', specPath] @ given (nvNewVersion opts) @ given (nvNewURL opts) @
     optarg ''--dir'' (nvDir opts) @ optarg ''--tag'' (nvTag opts)) parseWrotePath specPath"

definition lua_WriteRockspec :: "'w lua_engine \<Rightarrow> string \<Rightarrow> write_rockspec_opts \<Rightarrow> ('w, string) lua_io" where
  "lua_WriteRockspec e url opts = path_cmd e ([''write_rockspec''] @ given (wrName opts) @ given (wrVersion opts) @ given url @
     optarg ''--output'' (wrOutput opts) @ optarg ''--license'' (wrLicense opts) @ optarg ''--summary'' (wrSummary opts) @
     optarg ''--detailed'' (wrDetailed opts) @ optarg ''--homepage'' (wrHomepage opts) @
     optarg ''--lua-versions'' (wrLuaVersions opts) @ optarg ''--rockspec-format'' (wrRockspecFormat opts) @
     optarg ''--tag'' (wrTag opts) @ optarg ''--lib'' (wrLib opts)) parseWrotePath url"

definition lua_Doc :: "'w lua_engine \<Rightarrow> string \<Rightarrow> doc_opts \<Rightarrow> ('w, unit) lua_io" where
  "lua_Doc e name opts = run_cmd e (globalArgs e [] @ [''doc'', name] @ given (dcVersion opts) @
     flag (dcHome opts) ''--home'' @ flag (dcList opts) ''--list'')"

definition lua_Test :: "'w lua_engine \<Rightarrow> string \<Rightarrow> test_opts \<Rightarrow> ('w, unit) lua_io" where
  "lua_Test e specPath opts = run_cmd e (globalArgs e [] @ [''test'', specPath] @ flag (tsPrepare opts) ''--prepare'' @
     optarg ''--test-type'' (tsTestType opts) @ tsArgs opts)"

definition lua_Config :: "'w lua_engine \<Rightarrow> config_opts \<Rightarrow> ('w, string) lua_io" where
  "lua_Config e opts = bind_io (callViaState e ([''config''] @ given (coKey opts) @ given (coValue opts) @
     flag (coUnset opts) ''--unset'' @ optarg ''--scope'' (coScope opts) @ flag (coJSON opts) ''--json''))
     (\<lambda>out. ret (trim_right_char out LF))"

definition lua_Upload :: "'w lua_engine \<Rightarrow> string \<Rightarrow> upload_opts \<Rightarrow> ('w, unit) lua_io" where
  "lua_Upload e specPath opts = run_cmd e ([''upload'', specPath] @ given (upSrcRock opts) @ flag (upSkipPack opts) ''--skip-pack'' @
     optarg ''--api-key'' (upAPIKey opts) @ optarg ''--temp-key'' (upTempKey opts) @ flag (upForce opts) ''--force'' @
     flag (upSign opts) ''--sign'')"

definition lua_InitProject :: "'w lua_engine \<Rightarrow> init_opts \<Rightarrow> ('w, unit) lua_io" where
  "lua_InitProject e opts = run_cmd e ([''init''] @ given (itName opts) @ given (itVersion opts) @ flag (itReset opts) ''--reset'')"

definition lua_Admin :: "'w lua_engine \<Rightarrow> string \<Rightarrow> string list \<Rightarrow> admin_opts \<Rightarrow> ('w, unit) lua_io" where
  "lua_Admin e subCmd args opts = run_cmd e ([''admin'', subCmd] @ args @ optarg ''--server'' (adServer opts) @
     flag (adForce opts) ''--force'')"

end
