(* ===== verification/LuaQuoting.thy ===== *)
theory LuaQuoting
  imports LuaBackend
begin

text \<open>
  What the Lua backend relies on at its borders: the command line survives the quoting, the exit
  code survives the error message, the listing of a search is read back, the module tables agree,
  and no interpreter serves two commands.
\<close>

section \<open>The command line\<close>

text \<open>Reading the arguments of the call back, with the reader of Lua strings of the manifest parser.\<close>

fun read_args :: "nat \<Rightarrow> string \<Rightarrow> string list option" where
  "read_args 0 s = None"
| "read_args (Suc k) s = (case s of [] \<Rightarrow> None | c # t \<Rightarrow>
     (if c \<noteq> SQ then None
      else case parseShortString SQ [] t of
        Inl e \<Rightarrow> None
      | Inr (a, r) \<Rightarrow> (if r = '')'' then Some [a]
          else if has_prefix r '', '' then map_option (\<lambda>as. a # as) (read_args k (drop 2 r)) else None)))"

definition read_dispatch :: "string \<Rightarrow> string list option" where
  "read_dispatch s = (if has_prefix s dispatch_prefix then read_args (length s) (drop (length dispatch_prefix) s) else None)"

lemma parse_quoteLua:
  "CHR 0x5C \<notin> set a \<Longrightarrow> LF \<notin> set a \<Longrightarrow>
   parseShortString SQ b (replace_char a SQ [CHR 0x5C, SQ] @ SQ # r) = Inr (b @ a, r)"
proof (induction a arbitrary: b)
  case Nil
  show ?case by (simp add: replace_char_def parseShortString_Cons)
next
  case (Cons c a)
  have ih: "parseShortString SQ (b @ [c]) (replace_char a SQ [CHR 0x5C, SQ] @ SQ # r) = Inr ((b @ [c]) @ a, r)"
    using Cons by simp
  have q: "parseShortString SQ b (CHR 0x5C # SQ # s) = parseShortString SQ (b @ [SQ]) s" for s
    by (subst parseShortString_Cons) (simp add: simple_escape_def)
  show ?case
  proof (cases "c = SQ")
    case True
    then show ?thesis using ih q by (simp add: replace_char_def)
  next
    case False
    have "c \<noteq> CHR 0x5C" "c \<noteq> LF" using Cons.prems by auto
    then show ?thesis using False ih by (simp add: replace_char_def parseShortString_Cons)
  qed
qed

lemma read_args_join:
  assumes "as \<noteq> []" and "\<forall>a \<in> set as. CHR 0x5C \<notin> set a \<and> LF \<notin> set a" and "length as \<le> k"
  shows "read_args k (join (map quoteLua as) '', '' @ '')'') = Some as"
  using assms
proof (induction as arbitrary: k)
  case (Cons a as)
  then obtain j where k: "k = Suc j" by (cases k) auto
  have p: "parseShortString SQ [] (replace_char a SQ [CHR 0x5C, SQ] @ SQ # r) = Inr (a, r)" for r
    using parse_quoteLua[of a "[]" r] Cons.prems(2) by simp
  show ?case
  proof (cases as)
    case Nil
    then show ?thesis using p by (simp add: k quoteLua_def)
  next
    case (Cons a' as')
    have "join (map quoteLua (a # as)) '', '' @ '')'' =
        SQ # replace_char a SQ [CHR 0x5C, SQ] @ SQ # '', '' @ (join (map quoteLua as) '', '' @ '')'')"
      by (simp add: Cons quoteLua_def)
    moreover have "read_args j (join (map quoteLua as) '', '' @ '')'') = Some as"
      using Cons.IH[of j] Cons.prems Cons by (simp add: k)
    ultimately show ?thesis using p by (simp add: k has_prefix_def)
  qed
qed simp

lemma join_length: "length as \<le> length (join (map quoteLua as) '', '' @ x)"
proof (induction as)
  case (Cons a as)
  then show ?case by (cases as) (simp_all add: quoteLua_def)
qed simp

text \<open>
  C21: The program and its arguments arrive: Lua reads the dispatch line back as the program name and
  exactly the given arguments, single quotes included, when no argument has a backslash or a line
  break in it.
\<close>

theorem dispatch_roundtrip:
  assumes "\<forall>a \<in> set (progname # argv). CHR 0x5C \<notin> set a \<and> LF \<notin> set a"
  shows "read_dispatch (dispatchString progname argv) = Some (progname # argv)"
proof -
  let ?body = "join (map quoteLua (progname # argv)) '', '' @ '')''"
  have d: "dispatchString progname argv = dispatch_prefix @ ?body" by (simp add: dispatchString_def)
  have "read_args (length (dispatch_prefix @ ?body)) ?body = Some (progname # argv)"
    by (rule read_args_join[OF _ assms]) (use join_length[of "progname # argv" "'')''"] in simp_all)
  then show ?thesis unfolding read_dispatch_def d by (simp add: has_prefix_def)
qed

theorem dispatch_roundtrip_witness:
  "read_dispatch (dispatchString ''tt rocks'' [''install'', ''it'' @ [SQ] @ ''s'', ''>= 1.0'']) =
     Some [''tt rocks'', ''install'', ''it'' @ [SQ] @ ''s'', ''>= 1.0'']"
  by (rule dispatch_roundtrip) simp

text \<open>A backslash before a quote ends the argument: what follows it is read as Lua code.\<close>

lemma backslash_escapes_quoting:
  "parseShortString SQ [] (tl (quoteLua (CHR 0x5C # SQ # code))) = Inr ([CHR 0x5C], replace_char code SQ [CHR 0x5C, SQ] @ [SQ])"
  by (simp add: quoteLua_def replace_char_def parseShortString_Cons simple_escape_def)

text \<open>The directory the interpreter is told survives the shell.\<close>

lemma pwd_command_word:
  "sh_word False [] (drop 5 (glr_pwd_command cfg) @ LF # t) = Some (cfgWorkingDir cfg, LF # t)"
  using sh_word_quoted[of "[]" "cfgWorkingDir cfg" "LF # t"]
  by (simp add: glr_pwd_command_def shellSingleQuote_def)

section \<open>The exit code\<close>

lemma has_prefix_length: "has_prefix s p \<Longrightarrow> length p \<le> length s"
  by (auto simp: has_prefix_iff)

lemma index_sub_length: "index_sub s sub = Some i \<Longrightarrow> length sub \<le> length s"
  by (induction s arbitrary: i) (auto split: if_splits dest: has_prefix_length)

lemma has_prefix_longer: "length p \<le> length s \<Longrightarrow> has_prefix (s @ t) p = has_prefix s p"
  by (simp add: has_prefix_def)

lemma index_sub_append: "index_sub a sub = Some i \<Longrightarrow> index_sub (a @ b) sub = Some i"
proof (induction a arbitrary: i)
  case Nil
  then show ?case by (cases b) (auto simp: has_prefix_def split: if_splits)
next
  case (Cons c a)
  have "length sub \<le> length (c # a)" by (rule index_sub_length[OF Cons.prems])
  then have "has_prefix (c # a @ b) sub = has_prefix (c # a) sub" using has_prefix_longer[of sub "c # a" b] by simp
  then show ?case using Cons by (auto split: if_splits)
qed

lemma foldl_code: "foldl (\<lambda>code c. code * 10 + of_int (digit_val c)) (of_int n :: 64 word) ds =
    of_int (foldl (\<lambda>n c. 10 * n + digit_val c) n ds)"
proof (induction ds arbitrary: n)
  case (Cons d ds)
  have "of_int n * 10 + of_int (digit_val d) = (of_int (10 * n + digit_val d) :: 64 word)" by simp
  then show ?case using Cons[of "10 * n + digit_val d"] by (simp add: mult.commute)
qed simp

text \<open>
  C40: The exit code of a command survives its way through the error message: whatever position
  stands before it and whatever trace after it, the code that \<open>os.exit\<close> was called with is read
  back, so that zero is success and nothing else is.
\<close>

theorem os_exit_roundtrip:
  assumes "0 \<le> code" "code < 2 ^ 63" and "index_sub (pos @ osExitSentinel) osExitSentinel = Some (length pos)"
    and "trace = [] \<or> \<not> is_digit (hd trace)"
  shows "parseOsExit (pos @ os_exit_message code @ trace) = Some (of_int code) \<and> ((of_int code :: 64 word) = 0 \<longleftrightarrow> code = 0)"
proof
  have i: "index_sub (pos @ osExitSentinel @ dec_digits code @ trace) osExitSentinel = Some (length pos)"
    using index_sub_append[OF assms(3), of "dec_digits code @ trace"] by simp
  have ds: "takeWhile is_digit (dec_digits code @ trace) = dec_digits code"
    using dec_digits_digits[OF assms(1)] assms(4) by (cases trace) (auto simp: takeWhile_append list_all_iff)
  have "foldl (\<lambda>c d. c * 10 + of_int (digit_val d)) (0 :: 64 word) (dec_digits code) = of_int code"
    using foldl_code[of 0 "dec_digits code"] int_of_dec_dec_digits[OF assms(1)] by (simp add: int_of_dec_def)
  then show "parseOsExit (pos @ os_exit_message code @ trace) = Some (of_int code)"
    using assms(1) by (simp add: parseOsExit_def cut_def os_exit_message_def format_int_def i ds)
  show "(of_int code :: 64 word) = 0 \<longleftrightarrow> code = 0"
  proof
    assume "(of_int code :: 64 word) = 0"
    then have "uint (of_int code :: 64 word) = 0" by simp
    then have "code mod 2 ^ 64 = 0" by (simp add: uint_word_of_int)
    then show "code = 0" using assms(1,2) by simp
  qed simp
qed

theorem os_exit_roundtrip_witness:
  "parseOsExit (''wrapper.lua:3: '' @ os_exit_message 256 @ [LF] @ ''stack'') = Some 256"
proof -
  have "index_sub (''wrapper.lua:3: '' @ osExitSentinel) osExitSentinel = Some (length ''wrapper.lua:3: '')" by code_simp
  then show ?thesis
    using os_exit_roundtrip[of 256 "''wrapper.lua:3: ''" "[LF] @ ''stack''"] by (simp add: is_digit_def)
qed

section \<open>The listing of a search\<close>

text \<open>What \<open>search --porcelain\<close> prints for a row: a field is left out when there is no namespace.\<close>

definition porcelain :: "search_result \<Rightarrow> string" where
  "porcelain r = join ([srName r, srVersion r, srArch r, srServer r] @ (if srNamespace r = [] then [] else [srNamespace r])) [TAB]"

definition plain_row :: "search_result \<Rightarrow> bool" where
  "plain_row r \<longleftrightarrow> list_all (\<lambda>f. TAB \<notin> set f \<and> LF \<notin> set f) [srName r, srVersion r, srArch r, srServer r, srNamespace r] \<and>
     trim_space (porcelain r) \<noteq> []"

lemma split_row: "plain_row r \<Longrightarrow> search_row (porcelain r) = Some r"
  by (cases r) (auto simp: plain_row_def search_row_def porcelain_def split_char_sep split_char_no_sep Let_def)

lemma porcelain_no_LF: "plain_row r \<Longrightarrow> LF \<notin> set (porcelain r)"
  by (auto simp: plain_row_def porcelain_def)

text \<open>
  A listing is read back row by row: what the search command prints under \<open>--porcelain\<close> gives
  exactly the rows it printed, in their order, with or without a namespace.
\<close>

theorem search_listing:
  assumes "list_all plain_row rows"
  shows "parseSearchResults (concat (map (\<lambda>r. porcelain r @ [LF]) rows)) = rows"
  using assms
proof (induction rows)
  case Nil
  have "parseSearchResults [] = []" by code_simp
  then show ?case by simp
next
  case (Cons r rows)
  have "split_char (porcelain r @ LF # t) LF = porcelain r # split_char t LF" for t
    using split_char_sep[OF porcelain_no_LF] Cons.prems by simp
  then show ?case using Cons split_row[of r] by (simp add: parseSearchResults_def List.map_filter_simps)
qed

theorem search_listing_witness:
  "let row = \<lparr>srName = ''a'', srVersion = ''1-1'', srArch = ''src'', srServer = ''http://s'', srNamespace = []\<rparr>
   in parseSearchResults (concat (map (\<lambda>r. porcelain r @ [LF]) [row, row\<lparr>srNamespace := ''o''\<rparr>])) = [row, row\<lparr>srNamespace := ''o''\<rparr>]"
  unfolding Let_def by (rule search_listing) code_simp

section \<open>The modules of the interpreter\<close>

text \<open>
  A stub answers for a module that is not there. None stands over a module that is preloaded: the
  preloaded modules of the file system layer are four, and none of them has a stub.
\<close>

definition fs_modules :: "string list" where
  "fs_modules = [''luarocks.fs.unix'', ''luarocks.fs.unix.tools'', ''luarocks.fs.lua'', ''luarocks.fs.tools'']"

lemma preloaded_fs: "set (filter (\<lambda>m. has_prefix m ''luarocks.fs.'') (map fst luaPreloadMap)) = set fs_modules"
proof -
  have "filter (\<lambda>m. has_prefix m ''luarocks.fs.'') (map fst luaPreloadMap) = fs_modules" by code_simp
  then show ?thesis by simp
qed

lemma preloaded_names: "list_all (\<lambda>m. has_prefix m ''luarocks.'' \<or> has_prefix m ''extra.'') (map fst luaPreloadMap)"
  by code_simp

lemma absent_names: "list_all (\<lambda>m. has_prefix m ''luarocks.fs.'' \<and> m \<notin> set fs_modules \<or>
    \<not> has_prefix m ''luarocks.'' \<and> \<not> has_prefix m ''extra.'') luaAbsentModules"
  by code_simp

lemma no_stub_over_module:
  assumes "m \<in> set luaAbsentModules"
  shows "map_of luaPreloadMap m = None"
proof -
  have "m \<notin> set (map fst luaPreloadMap)"
  proof
    assume p: "m \<in> set (map fst luaPreloadMap)"
    then have "has_prefix m ''luarocks.fs.'' \<Longrightarrow> m \<in> set fs_modules" using preloaded_fs by auto
    then show False using p assms preloaded_names absent_names unfolding list_all_iff by blast
  qed
  then show ?thesis by (simp add: map_of_eq_None_iff)
qed

section \<open>The pool of interpreters\<close>

text \<open>
  Interpreters are numbered as they are made. One that is warm waits in the pool, which holds at
  most one; a command takes it, or makes one when the pool is empty, and starts a new one warming;
  the interpreter of a command is closed when the command is over. The steps of different commands
  and of the warming may come in any order.
\<close>

definition luaPoolSize :: nat where
  "luaPoolSize = 1"

record vm_state =
  vmMade :: nat
  vmPool :: "nat list"
  vmBusy :: "nat list"
  vmClosed :: "nat list"
  vmWarming :: nat
  vmServed :: "nat list"

definition vm_init :: vm_state where
  "vm_init = \<lparr>vmMade = 0, vmPool = [], vmBusy = [], vmClosed = [], vmWarming = 0, vmServed = []\<rparr>"

text \<open>\<open>acquire\<close>: the pooled interpreter or a new one; \<open>startWarming\<close> follows.\<close>

definition acquire :: "vm_state \<Rightarrow> vm_state" where
  "acquire s = (case vmPool s of
     v # vs \<Rightarrow> s\<lparr>vmPool := vs, vmBusy := v # vmBusy s, vmServed := v # vmServed s, vmWarming := vmWarming s + 1\<rparr>
   | [] \<Rightarrow> s\<lparr>vmMade := vmMade s + 1, vmBusy := vmMade s # vmBusy s, vmServed := vmMade s # vmServed s,
       vmWarming := vmWarming s + 1\<rparr>)"

text \<open>The end of a warming: the interpreter goes into the pool, or is closed when the pool is full.\<close>

definition warmed :: "vm_state \<Rightarrow> vm_state" where
  "warmed s = (if length (vmPool s) < luaPoolSize
     then s\<lparr>vmMade := vmMade s + 1, vmPool := vmPool s @ [vmMade s], vmWarming := vmWarming s - 1\<rparr>
     else s\<lparr>vmMade := vmMade s + 1, vmClosed := vmMade s # vmClosed s, vmWarming := vmWarming s - 1\<rparr>)"

text \<open>
  The interpreter of a command is closed. The command then waits for the warmings that are under way
  before it returns, which delays it and changes none of the interpreters.
\<close>

definition release :: "nat \<Rightarrow> vm_state \<Rightarrow> vm_state" where
  "release v s = s\<lparr>vmBusy := remove1 v (vmBusy s), vmClosed := v # vmClosed s\<rparr>"

definition cleanup :: "vm_state \<Rightarrow> vm_state" where
  "cleanup s = s\<lparr>vmPool := [], vmClosed := vmPool s @ vmClosed s\<rparr>"

inductive vm_step :: "vm_state \<Rightarrow> vm_state \<Rightarrow> bool" where
  vm_acquire: "vm_step s (acquire s)"
| vm_warmed: "0 < vmWarming s \<Longrightarrow> vm_step s (warmed s)"
| vm_warm_failed: "0 < vmWarming s \<Longrightarrow> vm_step s (s\<lparr>vmWarming := vmWarming s - 1\<rparr>)"
| vm_release: "v \<in> set (vmBusy s) \<Longrightarrow> vm_step s (release v s)"
| vm_cleanup: "vm_step s (cleanup s)"

inductive vm_reachable :: "vm_state \<Rightarrow> bool" where
  vm_start: "vm_reachable vm_init"
| vm_next: "vm_reachable s \<Longrightarrow> vm_step s s' \<Longrightarrow> vm_reachable s'"

definition vm_inv :: "vm_state \<Rightarrow> bool" where
  "vm_inv s \<longleftrightarrow> mset (vmPool s @ vmBusy s @ vmClosed s) = mset [0..<vmMade s] \<and>
     distinct (vmServed s) \<and> set (vmServed s) \<subseteq> set (vmBusy s) \<union> set (vmClosed s) \<and>
     set (vmBusy s) \<subseteq> set (vmServed s) \<and> length (vmPool s) \<le> luaPoolSize"

lemma vm_inv_sets:
  assumes "vm_inv s"
  shows "set (vmPool s) \<union> set (vmBusy s) \<union> set (vmClosed s) = {..<vmMade s}"
    and "distinct (vmPool s @ vmBusy s @ vmClosed s)"
proof -
  have m: "mset (vmPool s @ vmBusy s @ vmClosed s) = mset [0..<vmMade s]" using assms by (simp add: vm_inv_def)
  show "set (vmPool s) \<union> set (vmBusy s) \<union> set (vmClosed s) = {..<vmMade s}"
    using mset_eq_setD[OF m] by (auto simp: atLeast0LessThan)
  show "distinct (vmPool s @ vmBusy s @ vmClosed s)" by (rule mset_eq_imp_distinct_iff[OF m, THEN iffD2]) simp
qed

lemma made_Suc: "mset [0..<Suc n] = add_mset n (mset [0..<n])"
  by (simp only: upt_Suc_append[OF le0] mset_append) simp

lemma vm_inv_acquire:
  assumes "vm_inv s"
  shows "vm_inv (acquire s)"
proof (cases "vmPool s")
  case Nil
  have "vmMade s \<notin> set (vmServed s)" using assms vm_inv_sets(1)[OF assms] by (auto simp: vm_inv_def)
  then show ?thesis using assms Nil by (auto simp: vm_inv_def acquire_def made_Suc simp del: mset_upt)
next
  case (Cons v vs)
  have "v \<notin> set (vmServed s)" using assms vm_inv_sets(2)[OF assms] Cons by (auto simp: vm_inv_def)
  then show ?thesis using assms Cons by (auto simp: vm_inv_def acquire_def)
qed

lemma vm_inv_release:
  assumes "vm_inv s" and v: "v \<in> set (vmBusy s)"
  shows "vm_inv (release v s)"
proof -
  have b: "mset (vmBusy s) = add_mset v (mset (remove1 v (vmBusy s)))" using v by simp
  have "mset (vmPool s @ remove1 v (vmBusy s) @ v # vmClosed s) = mset (vmPool s @ vmBusy s @ vmClosed s)"
    unfolding mset_append b by simp
  moreover have "set (remove1 v (vmBusy s)) = set (vmBusy s) - {v}" using vm_inv_sets(2)[OF assms(1)] by simp
  ultimately show ?thesis using assms by (auto simp: vm_inv_def release_def)
qed

lemma vm_inv_step: "vm_step s s' \<Longrightarrow> vm_inv s \<Longrightarrow> vm_inv s'"
proof (induction rule: vm_step.induct)
  case (vm_acquire s)
  then show ?case by (rule vm_inv_acquire)
next
  case (vm_warmed s)
  then show ?case by (auto simp: vm_inv_def warmed_def made_Suc simp del: mset_upt)
next
  case (vm_warm_failed s)
  then show ?case by (simp add: vm_inv_def)
next
  case (vm_release v s)
  then show ?case using vm_inv_release by blast
next
  case (vm_cleanup s)
  then show ?case by (auto simp: vm_inv_def cleanup_def ac_simps)
qed

lemma vm_inv_reachable: "vm_reachable s \<Longrightarrow> vm_inv s"
proof (induction rule: vm_reachable.induct)
  case vm_start
  then show ?case by (simp add: vm_init_def vm_inv_def)
next
  case (vm_next s s')
  then show ?case using vm_inv_step by blast
qed

text \<open>
  C20: No interpreter serves two commands: in every interleaving of commands, warmings and the final
  clean-up, an interpreter that has run a command is never in the pool again, no two commands got
  the same one, the pool holds at most one, and every interpreter that was made is in the pool,
  running a command, or closed, so none is lost.
\<close>

theorem vm_isolation:
  assumes "vm_reachable s"
  shows "distinct (vmServed s) \<and> set (vmPool s) \<inter> set (vmServed s) = {} \<and> length (vmPool s) \<le> 1 \<and>
    set (vmPool s) \<union> set (vmBusy s) \<union> set (vmClosed s) = {..<vmMade s}"
proof -
  have inv: "vm_inv s" by (rule vm_inv_reachable[OF assms])
  then show ?thesis using vm_inv_sets[OF inv] by (auto simp: vm_inv_def luaPoolSize_def)
qed

lemma vm_example: "vm_reachable (release 0 (warmed (acquire vm_init)))"
proof -
  have "vm_reachable (acquire vm_init)" by (rule vm_next[OF vm_start vm_acquire])
  then have "vm_reachable (warmed (acquire vm_init))" by (rule vm_next) (rule vm_warmed, simp add: acquire_def vm_init_def)
  then show ?thesis by (rule vm_next) (rule vm_release, simp add: acquire_def warmed_def vm_init_def luaPoolSize_def)
qed

theorem vm_isolation_witness:
  "let s = release 0 (warmed (acquire vm_init)) in vmServed s = [0] \<and> vmPool s = [1] \<and> set (vmPool s) \<inter> set (vmServed s) = {}"
  using vm_isolation[OF vm_example] by (simp add: acquire_def warmed_def release_def vm_init_def luaPoolSize_def)

end
