(* ===== verification/InstalledRocks.thy ===== *)
theory InstalledRocks
  imports Client
begin

text \<open>
  What the client promises of a tree: a set of installed rocks, that deploying adds to, removing
  takes away from and listing reads. The operations of \<open>Client\<close> refine these three, through
  the manifest file and its text, when the names involved survive the file format.
\<close>

section \<open>Opening a tree\<close>

lemma mkdirs_dirs:
  "mkdirs ps s = (None, s') \<Longrightarrow>
    (\<forall>q \<in> set ps. map_of (nodes s') q = Some NDir) \<and> (\<forall>q. map_of (nodes s) q = Some NDir \<longrightarrow> map_of (nodes s') q = Some NDir)"
proof (induction ps s rule: mkdirs.induct)
  case (2 p ps s)
  show ?case
  proof (cases "map_of (nodes s) p")
    case None
    then obtain s1 where t: "tick s = (None, s1)" "mkdirs ps (s1\<lparr>nodes := mput p NDir (nodes s1)\<rparr>) = (None, s')"
      using 2(3) by (auto split: prod.splits option.splits)
    have n: "nodes s1 = nodes s" using t(1) by (auto simp: tick_def)
    show ?thesis using 2(1)[OF None t(1)[symmetric] refl t(2)] None n by (auto simp: go_simps)
  next
    case (Some x)
    then show ?thesis using 2 by (cases x) auto
  qed
qed simp

lemma mkdir_each_dirs:
  "mkdir_each ds s = (None, s') \<Longrightarrow>
    (\<forall>d \<in> set ds. \<forall>q \<in> set (path_chain d). map_of (nodes s') q = Some NDir) \<and>
    (\<forall>q. map_of (nodes s) q = Some NDir \<longrightarrow> map_of (nodes s') q = Some NDir)"
proof (induction ds arbitrary: s)
  case (Cons d ds)
  then obtain s1 where "os_mkdir_all d s = (None, s1)" and r: "mkdir_each ds s1 = (None, s')"
    by (auto split: prod.splits option.splits)
  then have "mkdirs (path_chain d) s = (None, s1)" by (simp add: os_mkdir_all_def)
  from mkdirs_dirs[OF this] show ?case using Cons.IH[OF r] by simp
qed simp

lemma mkdir_each_again: "\<forall>d \<in> set ds. \<forall>q \<in> set (path_chain d). map_of (nodes s) q = Some NDir \<Longrightarrow> mkdir_each ds s = (None, s)"
  by (induction ds) (simp_all add: os_mkdir_all_def quiet_mkdirs)

lemma mkdir_each_files: "mkdir_each ds s = (e, s') \<Longrightarrow> file_at s' p = file_at s p"
proof (induction ds arbitrary: s)
  case (Cons d ds)
  obtain e1 s1 where m: "os_mkdir_all d s = (e1, s1)" by (cases "os_mkdir_all d s")
  then have "file_at s1 p = file_at s p" by (simp add: fs_simps)
  then show ?case using Cons m by (cases e1) auto
qed simp

lemma open_tree_ok:
  assumes "open_tree e w = (Inr t, w')"
  shows "t = \<lparr>tTree = cfgTree (eCfg e), tBinWrap = None, tProvider = None\<rparr>" and "open_tree e w' = (Inr t, w')"
    and "file_at (disk w') p = file_at (disk w) p"
proof -
  let ?ds = "[RocksDir (cfgTree (eCfg e)), DeployLuaDir (cfgTree (eCfg e)), DeployLibDir (cfgTree (eCfg e)), BinDir (cfgTree (eCfg e))]"
  obtain s where m: "cfgTree (eCfg e) \<noteq> []" "mkdir_each ?ds (disk w) = (None, s)" and w: "w' = w\<lparr>disk := s\<rparr>"
    and t: "t = \<lparr>tTree = cfgTree (eCfg e), tBinWrap = None, tProvider = None\<rparr>"
    using assms
    by (auto simp: open_tree_def on_tree_def on_disk_def map_err_def Open_def simp del: mkdir_each.simps split: prod.splits if_splits option.splits)
  show "t = \<lparr>tTree = cfgTree (eCfg e), tBinWrap = None, tProvider = None\<rparr>" by (rule t)
  show "file_at (disk w') p = file_at (disk w) p" using mkdir_each_files[OF m(2)] by (simp add: w)
  have "mkdir_each ?ds s = (None, s)" using mkdir_each_dirs[OF m(2)] by (intro mkdir_each_again) blast
  then show "open_tree e w' = (Inr t, w')"
    using m(1) by (simp add: open_tree_def on_tree_def on_disk_def map_err_def Open_def w t del: mkdir_each.simps)
qed

lemma keeps_open_tree [frame]: "keeps disk F (open_tree e)"
  unfolding open_tree_def on_tree_def
proof (intro frame)
  show "keeps id F (Open (cfgTree (eCfg e)))"
    by (auto simp: keeps_def Open_def simp del: mkdir_each.simps split: if_splits prod.splits option.splits intro: mkdir_each_files)
qed

section \<open>The manifest file\<close>

abbreviation manifest_file :: "'w engine \<Rightarrow> string" where
  "manifest_file e \<equiv> manifest_path (rocks_dir e)"

lemma ReadTree_same_file:
  "file_at s (manifest_path d) = Some c \<Longrightarrow> file_at s' (manifest_path d) = Some c \<Longrightarrow> ReadTree s' d = ReadTree s d"
  by (auto simp: ReadTree_def file_at_def os_read_def split: option.splits node.splits)

lemma ReadTree_has_file: "ReadTree s d = Inr m \<Longrightarrow> \<exists>c. file_at s (manifest_path d) = Some c"
  by (auto simp: ReadTree_def file_at_def os_read_def split: option.splits node.splits)

lemma WriteTree_read:
  assumes "WriteTree dir (Some m) s = (None, s')" and "tidy_manifest m"
  shows "ReadTree s' dir = Inr (ordered_manifest m)"
proof -
  obtain t where t: "manifestToTable m = LMap t" "encodable t" using encodable_manifest by blast
  then have "writeAtomic (manifest_path dir) (LMap t) s = (None, s')" using assms(1) by (simp add: WriteTree_def)
  then show ?thesis using ReadTree_of_file[OF assms(2) t(1)] writeAtomic_files(2)[OF t(2)] by simp
qed

lemma keyed_ordered: "keyed P m \<Longrightarrow> (\<And>x. P x \<Longrightarrow> Q (f x)) \<Longrightarrow> keyed Q (in_key_order f m)"
proof -
  assume k: "keyed P m" and q: "\<And>x. P x \<Longrightarrow> Q (f x)"
  have "map fst (in_key_order f m) = map fst (sort_key fst m)" by (simp add: in_key_order_def comp_def split_beta)
  then have "distinct (map fst (in_key_order f m))" using k distinct_sort_key[of m] by (simp add: keyed_def)
  then show "keyed Q (in_key_order f m)" using k q by (auto simp: keyed_def set_in_key_order)
qed

lemma tidy_ordered: "tidy_manifest m \<Longrightarrow> tidy_manifest (ordered_manifest m)"
proof -
  assume t: "tidy_manifest m"
  have e: "tidy_entry (ordered_entry x)" if "tidy_entry x" for x
  proof -
    have "eDependencies x = [] \<Longrightarrow> in_key_order id (eDependencies x) = []" by (simp add: in_key_order_def)
    then show ?thesis using that by (auto simp: tidy_entry_def ordered_entry_def intro: keyed_ordered)
  qed
  show ?thesis using t unfolding tidy_manifest_def ordered_manifest_def
    by (auto intro!: keyed_ordered e intro: keyed_ordered)
qed

text \<open>The file of a joined path comes last in it.\<close>

lemma path_join_file:
  assumes "comp c"
  shows "\<exists>pre. path_join [d, c] = pre @ c \<and> (pre = [] \<or> last pre = CHR ''/'')"
proof -
  have c: "CHR ''/'' \<notin> set c" "c \<noteq> []" "c \<noteq> ''.''" "c \<noteq> ''..''" using assms by (auto simp: comp_def)
  define x where "x = (if d = [] then c else d @ CHR ''/'' # c)"
  have j: "path_join [d, c] = path_clean x" using c by (auto simp: path_join_def x_def)
  define cs where "cs = (if d = [] then [] else split_char d (CHR ''/''))"
  have s: "split_char x (CHR ''/'') = cs @ [c]"
    using c(1) by (simp add: x_def cs_def split_char_app split_char_no_sep)
  define r where "r = (hd x = CHR ''/'')"
  define os where "os = foldl (clean_step r) [] cs"
  have f: "foldl (clean_step r) [] (split_char x (CHR ''/'')) = os @ [c]" using c by (simp add: s os_def)
  have "join (os @ [c]) ''/'' = (if os = [] then [] else join os ''/'' @ ''/'') @ c"
    by (simp add: join_append)
  moreover have "x \<noteq> []" using c(2) by (simp add: x_def)
  ultimately have "path_clean x = ((if r then ''/'' else []) @ (if os = [] then [] else join os ''/'' @ ''/'')) @ c"
    using f c(2) by (cases r) (simp_all add: path_clean_def Let_def r_def[symmetric])
  then show ?thesis unfolding j
    by (intro exI[of _ "(if r then ''/'' else []) @ (if os = [] then [] else join os ''/'' @ ''/'')"] conjI) auto
qed

lemma rock_manifest_elsewhere:
  "path_join [d, ''rock_manifest''] \<noteq> manifest_path t" "path_join [d, ''rock_manifest''] @ ''.tmp'' \<noteq> manifest_path t"
proof -
  obtain p q where p: "path_join [d, ''rock_manifest''] = p @ ''rock_manifest''"
    and q: "manifest_path t = q @ ''manifest''" "q = [] \<or> last q = CHR ''/''"
    using path_join_file[of "''rock_manifest''" d] path_join_file[of "''manifest''" t] by (auto simp: comp_def manifest_path_def)
  show "path_join [d, ''rock_manifest''] \<noteq> manifest_path t"
  proof
    assume "path_join [d, ''rock_manifest''] = manifest_path t"
    then have "(p @ ''rock_'') @ ''manifest'' = q @ ''manifest''" using p q by simp
    then have "p @ ''rock_'' = q" by (simp only: append_same_eq)
    then show False using q(2) by auto
  qed
  show "path_join [d, ''rock_manifest''] @ ''.tmp'' \<noteq> manifest_path t"
  proof
    assume "path_join [d, ''rock_manifest''] @ ''.tmp'' = manifest_path t"
    then have "last (path_join [d, ''rock_manifest''] @ ''.tmp'') = last (q @ ''manifest'')" using q by simp
    then show False by simp
  qed
qed

section \<open>Deploying is a transaction on the manifest\<close>

lemma on_store_ok: "on_store f w = (Inr u, w') \<longleftrightarrow> (\<exists>s. f (disk w) = (None, s) \<and> w' = w\<lparr>disk := s\<rparr>)"
  by (auto simp: on_store_def on_disk_def split: prod.splits option.splits)

lemma on_store_error: "on_store f w = (Inl er, w') \<longleftrightarrow> (\<exists>x s. f (disk w) = (Some x, s) \<and> er = StoreFailed x \<and> w' = w\<lparr>disk := s\<rparr>)"
  by (auto simp: on_store_def on_disk_def split: prod.splits option.splits)

lemma lift_client_ok: "lift_client r w = (Inr u, w') \<longleftrightarrow> r = None \<and> w' = w"
  by (auto simp: lift_client_def ret_def fail_io_def split: option.splits)

definition deployed :: "'w engine \<Rightarrow> rockspec \<Rightarrow> (TreePaths.tree \<Rightarrow> ('w, rock_manifest \<times> rockspec) client_io) \<Rightarrow>
    manifest \<Rightarrow> rock_manifest \<Rightarrow> rockspec \<Rightarrow> 'w net \<Rightarrow> bool" where
  "deployed e spec deploy m rm spec' w \<longleftrightarrow> (\<exists>t w1 w2. open_tree e w = (Inr t, w1) \<and>
     readTreeManifest (disk w1) (rocks_dir e) = Inr m \<and> deploy (tree_for e spec m t) w1 = (Inr (rm, spec'), w2))"

lemma prepare_deploy_steps:
  assumes "prepare_deploy e spec deploy w = (Inr (m, rm, spec'), w')"
  shows "\<exists>t w1. open_tree e w = (Inr t, w1) \<and> readTreeManifest (disk w1) (rocks_dir e) = Inr m \<and>
    deploy (tree_for e spec m t) w1 = (Inr (rm, spec'), w')"
  using assms unfolding prepare_deploy_def
  by (auto simp: bind_io_Inr get_eq lift_err_eq ret_eq lift_client_ok dest!: sym[where s = "Inr _"])

lemma prepare_deploy_ok:
  "prepare_deploy e spec deploy w = (Inr (m, rm, spec'), w') \<Longrightarrow> deployed e spec deploy m rm spec' w"
  unfolding deployed_def by (blast dest: prepare_deploy_steps)

lemma record_deployed_ok:
  assumes "record_deployed e spec (m, rm, spec') w = (Inr u, w')"
  shows "\<exists>s. WriteTree (rocks_dir e) (Some (record_rock spec' rm m)) s = (None, disk w')"
  using assms unfolding record_deployed_def by (auto simp: bind_io_Inr on_store_ok)

lemma deployRock_ok:
  assumes "deployRock e spec deploy w = (Inr u, w')"
  shows "\<exists>m rm spec' s. deployed e spec deploy m rm spec' w \<and>
    WriteTree (rocks_dir e) (Some (record_rock spec' rm m)) s = (None, disk w')"
proof -
  obtain m rm spec' w1 where "prepare_deploy e spec deploy w = (Inr (m, rm, spec'), w1)"
    "record_deployed e spec (m, rm, spec') w1 = (Inr u, w')"
    using assms by (auto simp: deployRock_def bind_io_Inr)
  then show ?thesis using prepare_deploy_ok record_deployed_ok by metis
qed

lemma keeps_store [frame]:
  assumes "\<And>s r s' p. f s = (r, s') \<Longrightarrow> F p \<Longrightarrow> file_at s' p = file_at s p"
  shows "keeps disk F (on_store f)"
proof (rule keepsI)
  fix w r w' p assume "on_store f w = (r, w')" "F p"
  then obtain x where "f (disk w) = (x, disk w')" by (auto simp: on_store_def on_disk_def split: prod.splits)
  then show "file_at (disk w') p = file_at (disk w) p" using assms \<open>F p\<close> by blast
qed

lemma keeps_WriteRock:
  "keeps disk (\<lambda>p. p = manifest_file e) (on_store (WriteRock (rock_manifest_file e spec) (Some rm)))"
proof (rule keeps_store)
  fix s r s' p assume w: "WriteRock (rock_manifest_file e spec) (Some rm) s = (r, s')" and "p = manifest_file e"
  then show "file_at s' p = file_at s p" using rock_manifest_elsewhere[symmetric]
    by (intro WriteRock_files[OF w]) (auto simp: rock_manifest_file_def)
qed

lemma record_deployed_error:
  assumes "record_deployed e spec x w = (Inl er, w')"
  shows "file_at (disk w') (manifest_file e) = file_at (disk w) (manifest_file e)"
proof -
  obtain m rm spec' where x: "x = (m, rm, spec')" by (cases x)
  let ?wr = "on_store (WriteRock (rock_manifest_file e spec) (Some rm))"
  from assms consider "?wr w = (Inl er, w')"
    | w1 where "?wr w = (Inr (), w1)" "on_store (WriteTree (rocks_dir e) (Some (record_rock spec' rm m))) w1 = (Inl er, w')"
    unfolding record_deployed_def x by (auto simp: bind_io_eq)
  then show ?thesis
  proof cases
    case 1
    then show ?thesis by (rule keepsD[OF keeps_WriteRock]) simp
  next
    case 2
    obtain y where "WriteTree (rocks_dir e) (Some (record_rock spec' rm m)) (disk w1) = (Some y, disk w')"
      using 2(2) by (auto simp: on_store_error)
    then have "file_at (disk w') (manifest_file e) = file_at (disk w1) (manifest_file e)"
      by (rule WriteTree_files) simp_all
    also have "\<dots> = file_at (disk w) (manifest_file e)" by (rule keepsD[OF keeps_WriteRock 2(1)]) simp
    finally show ?thesis .
  qed
qed

text \<open>How far a deployment got when the client gave up: the deployment ran, or was not reached.\<close>

lemma prepare_deploy_error:
  assumes "prepare_deploy e spec deploy w = (Inl er, w')"
  shows "file_at (disk w') p = file_at (disk w) p \<or>
    (\<exists>t m w1. open_tree e w = (Inr t, w1) \<and> readTreeManifest (disk w1) (rocks_dir e) = Inr m \<and>
      deploy (tree_for e spec m t) w1 = (Inl er, w'))"
proof -
  have keep: "file_at (disk w2) p = file_at (disk w) p" if "open_tree e w = (x, w2)" for x w2
    by (rule keepsD[OF keeps_open_tree that TrueI])
  have platforms: "lift_client r w = (x, w2) \<Longrightarrow> w2 = w" for r x w2
    by (auto simp: lift_client_def ret_def fail_io_def split: option.splits)
  from assms consider "w' = w" | "open_tree e w = (Inl er, w')"
    | t where "open_tree e w = (Inr t, w')"
    | t m w1 where "open_tree e w = (Inr t, w1)" "readTreeManifest (disk w1) (rocks_dir e) = Inr m"
        "deploy (tree_for e spec m t) w1 = (Inl er, w')"
    unfolding prepare_deploy_def
    by (auto simp: bind_io_eq get_eq lift_err_eq ret_eq dest!: platforms sym[where s = "Inr _"] sym[where s = "Inl _"])
  then show ?thesis by cases (use keep in blast)+
qed

text \<open>
  C3: Deploying a rock replaces the manifest of the tree in one step, or not at all. On success it
  holds the manifest that was read before, with the rock that was deployed recorded, and reads back as
  such when the names are ones the file format can hold (without carriage returns, and the like). On
  failure it is still the old file, byte by byte, or, when the failure came during or after the deployment of
  the rock's files, the file that this deployment left: recording the rock, under any
  schedule of disk errors, has not touched it. A deployment starts from the old file.
\<close>

theorem deploy_transaction:
  assumes "deployRock e spec deploy w = (r, w')"
  shows "case r of
      Inl er \<Rightarrow> file_at (disk w') (manifest_file e) = file_at (disk w) (manifest_file e) \<or>
        (\<exists>t m w1 x w2. open_tree e w = (Inr t, w1) \<and> readTreeManifest (disk w1) (rocks_dir e) = Inr m \<and>
          file_at (disk w1) (manifest_file e) = file_at (disk w) (manifest_file e) \<and>
          deploy (tree_for e spec m t) w1 = (x, w2) \<and>
          file_at (disk w') (manifest_file e) = file_at (disk w2) (manifest_file e))
    | Inr u \<Rightarrow> \<exists>m rm spec'. deployed e spec deploy m rm spec' w \<and>
        (tidy_manifest m \<and> tidy_rock spec' rm \<longrightarrow>
          ReadTree (disk w') (rocks_dir e) = Inr (ordered_manifest (record_rock spec' rm m)))"
proof (cases r)
  case (Inr u)
  then obtain m rm spec' s where d: "deployed e spec deploy m rm spec' w"
    "WriteTree (rocks_dir e) (Some (record_rock spec' rm m)) s = (None, disk w')"
    using deployRock_ok assms by blast
  then show ?thesis using Inr WriteTree_read[OF d(2) tidy_record] by auto
next
  case (Inl er)
  have old: "open_tree e w = (Inr t, w1) \<Longrightarrow> file_at (disk w1) (manifest_file e) = file_at (disk w) (manifest_file e)" for t w1
    by (rule keepsD[OF keeps_open_tree]) auto
  from assms Inl consider "prepare_deploy e spec deploy w = (Inl er, w')"
    | m rm spec' w2 where "prepare_deploy e spec deploy w = (Inr (m, rm, spec'), w2)" "record_deployed e spec (m, rm, spec') w2 = (Inl er, w')"
    unfolding deployRock_def by (auto simp: bind_io_eq)
  then show ?thesis
  proof cases
    case 1
    then show ?thesis using prepare_deploy_error[OF 1, of "manifest_file e"] old Inl by auto
  next
    case 2
    then obtain t w1 where "open_tree e w = (Inr t, w1)" "readTreeManifest (disk w1) (rocks_dir e) = Inr m"
      "deploy (tree_for e spec m t) w1 = (Inr (rm, spec'), w2)"
      using prepare_deploy_steps by blast
    then show ?thesis using record_deployed_error[OF 2(2)] old Inl by auto
  qed
qed

section \<open>The tree as a set of rocks\<close>

definition rocks_in :: "manifest \<Rightarrow> (string \<times> string) set" where
  "rocks_in m = {(n, v). has_rock m n v}"

definition listed :: "installed_rock list \<Rightarrow> (string \<times> string) set" where
  "listed rs = (\<lambda>r. (inName r, inVersion r)) ` set rs"

lemma listed_rocks_of:
  assumes "tidy_manifest m"
  shows "listed (rocks_of m) = rocks_in m"
proof -
  have k: "keyed (keyed tidy_entry) (mfRepository m)" using assms by (simp add: tidy_manifest_def)
  have in_repo: "map_of (mget (mfRepository m) n []) v \<noteq> None \<longleftrightarrow> (\<exists>vs e. (n, vs) \<in> set (mfRepository m) \<and> (v, e) \<in> set vs)" for n v
  proof
    assume "map_of (mget (mfRepository m) n []) v \<noteq> None"
    then show "\<exists>vs e. (n, vs) \<in> set (mfRepository m) \<and> (v, e) \<in> set vs"
      by (auto simp: mget_def split: option.splits dest: map_of_SomeD)
  next
    assume "\<exists>vs e. (n, vs) \<in> set (mfRepository m) \<and> (v, e) \<in> set vs"
    then obtain vs e where ve: "(n, vs) \<in> set (mfRepository m)" "(v, e) \<in> set vs" by blast
    then have "map_of (mfRepository m) n = Some vs" using k by (simp add: keyed_def map_of_is_SomeI)
    then show "map_of (mget (mfRepository m) n []) v \<noteq> None" using weak_map_of_SomeI[OF ve(2)] by (auto simp: mget_def)
  qed
  have "listed (rocks_of m) = {(n, v). \<exists>vs e. (n, vs) \<in> set (mfRepository m) \<and> (v, e) \<in> set vs}"
    by (force simp: listed_def rocks_of_def image_iff)
  then show ?thesis unfolding rocks_in_def has_rock_def in_repo .
qed

lemma rocks_in_ordered: "tidy_manifest m \<Longrightarrow> rocks_in (ordered_manifest m) = rocks_in m"
  by (simp add: rocks_in_def has_rock_def ordered_repository(2))

lemma List_rocks_ok:
  assumes "List_rocks e w = (Inr rs, w')"
  shows "\<exists>t m. open_tree e w = (Inr t, w') \<and> readTreeManifest (disk w') (rocks_dir e) = Inr m \<and> rs = rocks_of m"
proof -
  obtain t w1 where t: "open_tree e w = (Inr t, w1)"
    and r: "(case ReadTree (disk w1) (rocks_dir e) of
       Inl er \<Rightarrow> (if er = ReadFailed ''no such file'' then ret [] else fail_io (StoreFailed er))
     | Inr m \<Rightarrow> ret (rocks_of m)) w1 = (Inr rs, w')"
    using assms unfolding List_rocks_def by (auto simp: bind_io_Inr get_eq)
  show ?thesis
  proof (cases "ReadTree (disk w1) (rocks_dir e)")
    case (Inl er)
    then have "er = ReadFailed ''no such file'' \<and> rs = [] \<and> w' = w1" using r by (simp add: ret_eq fail_io_eq split: if_splits)
    then show ?thesis using t Inl by (auto simp: readTreeManifest_def rocks_of_def empty_manifest_def)
  next
    case (Inr m)
    then show ?thesis using t r by (auto simp: readTreeManifest_def ret_eq)
  qed
qed

text \<open>A tree whose manifest survives the file format; the client keeps it so.\<close>

definition tidy_tree :: "'w engine \<Rightarrow> 'w net \<Rightarrow> bool" where
  "tidy_tree e w \<longleftrightarrow> (case readTreeManifest (disk w) (rocks_dir e) of Inl er \<Rightarrow> True | Inr m \<Rightarrow> tidy_manifest m)"

lemma written_tree:
  assumes "WriteTree (rocks_dir e) (Some m) s = (None, disk w)" and "tidy_manifest m"
  shows "tidy_tree e w" and "List_rocks e w = (Inr rs, w') \<Longrightarrow> listed rs = rocks_in m"
proof -
  have r: "ReadTree (disk w) (rocks_dir e) = Inr (ordered_manifest m)" by (rule WriteTree_read[OF assms])
  show "tidy_tree e w" using r tidy_ordered[OF assms(2)] by (simp add: tidy_tree_def readTreeManifest_def)
  assume "List_rocks e w = (Inr rs, w')"
  then obtain t m' where l: "open_tree e w = (Inr t, w')" "readTreeManifest (disk w') (rocks_dir e) = Inr m'" "rs = rocks_of m'"
    using List_rocks_ok by blast
  obtain c where c: "file_at (disk w) (manifest_file e) = Some c" using ReadTree_has_file[OF r] by blast
  have "ReadTree (disk w') (rocks_dir e) = ReadTree (disk w) (rocks_dir e)"
    by (rule ReadTree_same_file[OF c]) (simp add: open_tree_ok(3)[OF l(1)] c)
  then have "m' = ordered_manifest m" using l(2) r by (simp add: readTreeManifest_def)
  then show "listed rs = rocks_in m"
    using l(3) by (simp add: listed_rocks_of tidy_ordered rocks_in_ordered assms(2))
qed

text \<open>The two ways the client installs a rock: built from its sources, or already built.\<close>

definition install_from :: "bool \<Rightarrow> 'w engine \<Rightarrow> rockspec \<Rightarrow> string \<Rightarrow> ('w, unit) client_io" where
  "install_from binary e spec dir = (if binary then deployBinary e spec dir else deployFromSource e spec dir)"

text \<open>What such an installation has deployed and now records, starting in the given world.\<close>

definition installs :: "bool \<Rightarrow> 'w engine \<Rightarrow> rockspec \<Rightarrow> string \<Rightarrow> 'w net \<Rightarrow> manifest \<Rightarrow> rock_manifest \<Rightarrow> rockspec \<Rightarrow> bool" where
  "installs binary e spec dir w m rm spec' \<longleftrightarrow>
     (if binary then \<exists>s. binarySpec (disk w) spec dir = Inr s \<and> deployed e s (binary_deploy e s dir) m rm spec' w
      else deployed e spec (source_deploy e spec dir) m rm spec' w)"

lemma same_name_detected: "rPackage (detected s spec d) = rPackage spec \<and> rVersion (detected s spec d) = rVersion spec"
  by (cases "scan_root s d") (simp add: detected_def autodetectModules_def Let_def del: filter.simps)

lemma same_name_backend:
  "RunBackend h spec srcDir destDir cfg w = (Inr spec', w') \<Longrightarrow> rPackage spec' = rPackage spec \<and> rVersion spec' = rVersion spec"
  by (auto simp: RunBackend_def runBuiltin_def same_name_detected Let_def bind_io_Inr get_eq ret_eq fail_io_eq split: if_splits list.splits)

lemma same_name_source:
  "source_deploy e spec dir t w = (Inr (rm, spec'), w') \<Longrightarrow> rPackage spec' = rPackage spec \<and> rVersion spec' = rVersion spec"
  by (auto simp: source_deploy_def Let_def bind_io_Inr map_err_ok ret_eq dest: same_name_backend)

lemma same_name_binary:
  "binary_deploy e spec dir t w = (Inr (rm, spec'), w') \<Longrightarrow> spec' = spec"
  "binarySpec s spec dir = Inr spec' \<Longrightarrow> rPackage spec' = rPackage spec \<and> rVersion spec' = rVersion spec"
  by (auto simp: binary_deploy_def binarySpec_def Let_def bind_io_Inr ret_eq split: option.splits if_splits)

lemma install_from_ok:
  assumes "install_from binary e spec dir w = (Inr (), w')"
  shows "\<exists>m rm spec' s. installs binary e spec dir w m rm spec' \<and> rPackage spec' = rPackage spec \<and> rVersion spec' = rVersion spec \<and>
    WriteTree (rocks_dir e) (Some (record_rock spec' rm m)) s = (None, disk w')"
proof (cases binary)
  case True
  then obtain sp where sp: "binarySpec (disk w) spec dir = Inr sp" "deployRock e sp (binary_deploy e sp dir) w = (Inr (), w')"
    using assms by (auto simp: install_from_def deployBinary_def bind_io_Inr get_eq lift_err_eq dest!: sym[where s = "Inr _"])
  obtain m rm spec' s where d: "deployed e sp (binary_deploy e sp dir) m rm spec' w"
    "WriteTree (rocks_dir e) (Some (record_rock spec' rm m)) s = (None, disk w')"
    using deployRock_ok[OF sp(2)] by blast
  then have "spec' = sp" by (auto simp: deployed_def dest: same_name_binary(1))
  then show ?thesis using d sp(1) True same_name_binary(2)[OF sp(1)] unfolding installs_def by auto
next
  case False
  then obtain m rm spec' s where d: "deployed e spec (source_deploy e spec dir) m rm spec' w"
    "WriteTree (rocks_dir e) (Some (record_rock spec' rm m)) s = (None, disk w')"
    using assms deployRock_ok by (fastforce simp: install_from_def deployFromSource_def)
  then show ?thesis using False same_name_source unfolding installs_def deployed_def by fastforce
qed

text \<open>
  C8: Installing adds one rock: between two listings, a successful deployment of a rock, built from
  source or already built, adds its name and version to the set of installed rocks and changes nothing
  else in it, and the tree stays one whose manifest can be read. The tree before, and what is
  deployed, must have names that the file format can hold: no carriage return in the name, the
  version and the paths of the rock, and the like.
\<close>

theorem deploy_lists:
  assumes "List_rocks e w0 = (Inr rs, w)" and "tidy_tree e w"
    and "install_from binary e spec dir w = (Inr (), w1)"
    and "\<And>m rm spec'. installs binary e spec dir w m rm spec' \<Longrightarrow> tidy_rock spec' rm"
    and "List_rocks e w1 = (Inr rs', w2)"
  shows "listed rs' = insert (rPackage spec, rVersion spec) (listed rs) \<and> tidy_tree e w1"
proof -
  obtain t m where l: "open_tree e w0 = (Inr t, w)" "readTreeManifest (disk w) (rocks_dir e) = Inr m" "rs = rocks_of m"
    using List_rocks_ok[OF assms(1)] by blast
  obtain m' rm spec' s where d: "installs binary e spec dir w m' rm spec'"
    and sp: "rPackage spec' = rPackage spec" "rVersion spec' = rVersion spec"
    and wr: "WriteTree (rocks_dir e) (Some (record_rock spec' rm m')) s = (None, disk w1)"
    using install_from_ok[OF assms(3)] by blast
  have "m' = m" using d l(2) open_tree_ok(2)[OF l(1)] by (auto simp: installs_def deployed_def split: if_splits)
  have tm: "tidy_manifest m" using assms(2) l(2) by (simp add: tidy_tree_def)
  have tr: "tidy_manifest (record_rock spec' rm m)" by (rule tidy_record[OF tm assms(4)[OF d]])
  note w = written_tree[OF wr[unfolded \<open>m' = m\<close>] tr]
  have "listed rs' = rocks_in (record_rock spec' rm m)" by (rule w(2)[OF assms(5)])
  also have "\<dots> = insert (rPackage spec, rVersion spec) (rocks_in m)"
    by (auto simp: rocks_in_def installed_record sp)
  finally show ?thesis using l(3) listed_rocks_of[OF tm] w(1) by simp
qed

section \<open>Removing\<close>

lemma remove_version_ok: "remove_version e name v m w = (Inr m', w') \<Longrightarrow> m' = forget_version name v m"
  by (auto simp: bind_io_Inr remove_version_def ret_eq)

lemma each_remove:
  "each_io (remove_version e name) vs m w = (Inr m', w') \<Longrightarrow> m' = fold (forget_version name) vs m"
proof (induction vs arbitrary: m w)
  case (Cons v vs)
  then obtain m1 w1 where 1: "remove_version e name v m w = (Inr m1, w1)"
    and 2: "each_io (remove_version e name) vs m1 w1 = (Inr m', w')"
    unfolding each_io.simps bind_io_Inr by blast
  show ?case using remove_version_ok[OF 1] Cons.IH[OF 2] by simp
qed (simp add: ret_eq)

definition to_remove :: "string \<Rightarrow> string \<Rightarrow> manifest \<Rightarrow> string list" where
  "to_remove name version m = (if version \<noteq> [] then [version] else map fst (mget (mfRepository m) name []))"

definition removed :: "string \<Rightarrow> string \<Rightarrow> manifest \<Rightarrow> manifest" where
  "removed name version m = drop_if_gone name (fold (forget_version name) (to_remove name version m) m)"

lemma Remove_ok:
  assumes "Remove e name version w = (Inr u, w')"
  shows "\<exists>t w1 m s. open_tree e w = (Inr t, w1) \<and> readTreeManifest (disk w1) (rocks_dir e) = Inr m \<and>
    mget (mfRepository m) name [] \<noteq> [] \<and>
    WriteTree (rocks_dir e) (Some (removed name version m)) s = (None, disk w')"
proof -
  define go where "go = (\<lambda>m. bind_io (each_io (remove_version e name) (to_remove name version m) m)
    (\<lambda>m'. on_store (WriteTree (rocks_dir e) (Some (drop_if_gone name m')))))"
  obtain t w1 m where r: "open_tree e w = (Inr t, w1)" "readTreeManifest (disk w1) (rocks_dir e) = Inr m"
    "mget (mfRepository m) name [] \<noteq> []" "go m w1 = (Inr u, w')"
    using assms unfolding Remove_def Let_def go_def to_remove_def
    by (auto simp: bind_io_Inr[of "open_tree e"] bind_io_Inr[of "get f" for f] bind_io_Inr[of "lift_err f" for f] get_eq lift_err_eq
        fail_io_eq split: if_splits dest!: sym[where s = "Inr _"])
  obtain m' w2 s where 1: "each_io (remove_version e name) (to_remove name version m) m w1 = (Inr m', w2)"
    and 2: "WriteTree (rocks_dir e) (Some (drop_if_gone name m')) s = (None, disk w')"
    using r(4) unfolding go_def bind_io_Inr on_store_ok by auto
  show ?thesis using r(1-3) 2 each_remove[OF 1] unfolding removed_def by blast
qed

lemma has_rock_forgets:
  "has_rock (fold (forget_version name) vs m) n v \<longleftrightarrow> has_rock m n v \<and> (n = name \<longrightarrow> v \<notin> set vs)"
  by (induction vs arbitrary: m) (auto simp: installed_forget)

lemma has_rock_drop: "has_rock (drop_if_gone name m) n v \<longleftrightarrow> has_rock m n v"
  by (auto simp: drop_if_gone_def has_rock_def mget_mdel)

lemma rocks_in_removed: "rocks_in (removed name version m) = {r \<in> rocks_in m. \<not> (fst r = name \<and> (version = [] \<or> snd r = version))}"
proof -
  have "has_rock m name v \<Longrightarrow> v \<in> set (map fst (mget (mfRepository m) name []))" for v
    by (auto simp: has_rock_def map_of_eq_None_iff)
  then show ?thesis
    by (auto simp: rocks_in_def removed_def has_rock_drop has_rock_forgets to_remove_def)
qed

subsection \<open>The manifest stays tidy\<close>

lemma set_delete_sub: "set (mdel k m) \<subseteq> set m"
  by (auto simp: AList.delete_eq)

lemma keyed_mdel: "keyed P m \<Longrightarrow> keyed P (mdel k m)"
  by (auto simp: keyed_def intro: distinct_mdel dest!: subsetD[OF set_delete_sub])

lemma tidy_forget:
  assumes "tidy_manifest m" and "CR \<notin> set name"
  shows "tidy_manifest (forget_version name v m)"
proof -
  have k: "keyed tidy_providers (mfModules m)" "keyed tidy_providers (mfCommands m)"
    "keyed (keyed tidy_entry) (mfRepository m)" "keyed (keyed (list_all tidy_dep)) (mfDependencies m)"
    using assms(1) by (simp_all add: tidy_manifest_def)
  have rm: "keyed tidy_providers (removeProvider idx p)" if "keyed tidy_providers idx" for idx p
  proof -
    let ?g = "map (\<lambda>(i, xs). (i, filter (\<lambda>x. x \<noteq> p) xs)) idx"
    have "map fst ?g = map fst idx" by (induction idx) auto
    then have "distinct (map fst ?g)" using that by (simp only: keyed_def)
    then have "distinct (map fst (filter (\<lambda>(i, xs). xs \<noteq> []) ?g))" by (rule distinct_map_filter)
    then show ?thesis using that unfolding removeProvider_def keyed_def tidy_providers_def by auto
  qed
  have nil: "keyed tidy_entry []" "keyed (list_all tidy_dep) []" by (simp_all add: keyed_def)
  have dep: "keyed (keyed (list_all tidy_dep)) (case map_of (mfDependencies m) name of
      None \<Rightarrow> mfDependencies m | Some vers \<Rightarrow> mput name (mdel v vers) (mfDependencies m))"
  proof (cases "map_of (mfDependencies m) name")
    case (Some vers)
    then have "keyed (list_all tidy_dep) vers" using k(4) by (auto simp: keyed_def dest: map_of_SomeD)
    then show ?thesis using Some k(4) assms(2) by (simp add: keyed_mput keyed_mdel)
  qed (simp add: k(4))
  have "keyed (keyed tidy_entry) (mput name (mdel v (mget (mfRepository m) name [])) (mfRepository m))"
    by (rule keyed_mput[OF k(3) assms(2) keyed_mdel[OF keyed_mget[OF k(3) nil(1)]]])
  then show ?thesis using k dep rm by (simp add: tidy_manifest_def forget_version_def)
qed

lemma tidy_removed:
  assumes "tidy_manifest m" and "CR \<notin> set name"
  shows "tidy_manifest (removed name version m)"
proof -
  have "tidy_manifest (fold (forget_version name) vs m)" for vs
    using assms by (induction vs arbitrary: m) (simp_all add: tidy_forget)
  then show ?thesis by (auto simp: removed_def drop_if_gone_def tidy_manifest_def keyed_mdel)
qed

text \<open>
  C9: Removing takes away one version of a rock, or all of them, and nothing else: between two
  listings, a successful removal takes exactly those out of the set of installed rocks.
\<close>

theorem remove_lists:
  assumes "List_rocks e w0 = (Inr rs, w)" and "tidy_tree e w"
    and "Remove e name version w = (Inr (), w1)" and "List_rocks e w1 = (Inr rs', w2)"
  shows "listed rs' = {r \<in> listed rs. \<not> (fst r = name \<and> (version = [] \<or> snd r = version))} \<and> tidy_tree e w1"
proof -
  obtain t m where l: "open_tree e w0 = (Inr t, w)" "readTreeManifest (disk w) (rocks_dir e) = Inr m" "rs = rocks_of m"
    using List_rocks_ok[OF assms(1)] by blast
  obtain m' s where d: "readTreeManifest (disk w) (rocks_dir e) = Inr m'" "mget (mfRepository m') name [] \<noteq> []"
    and wr: "WriteTree (rocks_dir e) (Some (removed name version m')) s = (None, disk w1)"
    using Remove_ok[OF assms(3)] open_tree_ok(2)[OF l(1)] by auto
  have "m' = m" using d(1) l(2) by simp
  have tm: "tidy_manifest m" using assms(2) l(2) by (simp add: tidy_tree_def)
  have "(name, mget (mfRepository m) name []) \<in> set (mfRepository m)"
    using d(2) \<open>m' = m\<close> by (auto simp: mget_def split: option.splits dest: map_of_SomeD)
  then have "CR \<notin> set name" using tm by (auto simp: tidy_manifest_def keyed_def)
  then have tr: "tidy_manifest (removed name version m)" by (rule tidy_removed[OF tm])
  note w = written_tree[OF wr[unfolded \<open>m' = m\<close>] tr]
  have "listed rs' = rocks_in (removed name version m)" by (rule w(2)[OF assms(4)])
  then show ?thesis using l(3) listed_rocks_of[OF tm] w(1) by (simp add: rocks_in_removed)
qed

section \<open>Examples\<close>

definition demo_engine :: "unit engine" where
  "demo_engine = \<lparr>eCfg = demo_config, eNet = demo_ext, eFetchers = demo_fetchers, eHost = quiet_host,
     eRun = (\<lambda>s c. Inr s), eStd = [], eMd5 = (\<lambda>c. ''d''), eIsLua = (\<lambda>s p. False), eSprintv = (\<lambda>v. []),
     eZip = (\<lambda>es. []), eTemp = (\<lambda>dir pattern w. dir @ ''/tmp''), eShow = (\<lambda>er. []), eProbe = (\<lambda>path w. (Inl [], w))\<rparr>"

definition demo_tree :: "(string, node) gomap" where
  "demo_tree = map (\<lambda>d. (d, NDir)) [''/t'', ''/t/share'', ''/t/share/tarantool'', ''/t/share/tarantool/rocks'',
     ''/t/lib'', ''/t/lib/tarantool'', ''/t/bin'']"

definition demo_rock_dirs :: "(string, node) gomap" where
  "demo_rock_dirs = [(''/t/share/tarantool/rocks/a'', NDir), (''/t/share/tarantool/rocks/a/2-1'', NDir)]"

definition in_demo_tree :: "fs \<Rightarrow> bool" where
  "in_demo_tree s \<longleftrightarrow> (\<forall>q \<in> fst ` set demo_tree. map_of (nodes s) q = Some NDir)"

definition tree_net :: "(string, node) gomap \<Rightarrow> unit net" where
  "tree_net files = \<lparr>disk = \<lparr>nodes = demo_tree @ files, ticks = 0, faults = (\<lambda>n. None)\<rparr>, manifests = [], outside = ()\<rparr>"

definition src_rock :: rockspec where
  "src_rock = zero_rockspec\<lparr>rPackage := ''a'', rVersion := ''2-1'',
     rBuild := Build (zero_build_tbl\<lparr>bType := ''none'', bModules := [(''m'', zero_module\<lparr>mPath := ''m.lua''\<rparr>)]\<rparr>) []\<rparr>"

definition src_files :: "(string, node) gomap" where
  "src_files = [(''/s'', NDir), (''/s/m.lua'', NFile ''return 1'' 420)]"

definition src_deployed :: rock_manifest where
  "src_deployed = empty_rock_manifest\<lparr>rmLua := [(''m.lua'', ''d'')]\<rparr>"

definition src_manifest :: manifest where
  "src_manifest = record_rock src_rock src_deployed empty_manifest"

definition src_world :: "unit net" where
  "src_world = \<lparr>disk = \<lparr>nodes = demo_tree @ src_files @ demo_rock_dirs @ [(''/t/share/tarantool/rocks/a/2-1/build'', NDir),
       (''/t/share/tarantool/m.lua'', NFile ''return 1'' 420)], ticks = 6, faults = (\<lambda>n. None)\<rparr>, manifests = [], outside = ()\<rparr>"

lemma demo_paths:
  "rocks_dir demo_engine = ''/t/share/tarantool/rocks''"
  "manifest_path ''/t/share/tarantool/rocks'' = ''/t/share/tarantool/rocks/manifest''"
  "rock_manifest_file demo_engine src_rock = ''/t/share/tarantool/rocks/a/2-1/rock_manifest''"
  by code_simp+

lemma demo_open:
  assumes "in_demo_tree (disk w)"
  shows "open_tree demo_engine w = (Inr \<lparr>tTree = ''/t'', tBinWrap = None, tProvider = None\<rparr>, w)"
proof -
  let ?ds = "[RocksDir ''/t'', DeployLuaDir ''/t'', DeployLibDir ''/t'', BinDir ''/t'']"
  have "\<forall>d \<in> set ?ds. set (path_chain d) \<subseteq> fst ` set demo_tree" by code_simp
  then have "mkdir_each ?ds (disk w) = (None, disk w)" using assms unfolding in_demo_tree_def by (intro mkdir_each_again) blast
  moreover have "cfgTree (eCfg demo_engine) = ''/t''" by (simp add: demo_engine_def demo_config_def)
  ultimately show ?thesis
    by (simp add: open_tree_def on_tree_def on_disk_def map_err_def Open_def del: mkdir_each.simps)
qed

lemma demo_ready:
  assumes "\<forall>n. faults s n = None" and "in_demo_tree s"
    and "map_of (nodes s) p \<noteq> Some NDir" "map_of (nodes s) (p @ ''.tmp'') \<noteq> Some NDir"
    and "p = ''/t/share/tarantool/rocks/manifest'' \<or>
      p = ''/t/share/tarantool/rocks/a/2-1/rock_manifest'' \<and> (\<forall>q \<in> fst ` set demo_rock_dirs. map_of (nodes s) q = Some NDir)"
  shows "ready s p"
  using assms(5)
proof
  assume p: "p = ''/t/share/tarantool/rocks/manifest''"
  have "path_dir (p @ ''.tmp'') \<in> fst ` set demo_tree \<and> set (path_chain (path_dir p)) \<subseteq> fst ` set demo_tree"
    unfolding p by code_simp
  then show ?thesis using assms(1-4) unfolding ready_def is_dir_def in_demo_tree_def by blast
next
  assume p: "p = ''/t/share/tarantool/rocks/a/2-1/rock_manifest'' \<and> (\<forall>q \<in> fst ` set demo_rock_dirs. map_of (nodes s) q = Some NDir)"
  have "path_dir (''/t/share/tarantool/rocks/a/2-1/rock_manifest'' @ ''.tmp'') \<in> fst ` set (demo_tree @ demo_rock_dirs) \<and>
      set (path_chain (path_dir ''/t/share/tarantool/rocks/a/2-1/rock_manifest'')) \<subseteq> fst ` set (demo_tree @ demo_rock_dirs)"
    by code_simp
  moreover have "\<forall>q \<in> fst ` set (demo_tree @ demo_rock_dirs). map_of (nodes s) q = Some NDir"
    using assms(2) p by (auto simp: in_demo_tree_def)
  ultimately show ?thesis using assms(1,3,4) p unfolding ready_def is_dir_def by blast
qed

lemma demo_source:
  "source_deploy demo_engine src_rock ''/s'' (tree_for demo_engine src_rock empty_manifest \<lparr>tTree = ''/t'', tBinWrap = None, tProvider = None\<rparr>)
     (tree_net src_files) = (Inr (src_deployed, src_rock), src_world)"
proof -
  have "P (source_deploy demo_engine src_rock ''/s'' (tree_for demo_engine src_rock empty_manifest \<lparr>tTree = ''/t'', tBinWrap = None, tProvider = None\<rparr>)
     (tree_net src_files)) \<longrightarrow> P (Inr (src_deployed, src_rock), src_world)" for P :: "(client_error + rock_manifest \<times> rockspec) \<times> unit net \<Rightarrow> bool"
    by code_simp (rule impI)
  from this[of "\<lambda>x. x = source_deploy demo_engine src_rock ''/s'' (tree_for demo_engine src_rock empty_manifest \<lparr>tTree = ''/t'', tBinWrap = None, tProvider = None\<rparr>)
     (tree_net src_files)"] show ?thesis by simp
qed

lemma demo_List:
  assumes "in_demo_tree (disk w)"
    and "readTreeManifest (disk w) (rocks_dir demo_engine) = Inr m"
  shows "List_rocks demo_engine w = (Inr (rocks_of m), w)"
proof -
  have "ReadTree (disk w) (rocks_dir demo_engine) = Inr m \<or>
      ReadTree (disk w) (rocks_dir demo_engine) = Inl (ReadFailed ''no such file'') \<and> m = empty_manifest"
    using assms(2) by (auto simp: readTreeManifest_def split: sum.splits if_splits)
  then show ?thesis
    by (auto simp: List_rocks_def bind_io_def demo_open[OF assms(1)] get_def ret_def rocks_of_def empty_manifest_def)
qed

lemma demo_empty: "readTreeManifest (disk (tree_net src_files)) (rocks_dir demo_engine) = Inr empty_manifest"
  by (simp add: readTreeManifest_def ReadTree_def demo_paths os_read_def tree_net_def demo_tree_def src_files_def)

lemma demo_installs:
  "deployed demo_engine src_rock (source_deploy demo_engine src_rock ''/s'') m rm spec' (tree_net src_files) \<Longrightarrow>
     m = empty_manifest \<and> rm = src_deployed \<and> spec' = src_rock"
proof -
  have t: "in_demo_tree (disk (tree_net src_files))" by (auto simp: tree_net_def demo_tree_def in_demo_tree_def)
  assume "deployed demo_engine src_rock (source_deploy demo_engine src_rock ''/s'') m rm spec' (tree_net src_files)"
  then show ?thesis by (auto simp: deployed_def demo_open[OF t] demo_empty demo_source)
qed

lemma demo_tidy: "tidy_manifest empty_manifest" "tidy_rock src_rock src_deployed" "tidy_manifest src_manifest"
proof -
  show e: "tidy_manifest empty_manifest" by (simp add: tidy_manifest_def empty_manifest_def keyed_def)
  show r: "tidy_rock src_rock src_deployed" by code_simp
  show "tidy_manifest src_manifest" unfolding src_manifest_def by (rule tidy_record[OF e r])
qed

lemma demo_deployment:
  "\<exists>s. deployFromSource demo_engine src_rock ''/s'' (tree_net src_files) = (Inr (), (tree_net src_files)\<lparr>disk := s\<rparr>) \<and>
     (in_demo_tree s) \<and>
     readTreeManifest s (rocks_dir demo_engine) = Inr (ordered_manifest src_manifest)"
proof -
  let ?w = "tree_net src_files"
  let ?rm = "''/t/share/tarantool/rocks/a/2-1/rock_manifest''" and ?mf = "''/t/share/tarantool/rocks/manifest''"
  have t: "in_demo_tree (disk ?w)" by (auto simp: tree_net_def demo_tree_def in_demo_tree_def)
  have n: "\<forall>n. faults (disk src_world) n = None" "in_demo_tree (disk src_world)"
    by (auto simp: src_world_def demo_tree_def in_demo_tree_def)
  have no: "map_of (nodes (disk src_world)) p = None" if "p \<in> {?rm, ?rm @ ''.tmp'', ?mf, ?mf @ ''.tmp''}" for p
    using that by (auto simp: src_world_def src_files_def demo_tree_def demo_rock_dirs_def)
  have dirs: "\<forall>q \<in> fst ` set demo_rock_dirs. map_of (nodes (disk src_world)) q = Some NDir"
    by (simp add: src_world_def src_files_def demo_tree_def demo_rock_dirs_def)
  have platforms: "checkSupportedPlatforms src_rock ps = None" for ps
    by (simp add: checkSupportedPlatforms_def src_rock_def zero_rockspec_def)
  have "ready (disk src_world) ?rm" by (rule demo_ready[OF n]) (simp_all add: no dirs)
  then obtain s1 where s1: "WriteRock ?rm (Some src_deployed) (disk src_world) = (None, s1)" "\<forall>n. faults s1 n = None"
    "\<forall>q. q \<noteq> ?rm \<and> q \<noteq> ?rm @ ''.tmp'' \<longrightarrow> map_of (nodes s1) q = map_of (nodes (disk src_world)) q"
    using quiet_WriteRock by blast
  have d1: "in_demo_tree s1"
    using n(2) by (auto simp: demo_tree_def in_demo_tree_def s1(3)[rule_format])
  have "ready s1 (manifest_path ''/t/share/tarantool/rocks'')"
    unfolding demo_paths by (rule demo_ready[OF s1(2) d1]) (simp_all add: s1(3)[rule_format] no)
  from quiet_WriteTree[OF this, of src_manifest] obtain s2 where
    s2: "WriteTree ''/t/share/tarantool/rocks'' (Some src_manifest) s1 = (None, s2)"
    "\<forall>q. q \<noteq> ?mf \<and> q \<noteq> ?mf @ ''.tmp'' \<longrightarrow> map_of (nodes s2) q = map_of (nodes s1) q"
    unfolding demo_paths by blast
  have r2: "readTreeManifest s2 (rocks_dir demo_engine) = Inr (ordered_manifest src_manifest)"
    using WriteTree_read[OF s2(1) demo_tidy(3)] by (simp add: readTreeManifest_def demo_paths)
  have d2: "in_demo_tree s2"
    using d1 by (auto simp: demo_tree_def in_demo_tree_def s2(2)[rule_format])
  have p: "prepare_deploy demo_engine src_rock (source_deploy demo_engine src_rock ''/s'') ?w = (Inr (empty_manifest, src_deployed, src_rock), src_world)"
    by (simp add: prepare_deploy_def bind_io_def lift_client_def platforms ret_def demo_open[OF t] get_def lift_err_def demo_empty demo_source)
  have "src_world\<lparr>disk := s2\<rparr> = ?w\<lparr>disk := s2\<rparr>" by (simp add: src_world_def tree_net_def)
  then have "deployFromSource demo_engine src_rock ''/s'' ?w = (Inr (), ?w\<lparr>disk := s2\<rparr>)"
    using s1(1) s2(1)
    by (simp add: deployFromSource_def deployRock_def bind_io_def[of "prepare_deploy e sp d" for e sp d] p)
      (simp add: record_deployed_def bind_io_def on_store_def on_disk_def demo_paths src_manifest_def[symmetric])
  then show ?thesis using r2 d2 by blast
qed

theorem deploy_lists_witness:
  "\<exists>w1 rs' w2. deployFromSource demo_engine src_rock ''/s'' (tree_net src_files) = (Inr (), w1) \<and>
     List_rocks demo_engine w1 = (Inr rs', w2) \<and> listed rs' = {(''a'', ''2-1'')}"
proof -
  let ?w = "tree_net src_files"
  have t: "in_demo_tree (disk ?w)" by (auto simp: tree_net_def demo_tree_def in_demo_tree_def)
  have l: "List_rocks demo_engine ?w = (Inr [], ?w)" using demo_List[OF t demo_empty] by (simp add: rocks_of_def empty_manifest_def)
  have tidy: "tidy_tree demo_engine ?w" by (simp add: tidy_tree_def demo_empty demo_tidy)
  obtain s where d: "deployFromSource demo_engine src_rock ''/s'' ?w = (Inr (), ?w\<lparr>disk := s\<rparr>)"
    and s: "in_demo_tree s" "readTreeManifest s (rocks_dir demo_engine) = Inr (ordered_manifest src_manifest)"
    using demo_deployment by blast
  have l2: "List_rocks demo_engine (?w\<lparr>disk := s\<rparr>) = (Inr (rocks_of (ordered_manifest src_manifest)), ?w\<lparr>disk := s\<rparr>)"
    by (rule demo_List) (simp_all add: s)
  have i: "install_from False demo_engine src_rock ''/s'' ?w = (Inr (), ?w\<lparr>disk := s\<rparr>)" by (simp add: install_from_def d)
  have h: "installs False demo_engine src_rock ''/s'' ?w m rm spec' \<Longrightarrow> tidy_rock spec' rm" for m rm spec'
    using demo_installs demo_tidy(2) by (auto simp: installs_def)
  have "listed (rocks_of (ordered_manifest src_manifest)) = {(''a'', ''2-1'')}"
    using deploy_lists[OF l tidy i h l2] by (simp add: listed_def src_rock_def)
  then show ?thesis using d l2 by blast
qed

theorem deploy_transaction_witness:
  "case deployFromSource demo_engine src_rock ''/s'' (tree_net src_files) of
     (Inl er, w) \<Rightarrow> False
   | (Inr u, w) \<Rightarrow> ReadTree (disk w) (rocks_dir demo_engine) = Inr (ordered_manifest src_manifest)"
proof -
  obtain s where d: "deployFromSource demo_engine src_rock ''/s'' (tree_net src_files) = (Inr (), (tree_net src_files)\<lparr>disk := s\<rparr>)"
    using demo_deployment by blast
  obtain m rm spec' where x: "deployed demo_engine src_rock (source_deploy demo_engine src_rock ''/s'') m rm spec' (tree_net src_files)"
    "tidy_manifest m \<and> tidy_rock spec' rm \<longrightarrow> ReadTree s (rocks_dir demo_engine) = Inr (ordered_manifest (record_rock spec' rm m))"
    using deploy_transaction[OF d[unfolded deployFromSource_def]] by auto
  then have "ReadTree s (rocks_dir demo_engine) = Inr (ordered_manifest src_manifest)"
    using demo_installs[OF x(1)] demo_tidy by (simp add: src_manifest_def)
  then show ?thesis using d by simp
qed

definition demo_text :: string where
  "demo_text = ''repository={a={['' @ [CHR 0x22] @ ''2-1'' @ [CHR 0x22] @ '']={{arch='' @ [CHR 0x22] @ ''installed'' @ [CHR 0x22] @ ''}}}}''"

definition demo_manifest_a :: manifest where
  "demo_manifest_a = empty_manifest\<lparr>mfRepository := [(''a'', [(''2-1'', \<lparr>eArch = ''installed'', eModules = [], eCommands = [], eDependencies = []\<rparr>)])]\<rparr>"

definition demo_installed :: "unit net" where
  "demo_installed = tree_net (demo_rock_dirs @ [(''/t/share/tarantool/rocks/manifest'', NFile demo_text 420)])"

lemma demo_read: "readTreeManifest (disk demo_installed) (rocks_dir demo_engine) = Inr demo_manifest_a"
proof -
  have f: "os_read (disk demo_installed) ''/t/share/tarantool/rocks/manifest'' = Inr demo_text"
    by (simp add: os_read_def demo_installed_def tree_net_def demo_tree_def demo_rock_dirs_def)
  have "(case Parse demo_text of Inl pe \<Rightarrow> None | Inr v \<Rightarrow> (case as_map v of None \<Rightarrow> None | Some tm \<Rightarrow>
      (case manifestFromTable tm of Inl er \<Rightarrow> None | Inr m \<Rightarrow> Some m))) = Some demo_manifest_a"
    by code_simp
  then have "ReadTree (disk demo_installed) (rocks_dir demo_engine) = Inr demo_manifest_a"
    by (auto simp: ReadTree_def demo_paths f split: sum.splits option.splits)
  then show ?thesis by (simp add: readTreeManifest_def)
qed

lemma demo_delete:
  "\<exists>s. DeleteVersion sprintv ''/t'' ''a'' ''2-1'' (disk demo_installed) = (None, s) \<and> (\<forall>n. faults s n = None) \<and>
     nodes s = demo_tree @ [(''/t/share/tarantool/rocks/manifest'', NFile demo_text 420)]"
proof -
  have p: "InstallDir ''/t'' ''a'' ''2-1'' = ''/t/share/tarantool/rocks/a/2-1''"
    "path_join [''/t/share/tarantool/rocks/a/2-1'', ''rock_manifest''] = ''/t/share/tarantool/rocks/a/2-1/rock_manifest''"
    "path_join [RocksDir ''/t'', ''a''] = ''/t/share/tarantool/rocks/a''"
    by code_simp+
  let ?n = "nodes (disk demo_installed)" and ?d = "''/t/share/tarantool/rocks/a/2-1''"
  have doomed: "filter (\<lambda>q. q = ?d \<or> below ?d q) (map fst ?n) = [?d]" by code_simp
  define s1 where "s1 = (disk demo_installed)\<lparr>ticks := 1, nodes := filter (\<lambda>x. fst x \<notin> set [?d]) ?n\<rparr>"
  have r: "os_remove_all ?d (disk demo_installed) = (None, s1)"
    unfolding os_remove_all_def doomed by (simp add: tick_def demo_installed_def tree_net_def s1_def)
  have n1: "nodes s1 = demo_tree @ [(''/t/share/tarantool/rocks/a'', NDir), (''/t/share/tarantool/rocks/manifest'', NFile demo_text 420)]"
    by (simp add: s1_def demo_installed_def tree_net_def demo_tree_def demo_rock_dirs_def)
  have e: "os_read_dir s1 ''/t/share/tarantool/rocks/a'' = Some []"
    "\<not> list_ex (\<lambda>q. q \<noteq> ''/t/share/tarantool/rocks/a'' \<and> path_dir q = ''/t/share/tarantool/rocks/a'') (map fst (nodes s1))"
    unfolding os_read_dir_def n1 is_dir_def by code_simp+
  have "ReadRock sprintv (disk demo_installed) ''/t/share/tarantool/rocks/a/2-1/rock_manifest'' = Inl (ReadFailed ''no such file'')"
    by (simp add: ReadRock_def os_read_def demo_installed_def tree_net_def demo_tree_def demo_rock_dirs_def)
  moreover have "snd (os_remove ''/t/share/tarantool/rocks/a'' s1) = s1\<lparr>ticks := 2, nodes := mdel ''/t/share/tarantool/rocks/a'' (nodes s1)\<rparr>"
    using e(2) by (simp add: os_remove_def tick_def s1_def demo_installed_def tree_net_def demo_tree_def demo_rock_dirs_def)
  ultimately show ?thesis
    by (simp add: DeleteVersion_def p r e(1) n1 demo_tree_def) (simp add: s1_def demo_installed_def tree_net_def)
qed

theorem remove_lists_witness:
  "\<exists>w1 w2. Remove demo_engine ''a'' [] demo_installed = (Inr (), w1) \<and> List_rocks demo_engine w1 = (Inr [], w2)"
proof -
  let ?mf = "''/t/share/tarantool/rocks/manifest''"
  have t: "in_demo_tree (disk demo_installed)" by (auto simp: demo_installed_def tree_net_def demo_tree_def in_demo_tree_def)
  have tm: "tidy_manifest demo_manifest_a" by code_simp
  have tidy: "tidy_tree demo_engine demo_installed" by (simp add: tidy_tree_def demo_read tm)
  have l: "List_rocks demo_engine demo_installed = (Inr (rocks_of demo_manifest_a), demo_installed)" by (rule demo_List[OF t demo_read])
  have rocks: "rocks_of demo_manifest_a = [\<lparr>inName = ''a'', inVersion = ''2-1''\<rparr>]" by code_simp
  obtain s1 where s1: "DeleteVersion (eSprintv demo_engine) ''/t'' ''a'' ''2-1'' (disk demo_installed) = (None, s1)"
    "\<forall>n. faults s1 n = None" "nodes s1 = demo_tree @ [(?mf, NFile demo_text 420)]"
    using demo_delete by blast
  have "ready s1 (manifest_path ''/t/share/tarantool/rocks'')"
    unfolding demo_paths by (rule demo_ready[OF s1(2)]) (auto simp: s1(3) in_demo_tree_def demo_tree_def)
  from quiet_WriteTree[OF this, of "removed ''a'' [] demo_manifest_a"] obtain s2 where
    s2: "WriteTree ''/t/share/tarantool/rocks'' (Some (removed ''a'' [] demo_manifest_a)) s1 = (None, s2)"
    "\<forall>q. q \<noteq> ?mf \<and> q \<noteq> ?mf @ ''.tmp'' \<longrightarrow> map_of (nodes s2) q = map_of (nodes s1) q"
    unfolding demo_paths by blast
  let ?w = "demo_installed\<lparr>disk := s2\<rparr>"
  have t2: "in_demo_tree (disk ?w)" by (auto simp: in_demo_tree_def demo_tree_def s2(2)[rule_format] s1(3))
  have "tidy_manifest (removed ''a'' [] demo_manifest_a)" by (rule tidy_removed[OF tm]) simp
  then have r2: "readTreeManifest (disk ?w) (rocks_dir demo_engine) = Inr (ordered_manifest (removed ''a'' [] demo_manifest_a))"
    using WriteTree_read[OF s2(1)] by (simp add: readTreeManifest_def demo_paths)
  have cfg: "cfgTree (eCfg demo_engine) = ''/t''" by (simp add: demo_engine_def demo_config_def)
  have m: "mget (mfRepository demo_manifest_a) ''a'' [] = [(''2-1'', \<lparr>eArch = ''installed'', eModules = [], eCommands = [], eDependencies = []\<rparr>)]"
    by (simp add: demo_manifest_a_def mget_def)
  have f: "removed ''a'' [] demo_manifest_a = drop_if_gone ''a'' (forget_version ''a'' ''2-1'' demo_manifest_a)"
    by (simp add: removed_def to_remove_def m)
  have R: "Remove demo_engine ''a'' [] demo_installed = (Inr (), ?w)"
    using s1(1) s2(1)
    by (simp add: Remove_def bind_io_def demo_open[OF t] get_def lift_err_def demo_read[unfolded demo_paths(1)] m remove_version_def cfg on_disk_def ret_def
        on_store_def f demo_paths)
  have L: "List_rocks demo_engine ?w = (Inr (rocks_of (ordered_manifest (removed ''a'' [] demo_manifest_a))), ?w)"
    by (rule demo_List[OF t2 r2])
  have "listed (rocks_of (ordered_manifest (removed ''a'' [] demo_manifest_a))) = {}"
    using remove_lists[OF l tidy R L] by (simp add: listed_def rocks)
  then show ?thesis using R L by (auto simp: listed_def)
qed

end
