(* ===== verification/InstallOrder.thy ===== *)
theory InstallOrder
  imports Install InstalledRocks
begin

text \<open>
  The order in which a rock and its dependencies are installed: what the plan of the resolver
  promises when it is asked through the client's index, its fetcher and the manifest of the tree,
  and that \<open>Install\<close> works through that plan before it installs the rock itself.
\<close>

definition plan_conf :: "'w engine \<Rightarrow> string \<Rightarrow> manifest option \<Rightarrow> 'w session rconf" where
  "plan_conf e tmpRoot m = new_conf (session_index e) ([WithSpecFetcher (spec_fetcher e tmpRoot)] @ provided_option e @
     (case m of None \<Rightarrow> [] | Some m \<Rightarrow> [WithInstalled (installed_versions m)]))"

text \<open>What the tree holds when the plan is made; a tree that cannot be read counts as unknown.\<close>

definition tree_known :: "'w engine \<Rightarrow> 'w net \<Rightarrow> manifest option" where
  "tree_known e w = (case open_tree e w of
     (Inl er, w') \<Rightarrow> None
   | (Inr t, w') \<Rightarrow> (case readTreeManifest (disk w') (rocks_dir e) of Inl er \<Rightarrow> None | Inr m \<Rightarrow> Some m))"

lemma installedLookup_known:
  "(case fst (installedLookup e w) of Inl er \<Rightarrow> None | Inr look \<Rightarrow> Some look) = map_option installed_versions (tree_known e w)"
  by (auto simp: installedLookup_def tree_known_def bind_io_def get_def lift_err_def ret_def split: prod.split sum.split)

lemma resolvePlan_in_order:
  assumes "resolvePlan k e tmpRoot rootSpec s = (Inr plan, s')"
  shows "installs_in_order (plan_conf e tmpRoot (tree_known e (ssNet s))) rootSpec plan"
proof -
  obtain look w1 where l: "installedLookup e (ssNet s) = (look, w1)" by (cases "installedLookup e (ssNet s)")
  define opts where "opts = [WithSpecFetcher (spec_fetcher e tmpRoot)] @ provided_option e @
    (case look of Inl er \<Rightarrow> [] | Inr lookup \<Rightarrow> [WithInstalled lookup])"
  have "map_err ResolveFailed (Resolve k (session_ctx e) (Some rootSpec) (session_index e) opts) (s\<lparr>ssNet := w1\<rparr>) = (Inr plan, s')"
    using assms by (simp add: resolvePlan_def on_net_def l opts_def)
  then have "fst (Resolve k (session_ctx e) (Some rootSpec) (session_index e) opts (s\<lparr>ssNet := w1\<rparr>)) = Inr plan"
    by (simp add: map_err_ok)
  then have "installs_in_order (new_conf (session_index e) opts) rootSpec plan"
    by (rule resolved_in_order[OF session.remote_index_axioms])
  moreover have "new_conf (session_index e) opts = plan_conf e tmpRoot (tree_known e (ssNet s))"
    using installedLookup_known[of e "ssNet s"]
    by (auto simp: l plan_conf_def opts_def split: sum.splits option.splits)
  ultimately show ?thesis by simp
qed

text \<open>
  C5: The plan of an installation is an order in which the rocks can be installed into this tree:
  no rock twice, none that the interpreter provides, and each dependency of each rock satisfied by
  the interpreter, by a version the manifest of the tree lists, or by a rock earlier in the plan.
\<close>

theorem resolvePlan_order:
  assumes "resolvePlan k e tmpRoot rootSpec s = (Inr plan, s')"
  shows "installs_in_order (plan_conf e tmpRoot (tree_known e (ssNet s))) rootSpec plan"
  by (rule resolvePlan_in_order[OF assms])

section \<open>Working through the plan\<close>

fun executed :: "'w engine \<Rightarrow> string \<Rightarrow> install_step list \<Rightarrow> 'w session \<Rightarrow> 'w session \<Rightarrow> bool" where
  "executed e tmpRoot [] s s' \<longleftrightarrow> s' = s"
| "executed e tmpRoot (st # sts) s s' \<longleftrightarrow>
     (\<exists>s1. installStep e tmpRoot st () s = (Inr (), s1) \<and> executed e tmpRoot sts s1 s')"

lemma each_executed:
  "each_io (\<lambda>st u. map_err (Within (isName st)) (installStep e tmpRoot st u)) plan () s = (Inr u, s') \<Longrightarrow> executed e tmpRoot plan s s'"
proof (induction plan arbitrary: s)
  case (Cons st sts)
  then obtain s1 where 1: "map_err (Within (isName st)) (installStep e tmpRoot st ()) s = (Inr (), s1)"
    and 2: "each_io (\<lambda>st u. map_err (Within (isName st)) (installStep e tmpRoot st u)) sts () s1 = (Inr u, s')"
    unfolding each_io.simps bind_io_Inr by auto
  then show ?case using Cons.IH[OF 2] by (auto simp: map_err_ok)
qed (simp add: ret_eq)

lemma install_chosen_ok:
  assumes "install_chosen k e policy url tmpRoot s = (Inr u, s')"
  shows "\<exists>rootSpec plan s0 s1 s2. fetchAndEval e tmpRoot url s = (Inr rootSpec, s0) \<and>
    (if policy = DepsNone then plan = [] \<and> s1 = s0 else resolvePlan k e tmpRoot rootSpec s0 = (Inr plan, s1)) \<and>
    executed e tmpRoot plan s1 s2 \<and> installArtifact e tmpRoot url rootSpec s2 = (Inr (), s')"
proof -
  obtain rootSpec s0 plan s1 s2 where "fetchAndEval e tmpRoot url s = (Inr rootSpec, s0)"
    "(if policy \<noteq> DepsNone then resolvePlan k e tmpRoot rootSpec else ret []) s0 = (Inr plan, s1)"
    "each_io (\<lambda>st u. map_err (Within (isName st)) (installStep e tmpRoot st u)) plan () s1 = (Inr (), s2)"
    "installArtifact e tmpRoot url rootSpec s2 = (Inr (), s')"
    using assms unfolding install_chosen_def bind_io_Inr by auto
  moreover from this(2) have "if policy = DepsNone then plan = [] \<and> s1 = s0 else resolvePlan k e tmpRoot rootSpec s0 = (Inr plan, s1)"
    by (simp add: ret_eq split: if_splits)
  ultimately show ?thesis using each_executed by blast
qed

text \<open>
  Without dependencies to resolve the rock is installed at once: nothing checks that what it needs
  is there.
\<close>

lemma no_deps_unchecked:
  "install_chosen k e DepsNone url tmpRoot =
     bind_io (fetchAndEval e tmpRoot url) (installArtifact e tmpRoot url)"
  by (rule ext) (auto simp: install_chosen_def bind_io_def ret_def split: prod.split sum.split)

section \<open>A small plan\<close>

text \<open>An interpreter that runs every rockspec to the same fields, and a rock that was fetched before.\<close>

definition plan_vm :: "lua_state \<Rightarrow> string \<Rightarrow> string + lua_state" where
  "plan_vm l src = Inr (l\<lparr>lGlobals := (LuaStr ''package'', LuaStr ''a'') # (LuaStr ''version'', LuaStr ''1.0-1'') #
     (LuaStr ''source'', LuaTable 0 [(LuaStr ''url'', LuaStr ''http://s/a.zip'')]) #
     (LuaStr ''build'', LuaTable 0 [(LuaStr ''type'', LuaStr ''none'')]) # lGlobals l\<rparr>)"

definition plan_engine :: "unit engine" where
  "plan_engine = demo_engine\<lparr>eRun := plan_vm, eStd := [(LuaStr ''os'', LuaOther ''table'')]\<rparr>"

definition plan_session :: "unit session" where
  "plan_session = \<lparr>ssNet = tree_net [(''/w'', NDir), (''/w/a'', NDir), (''/w/a/a-1.0-1.rockspec'', NFile ''package'' 420)],
     ssIndex = serverIndex plan_engine [''http://s''], ssLuajit = None, ssDirs = [(''http://s/a-1.0-1.all.rock'', ''/w/a'')]\<rparr>"

theorem resolvePlan_order_witness:
  "case fst (resolvePlan 2 plan_engine ''/w'' (spec_needing [''a'']) plan_session) of
     Inr steps \<Rightarrow> map isName steps = [''a''] \<and>
       installs_in_order (plan_conf plan_engine ''/w'' (tree_known plan_engine (ssNet plan_session))) (spec_needing [''a'']) steps
   | Inl er \<Rightarrow> False"
proof -
  have "case fst (resolvePlan 2 plan_engine ''/w'' (spec_needing [''a'']) plan_session) of
      Inr steps \<Rightarrow> map isName steps = [''a''] | Inl er \<Rightarrow> False"
    by code_simp
  then obtain steps s where "resolvePlan 2 plan_engine ''/w'' (spec_needing [''a'']) plan_session = (Inr steps, s)"
    "map isName steps = [''a'']"
    by (cases "resolvePlan 2 plan_engine ''/w'' (spec_needing [''a'']) plan_session") (auto split: sum.splits)
  then show ?thesis using resolvePlan_order[of 2 plan_engine "''/w''" "spec_needing [''a'']" plan_session] by simp
qed

end
