(* ===== verification/Facade.thy ===== *)
theory Facade
  imports LuaQuoting InstallOrder
begin

text \<open>
  The client that callers see: \<open>Rocks\<close> of \<open>src/client/client.go\<close> with the choice of the backend of
  \<open>src/client/engine.go\<close>. A write goes to the chosen engine; a read goes to the store whatever the
  engine. Both engines are there, as the constructor makes them.
\<close>

datatype backend = BackendNative | BackendLua

datatype facade_error =
    NativeError client_error
  | LuaError lua_error
  | ConfigWithoutTree

record 'w rocks_client =
  rcBackend :: backend
  rcNative :: "'w engine"
  rcLua :: "'w lua_engine"

type_synonym ('w, 'a) facade_io = "'w session \<Rightarrow> (facade_error + 'a) \<times> 'w session"

text \<open>\<open>New\<close>: the configuration must name a tree; everything else is taken as it is.\<close>

definition New :: "'w engine \<Rightarrow> 'w lua_engine \<Rightarrow> backend option \<Rightarrow> 'w net \<Rightarrow> facade_error + 'w rocks_client \<times> 'w session" where
  "New e l chosen_backend w =
     (if cfgTree (eCfg e) = [] then Inl ConfigWithoutTree
      else Inr (\<lparr>rcBackend = (case chosen_backend of Some b \<Rightarrow> b | None \<Rightarrow> BackendNative), rcNative = e, rcLua = l\<lparr>lgCfg := eCfg e\<rparr>\<rparr>,
        \<lparr>ssNet = w, ssIndex = serverIndex e (cfgServers (eCfg e)), ssLuajit = None, ssDirs = []\<rparr>))"

definition by_lua :: "('w, 'a) lua_io \<Rightarrow> ('w, 'a) facade_io" where
  "by_lua m s = (let (r, w) = m (ssNet s) in (map_sum LuaError id r, s\<lparr>ssNet := w\<rparr>))"

definition by_native :: "('w, 'a) session_io \<Rightarrow> ('w, 'a) facade_io" where
  "by_native m = map_err NativeError m"

definition by_engine :: "'w rocks_client \<Rightarrow> ('w engine \<Rightarrow> ('w, 'a) session_io) \<Rightarrow> ('w lua_engine \<Rightarrow> ('w, 'a) lua_io) \<Rightarrow> ('w, 'a) facade_io" where
  "by_engine c native lua = (case rcBackend c of BackendLua \<Rightarrow> by_lua (lua (rcLua c)) | BackendNative \<Rightarrow> by_native (native (rcNative c)))"

text \<open>An operation only the Lua engine has.\<close>

definition lua_only :: "'w rocks_client \<Rightarrow> ('w lua_engine \<Rightarrow> ('w, 'a) lua_io) \<Rightarrow> ('w, 'a) facade_io" where
  "lua_only c = by_engine c (\<lambda>e. not_implemented)"

definition Rocks_Exec :: "'w rocks_client \<Rightarrow> string \<Rightarrow> string list \<Rightarrow> ('w, unit) facade_io" where
  "Rocks_Exec c progname argv = lua_only c (\<lambda>l. callRaw l progname argv)"

definition Rocks_Install :: "nat \<Rightarrow> 'w rocks_client \<Rightarrow> string \<Rightarrow> install_opts \<Rightarrow> ('w, unit) facade_io" where
  "Rocks_Install k c name opts = by_engine c (\<lambda>e. Install k e name opts) (\<lambda>l. lua_Install l name opts)"

definition Rocks_Build :: "'w rocks_client \<Rightarrow> string \<Rightarrow> build_opts \<Rightarrow> ('w, unit) facade_io" where
  "Rocks_Build c specPath opts = by_engine c (\<lambda>e. BuildRock e specPath (boKeep opts)) (\<lambda>l. lua_Build l specPath opts)"

definition Rocks_Make :: "'w rocks_client \<Rightarrow> string \<Rightarrow> ('w, unit) facade_io" where
  "Rocks_Make c path = by_engine c (\<lambda>e. on_net (Make e path)) (\<lambda>l. lua_Make l path)"

definition Rocks_Pack :: "'w rocks_client \<Rightarrow> string \<Rightarrow> bool \<Rightarrow> ('w, string) facade_io" where
  "Rocks_Pack c target srcOnly = by_engine c (\<lambda>e. on_net (Pack e target srcOnly)) (\<lambda>l. lua_Pack l target)"

definition Rocks_Unpack :: "'w rocks_client \<Rightarrow> string \<Rightarrow> string \<Rightarrow> ('w, unit) facade_io" where
  "Rocks_Unpack c archive destDir = by_engine c (\<lambda>e. on_net (Unpack e archive destDir)) (\<lambda>l. lua_Unpack l archive)"

definition Rocks_Remove :: "'w rocks_client \<Rightarrow> string \<Rightarrow> remove_opts \<Rightarrow> ('w, unit) facade_io" where
  "Rocks_Remove c name opts = by_engine c (\<lambda>e. on_net (Remove e name (roVersion opts))) (\<lambda>l. lua_Remove l name opts)"

definition Rocks_Search :: "'w rocks_client \<Rightarrow> string \<Rightarrow> search_opts \<Rightarrow> ('w, search_result list) facade_io" where
  "Rocks_Search c pattern opts = by_engine c (\<lambda>e. Search_rocks e pattern opts) (\<lambda>l. lua_Search l pattern opts)"

definition Rocks_Download :: "'w rocks_client \<Rightarrow> string \<Rightarrow> download_opts \<Rightarrow> ('w, string) facade_io" where
  "Rocks_Download c name opts = by_engine c (\<lambda>e. Download e name opts) (\<lambda>l. lua_Download l name opts)"

definition Rocks_Purge :: "'w rocks_client \<Rightarrow> purge_opts \<Rightarrow> ('w, unit) facade_io" where
  "Rocks_Purge c opts = lua_only c (\<lambda>l. lua_Purge l opts)"

definition Rocks_Lint :: "'w rocks_client \<Rightarrow> string \<Rightarrow> ('w, unit) facade_io" where
  "Rocks_Lint c specPath = lua_only c (\<lambda>l. lua_Lint l specPath)"

definition Rocks_NewVersion :: "'w rocks_client \<Rightarrow> string \<Rightarrow> new_version_opts \<Rightarrow> ('w, string) facade_io" where
  "Rocks_NewVersion c specPath opts = lua_only c (\<lambda>l. lua_NewVersion l specPath opts)"

definition Rocks_WriteRockspec :: "'w rocks_client \<Rightarrow> string \<Rightarrow> write_rockspec_opts \<Rightarrow> ('w, string) facade_io" where
  "Rocks_WriteRockspec c url opts = lua_only c (\<lambda>l. lua_WriteRockspec l url opts)"

definition Rocks_Doc :: "'w rocks_client \<Rightarrow> string \<Rightarrow> doc_opts \<Rightarrow> ('w, unit) facade_io" where
  "Rocks_Doc c name opts = lua_only c (\<lambda>l. lua_Doc l name opts)"

definition Rocks_Test :: "'w rocks_client \<Rightarrow> string \<Rightarrow> test_opts \<Rightarrow> ('w, unit) facade_io" where
  "Rocks_Test c specPath opts = lua_only c (\<lambda>l. lua_Test l specPath opts)"

definition Rocks_Config :: "'w rocks_client \<Rightarrow> config_opts \<Rightarrow> ('w, string) facade_io" where
  "Rocks_Config c opts = lua_only c (\<lambda>l. lua_Config l opts)"

definition Rocks_Upload :: "'w rocks_client \<Rightarrow> string \<Rightarrow> upload_opts \<Rightarrow> ('w, unit) facade_io" where
  "Rocks_Upload c specPath opts = lua_only c (\<lambda>l. lua_Upload l specPath opts)"

definition Rocks_InitProject :: "'w rocks_client \<Rightarrow> init_opts \<Rightarrow> ('w, unit) facade_io" where
  "Rocks_InitProject c opts = lua_only c (\<lambda>l. lua_InitProject l opts)"

definition Rocks_Admin :: "'w rocks_client \<Rightarrow> string \<Rightarrow> string list \<Rightarrow> admin_opts \<Rightarrow> ('w, unit) facade_io" where
  "Rocks_Admin c subCmd args opts = lua_only c (\<lambda>l. lua_Admin l subCmd args opts)"

text \<open>An operation the native engine does not have changes nothing.\<close>

lemma native_without_lua: "rcBackend c = BackendNative \<Longrightarrow> lua_only c op s = (Inl (NativeError NotImplemented), s)"
  by (simp add: lua_only_def by_engine_def by_native_def map_err_def not_implemented_def fail_io_def)

end
