(* ===== verification/TreeConfined.thy ===== *)
theory TreeConfined
  imports TreeDeploy Build
begin

text \<open>
  What a deployment writes: \<open>Deploy\<close> of \<open>src/tree/deploy.go\<close> touches nothing outside the three
  deploy directories of its tree. The directories of installed rocks are below one of them. The
  deployment asks the disk what to copy, so the disk is one whose names are those of real files,
  which every operation preserves; \<open>fine\<close> states both of an outcome, with what is known of the value.
\<close>

section \<open>Disks with real names\<close>

definition rooted_at :: "string \<Rightarrow> bool" where
  "rooted_at d \<longleftrightarrow> (\<exists>r cs. cs \<noteq> [] \<and> list_all comp cs \<and> d = mk_path r cs)"

definition names_ok :: "(string, node) gomap \<Rightarrow> bool" where
  "names_ok m \<longleftrightarrow> (\<forall>q \<in> fst ` set m. rooted_at q)"

definition named :: "fs \<Rightarrow> bool" where
  "named s \<longleftrightarrow> names_ok (nodes s)"

lemma names_put: "names_ok m \<Longrightarrow> rooted_at p \<Longrightarrow> names_ok (mput p n m)"
  by (simp add: names_ok_def dom_update)

lemma names_del: "names_ok m \<Longrightarrow> names_ok (mdel k m)"
  using delete_keys[of k m] by (auto simp: names_ok_def AList.delete_eq)

lemma names_known: "names_ok m \<Longrightarrow> map_of m p = Some n \<Longrightarrow> rooted_at p"
  by (force simp: names_ok_def dest: map_of_SomeD)

lemma named_tick: "tick s = (e, s') \<Longrightarrow> named s' = named s"
  by (simp add: named_def tick_nodes)

lemma named_mkdirs: "named s \<Longrightarrow> \<forall>p \<in> set ps. rooted_at p \<Longrightarrow> named (snd (mkdirs ps s))"
proof (induction ps s rule: mkdirs.induct)
  case (2 p ps s)
  show ?case
  proof (cases "map_of (nodes s) p")
    case None
    obtain e s1 where t: "tick s = (e, s1)" by (cases "tick s")
    then have n: "named (s1\<lparr>nodes := mput p NDir (nodes s1)\<rparr>)"
      using "2.prems" by (simp add: named_def names_put tick_nodes)
    show ?thesis
    proof (cases e)
      case E: None
      then show ?thesis using "2.IH"(1)[OF None t[symmetric] E n] "2.prems" None t by simp
    next
      case (Some x)
      then show ?thesis using "2.prems" None t named_tick by simp
    qed
  next
    case (Some n)
    then show ?thesis using "2.IH"(2)[OF Some] "2.prems" by (cases n) simp_all
  qed
qed simp

lemma named_create: "named s \<Longrightarrow> rooted_at p \<Longrightarrow> named (snd (os_create p m s))"
  by (simp add: os_create_def tick_def named_def names_put split: prod.splits option.splits)

lemma named_append: "named s \<Longrightarrow> named (snd (os_append p s d))"
  by (auto simp: os_append_def tick_def named_def intro: names_put names_known split: prod.splits option.splits node.splits)

lemma named_close: "named s \<Longrightarrow> named (snd (os_close s))"
  by (simp add: os_close_def tick_def named_def)

lemma named_remove: "named s \<Longrightarrow> named (snd (os_remove p s))"
  by (simp add: os_remove_def tick_def named_def names_del split: prod.splits option.splits)

lemma named_rename: "named s \<Longrightarrow> rooted_at q \<Longrightarrow> named (snd (os_rename p q s))"
  by (simp add: os_rename_def tick_def named_def names_put names_del split: prod.splits option.splits node.splits)

lemma named_write: "named s \<Longrightarrow> rooted_at p \<Longrightarrow> named (snd (os_write_file p d m s))"
proof -
  assume n: "named s" "rooted_at p"
  obtain e1 s1 where c: "os_create p m s = (e1, s1)" by (cases "os_create p m s")
  obtain e2 s2 where a: "os_append p s1 d = (e2, s2)" by (cases "os_append p s1 d")
  have 1: "named s1" using named_create[OF n, of m] c by simp
  have 2: "named s2" using named_append[OF 1, of p d] a by simp
  show ?thesis using c a 1 named_close[OF 2] by (auto simp: os_write_file_def split: option.split prod.splits)
qed

section \<open>Paths in a directory\<close>

definition spot :: "bool \<Rightarrow> string list \<Rightarrow> string \<Rightarrow> bool" where
  "spot r cs p \<longleftrightarrow> (\<exists>ds. list_all comp ds \<and> p = mk_path r (cs @ ds))"

definition proper_spot :: "bool \<Rightarrow> string list \<Rightarrow> string \<Rightarrow> bool" where
  "proper_spot r cs p \<longleftrightarrow> (\<exists>ds. ds \<noteq> [] \<and> list_all comp ds \<and> p = mk_path r (cs @ ds))"

lemma proper_spot_spot: "proper_spot r cs p \<Longrightarrow> spot r cs p"
  by (auto simp: proper_spot_def spot_def)

lemma spot_rooted: "cs \<noteq> [] \<Longrightarrow> list_all comp cs \<Longrightarrow> spot r cs p \<Longrightarrow> rooted_at p"
  unfolding spot_def rooted_at_def by (metis append_is_Nil_conv list_all_append)

lemma spot_in_dir: "spot r cs p \<Longrightarrow> in_dir r cs p"
  by (auto simp: spot_def in_dir_def)

lemma spot_deeper: "spot r (cs @ ds) p \<Longrightarrow> list_all comp ds \<Longrightarrow> spot r cs p"
  unfolding spot_def by (metis append_assoc list_all_append)

lemma steady_comps: "\<forall>e \<in> set es. steady e \<Longrightarrow> list_all comp (concat (map real_comps es))"
  using real_comps_comp by (induction es) auto

lemma spot_join:
  assumes "cs \<noteq> []" "list_all comp cs" "\<forall>e \<in> set es. steady e"
  shows "spot r cs (path_join (mk_path r cs # es))"
    and "concat (map real_comps es) \<noteq> [] \<Longrightarrow> proper_spot r cs (path_join (mk_path r cs # es))"
  using path_join_steady[OF assms, of r] steady_comps[OF assms(3)] unfolding spot_def proper_spot_def by blast+

text \<open>The backup of a file is beside it.\<close>

lemma backup_spot:
  assumes "proper_spot r cs p"
  shows "proper_spot r cs (p @ ''~'')"
proof -
  obtain ds where ds: "ds \<noteq> []" "list_all comp ds" "p = mk_path r (cs @ ds)" using assms by (auto simp: proper_spot_def)
  have "cs @ ds = (cs @ butlast ds) @ [last ds]" using ds(1) by simp
  then have "p @ ''~'' = mk_path r (cs @ butlast ds @ [last ds @ ''~''])"
    using ds(3) join_snoc_ext[of "cs @ ds" "''/''" "''~''"] ds(1) by (simp add: mk_path_def butlast_append)
  moreover have "list_all comp (butlast ds)" using ds(2) by (metis append_butlast_last_id ds(1) list_all_append)
  moreover have "comp (last ds @ ''~'')" using ds(1,2) by (auto simp: comp_def list_all_iff)
  ultimately show ?thesis unfolding proper_spot_def
    by (intro exI[of _ "butlast ds @ [last ds @ ''~'']"]) simp
qed

text \<open>The versioned name of a file is in the same directory.\<close>

lemma mungedVersion_no_dot: "CHR ''.'' \<notin> set (mungedVersion n v)"
  by (auto simp: mungedVersion_def replace_char_def)

lemma trim_left_join: "ds \<noteq> [] \<Longrightarrow> list_all comp ds \<Longrightarrow> trim_left_char (''/'' @ join ds ''/'') (CHR ''/'') = join ds ''/''"
  using hd_join_slash[of ds "''/''"] join_nonempty[of ds "''/''"]
  by (cases "join ds ''/''") (auto simp: trim_left_char_def)

lemma steady_munged:
  assumes "list_all comp ds" "ds \<noteq> []"
  shows "steady (mungedVersion n v @ CHR ''-'' # join ds ''/'')"
proof -
  let ?m = "mungedVersion n v"
  obtain d es where ds: "ds = d # es" using assms(2) by (cases ds) auto
  have no: "\<forall>x \<in> set ds. CHR ''/'' \<notin> set x" using assms(1) by (auto simp: list_all_iff comp_def)
  have m: "steady (?m @ CHR ''-'' # d)"
    by (rule steady_no_dot[OF mungedVersion_no_dot, of "CHR ''-'' # d"]) (use no ds in auto)
  show ?thesis
  proof (cases "es = []")
    case True
    then show ?thesis using m ds by simp
  next
    case False
    have "?m @ CHR ''-'' # join ds ''/'' = (?m @ CHR ''-'' # d) @ CHR ''/'' # join es ''/''"
      using ds False by (simp add: join_Cons)
    then have "split_char (?m @ CHR ''-'' # join ds ''/'') (CHR ''/'') = split_char (?m @ CHR ''-'' # d) (CHR ''/'') @ es"
      using split_char_app[of "?m @ CHR ''-'' # d"] split_join[OF False] no ds by simp
    then show ?thesis using m assms(1) ds by (auto simp: steady_def list_all_iff comp_def)
  qed
qed

lemma munged_spot:
  assumes "cs \<noteq> []" "list_all comp cs" "proper_spot r cs p"
  shows "spot r cs (MungedPath (mk_path r cs) p n v)"
proof -
  obtain ds where ds: "ds \<noteq> []" "list_all comp ds" "p = mk_path r (cs @ ds)" using assms(3) by (auto simp: proper_spot_def)
  have "trim_prefix p (mk_path r cs) = ''/'' @ join ds ''/''"
    using ds(3) mk_path_append[OF assms(1) ds(1)] by (simp add: trim_prefix_def has_prefix_def)
  then have "MungedPath (mk_path r cs) p n v = path_join [mk_path r cs, mungedVersion n v @ ''-'' @ join ds ''/'']"
    using trim_left_join[OF ds(1,2)] by (simp add: MungedPath_def)
  then show ?thesis using spot_join(1)[OF assms(1,2), of "[mungedVersion n v @ ''-'' @ join ds ''/'']"] steady_munged[OF ds(2,1)] by simp
qed

text \<open>The directories \<open>os.MkdirAll\<close> makes for a file.\<close>

lemma path_chain_mk: "cs \<noteq> [] \<Longrightarrow> list_all comp cs \<Longrightarrow> q \<in> set (path_chain (mk_path r cs)) \<Longrightarrow> rooted_at q"
proof -
  assume a: "cs \<noteq> []" "list_all comp cs" "q \<in> set (path_chain (mk_path r cs))"
  have no: "\<forall>x \<in> set cs. CHR ''/'' \<notin> set x" using a(2) by (auto simp: list_all_iff comp_def)
  have "split_char (mk_path r cs) (CHR ''/'') = (if r then [[]] else []) @ cs"
    using split_join[OF a(1) no] by (simp add: mk_path_def)
  moreover have "filter (\<lambda>c. c \<noteq> [] \<and> c \<noteq> ''.'') cs = cs"
    using a(2) by (intro filter_True) (auto simp: list_all_iff comp_def)
  moreover have "hd (mk_path r cs) = CHR ''/'' \<longleftrightarrow> r"
    using hd_join_slash[OF a(1,2)] by (simp add: mk_path_def)
  ultimately have "path_chain (mk_path r cs) = map (\<lambda>n. mk_path r (take n cs)) [1..<Suc (length cs)]"
    unfolding path_chain_def path_clean_mk[OF a(1,2)] Let_def by (auto simp: mk_path_def)
  then obtain n where n: "1 \<le> n" "n \<le> length cs" "q = mk_path r (take n cs)" using a(3) by auto
  have "list_all comp (take n cs)" using a(2) by (auto simp: list_all_iff dest: in_set_takeD)
  then show ?thesis using n a(1) unfolding rooted_at_def by (intro exI[of _ r] exI[of _ "take n cs"]) auto
qed

lemma rooted_mkdir: "rooted_at p \<Longrightarrow> named s \<Longrightarrow> named (snd (os_mkdir_all p s))"
  unfolding os_mkdir_all_def by (rule named_mkdirs) (auto simp: rooted_at_def[of p] dest: path_chain_mk)

lemma rooted_mkdir_dir: "rooted_at p \<Longrightarrow> named s \<Longrightarrow> named (snd (os_mkdir_all (path_dir p) s))"
proof -
  assume p: "rooted_at p" and n: "named s"
  obtain r cs x where c: "list_all comp (cs @ [x])" "p = mk_path r (cs @ [x])"
    using p unfolding rooted_at_def by (metis append_butlast_last_id)
  show ?thesis
  proof (cases "cs = []")
    case False
    then have "path_dir p = mk_path r cs" using path_dir_mk c by simp
    then show ?thesis using rooted_mkdir n False c(1) by (auto simp: rooted_at_def)
  next
    case True
    have "CHR ''/'' \<notin> set x" using c(1) by (simp add: comp_def)
    then have "last_index p (CHR ''/'') = (if r then Some 0 else None)"
      using c(2) True last_index_last[of "CHR ''/''" x "[]"] by (simp add: mk_path_def last_index_None)
    then have "path_dir p = (if r then ''/'' else ''.'')"
      using c(2) True by (simp add: path_dir_def mk_path_def path_clean_def)
    then have "path_chain (path_dir p) = []" by (simp add: path_chain_def path_clean_def)
    then show ?thesis using n by (simp add: os_mkdir_all_def)
  qed
qed

section \<open>Outcomes\<close>

text \<open>
  An outcome of a program that started on \<open>s\<close>: the disk has real names, the files in \<open>F\<close> are as
  they were, and a value satisfies \<open>Q\<close>.
\<close>

definition fine :: "(string \<Rightarrow> bool) \<Rightarrow> ('a \<Rightarrow> bool) \<Rightarrow> fs \<Rightarrow> ('e + 'a) \<times> fs \<Rightarrow> bool" where
  "fine F Q s out \<longleftrightarrow> named (snd out) \<and> (\<forall>p. F p \<longrightarrow> file_at (snd out) p = file_at s p) \<and>
     (\<forall>x. fst out = Inr x \<longrightarrow> Q x)"

abbreviation safe :: "(string \<Rightarrow> bool) \<Rightarrow> fs \<Rightarrow> ('e + 'a) \<times> fs \<Rightarrow> bool" where
  "safe F \<equiv> fine F (\<lambda>_. True)"

named_theorems outcome \<open>rules for outcomes\<close>

lemma fine_ret [outcome]: "named s \<Longrightarrow> Q x \<Longrightarrow> fine F Q s (ret x s)"
  by (simp add: fine_def ret_def)

lemma fine_fail [outcome]: "named s \<Longrightarrow> fine F Q s (fail_io e s)"
  by (simp add: fine_def fail_io_def)

lemma fine_Inl [outcome]: "named s \<Longrightarrow> fine F Q s (Inl e, s)"
  by (simp add: fine_def)

lemma fine_Inr [outcome]: "named s \<Longrightarrow> Q x \<Longrightarrow> fine F Q s (Inr x, s)"
  by (simp add: fine_def)

lemma fine_bind:
  assumes "fine F Q s (m s)" and "\<And>x s1. named s1 \<Longrightarrow> Q x \<Longrightarrow> fine F R s1 (f x s1)"
  shows "fine F R s (bind_io m f s)"
proof (cases "m s")
  case (Pair r s1)
  then show ?thesis
  proof (cases r)
    case (Inl e)
    then show ?thesis using assms(1) Pair by (simp add: fine_def bind_io_def)
  next
    case (Inr x)
    then have 1: "named s1" "Q x" "\<forall>p. F p \<longrightarrow> file_at s1 p = file_at s p" using assms(1) Pair by (simp_all add: fine_def)
    show ?thesis using assms(2)[OF 1(1,2)] 1(3) Pair Inr by (simp add: fine_def bind_io_def)
  qed
qed

lemma fine_each:
  assumes "named s" and "\<And>x acc s1. x \<in> set xs \<Longrightarrow> named s1 \<Longrightarrow> safe F s1 (f x acc s1)"
  shows "safe F s (each_io f xs acc s)"
  using assms
proof (induction xs arbitrary: acc s)
  case Nil
  then show ?case by (simp add: fine_ret)
next
  case (Cons x xs)
  then show ?case by (auto intro!: fine_bind[where Q = "\<lambda>_. True"])
qed

lemma fine_if [outcome]: "(b \<Longrightarrow> fine F Q s m) \<Longrightarrow> (\<not> b \<Longrightarrow> fine F Q s n) \<Longrightarrow> fine F Q s (if b then m else n)"
  by simp

lemma fine_if_app: "(b \<Longrightarrow> fine F Q s (m s)) \<Longrightarrow> (\<not> b \<Longrightarrow> fine F Q s (n s)) \<Longrightarrow> fine F Q s ((if b then m else n) s)"
  by simp

lemma fine_option [outcome]:
  "(x = None \<Longrightarrow> fine F Q s m) \<Longrightarrow> (\<And>y. x = Some y \<Longrightarrow> fine F Q s (n y)) \<Longrightarrow> fine F Q s (case x of None \<Rightarrow> m | Some y \<Rightarrow> n y)"
  by (cases x) auto

lemma fine_act:
  assumes "named (snd (f s))" and "\<And>p e s'. F p \<Longrightarrow> f s = (e, s') \<Longrightarrow> file_at s' p = file_at s p"
  shows "safe F s (act w f s)"
  using assms by (auto simp: fine_def act_def split: prod.splits option.splits)

lemma fine_mkdir [outcome]: "named s \<Longrightarrow> rooted_at p \<Longrightarrow> safe F s (act w (os_mkdir_all p) s)"
  by (rule fine_act) (auto simp: rooted_mkdir os_mkdir_all_files)

lemma fine_mkdir_dir [outcome]: "named s \<Longrightarrow> rooted_at p \<Longrightarrow> safe F s (act w (os_mkdir_all (path_dir p)) s)"
  by (rule fine_act) (auto simp: rooted_mkdir_dir os_mkdir_all_files)

lemma fine_write [outcome]: "named s \<Longrightarrow> rooted_at p \<Longrightarrow> \<not> F p \<Longrightarrow> safe F s (act w (os_write_file p d m) s)"
  by (rule fine_act) (auto simp: named_write dest: os_write_file_files(1))

lemma fine_rename [outcome]: "named s \<Longrightarrow> rooted_at q \<Longrightarrow> \<not> F p \<Longrightarrow> \<not> F q \<Longrightarrow> safe F s (act w (os_rename p q) s)"
  by (rule fine_act) (auto simp: named_rename os_rename_files)

lemma fine_remove [outcome]: "named s \<Longrightarrow> \<not> F p \<Longrightarrow> safe F s (act w (os_remove p) s)"
  by (rule fine_act) (auto simp: named_remove os_remove_files)

lemma fine_rel: "named s \<Longrightarrow> (\<And>rel. path_rel b p = Some rel \<Longrightarrow> fine F R s (f rel s)) \<Longrightarrow> fine F R s (bind_io (rel_io b p) f s)"
  by (auto simp: bind_io_def rel_io_def fine_def split: option.splits)

lemma fine_copyFile:
  assumes n: "named s" and d: "rooted_at dst" "\<not> F dst"
  shows "safe F s (copyFile md5 src dst mode s)"
proof -
  have copy: "safe F s1 (case os_read s1 src of
      Inl e \<Rightarrow> (let (_, s') = os_close s1 in (Inl (TreeCopy e), s'))
    | Inr c \<Rightarrow> (case os_append dst s1 c of
        (Some e, s1) \<Rightarrow> (let (_, s2) = os_close s1 in (Inl (TreeCopy e), s2))
      | (None, s1) \<Rightarrow> bind_io (act TreeClose os_close) (\<lambda>_. ret (md5 c)) s1))" if n1: "named s1" for s1
  proof (cases "os_read s1 src")
    case (Inl e)
    then show ?thesis using named_close[OF n1] os_close_files by (auto simp: fine_def split: prod.splits)
  next
    case (Inr c)
    obtain e s2 where a: "os_append dst s1 c = (e, s2)" by (cases "os_append dst s1 c")
    have n2: "named s2" using named_append[OF n1, of dst c] a by simp
    have f2: "F p \<Longrightarrow> file_at s2 p = file_at s1 p" for p using os_append_files[OF a] d(2) by metis
    have "safe F s2 (bind_io (act TreeClose os_close) (\<lambda>_. ret (md5 c)) s2)"
      using named_close[OF n2] n2 os_close_files
      by (intro fine_bind[where Q = "\<lambda>_. True"] fine_act fine_ret) auto
    then show ?thesis using Inr a f2 named_close[OF n2] os_close_files
      by (auto simp: fine_def split: option.splits prod.splits)
  qed
  have create: "safe F s1 (act TreeCreate (os_create dst mode) s1)" if "named s1" for s1
    using that d named_create by (intro fine_act) (auto simp: os_create_files)
  show ?thesis unfolding copyFile_def
    using n d copy create by (intro fine_bind[where Q = "\<lambda>_. True"] outcome) auto
qed

text \<open>A spot for a file: in its deploy directory, whoever gets the plain path.\<close>

lemma fine_spot:
  assumes "named s" "cs \<noteq> []" "list_all comp cs" "proper_spot r cs plain" "\<And>p. spot r cs p \<Longrightarrow> \<not> F p"
  shows "fine F (spot r cs) s (resolveSpot t (mk_path r cs) plain item n v s)"
proof -
  have p: "spot r cs plain" "spot r cs (plain @ ''~'')" "rooted_at (plain @ ''~'')"
    using assms(4) backup_spot[OF assms(4)] proper_spot_spot spot_rooted[OF assms(2,3)] by blast+
  have m: "spot r cs (MungedPath (mk_path r cs) plain a b)" "rooted_at (MungedPath (mk_path r cs) plain a b)" for a b
    using munged_spot[OF assms(2-4)] spot_rooted[OF assms(2,3)] by blast+
  have demote: "fine F (spot r cs) s (bind_io (act TreeMkdir (os_mkdir_all (path_dir (MungedPath (mk_path r cs) plain a b))))
      (\<lambda>_. bind_io (act TreeRename (os_rename plain (MungedPath (mk_path r cs) plain a b))) (\<lambda>_. ret plain)) s)" for a b
    by (intro fine_bind[where Q = "\<lambda>_. True"] fine_mkdir_dir fine_rename fine_ret) (simp_all add: assms p m)
  have backup: "fine F (spot r cs) s (bind_io (act TreeRename (os_rename plain (plain @ ''~''))) (\<lambda>_. ret plain) s)"
    by (intro fine_bind[where Q = "\<lambda>_. True"] fine_rename fine_ret) (simp_all add: assms p)
  show ?thesis
    unfolding resolveSpot_def Let_def using demote backup assms(1) p(1) m(1)
    by (auto intro!: fine_Inr split: option.split prod.split)
qed

section \<open>Walks\<close>

lemma below_comps:
  assumes "cs \<noteq> []" "list_all comp cs" "rooted_at p" "below (mk_path r cs) p"
  shows "proper_spot r cs p"
proof -
  obtain q es where p: "es \<noteq> []" "list_all comp es" "p = mk_path q es" using assms(3) by (auto simp: rooted_at_def)
  have no: "\<forall>x \<in> set cs. CHR ''/'' \<notin> set x" "\<forall>x \<in> set es. CHR ''/'' \<notin> set x"
    using assms(2) p(2) by (auto simp: list_all_iff comp_def)
  have "path_comps (mk_path r cs) \<noteq> []" "path_comps (mk_path r cs) \<noteq> [[]]"
    using path_comps_mk[OF assms(1,2), of r] assms(1,2) by (auto simp: comp_def)
  then have "mk_path r cs \<noteq> ''.''" "mk_path r cs \<noteq> ''/''" by (auto simp: path_comps_def)
  then have "has_prefix p (mk_path r cs @ ''/'')" using assms(4) by (simp add: below_def)
  then obtain rest where rest: "p = mk_path r cs @ CHR ''/'' # rest" by (auto simp: has_prefix_iff)
  have rq: "r = q"
    using has_prefix_slash_mk[OF assms(1,2), of r] has_prefix_slash_mk[OF p(1,2), of q] mk_path_nonempty[OF assms(1,2), of r]
      rest p(3) by (cases "mk_path r cs") (auto simp: has_prefix_def)
  have "split_char p (CHR ''/'') = (if r then [[]] else []) @ cs @ split_char rest (CHR ''/'')"
    using split_join[OF assms(1) no(1)] split_char_app[of "mk_path r cs" "CHR ''/''" rest] by (simp add: rest mk_path_def)
  moreover have "split_char p (CHR ''/'') = (if r then [[]] else []) @ es"
    using split_join[OF p(1) no(2)] by (simp add: p(3) rq mk_path_def)
  ultimately have "es = cs @ split_char rest (CHR ''/'')" by simp
  then show ?thesis using p rq split_char_ne[of rest] unfolding proper_spot_def
    by (intro exI[of _ "split_char rest (CHR ''/'')"]) simp
qed

lemma walk_spots:
  assumes "named s" "cs \<noteq> []" "list_all comp cs" "p \<in> set (walk_paths s (mk_path r cs))"
  shows "p = mk_path r cs \<or> proper_spot r cs p"
  using assms(4) below_comps[OF assms(2,3), of p r] assms(1) by (auto simp: walk_paths_def named_def names_ok_def)

lemma rel_proper:
  assumes "cs \<noteq> []" "list_all comp cs" "proper_spot r cs p" "path_rel (mk_path r cs) p = Some rel"
  shows "steady rel" "real_comps rel \<noteq> []"
proof -
  obtain ds where ds: "ds \<noteq> []" "list_all comp ds" "p = mk_path r (cs @ ds)" using assms(3) by (auto simp: proper_spot_def)
  then have "rel = join ds ''/''" using path_rel_mk[OF assms(1,2) ds(1,2), of r] assms(4) by simp
  then show "steady rel" "real_comps rel \<noteq> []" using ds steady_join real_comps_clean by simp_all
qed

lemma rel_walk:
  assumes "cs \<noteq> []" "list_all comp cs" "p = mk_path r cs \<or> proper_spot r cs p" "path_rel (mk_path r cs) p = Some rel"
  shows "steady rel"
  using assms(3)
proof
  assume "p = mk_path r cs"
  then have "rel = ''.''" using assms(4) by (simp add: path_rel_def)
  then show ?thesis by (simp add: steady_def)
qed (use rel_proper assms in blast)

text \<open>The root of a walk comes first.\<close>

lemma prefix_less: "ys \<noteq> [] \<Longrightarrow> xs < xs @ (ys :: 'a :: order list)"
  by (induction xs) (auto simp: neq_Nil_conv)

lemma root_first:
  assumes "sorted (map f xs)" "\<And>y. y \<in> set xs \<Longrightarrow> y \<noteq> x \<Longrightarrow> f x < f y"
  shows "\<exists>n ys. xs = replicate n x @ ys \<and> x \<notin> set ys"
  using assms
proof (induction xs)
  case (Cons a xs)
  show ?case
  proof (cases "a = x")
    case True
    obtain n ys where "xs = replicate n x @ ys" "x \<notin> set ys" using Cons by auto
    then show ?thesis using True by (intro exI[of _ "Suc n"] exI[of _ ys]) simp
  next
    case False
    have "f x < f a" using Cons.prems(2) False by simp
    then have "x \<notin> set xs" using Cons.prems(1) by force
    then show ?thesis using False by (intro exI[of _ 0] exI[of _ "a # xs"]) simp
  qed
qed simp

lemma walk_root_first:
  assumes "named s" "cs \<noteq> []" "list_all comp cs"
  shows "\<exists>n ys. walk_paths s (mk_path r cs) = replicate n (mk_path r cs) @ ys \<and> mk_path r cs \<notin> set ys"
proof -
  let ?f = "\<lambda>q. split_char q (CHR ''/'')"
  have less: "?f (mk_path r cs) < ?f p" if m: "p \<in> set (walk_paths s (mk_path r cs))" "p \<noteq> mk_path r cs" for p
  proof -
    obtain ds where ds: "ds \<noteq> []" "p = mk_path r (cs @ ds)"
      using walk_spots[OF assms m(1)] m(2) unfolding proper_spot_def by blast
    have "p = mk_path r cs @ CHR ''/'' # join ds ''/''" using mk_path_append[OF assms(2) ds(1)] ds(2) by simp
    then have e: "?f p = ?f (mk_path r cs) @ ?f (join ds ''/'')" using split_char_app by metis
    show ?thesis unfolding e by (rule prefix_less[OF split_char_ne])
  qed
  have "sorted (map ?f (walk_paths s (mk_path r cs)))" unfolding walk_paths_def by (rule sorted_sort_key)
  from root_first[of ?f, OF this less] show ?thesis .
qed

lemma each_skip: "f x acc s = (Inr acc, s) \<Longrightarrow> each_io f (replicate n x @ ys) acc s = each_io f ys acc s"
  by (induction n) (simp_all add: bind_io_def)

section \<open>The stages\<close>

text \<open>The three directories of a tree that a deployment may write below.\<close>

definition deploy_dirs :: "string list \<Rightarrow> string list set" where
  "deploy_dirs cs = {cs @ [''share'', ''tarantool''], cs @ [''lib'', ''tarantool''], cs @ [''bin'']}"

definition outside_tree :: "bool \<Rightarrow> string list \<Rightarrow> string \<Rightarrow> bool" where
  "outside_tree r cs p \<longleftrightarrow> (\<forall>d \<in> deploy_dirs cs. \<not> in_dir r d p)"

lemma deploy_dirs_ok: "tree_at r cs t \<Longrightarrow> d \<in> deploy_dirs cs \<Longrightarrow> d \<noteq> [] \<and> list_all comp d"
  by (auto simp: deploy_dirs_def tree_at_def comp_def)

lemma spot_outside: "d \<in> deploy_dirs cs \<Longrightarrow> spot r d p \<Longrightarrow> \<not> outside_tree r cs p"
  using spot_in_dir by (auto simp: outside_tree_def)

lemma kind_dir:
  assumes "tree_at r cs t"
  shows "\<exists>d \<in> deploy_dirs cs. deployDirForKind t k = mk_path r d"
  using tree_dirs(1,2)[OF assms] by (cases k) (auto simp: deployDirForKind_def deploy_dirs_def)

lemma steady_comp: "comp c \<Longrightarrow> steady c"
  by (auto simp: comp_def steady_def split_char_no_sep)

text \<open>The directory of a rock.\<close>

lemma install_dir:
  assumes "tree_at r cs t" "comp n" "comp v"
  shows "InstallDir t n v = mk_path r (cs @ [''share'', ''tarantool'', ''rocks'', n, v])"
  using assms tree_dirs(3)[OF assms(1)]
    path_join_comp[of "cs @ [''share'', ''tarantool'', ''rocks'']" "[n, v]" r]
  by (simp add: InstallDir_def tree_at_def comp_def)

lemma install_spot:
  assumes "tree_at r cs t" "comp n" "comp v" "\<forall>e \<in> set es. steady e"
  shows "\<not> outside_tree r cs (path_join (InstallDir t n v # es))" "rooted_at (path_join (InstallDir t n v # es))"
proof -
  let ?i = "cs @ [''share'', ''tarantool'', ''rocks'', n, v]"
  have i: "?i \<noteq> []" "list_all comp ?i" using assms(1-3) by (auto simp: tree_at_def comp_def)
  have s: "spot r ?i (path_join (InstallDir t n v # es))" unfolding install_dir[OF assms(1-3)] by (rule spot_join(1)[OF i assms(4)])
  then have "spot r (cs @ [''share'', ''tarantool'']) (path_join (InstallDir t n v # es))"
    using spot_deeper[of r "cs @ [''share'', ''tarantool'']" "[''rocks'', n, v]"] assms(2,3) by (simp add: comp_def)
  then show "\<not> outside_tree r cs (path_join (InstallDir t n v # es))"
    by (rule spot_outside[rotated]) (simp add: deploy_dirs_def)
  show "rooted_at (path_join (InstallDir t n v # es))" by (rule spot_rooted[OF i s])
qed

lemma fine_then_spot:
  assumes "named s" "tree_at r cs root'" "d \<in> deploy_dirs cs" "proper_spot r d plain"
    and "\<And>x s1. named s1 \<Longrightarrow> spot r d x \<Longrightarrow> rooted_at x \<Longrightarrow> \<not> outside_tree r cs x \<Longrightarrow> fine (outside_tree r cs) R s1 (f x s1)"
  shows "fine (outside_tree r cs) R s (bind_io (resolveSpot t (mk_path r d) plain item n v) f s)"
proof (rule fine_bind)
  note ok = deploy_dirs_ok[OF assms(2,3)]
  show "fine (outside_tree r cs) (spot r d) s (resolveSpot t (mk_path r d) plain item n v s)"
    using ok spot_outside[OF assms(3)] by (intro fine_spot assms(1,4)) auto
  show "fine (outside_tree r cs) R s1 (f x s1)" if "named s1" "spot r d x" for x s1
    using assms(5)[OF that] spot_rooted[of d r x] ok spot_outside[OF assms(3) that(2)] that(2) by blast
qed

text \<open>A file that goes into a deploy directory.\<close>

lemma fine_deploy_file:
  assumes "named s" "tree_at r cs (tTree t)" "\<And>d. deployDirForKind (tTree t) k = mk_path r d \<Longrightarrow> d \<in> deploy_dirs cs \<Longrightarrow> proper_spot r d dst"
  shows "safe (outside_tree r cs) s (deploy_file md5 t spec k src dst rm s)"
proof -
  obtain d where d: "d \<in> deploy_dirs cs" "deployDirForKind (tTree t) k = mk_path r d" using kind_dir[OF assms(2)] by blast
  note ok = deploy_dirs_ok[OF assms(2) d(1)]
  have p: "proper_spot r d dst" by (rule assms(3)[OF d(2,1)])
  show ?thesis unfolding deploy_file_def Let_def d(2)
    by (intro fine_rel fine_then_spot[OF _ assms(2) d(1) p] fine_bind[OF fine_copyFile] fine_ret) (auto simp: assms(1))
qed

text \<open>What a rockspec is expected to name: files, not ways up and out.\<close>

definition names_file :: "string \<Rightarrow> bool" where
  "names_file p \<longleftrightarrow> steady p \<and> real_comps p \<noteq> []"

definition calm_install :: "build_install \<Rightarrow> bool" where
  "calm_install bi \<longleftrightarrow> list_all names_file (map fst (iBin bi)) \<and> list_all steady (map fst (iConf bi)) \<and>
     list_all (\<lambda>v. comp (path_base v)) (map snd (iLua bi @ iLib bi))"

definition calm_rockspec :: "rockspec \<Rightarrow> bool" where
  "calm_rockspec spec \<longleftrightarrow> comp (rPackage spec) \<and> comp (rVersion spec) \<and>
     calm_install (bInstall (bFields (rBuild spec))) \<and> list_all steady (bCopyDirectories (bFields (rBuild spec)))"

lemma real_comps_ext: "CHR ''/'' \<notin> set e \<Longrightarrow> 2 \<le> length e \<Longrightarrow> real_comps (x @ e) \<noteq> []"
proof -
  assume e: "CHR ''/'' \<notin> set e" "2 \<le> length e"
  define l where "l = last (split_char x (CHR ''/'')) @ e"
  have "length l \<ge> 2" using e(2) by (simp add: l_def)
  then have "l \<noteq> [] \<and> l \<noteq> ''.''" by auto
  moreover have "l \<in> set (split_char (x @ e) (CHR ''/''))" by (simp add: split_char_ext[OF e(1)] l_def)
  ultimately have "l \<in> set (real_comps (x @ e))" by (simp add: real_comps_def)
  then show ?thesis by auto
qed

lemma module_names_file: "names_file (slashed m @ ''.lua'')" "names_file (slashed m @ ''.so'')"
  using real_comps_ext[of "''.lua''" "slashed m"] real_comps_ext[of "''.so''" "slashed m"] steady_slash(1,2)[of m]
  by (simp_all add: names_file_def slashed_def moduleSlashPath_def)

lemma names_file_clean:
  assumes "names_file p"
  shows "names_file (path_clean p)"
proof -
  have out: "foldl (clean_step r) [] (split_char p (CHR ''/'')) = real_comps p" for r
    using assms clean_fold_steady by (simp add: names_file_def steady_def real_comps_def)
  have c: "real_comps p \<noteq> []" "list_all comp (real_comps p)" using assms real_comps_comp by (auto simp: names_file_def)
  have j: "join (real_comps p) ''/'' \<noteq> []" by (rule join_nonempty[OF c])
  then have e: "path_clean p = (if p \<noteq> [] \<and> hd p = CHR ''/'' then ''/'' else []) @ join (real_comps p) ''/''"
    using c(1) by (auto simp: path_clean_def out Let_def real_comps_def)
  have "real_comps (''/'' @ join (real_comps p) ''/'') = real_comps (join (real_comps p) ''/'')"
    by (simp add: real_comps_def)
  then have "real_comps (path_clean p) \<noteq> []" using e real_comps_clean[OF c(2,1)] c(1) by (simp split: if_splits)
  then show ?thesis using steady_path_clean assms by (simp add: names_file_def)
qed

lemma names_file_spot:
  assumes "d \<noteq> []" "list_all comp d" "names_file e" "\<forall>x \<in> set es. steady x"
  shows "proper_spot r d (path_join (mk_path r d # es @ [e]))"
  using spot_join(2)[OF assms(1,2), of "es @ [e]" r] assms(3,4) by (auto simp: names_file_def)

lemma installDest_spot:
  assumes "d \<noteq> []" "list_all comp d" "comp (path_base srcRel)"
  shows "proper_spot r d (installDest (mk_path r d) key srcRel True)"
proof -
  let ?f = "if has_suffix (to_lower (path_base srcRel)) ''.lua'' then moduleLastSegment key @ ''.lua'' else path_base srcRel"
  have seg: "moduleLastSegment key = moduleLastSegment_builtin key"
    by (simp add: moduleLastSegment_def moduleLastSegment_builtin_def)
  have "real_comps (path_base srcRel) = [path_base srcRel]" using real_comps_clean[of "[path_base srcRel]"] assms(3) by simp
  then have "names_file (path_base srcRel)" using steady_comp[OF assms(3)] by (simp add: names_file_def)
  moreover have "names_file (moduleLastSegment key @ ''.lua'')"
    using real_comps_ext[of "''.lua''"] steady_last_segment[of key] seg by (simp add: names_file_def)
  ultimately have f: "names_file ?f" by simp
  have "CHR ''.'' \<notin> set (moduleToPathDir key)" by (simp add: moduleToPathDir_def replace_dot)
  then have "steady (moduleToPathDir key)"
    using split_char_chars[of "''..''" "moduleToPathDir key" "CHR ''/''"] by (auto simp: steady_def)
  then show ?thesis using names_file_spot[OF assms(1,2) f, of "[moduleToPathDir key]" r]
    by (simp add: installDest_def Let_def)
qed

lemma fine_deployRockspec:
  assumes "named s" "tree_at r cs (tTree t)" "calm_rockspec spec"
  shows "safe (outside_tree r cs) s (deployRockspec md5 t spec rm s)"
proof -
  have c: "comp (rPackage spec)" "comp (rVersion spec)" using assms(3) by (simp_all add: calm_rockspec_def)
  have "comp (rPackage spec @ ''-'' @ rVersion spec @ ''.rockspec'')" using c by (auto simp: comp_def Cons_eq_append_conv)
  then have "\<forall>e \<in> set [rPackage spec @ ''-'' @ rVersion spec @ ''.rockspec'']. steady e" using steady_comp by simp
  note d = install_spot[OF assms(2) c this]
  show ?thesis unfolding deployRockspec_def Let_def
    by (intro fine_if_app fine_bind[where Q = "\<lambda>_. True"] fine_mkdir_dir fine_write fine_ret) (use assms(1) d in auto)
qed

lemma fine_deployModules:
  assumes "named s" "tree_at r cs (tTree t)"
  shows "safe (outside_tree r cs) s (deployModules md5 t spec srcDir buildDir rm s)"
proof -
  have spots: "proper_spot r d dst"
    if "resolveModule srcDir buildDir m e (tTree t) = Inr (src, dst, k)" "deployDirForKind (tTree t) k = mk_path r d"
      "d \<in> deploy_dirs cs" for m e src dst k d
  proof -
    note ok = deploy_dirs_ok[OF assms(2) that(3)]
    have "dst = path_join [deployDirForKind (tTree t) k, slashed m @ ''.lua''] \<or>
        dst = path_join [deployDirForKind (tTree t) k, slashed m @ ''.so'']"
      using that(1) by (auto simp: resolveModule_def Let_def deployDirForKind_def split: if_splits)
    then show ?thesis
      using names_file_spot[OF ok[THEN conjunct1] ok[THEN conjunct2] module_names_file(1)[of m], of "[]" r]
        names_file_spot[OF ok[THEN conjunct1] ok[THEN conjunct2] module_names_file(2)[of m], of "[]" r] that(2) by auto
  qed
  show ?thesis unfolding deployModules_def
    by (intro fine_each assms(1))
      (auto split: sum.split prod.split intro!: fine_fail fine_deploy_file[OF _ assms(2)] dest: spots)
qed

lemma fine_deployInstallModulePaths:
  assumes "named s" "tree_at r cs (tTree t)" "calm_rockspec spec"
  shows "safe (outside_tree r cs) s (deployInstallModulePaths md5 t spec srcDir rm s)"
proof -
  let ?i = "bInstall (bFields (rBuild spec))"
  have b: "comp (path_base v)" if "(k, v) \<in> set (iLua ?i) \<or> (k, v) \<in> set (iLib ?i)" for k v
  proof -
    have "list_all (\<lambda>v. comp (path_base v)) (map snd (iLua ?i @ iLib ?i))"
      using assms(3) by (simp add: calm_rockspec_def calm_install_def)
    moreover have "v \<in> set (map snd (iLua ?i @ iLib ?i))" using that by force
    ultimately show ?thesis unfolding list_all_iff by blast
  qed
  have "proper_spot r d (installDest (mk_path r d) key v True)"
    if "(key, v) \<in> set (iLua ?i) \<or> (key, v) \<in> set (iLib ?i)" "d \<in> deploy_dirs cs" for d key v
    using installDest_spot[OF _ _ b[OF that(1)], of d r key] deploy_dirs_ok[OF assms(2) that(2)] by simp
  then show ?thesis unfolding deployInstallModulePaths_def Let_def
    by (intro fine_each assms(1)) (auto intro!: fine_each fine_deploy_file[OF _ assms(2)])
qed

lemma fine_deployInstallConf:
  assumes "named s" "tree_at r cs (tTree t)" "calm_rockspec spec"
  shows "safe (outside_tree r cs) s (deployInstallConf md5 t spec srcDir rm s)"
proof -
  let ?conf = "iConf (bInstall (bFields (rBuild spec)))"
  have c: "comp (rPackage spec)" "comp (rVersion spec)" using assms(3) by (simp_all add: calm_rockspec_def)
  have dst: "\<not> outside_tree r cs (path_join [ConfDir (tTree t) (rPackage spec) (rVersion spec), path_clean key]) \<and>
      rooted_at (path_join [ConfDir (tTree t) (rPackage spec) (rVersion spec), path_clean key])" if "(key, v) \<in> set ?conf" for key v
  proof -
    have k: "steady key" using assms(3) that by (force simp: calm_rockspec_def calm_install_def list_all_iff)
    let ?i = "cs @ [''share'', ''tarantool'', ''rocks'', rPackage spec, rVersion spec]"
    let ?c = "?i @ [''conf'']"
    have ok: "?i \<noteq> []" "list_all comp ?i" "?c \<noteq> []" "list_all comp ?c" using assms(2) c by (auto simp: tree_at_def comp_def)
    have "ConfDir (tTree t) (rPackage spec) (rVersion spec) = mk_path r ?c"
      using path_join_comp[OF ok(1,2), of "[''conf'']" r] install_dir[OF assms(2) c] by (simp add: ConfDir_def comp_def)
    then have s: "spot r ?c (path_join [ConfDir (tTree t) (rPackage spec) (rVersion spec), path_clean key])"
      using spot_join(1)[OF ok(3,4), of "[path_clean key]" r] steady_path_clean[OF k] by simp
    then have "spot r (cs @ [''share'', ''tarantool'']) (path_join [ConfDir (tTree t) (rPackage spec) (rVersion spec), path_clean key])"
      using spot_deeper[of r "cs @ [''share'', ''tarantool'']" "[''rocks'', rPackage spec, rVersion spec, ''conf'']"] c
      by (simp add: comp_def)
    then show ?thesis using spot_rooted[OF ok(3,4) s]
      spot_outside[of "cs @ [''share'', ''tarantool'']" cs r] by (simp add: deploy_dirs_def)
  qed
  show ?thesis unfolding deployInstallConf_def Let_def
    by (intro fine_each assms(1)) (auto intro!: fine_bind[OF fine_copyFile] fine_rel fine_ret dest: dst)
qed

lemma fine_deployInstallBin:
  assumes "named s" "tree_at r cs (tTree t)" "calm_rockspec spec"
  shows "safe (outside_tree r cs) s (deployInstallBin md5 isLua t spec srcDir rm s)"
proof -
  let ?bin = "iBin (bInstall (bFields (rBuild spec)))"
  let ?b = "cs @ [''bin'']"
  let ?inst = "InstallDir (tTree t) (rPackage spec) (rVersion spec)"
  have c: "comp (rPackage spec)" "comp (rVersion spec)" using assms(3) by (simp_all add: calm_rockspec_def)
  have b: "?b \<in> deploy_dirs cs" by (simp add: deploy_dirs_def)
  have okb: "?b \<noteq> []" "list_all comp ?b" using deploy_dirs_ok[OF assms(2) b] by simp_all
  have dir: "BinDir (tTree t) = mk_path r ?b" by (rule tree_dirs(4)[OF assms(2)])
  have entry: "proper_spot r ?b (path_join [mk_path r ?b, path_clean key])"
    "\<not> outside_tree r cs (path_join [?inst, ''bin'', path_clean key])" "rooted_at (path_join [?inst, ''bin'', path_clean key])"
    if "(key, v) \<in> set ?bin" for key v
  proof -
    have "names_file key" using assms(3) that by (force simp: calm_rockspec_def calm_install_def list_all_iff)
    then have k: "names_file (path_clean key)" by (rule names_file_clean)
    show "proper_spot r ?b (path_join [mk_path r ?b, path_clean key])" using names_file_spot[OF okb k, of "[]" r] by simp
    have "\<forall>e \<in> set [''bin'', path_clean key]. steady e" using k steady_slash(6) by (simp add: names_file_def)
    from install_spot[OF assms(2) c this] show "\<not> outside_tree r cs (path_join [?inst, ''bin'', path_clean key])"
      "rooted_at (path_join [?inst, ''bin'', path_clean key])" .
  qed
  have plain: "safe (outside_tree r cs) s1 (bind_io (resolveSpot t (mk_path r ?b) plain item n v)
      (\<lambda>dst. bind_io (copyFile md5 src dst execPerm) (\<lambda>digest. bind_io (rel_io (mk_path r ?b) dst) (\<lambda>x. ret (f x digest)))) s1)"
    if "named s1" "proper_spot r ?b plain" for s1 plain item n v src and f :: "string \<Rightarrow> string \<Rightarrow> rock_manifest"
    by (intro fine_then_spot[OF that(1) assms(2) b that(2)] fine_bind[OF fine_copyFile] fine_rel fine_ret) auto
  show ?thesis unfolding deployInstallBin_def Let_def dir
    by (intro fine_each assms(1))
      (auto split: option.split prod.split intro!: plain fine_bind[OF fine_copyFile] fine_then_spot[OF _ assms(2) b]
        fine_bind[OF fine_mkdir_dir] fine_bind[OF fine_write] fine_ret dest: entry)
qed

lemma fine_copyTree:
  assumes "named s" "tree_at r cs (tTree t)" "comp n" "comp v" "ss \<noteq> []" "list_all comp ss" "steady dir"
  shows "safe (outside_tree r cs) s (copyTree md5 (mk_path q ss) (path_join [InstallDir (tTree t) n v, dir]) rm tp s)"
proof -
  let ?inst = "InstallDir (tTree t) n v"
  let ?i = "cs @ [''share'', ''tarantool'', ''rocks'', n, v]"
  have i: "?i \<noteq> []" "list_all comp ?i" "?inst = mk_path r ?i"
    using assms(2-4) install_dir[OF assms(2-4)] by (auto simp: tree_at_def comp_def)
  have d: "path_join [?inst, dir] = mk_path r (?i @ real_comps dir)"
    using path_join_steady[OF i(1,2), of "[dir]" r] assms(7) i(3) by simp
  have dok: "?i @ real_comps dir \<noteq> []" "list_all comp (?i @ real_comps dir)"
    using i(2) real_comps_comp[OF assms(7)] by auto
  have target: "\<not> outside_tree r cs (path_join [path_join [?inst, dir], rel])" "rooted_at (path_join [path_join [?inst, dir], rel])"
    if "steady rel" for rel
  proof -
    have s: "spot r (?i @ real_comps dir) (path_join [path_join [?inst, dir], rel])"
      using spot_join(1)[OF dok, of "[rel]" r] that d by simp
    then have "spot r (cs @ [''share'', ''tarantool'']) (path_join [path_join [?inst, dir], rel])"
      using spot_deeper[of r "cs @ [''share'', ''tarantool'']" "[''rocks'', n, v] @ real_comps dir"] assms(3,4) dok(2)
      by (simp add: comp_def)
    then show "\<not> outside_tree r cs (path_join [path_join [?inst, dir], rel])"
      by (rule spot_outside[rotated]) (simp add: deploy_dirs_def)
    show "rooted_at (path_join [path_join [?inst, dir], rel])" by (rule spot_rooted[OF dok s])
  qed
  have step: "safe (outside_tree r cs) s1 (let target = path_join [path_join [?inst, dir], rel] in
      if os_stat s1 p = Some NDir then bind_io (act TreeMkdir (os_mkdir_all target)) (\<lambda>_. ret rm) s1
      else bind_io (copyFile md5 p target (mode_of s1 p)) (\<lambda>digest.
        ret (if tp = ''doc'' then rm\<lparr>rmDoc := mput rel digest (rmDoc rm)\<rparr> else rm)) s1)"
    if "named s1" "p \<in> set (walk_paths s (mk_path q ss))" "path_rel (mk_path q ss) p = Some rel" for s1 p rel rm
    using target[OF rel_walk[OF assms(5,6) walk_spots[OF assms(1,5,6) that(2)] that(3)]] that(1)
    unfolding Let_def by (intro fine_if fine_bind[OF fine_mkdir] fine_bind[OF fine_copyFile] fine_ret) auto
  show ?thesis unfolding copyTree_def
    by (auto split: option.split node.split intro!: fine_Inl assms(1) fine_each fine_rel step)
qed

lemma fine_deployCopyDirectories:
  assumes "named s" "tree_at r cs (tTree t)" "calm_rockspec spec" "rooted_at srcDir"
  shows "safe (outside_tree r cs) s (deployCopyDirectories md5 t spec srcDir rm s)"
proof -
  obtain q ss where ss: "ss \<noteq> []" "list_all comp ss" "srcDir = mk_path q ss" using assms(4) by (auto simp: rooted_at_def)
  have c: "comp (rPackage spec)" "comp (rVersion spec)" "list_all steady (bCopyDirectories (bFields (rBuild spec)))"
    using assms(3) by (simp_all add: calm_rockspec_def)
  have "safe (outside_tree r cs) s1 (copyTree md5 (path_join [srcDir, dir])
      (path_join [InstallDir (tTree t) (rPackage spec) (rVersion spec), dir]) rm dir s1)"
    if "named s1" "steady dir" for s1 dir rm
  proof -
    have "path_join [srcDir, dir] = mk_path q (ss @ real_comps dir)"
      using path_join_steady[OF ss(1,2), of "[dir]" q] that(2) ss(3) by simp
    then show ?thesis
      using fine_copyTree[OF that(1) assms(2) c(1,2), of "ss @ real_comps dir" dir] ss(1,2) real_comps_comp[OF that(2)] that(2)
      by simp
  qed
  then show ?thesis unfolding deployCopyDirectories_def using c(3)
    by (intro fine_each assms(1)) (auto simp: list_all_iff)
qed

lemma prune_files: "named s \<Longrightarrow> named (pruneEmptyDirs n d s) \<and> (\<forall>p. file_at (pruneEmptyDirs n d s) p = file_at s p)"
proof (induction n arbitrary: d s)
  case (Suc n)
  let ?step = "\<lambda>s e. let p = path_join [d, e] in if is_dir s p then pruneEmptyDirs n p s else s"
  have fold: "named s \<Longrightarrow> named (foldl ?step s names) \<and> (\<forall>p. file_at (foldl ?step s names) p = file_at s p)" for names s
    using Suc.IH by (induction names arbitrary: s) (simp_all add: Let_def)
  have rm: "named (snd (os_remove d s1)) \<and> (\<forall>p. file_at (snd (os_remove d s1)) p = file_at s1 p)"
    if "named s1" "os_read_dir s1 d = Some []" for s1
  proof -
    have dir: "is_dir s1 d" using that(2) by (simp add: os_read_dir_def split: if_splits)
    obtain e s2 where r: "os_remove d s1 = (e, s2)" by (cases "os_remove d s1")
    have "file_at s2 p = file_at s1 p" for p
    proof (cases "d = ''/'' \<or> d = ''.''")
      case True
      then have "e \<noteq> None" using r by (auto simp: os_remove_def tick_def split: option.split_asm) metis+
      then show ?thesis using os_remove_files[OF r, of p] by (auto split: if_splits)
    next
      case False
      then have "file_at s1 d = None" using dir by (auto simp: is_dir_def file_at_def)
      then show ?thesis using os_remove_files[OF r, of p] by (auto split: if_splits)
    qed
    then show ?thesis using named_remove[OF that(1), of d] r by simp
  qed
  show ?case
  proof (cases "os_read_dir s d")
    case (Some names)
    then show ?thesis using fold[OF Suc.prems, of names] rm[of "foldl ?step s names"] by (simp add: Let_def)
  qed (use Suc.prems in simp)
qed simp

lemma fine_subtree:
  assumes "named s" "tree_at r cs (tTree t)" "ss \<noteq> []" "list_all comp ss"
    and "\<And>p. move \<Longrightarrow> proper_spot q ss p \<Longrightarrow> \<not> outside_tree r cs p"
  shows "safe (outside_tree r cs) s (deployInstalledSubtree md5 t (mk_path q ss) k move spec rm s)"
proof (cases "os_stat s (mk_path q ss) = Some NDir")
  case False
  then show ?thesis by (simp add: deployInstalledSubtree_def fine_Inr assms(1))
next
  case True
  let ?src = "mk_path q ss"
  obtain d where d: "d \<in> deploy_dirs cs" "deployDirForKind (tTree t) k = mk_path r d" using kind_dir[OF assms(2)] by blast
  note ok = deploy_dirs_ok[OF assms(2) d(1)]
  define f :: "string \<Rightarrow> rock_manifest \<Rightarrow> rock_manifest io" where "f = (\<lambda>p rm s.
      if os_stat s p = Some NDir then (Inr rm, s)
      else bind_io (rel_io ?src p) (\<lambda>rel.
        bind_io (resolveSpot t (mk_path r d) (path_join [mk_path r d, rel]) (pathToModule rel) (rPackage spec) (rVersion spec)) (\<lambda>dst.
        bind_io (copyFile md5 p dst (kind_mode k)) (\<lambda>digest.
        bind_io (rel_io (mk_path r d) dst) (\<lambda>r.
        (let rm' = record_file k r digest rm in
         if move then bind_io (act TreeRemove (os_remove p)) (\<lambda>_. ret rm') else ret rm'))))) s)"
  have step: "safe (outside_tree r cs) s1 (f p rm s1)" if "named s1" "proper_spot q ss p" for p rm s1
  proof -
    have plain: "proper_spot r d (path_join [mk_path r d, rel])" if "path_rel ?src p = Some rel" for rel
      using spot_join(2)[of d "[rel]" r] ok rel_proper[OF assms(3,4) \<open>proper_spot q ss p\<close> that] by simp
    show ?thesis unfolding f_def Let_def
      by (intro fine_if fine_Inr fine_rel fine_then_spot[OF _ assms(2) d(1) plain] fine_bind[OF fine_copyFile] fine_if_app
          fine_bind[OF fine_remove] fine_ret)
        (use that assms(5) in auto)
  qed
  obtain n ys where walk: "walk_paths s ?src = replicate n ?src @ ys" "?src \<notin> set ys"
    using walk_root_first[OF assms(1,3,4)] by blast
  have ys: "proper_spot q ss p" if "p \<in> set ys" for p
    using walk_spots[OF assms(1,3,4), of p q] walk that by auto
  have "each_io f (walk_paths s ?src) rm s = each_io f ys rm s"
    unfolding walk(1) by (rule each_skip) (simp add: f_def True)
  then have each: "safe (outside_tree r cs) s (each_io f (walk_paths s ?src) rm s)"
    using fine_each[OF assms(1), of ys _ f rm] step ys by simp
  have "safe (outside_tree r cs) s (bind_io (each_io f (walk_paths s ?src) rm)
      (\<lambda>rm s. (Inr rm, if move then pruneEmptyDirs (length (nodes s)) ?src s else s)) s)"
    by (rule fine_bind[where m = "each_io f (walk_paths s ?src) rm" and Q = "\<lambda>_. True"])
      (use each in \<open>auto simp: fine_def prune_files\<close>)
  then show ?thesis using True unfolding deployInstalledSubtree_def Let_def d(2) f_def by simp
qed

lemma fine_deployInstalledSubtrees:
  assumes "named s" "tree_at r cs (tTree t)" "calm_rockspec spec" "rooted_at buildDir"
  shows "safe (outside_tree r cs) s (deployInstalledSubtrees md5 t spec buildDir rm s)"
proof -
  let ?inst = "InstallDir (tTree t) (rPackage spec) (rVersion spec)"
  let ?i = "cs @ [''share'', ''tarantool'', ''rocks'', rPackage spec, rVersion spec]"
  have c: "comp (rPackage spec)" "comp (rVersion spec)" using assms(3) by (simp_all add: calm_rockspec_def)
  have i: "?i \<noteq> []" "list_all comp ?i" "?inst = mk_path r ?i"
    using assms(2) c install_dir[OF assms(2) c] by (auto simp: tree_at_def comp_def)
  have in_inst: "\<not> outside_tree r cs p" if "proper_spot r (?i @ [sub]) p" "comp sub" for p sub
  proof -
    have "spot r (cs @ [''share'', ''tarantool'']) p"
      using spot_deeper[of r "cs @ [''share'', ''tarantool'']" "[''rocks'', rPackage spec, rVersion spec, sub]" p]
        proper_spot_spot[OF that(1)] c that(2) by (simp add: comp_def)
    then show ?thesis by (rule spot_outside[rotated]) (simp add: deploy_dirs_def)
  qed
  have sub: "safe (outside_tree r cs) s1 (deployInstalledSubtree md5 t (path_join [dir, sub]) k move spec rm s1)"
    if "named s1" "comp sub" "rooted_at dir" "move \<Longrightarrow> dir = ?inst" for s1 dir sub k move rm
  proof -
    obtain q ss where ss: "ss \<noteq> []" "list_all comp ss" "dir = mk_path q ss" using \<open>rooted_at dir\<close> by (auto simp: rooted_at_def)
    have j: "path_join [dir, sub] = mk_path q (ss @ [sub])" using path_join_comp[OF ss(1,2), of "[sub]" q] ss(3) that(2) by simp
    have "\<not> outside_tree r cs p" if m: "move" "proper_spot q (ss @ [sub]) p" for p
    proof -
      have "mk_path q ss = mk_path r ?i" using \<open>move \<Longrightarrow> dir = ?inst\<close>[OF m(1)] ss(3) i(3) by simp
      then have "q = r \<and> ss = ?i" by (rule mk_path_inj[OF ss(1,2) i(1,2)])
      then show ?thesis using in_inst[of sub p] m(2) \<open>comp sub\<close> by simp
    qed
    then show ?thesis unfolding j using ss that(1,2) by (intro fine_subtree[OF _ assms(2)]) auto
  qed
  have both: "safe (outside_tree r cs) s1 (each_io (\<lambda>(k, sub) rm.
      deployInstalledSubtree md5 t (path_join [dir, sub]) k move spec rm) [(KindLua, ''lua''), (KindLib, ''lib'')] rm s1)"
    if "named s1" "rooted_at dir" "move \<Longrightarrow> dir = ?inst" for s1 dir move rm
    by (rule fine_each[OF that(1)]) (use that(2,3) in \<open>auto intro!: sub simp: comp_def\<close>)
  have "rooted_at ?inst" using i unfolding rooted_at_def by blast
  then show ?thesis unfolding deployInstalledSubtrees_def Let_def
    by (intro fine_each assms(1)) (auto simp del: each_io.simps simp: assms(4) intro!: both split: if_splits)
qed

text \<open>
  C13: A deployment of a rockspec whose names do not climb stays in its tree: on every path and
  under every schedule of disk errors it changes no file outside the Lua, library and script
  directories of the tree; what the build left outside them is only read. The package and the version must be
  single path components, the install keys, the names of the installed files and the copied
  directories must not climb (\<open>calm_rockspec\<close>; \<open>package_climbs\<close> is what happens otherwise), and the
  tree, the directories of the build and the files on the disk must have clean path names.
\<close>

theorem Deploy_confined:
  assumes "Deploy md5 isLua t (Some spec) srcDir buildDir s = (res, s')"
    and "tree_at r cs (tTree t)" and "rooted_at srcDir" and "buildDir = [] \<or> rooted_at buildDir"
    and "calm_rockspec spec" and "named s" and "outside_tree r cs p"
  shows "named s' \<and> file_at s' p = file_at s p"
proof -
  have "rooted_at (if buildDir = [] then srcDir else buildDir)" using assms(3,4) by auto
  then have "safe (outside_tree r cs) s (Deploy md5 isLua t (Some spec) srcDir buildDir s)"
    unfolding Deploy_def option.case Let_def
    by (intro fine_if_app fine_fail fine_bind[OF fine_deployRockspec[OF _ assms(2,5)]] fine_bind[OF fine_deployModules[OF _ assms(2)]]
        fine_bind[OF fine_deployInstallModulePaths[OF _ assms(2,5)]] fine_bind[OF fine_deployInstallConf[OF _ assms(2,5)]]
        fine_bind[OF fine_deployInstallBin[OF _ assms(2,5)]] fine_bind[OF fine_deployCopyDirectories[OF _ assms(2,5,3)]]
        fine_deployInstalledSubtrees[OF _ assms(2,5)] assms(6))
  then show ?thesis using assms(1,7) by (simp add: fine_def)
qed

lemma staged_named: "named staged_fs"
proof -
  have "rooted_at ''/s''" "rooted_at ''/s/m.lua''" "rooted_at ''/b''" "rooted_at ''/b/lua''" "rooted_at ''/b/lua/m.lua''"
    unfolding rooted_at_def
    by (rule exI[of _ True], rule exI[of _ "[''s'']"], simp add: mk_path_def comp_def)
      (rule exI[of _ True], rule exI[of _ "[''s'', ''m.lua'']"], simp add: mk_path_def comp_def,
       rule exI[of _ True], rule exI[of _ "[''b'']"], simp add: mk_path_def comp_def,
       rule exI[of _ True], rule exI[of _ "[''b'', ''lua'']"], simp add: mk_path_def comp_def,
       rule exI[of _ True], rule exI[of _ "[''b'', ''lua'', ''m.lua'']"], simp add: mk_path_def comp_def)
  then show ?thesis by (simp add: named_def names_ok_def staged_fs_def)
qed

theorem Deploy_confined_witness:
  "let s' = snd (Deploy (\<lambda>_. ''d'') (\<lambda>_ _. True) \<lparr>tTree = ''/t'', tBinWrap = None, tProvider = Some (\<lambda>_. None)\<rparr>
      (Some pure_lua_rock) ''/s'' ''/b'' staged_fs)
   in named s' \<and> file_at s' ''/b/lua/m.lua'' = Some ''return 1''"
proof -
  let ?t = "\<lparr>tTree = ''/t'', tBinWrap = None, tProvider = Some (\<lambda>_. None)\<rparr>"
  obtain res s' where d: "Deploy (\<lambda>_. ''d'') (\<lambda>_ _. True) ?t (Some pure_lua_rock) ''/s'' ''/b'' staged_fs = (res, s')"
    by (cases "Deploy (\<lambda>_. ''d'') (\<lambda>_ _. True) ?t (Some pure_lua_rock) ''/s'' ''/b'' staged_fs")
  have t: "tree_at True [''t''] (tTree ?t)" by (simp add: tree_at_def comp_def mk_path_def)
  have s: "rooted_at ''/s''" "rooted_at ''/b''"
    using staged_named by (simp_all add: named_def names_ok_def staged_fs_def)
  have c: "calm_rockspec pure_lua_rock"
    by (simp add: calm_rockspec_def calm_install_def pure_lua_rock_def zero_rockspec_def zero_build_tbl_def zero_install_def comp_def)
  have "hd (drop 1 p) = CHR ''t''" if "in_dir True (''t'' # ds) p" for ds p
    using that by (auto simp: in_dir_def mk_path_def join_Cons neq_Nil_conv) (metis append_Cons join.simps(2,3) list.exhaust list.sel(1))
  then have "outside_tree True [''t''] ''/b/lua/m.lua''" by (fastforce simp: outside_tree_def deploy_dirs_def)
  from Deploy_confined[OF d t s(1) _ c staged_named this] s(2)
  have "named s' \<and> file_at s' ''/b/lua/m.lua'' = file_at staged_fs ''/b/lua/m.lua''" by simp
  moreover have "file_at staged_fs ''/b/lua/m.lua'' = Some ''return 1''" by (simp add: file_at_def staged_fs_def)
  ultimately show ?thesis unfolding Let_def d by simp
qed

text \<open>
  The names are taken as the rockspec gives them, and \<open>Validate\<close> asks of a package only that it has
  a name, which may climb: the directory of such a rock, which a removal deletes as a whole, can be
  anywhere.
\<close>

lemma package_climbs: "InstallDir ''/t'' ''../../../../home'' ''1-1'' = ''/home/1-1''"
  by code_simp

end
