(* ===== verification/Spec2Isabelle.thy ===== *)
theory Spec2Isabelle
  imports Facade TreeConfined
begin

text \<open>
  A verification library for \<open>go-luarocks\<close>, a LuaRocks for Tarantool in Go.

  \<^bold>\<open>The program.\<close> A rock server publishes a manifest (rock, version, architectures). A client asks
  its servers for a rock (\<open>src/remote\<close>), resolves the dependencies of the chosen version into an
  installation order (\<open>src/deps\<close>), fetches each artifact (\<open>src/fetch\<close>), loads and validates its
  rockspec (\<open>src/rockspec\<close>), builds it (\<open>src/build\<close>), deploys the files into a tree
  (\<open>src/tree\<close>) and records them in the manifests of the tree (\<open>src/manif\<close>); \<open>src/client\<close> drives
  the steps.

  \<^bold>\<open>Conventions.\<close> A string is its bytes. A Go map is an association list with distinct keys whose
  order is the order of one iteration, so a theorem about all lists holds for every iteration
  order. A struct is a record, a pointer an option, a nil map an empty map. An error is a value of
  a datatype of its own; its text is not modelled. A finite float64 is a rational number with
  the rounding to 53 bits written out, so there is no negative zero. Letter case is that of ASCII,
  where \<open>strings.ToLower\<close> and \<open>EqualFold\<close> know Unicode. The disk is a map from paths to nodes with a clock and an
  arbitrary schedule of faults, so a theorem about files holds for every pattern of I/O errors.
  Code that is not under \<open>src/\<close> (the Lua interpreter, zip, JSON, HTTP, MD5, the context) is a
  parameter.

  \<^bold>\<open>The theories.\<close>
  \<^item> \<open>Prelude\<close>: Go's string functions, maps and \<open>sort.SliceStable\<close>; the contract of a comparison
    (\<open>strict_weak_order\<close>), interpreted on versions, candidates and search rows.
  \<^item> \<open>Float64\<close>, \<open>Strconv\<close>: rounding, and the decimal conversions of package \<open>strconv\<close>.
  \<^item> \<open>Version\<close> (\<open>src/deps/version.go\<close>): \<open>ParseVersion\<close>, \<open>Compare\<close>, \<open>Equal\<close>; reading a rendered release,
    the order of releases and in-development versions.
  \<^item> \<open>Constraint\<close> (\<open>src/deps/constraint.go\<close>): constraint lists, matching, \<open>pickNewest\<close>.
  \<^item> \<open>Rocktypes\<close> (\<open>src/types.go\<close>): the records the parts share.
  \<^item> \<open>Resolver\<close> (\<open>src/deps/resolver.go\<close>): the walk over the dependencies, with an invariant and
    fuel for its depth; as much fuel as there are names is enough (\<open>Resolve_terminates\<close>). The
    locale \<open>remote_index\<close> is what it relies on of an index; \<open>RemoteIndex\<close> interprets it.
  \<^item> \<open>LuaWriter\<close>, \<open>LuaParser\<close>, \<open>LuaRoundtrip\<close> (\<open>src/manif/writer.go\<close>, \<open>parser.go\<close>): the text of a manifest
    and its round trips; the parser's fuel is bounded by the length of its input (\<open>Parse_total\<close>).
  \<^item> \<open>FileSystem\<close>, \<open>PathFacts\<close>, \<open>FsMonad\<close>: paths, package \<open>os\<close>, programs that may fail and the frame
    predicate \<open>keeps\<close>.
  \<^item> \<open>ManifStore\<close>, \<open>ManifRoundtrip\<close> (\<open>src/manif/store.go\<close>): tree and rock manifests, written
    atomically; a written manifest is read back as it was.
  \<^item> \<open>Rockspec\<close>, \<open>RockEval\<close> (\<open>src/rockspec\<close>): loading, platform overlays, validation.
  \<^item> \<open>TreePaths\<close>, \<open>TreeDeploy\<close> (\<open>src/tree\<close>): where files go, conflicts between rocks, deploying and
    deleting a version.
  \<^item> \<open>TreeConfined\<close>: a whole deployment, with its seven stages, writes only below the Lua, library and
    script directories of its tree.
  \<^item> \<open>RemoteManifest\<close>, \<open>RemoteIndex\<close>, \<open>RemoteSearch\<close> (\<open>src/remote\<close>): decoding and merging the
    manifests of the servers, their caches, queries and searches.
  \<^item> \<open>Archive\<close>, \<open>Fetch\<close> (\<open>src/fetch\<close>): unpacking archives, downloads, checksums, git.
  \<^item> \<open>Build\<close> (\<open>src/build\<close>): the build backends and the environment and variables of their processes.
  \<^item> \<open>TreeManifest\<close>, \<open>Client\<close>, \<open>Install\<close> (\<open>src/client/client.go\<close>, \<open>native.go\<close>): how the manifest of the
    tree changes, with the invariant that its indexes, dependency lists and repository agree; the
    reads of the facade; deploying, recording and removing; the installation of a rock with the
    plan of the resolver; packing and unpacking.
  \<^item> \<open>InstalledRocks\<close>: the abstract view of a tree as the set of its rocks, which a deployment and a
    removal refine; a deployment as a transaction on the manifest. It composes \<open>Client\<close>,
    \<open>ManifRoundtrip\<close> and \<open>TreeManifest\<close>.
  \<^item> \<open>InstallOrder\<close>: the plan of an installation in the tree that is there. The client's session
    (its manifest cache included) interprets \<open>remote_index\<close>, so the theorem of the resolver applies.
  \<^item> \<open>SearchDownload\<close> (\<open>src/client/native_search.go\<close>, \<open>native_download.go\<close>): searching and downloading
    without Lua; the choice of a download is the newest version, by the same rule for artifacts that
    the index has.
  \<^item> \<open>LuaBackend\<close>, \<open>LuaQuoting\<close> (\<open>src/client/lua.go\<close>): the command lines of the Lua engine and what it
    reads back; a command line is proved against Lua's own reading of its strings (\<open>LuaParser\<close>),
    the exit code on 64-bit words, and the pool of interpreters as a step relation.
  \<^item> \<open>Facade\<close> (\<open>src/client/client.go\<close>, \<open>engine.go\<close>): the two engines behind one set of operations.

  \<^bold>\<open>Fuel.\<close> The resolver and the manifest parser take fuel. \<open>Install\<close> hands its fuel to the resolver,
  and \<open>Resolve_terminates\<close> bounds what it needs for a finite set of names; \<open>Parse_total\<close> shows that
  the parser never runs out of the fuel it starts with. \<open>pruneEmptyDirs\<close> descends with the number of
  nodes of the disk as its fuel, which no chain of directories exceeds.

  \<^bold>\<open>Not modelled.\<close> The Lua interpreter is a parameter that runs one line and gives its output or its
  error, so neither the upstream LuaRocks sources (\<open>src/internal/luarocks\<close>) nor the way the
  overrides of \<open>os\<close> and \<open>io\<close> are put into its tables are modelled; the overrides themselves are.
  Log messages and error texts are left out, except those that are parsed again. Concurrent use of
  the native client is outside the model, as the code forbids it; of the Lua engine, which allows
  it, the pool is modelled under every interleaving.
  A context that is cancelled is a behaviour of the parameters that take it (the context of the
  resolver, the HTTP client, processes).
\<close>

end
